(* ===== verification/Prelude.thy ===== *)
theory Prelude
  imports Main "HOL-Library.Multiset"
begin

text \<open>
  Shared vocabulary of the development: the error values that stand for the program's
  exceptions, exits and undefined behaviour; the result type and its sequencing operator;
  checked vector access; and the generic list lemmas the components share.

  The simulator is built in CMake's \<^verbatim>\<open>Release\<close> mode by default, where \<open>assert\<close> is compiled
  out. An \<open>assert\<close> of the source is therefore no branch of the model; what the code does
  when the assertion would have failed (an out-of-range vector read, for instance) is.
\<close>

subsection \<open>Errors and results\<close>

datatype error =
    Configuration_error string   \<comment> \<open>\<open>throw ConfigurationError(...)\<close>\<close>
  | Runtime_error string         \<comment> \<open>\<open>throw std::runtime_error(...)\<close>\<close>
  | Out_of_range                 \<comment> \<open>\<open>std::out_of_range\<close> thrown by a checked lookup\<close>
  | Invalid_argument             \<comment> \<open>\<open>std::invalid_argument\<close> thrown by a number parser\<close>
  | Exit_failure string          \<comment> \<open>\<open>std::exit(-1)\<close>\<close>
  | Undefined string             \<comment> \<open>undefined behaviour: an unchecked access out of range\<close>

type_synonym 'a result = "error + 'a"

abbreviation Ok :: "'a \<Rightarrow> 'a result" where
  "Ok x \<equiv> Inr x"

abbreviation Err :: "error \<Rightarrow> 'a result" where
  "Err e \<equiv> Inl e"

named_theorems result_simps \<open>inversion of successful computations\<close>
named_theorems model_defs \<open>definitions that proofs unfold together\<close>

definition andThen :: "'a result \<Rightarrow> ('a \<Rightarrow> 'b result) \<Rightarrow> 'b result" where
  "andThen m f = (case m of Inl e \<Rightarrow> Inl e | Inr x \<Rightarrow> f x)"

lemma andThen_Ok [simp]: "andThen (Ok x) f = f x"
  by (simp add: andThen_def)

lemma andThen_Err [simp]: "andThen (Err e) f = Err e"
  by (simp add: andThen_def)

lemma andThen_Ok_iff [result_simps]: "andThen m f = Ok y \<longleftrightarrow> (\<exists>x. m = Ok x \<and> f x = Ok y)"
  by (auto simp: andThen_def split: sum.splits)

lemma andThen_OkE:
  assumes "andThen m f = Ok y"
  obtains x where "m = Ok x" and "f x = Ok y"
  using assms by (auto simp: result_simps)

lemma andThen_assoc: "andThen (andThen m f) g = andThen m (\<lambda>x. andThen (f x) g)"
  by (auto simp: andThen_def split: sum.splits)

lemma andThen_cong [fundef_cong]:
  "m = m' \<Longrightarrow> (\<And>x. m' = Ok x \<Longrightarrow> f x = f' x) \<Longrightarrow> andThen m f = andThen m' f'"
  by (auto simp: andThen_def split: sum.splits)

lemma if_result_Ok_iff [result_simps]:
  "(if b then Err e else m) = Ok y \<longleftrightarrow> \<not> b \<and> m = Ok y"
  "(if b then m else Err e) = Ok y \<longleftrightarrow> b \<and> m = Ok y"
  by auto

fun is_ok :: "'a result \<Rightarrow> bool" where
  "is_ok (Inr _) = True"
| "is_ok (Inl _) = False"

lemma is_ok_iff: "is_ok m \<longleftrightarrow> (\<exists>x. m = Ok x)"
  by (cases m) auto

subsection \<open>Vectors\<close>

text \<open>
  \<open>std::vector\<close> and \<open>std::array\<close> reads by \<open>operator[]\<close> are unchecked: out of range they are
  undefined behaviour, which the model makes an error value of its own. Indices are the
  source's \<open>int\<close>s, so a negative index is out of range too.
\<close>

definition in_vec :: "'a list \<Rightarrow> int \<Rightarrow> bool" where
  "in_vec xs i \<longleftrightarrow> 0 \<le> i \<and> i < int (length xs)"

definition vec_at :: "'a list \<Rightarrow> int \<Rightarrow> 'a result" where
  "vec_at xs i = (if in_vec xs i then Ok (xs ! nat i) else Err (Undefined ''vector index''))"

definition vec_put :: "'a list \<Rightarrow> int \<Rightarrow> 'a \<Rightarrow> 'a list result" where
  "vec_put xs i v =
     (if in_vec xs i then Ok (xs[nat i := v]) else Err (Undefined ''vector index''))"

text \<open>\<open>resize(n, -1)\<close> on a vector of addresses\<close>

definition resize :: "nat \<Rightarrow> int list \<Rightarrow> int list" where
  "resize n xs = take n xs @ replicate (n - length xs) (-1)"

lemma length_resize [simp]: "length (resize n xs) = n"
  by (simp add: resize_def)

lemma vec_at_Ok_iff [result_simps]: "vec_at xs i = Ok v \<longleftrightarrow> in_vec xs i \<and> v = xs ! nat i"
  by (auto simp: vec_at_def)

lemma vec_put_Ok_iff [result_simps]:
  "vec_put xs i v = Ok ys \<longleftrightarrow> in_vec xs i \<and> ys = xs[nat i := v]"
  by (auto simp: vec_put_def)

lemma vec_at_in: "in_vec xs i \<Longrightarrow> vec_at xs i = Ok (xs ! nat i)"
  by (simp add: vec_at_def)

lemma vec_put_in: "in_vec xs i \<Longrightarrow> vec_put xs i v = Ok (xs[nat i := v])"
  by (simp add: vec_put_def)

lemma in_vec_nat: "in_vec xs i \<Longrightarrow> nat i < length xs"
  by (auto simp: in_vec_def)

lemma in_vec_int [simp]: "in_vec xs (int n) \<longleftrightarrow> n < length xs"
  by (auto simp: in_vec_def)

lemma in_vec_update [simp]: "in_vec (xs[k := v]) i \<longleftrightarrow> in_vec xs i"
  by (simp add: in_vec_def)

lemma in_vec_length: "length xs = length ys \<Longrightarrow> in_vec xs i = in_vec ys i"
  by (simp add: in_vec_def)

subsection \<open>Loops over lists\<close>

text \<open>A range-based \<open>for\<close> whose body may fail: the first failure stops the loop.\<close>

fun fold_result :: "('a \<Rightarrow> 's \<Rightarrow> 's result) \<Rightarrow> 'a list \<Rightarrow> 's \<Rightarrow> 's result" where
  "fold_result f [] s = Ok s"
| "fold_result f (x # xs) s = andThen (f x s) (fold_result f xs)"

lemma fold_result_cong [fundef_cong]:
  "xs = ys \<Longrightarrow> s = t \<Longrightarrow> (\<And>x u. x \<in> set ys \<Longrightarrow> f x u = g x u) \<Longrightarrow>
   fold_result f xs s = fold_result g ys t"
proof (induction ys arbitrary: xs s t)
  case Nil
  then show ?case by simp
next
  case (Cons y ys)
  then have "fold_result f ys = fold_result g ys" by (intro ext) auto
  with Cons.prems show ?case by simp
qed

lemma fold_result_append:
  "fold_result f (xs @ ys) s = andThen (fold_result f xs s) (fold_result f ys)"
proof (induction xs arbitrary: s)
  case Nil
  then show ?case by simp
next
  case (Cons x xs)
  have "fold_result f (xs @ ys) = (\<lambda>u. andThen (fold_result f xs u) (fold_result f ys))"
    by (rule ext) (rule Cons.IH)
  then show ?case by (simp add: andThen_assoc)
qed

text \<open>The loop rule: an invariant kept by every body execution holds at the end.\<close>

lemma fold_result_invariant:
  assumes "fold_result f xs s = Ok t" and "I s"
    and "\<And>x u v. x \<in> set xs \<Longrightarrow> I u \<Longrightarrow> f x u = Ok v \<Longrightarrow> I v"
  shows "I t"
  using assms
proof (induction xs arbitrary: s)
  case Nil
  then show ?case by simp
next
  case (Cons x xs)
  from Cons.prems(1) obtain u where u: "f x s = Ok u" "fold_result f xs u = Ok t"
    by (auto simp: result_simps)
  have "I u" using Cons.prems(2,3) u(1) by (meson list.set_intros(1))
  then show ?case using Cons.IH [OF u(2)] Cons.prems(3) by (meson list.set_intros(2))
qed

text \<open>The same with the number of iterations done.\<close>

lemma fold_result_indexed:
  assumes "fold_result f xs s = Ok t" and "I 0 s"
    and "\<And>k u v. k < length xs \<Longrightarrow> I k u \<Longrightarrow> f (xs ! k) u = Ok v \<Longrightarrow> I (Suc k) v"
  shows "I (length xs) t"
  using assms
proof (induction xs arbitrary: t rule: rev_induct)
  case Nil
  then show ?case by simp
next
  case (snoc x xs)
  from snoc.prems(1) obtain u where u: "fold_result f xs s = Ok u" "f x u = Ok t"
    by (auto simp: fold_result_append result_simps)
  have "I (length xs) u"
  proof (rule snoc.IH [OF u(1) snoc.prems(2)])
    fix k a b assume "k < length xs" "I k a" "f (xs ! k) a = Ok b"
    then show "I (Suc k) b" using snoc.prems(3) [of k a b] by (simp add: nth_append)
  qed
  then show ?case using snoc.prems(3) [of "length xs" u t] u(2) by simp
qed

text \<open>A loop whose body adds a set of items collects their union.\<close>

lemma fold_result_collect:
  assumes "fold_result f xs s = Ok t"
    and "\<And>x u v. x \<in> set xs \<Longrightarrow> f x u = Ok v \<Longrightarrow> A v = A u \<union> g x"
  shows "A t = A s \<union> (\<Union>x\<in>set xs. g x)"
  using assms
proof (induction xs arbitrary: s)
  case Nil
  then show ?case by simp
next
  case (Cons x xs)
  from Cons.prems(1) obtain u where u: "f x s = Ok u" "fold_result f xs u = Ok t"
    by (auto simp: result_simps)
  have "A u = A s \<union> g x" using Cons.prems(2) u(1) by simp
  moreover have "A t = A u \<union> (\<Union>x\<in>set xs. g x)"
    using Cons.IH [OF u(2)] Cons.prems(2) by (meson list.set_intros(2))
  ultimately show ?case by auto
qed

text \<open>The same rule for absence of errors.\<close>

lemma fold_result_total:
  assumes "I s" and "\<And>x u. x \<in> set xs \<Longrightarrow> I u \<Longrightarrow> \<exists>v. f x u = Ok v \<and> I v"
  shows "\<exists>t. fold_result f xs s = Ok t \<and> I t"
  using assms
proof (induction xs arbitrary: s)
  case Nil
  then show ?case by simp
next
  case (Cons x xs)
  then obtain v where v: "f x s = Ok v" "I v" by (meson list.set_intros(1))
  then show ?case using Cons.IH [OF v(2)] Cons.prems(2) by simp
qed

fun map_result :: "('a \<Rightarrow> 'b result) \<Rightarrow> 'a list \<Rightarrow> 'b list result" where
  "map_result f [] = Ok []"
| "map_result f (x # xs) = andThen (f x) (\<lambda>y. andThen (map_result f xs) (\<lambda>ys. Ok (y # ys)))"

lemma map_result_cong [fundef_cong]:
  "xs = ys \<Longrightarrow> (\<And>x. x \<in> set ys \<Longrightarrow> f x = g x) \<Longrightarrow> map_result f xs = map_result g ys"
  by (induction ys arbitrary: xs) auto

lemma map_result_Ok_iff:
  "map_result f xs = Ok ys \<longleftrightarrow> list_all2 (\<lambda>x y. f x = Ok y) xs ys"
proof (induction xs arbitrary: ys)
  case Nil
  then show ?case by auto
next
  case (Cons x xs)
  then show ?case by (cases ys) (auto simp: result_simps)
qed

lemma map_result_length: "map_result f xs = Ok ys \<Longrightarrow> length ys = length xs"
  by (auto simp: map_result_Ok_iff dest: list_all2_lengthD)

lemma map_result_nth:
  "map_result f xs = Ok ys \<Longrightarrow> i < length xs \<Longrightarrow> f (xs ! i) = Ok (ys ! i)"
  by (auto simp: map_result_Ok_iff list_all2_conv_all_nth)

lemma map_result_total:
  "(\<And>x. x \<in> set xs \<Longrightarrow> is_ok (f x)) \<Longrightarrow> is_ok (map_result f xs)"
proof (induction xs)
  case Nil
  then show ?case by simp
next
  case (Cons x xs)
  then obtain y ys where "f x = Ok y" "map_result f xs = Ok ys"
    by (auto simp: is_ok_iff) (metis)
  then show ?case by simp
qed

subsection \<open>Removing one element of a list\<close>

definition remove_at :: "nat \<Rightarrow> 'a list \<Rightarrow> 'a list" where
  "remove_at i xs = take i xs @ drop (Suc i) xs"

lemma mset_remove_at: "i < length xs \<Longrightarrow> mset xs = add_mset (xs ! i) (mset (remove_at i xs))"
proof -
  assume i: "i < length xs"
  have "xs = take i xs @ xs ! i # drop (Suc i) xs" using i by (rule id_take_nth_drop)
  then have "mset xs = mset (take i xs @ xs ! i # drop (Suc i) xs)" by simp
  then show ?thesis by (simp add: remove_at_def)
qed

lemma set_remove_at: "set (remove_at i xs) \<subseteq> set xs"
  by (auto simp: remove_at_def dest: in_set_takeD in_set_dropD)

lemma length_remove_at: "i < length xs \<Longrightarrow> Suc (length (remove_at i xs)) = length xs"
  by (simp add: remove_at_def)

lemma remove_at_0 [simp]: "remove_at 0 (x # xs) = xs"
  by (simp add: remove_at_def)

lemma nth_size_less: "i < length xs \<Longrightarrow> size (xs ! i) < size_list size xs"
proof (induction xs arbitrary: i)
  case Nil
  then show ?case by simp
next
  case (Cons x xs)
  then show ?case by (cases i) (auto simp: less_Suc_eq trans_less_add2 less_SucI)
qed

lemma ok_case_iff: "(case m of Inl _ \<Rightarrow> False | Inr x \<Rightarrow> P x) \<longleftrightarrow> (\<exists>x. m = Inr x \<and> P x)"
  by (cases m) auto

end
