(* ===== verification/Base_Utils.thy ===== *)
theory Base_Utils
  imports Prelude "HOL-Library.Word"
begin

text \<open>
  \<^verbatim>\<open>src/src/base/utils.h\<close> and \<^verbatim>\<open>utils.cpp\<close>: bit slicing, logarithms, the parsers of capacity
  and frequency strings, the JEDEC rounding of timing parameters, and the tokenizer of
  the trace files; and the number parsers of the C++ library they rely on.

  Integers are unbounded \<open>int\<close>s; where the code narrows a value to a C++ type of fixed
  width the conversion is written out (\<open>to_signed\<close>, \<open>to_unsigned\<close>).
\<close>

subsection \<open>Fixed-width conversions\<close>

definition to_unsigned :: "nat \<Rightarrow> int \<Rightarrow> int" where
  "to_unsigned w x = x mod 2 ^ w"

definition to_signed :: "nat \<Rightarrow> int \<Rightarrow> int" where
  "to_signed w x = (x + 2 ^ (w - 1)) mod 2 ^ w - 2 ^ (w - 1)"

lemma to_unsigned_bounds: "0 \<le> to_unsigned w x \<and> to_unsigned w x < 2 ^ w"
  by (simp add: to_unsigned_def)

lemma to_signed_id:
  assumes "0 < w" "- (2 ^ (w - 1)) \<le> x" "x < 2 ^ (w - 1)"
  shows "to_signed w x = x"
proof -
  have "(2::int) ^ w = 2 ^ (w - 1) + 2 ^ (w - 1)" using assms(1) by (cases w) auto
  then have "(x + 2 ^ (w - 1)) mod 2 ^ w = x + 2 ^ (w - 1)" using assms by simp
  then show ?thesis by (simp add: to_signed_def)
qed

lemma to_signed_bounds: "0 < w \<Longrightarrow> - (2 ^ (w - 1)) \<le> to_signed w x \<and> to_signed w x < 2 ^ (w - 1)"
proof -
  assume w: "0 < w"
  have e: "(2::int) ^ w = 2 ^ (w - 1) + 2 ^ (w - 1)" using w by (cases w) auto
  have "0 \<le> (x + 2 ^ (w - 1)) mod 2 ^ w" "(x + 2 ^ (w - 1)) mod 2 ^ w < (2::int) ^ w" by simp_all
  with e show ?thesis by (simp add: to_signed_def)
qed

subsection \<open>Bitwise helpers\<close>

text \<open>\<open>while ((val >>= 1)) n++;\<close> on a non-negative argument. (A negative argument would shift
  arithmetically and never reach 0; every call in the program passes a size.)\<close>

fun calc_log2_loop :: "nat \<Rightarrow> nat \<Rightarrow> nat" where
  "calc_log2_loop v n = (if v div 2 = 0 then n else calc_log2_loop (v div 2) (Suc n))"

declare calc_log2_loop.simps [simp del]

definition calc_log2 :: "nat \<Rightarrow> nat" where
  "calc_log2 v = calc_log2_loop v 0"

text \<open>\<open>slice_lower_bits\<close> returns the low bits and shifts its argument in place: the model
  returns both. The mask is an \<open>int\<close> shift, so \<open>num_bits\<close> must be below 31.\<close>

definition slice_lower_bits :: "int \<Rightarrow> nat \<Rightarrow> int \<times> int" where
  "slice_lower_bits a num_bits = (a mod 2 ^ num_bits, a div 2 ^ num_bits)"

lemma calc_log2_loop_bounds:
  "0 < v \<Longrightarrow> 2 ^ (calc_log2_loop v n - n) \<le> v \<and> v < 2 ^ Suc (calc_log2_loop v n - n)
     \<and> n \<le> calc_log2_loop v n"
proof (induction v n rule: calc_log2_loop.induct)
  case (1 v n)
  show ?case
  proof (cases "v div 2 = 0")
    case True
    with "1.prems" show ?thesis by (subst calc_log2_loop.simps, subst calc_log2_loop.simps,
        subst calc_log2_loop.simps) auto
  next
    case False
    let ?r = "calc_log2_loop (v div 2) (Suc n)"
    have ih: "2 ^ (?r - Suc n) \<le> v div 2" "v div 2 < 2 ^ Suc (?r - Suc n)" "Suc n \<le> ?r"
      using "1.IH" False by auto
    have e: "calc_log2_loop v n = ?r" using False by (simp add: calc_log2_loop.simps [of v n])
    have d: "?r - n = Suc (?r - Suc n)" using ih(3) by simp
    have "2 * 2 ^ (?r - Suc n) \<le> v" using ih(1) by linarith
    moreover have "v < 2 * 2 ^ Suc (?r - Suc n)" using ih(2) by linarith
    ultimately show ?thesis using ih(3) by (simp add: e d)
  qed
qed

lemma calc_log2_power: "calc_log2 (2 ^ k) = k"
proof -
  have "2 ^ calc_log2 (2 ^ k) \<le> (2::nat) ^ k \<and> (2::nat) ^ k < 2 ^ Suc (calc_log2 (2 ^ k))"
    using calc_log2_loop_bounds [of "2 ^ k" 0] by (simp add: calc_log2_def)
  then have "calc_log2 (2 ^ k) \<le> k" "k < Suc (calc_log2 (2 ^ k))"
    by (auto intro: power_less_imp_less_exp [of "2::nat"] power_le_imp_le_exp [of "2::nat"]
        simp del: power_Suc)
  then show ?thesis by simp
qed

lemma slice_lower_bits_recompose:
  "slice_lower_bits a n = (lo, hi) \<Longrightarrow> a = lo + 2 ^ n * hi \<and> 0 \<le> lo \<and> lo < 2 ^ n"
  by (auto simp: slice_lower_bits_def)


subsection \<open>JEDEC rounding\<close>

text \<open>
  The argument of both functions is the timing in picoseconds, \<open>uint64_t t_ps = t_ns * 1000\<close>.
  For the integral nanosecond tables of the device models the \<open>float\<close> product is exact
  (the values are below \<open>2 ^ 24\<close>). The cycle time is an \<open>int\<close> that the division converts to
  \<open>uint64_t\<close>; a zero divides by zero.
\<close>

definition JEDEC_rounding :: "int \<Rightarrow> int \<Rightarrow> int result" where
  "JEDEC_rounding t_ps tCK_ps =
     (if to_unsigned 64 tCK_ps = 0 then Err (Undefined ''division by zero'')
      else Ok ((to_unsigned 64 (t_ps * 1000) div to_unsigned 64 tCK_ps + 974) div 1000))"

definition JEDEC_rounding_DDR5 :: "int \<Rightarrow> int \<Rightarrow> int result" where
  "JEDEC_rounding_DDR5 t_ps tCK_ps =
     (if to_unsigned 64 tCK_ps = 0 then Err (Undefined ''division by zero'')
      else Ok ((to_unsigned 64 (t_ps * 997) div to_unsigned 64 tCK_ps + 1000) div 1000))"

text \<open>The rounding never grants less than the requested time minus the 2.6 per cent of a
  cycle that the correction factor 974 gives away.\<close>

lemma JEDEC_rounding_covers:
  assumes "0 \<le> t_ps" "t_ps * 1000 < 2 ^ 64" "0 < tCK" "tCK < 2 ^ 31"
    and "JEDEC_rounding t_ps tCK = Ok n"
  shows "t_ps * 1000 < n * 1000 * tCK + 26 * tCK"
proof -
  let ?q = "t_ps * 1000 div tCK"
  have u: "to_unsigned 64 (t_ps * 1000) = t_ps * 1000" "to_unsigned 64 tCK = tCK"
    using assms by (simp_all add: to_unsigned_def)
  have n: "n = (?q + 974) div 1000" using assms by (simp add: JEDEC_rounding_def u)
  have "?q + 1 \<le> n * 1000 + 26" using n by linarith
  moreover have "t_ps * 1000 < (?q + 1) * tCK"
    using assms(3) by (metis add.commute distrib_right div_mult_mod_eq mult_1 add_strict_left_mono
        pos_mod_bound)
  ultimately have "t_ps * 1000 < (n * 1000 + 26) * tCK"
    using assms(3) by (meson less_le_trans mult_right_mono order_less_imp_le)
  then show ?thesis by (simp add: algebra_simps)
qed

subsection \<open>Characters and numbers\<close>

definition isspace :: "char \<Rightarrow> bool" where
  "isspace c \<longleftrightarrow> c \<in> {CHR '' '', CHR 0x09, CHR 0x0A, CHR 0x0B, CHR 0x0C, CHR 0x0D}"

definition digit_value :: "nat \<Rightarrow> char \<Rightarrow> nat option" where
  "digit_value base c =
     (let n = (of_char c :: nat);
          v = (if 48 \<le> n \<and> n \<le> 57 then n - 48
               else if 97 \<le> n \<and> n \<le> 102 then n - 87
               else if 65 \<le> n \<and> n \<le> 70 then n - 55 else 99)
      in if v < base then Some v else None)"

definition digits_value :: "nat \<Rightarrow> string \<Rightarrow> int" where
  "digits_value base cs =
     foldl (\<lambda>acc c. acc * int base + int (case digit_value base c of Some v \<Rightarrow> v | None \<Rightarrow> 0)) 0 cs"

text \<open>\<open>std::stoll\<close> (base 10 or 16): optional white space, sign and, in base 16, a \<open>0x\<close>
  prefix; the longest digit prefix; \<open>invalid_argument\<close> when there is no digit,
  \<open>out_of_range\<close> when the value does not fit in 64 bits.\<close>

definition drop_hex_prefix :: "nat \<Rightarrow> string \<Rightarrow> string" where
  "drop_hex_prefix base s =
     (case s of
        z # x # d # _ \<Rightarrow>
          (if base = 16 \<and> z = CHR ''0'' \<and> (x = CHR ''x'' \<or> x = CHR ''X'') \<and> digit_value 16 d \<noteq> None
           then drop 2 s else s)
      | _ \<Rightarrow> s)"

definition stoll :: "nat \<Rightarrow> string \<Rightarrow> int result" where
  "stoll base s =
     (let s1 = dropWhile isspace s;
          neg = (s1 \<noteq> [] \<and> hd s1 = CHR ''-'');
          s2 = (if s1 \<noteq> [] \<and> (hd s1 = CHR ''-'' \<or> hd s1 = CHR ''+'') then tl s1 else s1);
          ds = takeWhile (\<lambda>c. digit_value base c \<noteq> None) (drop_hex_prefix base s2);
          v = (if neg then - digits_value base ds else digits_value base ds)
      in if ds = [] then Err Invalid_argument
         else if v < - (2 ^ 63) \<or> 2 ^ 63 \<le> v then Err Out_of_range
         else Ok v)"

text \<open>\<open>std::stoull\<close> in base 10: a negative literal wraps.\<close>

definition stoull :: "string \<Rightarrow> int result" where
  "stoull s =
     (let s1 = dropWhile isspace s;
          neg = (s1 \<noteq> [] \<and> hd s1 = CHR ''-'');
          s2 = (if s1 \<noteq> [] \<and> (hd s1 = CHR ''-'' \<or> hd s1 = CHR ''+'') then tl s1 else s1);
          ds = takeWhile (\<lambda>c. digit_value 10 c \<noteq> None) s2;
          v = digits_value 10 ds
      in if ds = [] then Err Invalid_argument
         else if 2 ^ 64 \<le> v then Err Out_of_range
         else Ok (to_unsigned 64 (if neg then - v else v)))"

subsection \<open>Capacity and frequency strings\<close>

fun contains_str :: "string \<Rightarrow> string \<Rightarrow> bool" where
  "contains_str [] sub = (sub = [])"
| "contains_str (c # s) sub = (take (length sub) (c # s) = sub \<or> contains_str s sub)"

definition parse_capacity_str :: "string \<Rightarrow> int result" where
  "parse_capacity_str size_str =
     (if contains_str size_str ''KB''
      then andThen (stoull size_str) (\<lambda>size. Ok (to_unsigned 64 (size * 2 ^ 10)))
      else if contains_str size_str ''MB''
      then andThen (stoull size_str) (\<lambda>size. Ok (to_unsigned 64 (size * 2 ^ 20)))
      else if contains_str size_str ''GB''
      then andThen (stoull size_str) (\<lambda>size. Ok (to_unsigned 64 (size * 2 ^ 30)))
      else Ok 0)"

definition parse_frequency_str :: "string \<Rightarrow> int result" where
  "parse_frequency_str size_str =
     (if contains_str size_str ''MHz''
      then andThen (stoull size_str) (\<lambda>freq. Ok (to_unsigned 64 freq))
      else if contains_str size_str ''GHz''
      then andThen (stoull size_str) (\<lambda>freq. Ok (to_unsigned 64 (freq * 2 ^ 10)))
      else Ok 0)"

subsection \<open>Tokenization\<close>

text \<open>
  \<open>tokenize(tokens, line, delim)\<close> for a delimiter of one character (the only ones in use):
  the pieces between delimiters, white space erased from each, empty pieces dropped.
\<close>

definition push_token :: "string \<Rightarrow> string list \<Rightarrow> string list" where
  "push_token piece ts =
     (let token = filter (\<lambda>c. \<not> isspace c) piece in if token \<noteq> [] then token # ts else ts)"

function tokenize :: "char \<Rightarrow> string \<Rightarrow> string list" where
  "tokenize d line =
     (if d \<in> set line
      then push_token (takeWhile (\<lambda>c. c \<noteq> d) line) (tokenize d (tl (dropWhile (\<lambda>c. c \<noteq> d) line)))
      else push_token line [])"
  by pat_completeness auto
termination
proof (relation "measure (\<lambda>(d, line). length line)")
  fix d :: char and line :: string
  assume "d \<in> set line"
  then have "dropWhile (\<lambda>c. c \<noteq> d) line \<noteq> []" by (auto simp: dropWhile_eq_Nil_conv)
  moreover have "length (dropWhile (\<lambda>c. c \<noteq> d) line) \<le> length line" by (rule length_dropWhile_le)
  ultimately show "((d, tl (dropWhile (\<lambda>c. c \<noteq> d) line)), (d, line)) \<in> measure (\<lambda>(d, line). length line)"
    by (cases "dropWhile (\<lambda>c. c \<noteq> d) line") auto
qed simp

declare tokenize.simps [simp del]

lemma concat_push_token: "concat (push_token p ts) = filter (\<lambda>c. \<not> isspace c) p @ concat ts"
  by (simp add: push_token_def Let_def)

lemma in_push_token:
  "t \<in> set (push_token p ts) \<Longrightarrow> (t = filter (\<lambda>c. \<not> isspace c) p \<and> t \<noteq> []) \<or> t \<in> set ts"
  by (auto simp: push_token_def Let_def split: if_splits)

text \<open>A line splits at its first delimiter.\<close>

lemma split_at_delimiter:
  "d \<in> set line \<Longrightarrow>
   line = takeWhile (\<lambda>c. c \<noteq> d) line @ d # tl (dropWhile (\<lambda>c. c \<noteq> d) line)"
proof -
  assume "d \<in> set line"
  then obtain xs ys where "line = xs @ d # ys" "d \<notin> set xs" by (meson split_list_first)
  then show ?thesis by (simp add: takeWhile_append dropWhile_append)
qed

lemma tokenize_concat:
  "concat (tokenize d line) = filter (\<lambda>c. \<not> isspace c \<and> c \<noteq> d) line"
proof (induction d line rule: tokenize.induct)
  case (1 d line)
  let ?p = "takeWhile (\<lambda>c. c \<noteq> d) line" and ?r = "tl (dropWhile (\<lambda>c. c \<noteq> d) line)"
  have p: "filter (\<lambda>c. \<not> isspace c \<and> c \<noteq> d) ?p = filter (\<lambda>c. \<not> isspace c) ?p"
    by (rule filter_cong) (auto dest: set_takeWhileD)
  show ?case
  proof (cases "d \<in> set line")
    case True
    have "filter (\<lambda>c. \<not> isspace c \<and> c \<noteq> d) line = filter (\<lambda>c. \<not> isspace c \<and> c \<noteq> d) (?p @ d # ?r)"
      using split_at_delimiter [OF True] by (rule arg_cong)
    also have "\<dots> = filter (\<lambda>c. \<not> isspace c) ?p @ concat (tokenize d ?r)"
      using "1.IH" True p by simp
    also have "\<dots> = concat (tokenize d line)"
      using True by (simp add: concat_push_token tokenize.simps [of d line])
    finally show ?thesis by simp
  next
    case False
    then have "filter (\<lambda>c. \<not> isspace c \<and> c \<noteq> d) line = filter (\<lambda>c. \<not> isspace c) line"
      by (intro filter_cong) auto
    with False show ?thesis by (simp add: concat_push_token tokenize.simps [of d line])
  qed
qed

lemma tokenize_tokens:
  "t \<in> set (tokenize d line) \<Longrightarrow> t \<noteq> [] \<and> (\<forall>c \<in> set t. \<not> isspace c \<and> c \<noteq> d)"
proof (induction d line rule: tokenize.induct)
  case (1 d line)
  let ?p = "takeWhile (\<lambda>c. c \<noteq> d) line" and ?r = "tl (dropWhile (\<lambda>c. c \<noteq> d) line)"
  show ?case
  proof (cases "d \<in> set line")
    case True
    then have "tokenize d line = push_token ?p (tokenize d ?r)"
      by (simp add: tokenize.simps [of d line])
    with "1.prems" have "(t = filter (\<lambda>c. \<not> isspace c) ?p \<and> t \<noteq> []) \<or> t \<in> set (tokenize d ?r)"
      using in_push_token by metis
    then show ?thesis
    proof
      assume t: "t = filter (\<lambda>c. \<not> isspace c) ?p \<and> t \<noteq> []"
      have "\<forall>c \<in> set ?p. c \<noteq> d" by (metis set_takeWhileD)
      then show ?thesis using t by (metis (mono_tags, lifting) mem_Collect_eq set_filter)
    next
      assume "t \<in> set (tokenize d ?r)"
      then show ?thesis by (rule "1.IH" [OF True])
    qed
  next
    case False
    then have "tokenize d line = push_token line []"
      by (simp add: tokenize.simps [of d line])
    with "1.prems" have "t = filter (\<lambda>c. \<not> isspace c) line \<and> t \<noteq> []"
      using in_push_token by (metis empty_iff empty_set)
    moreover have "\<forall>c \<in> set line. c \<noteq> d" using False by metis
    ultimately show ?thesis by (metis (mono_tags, lifting) mem_Collect_eq set_filter)
  qed
qed

text \<open>Words joined by single delimiters are read back unchanged.\<close>

lemma tokenize_word:
  "w \<noteq> [] \<Longrightarrow> \<forall>c \<in> set w. \<not> isspace c \<and> c \<noteq> d \<Longrightarrow> tokenize d w = [w]"
  by (subst tokenize.simps) (auto simp: push_token_def Let_def filter_id_conv)

lemma tokenize_word_Cons:
  assumes "w \<noteq> []" "\<forall>c \<in> set w. \<not> isspace c \<and> c \<noteq> d"
  shows "tokenize d (w @ d # rest) = w # tokenize d rest"
proof -
  have t: "takeWhile (\<lambda>c. c \<noteq> d) (w @ d # rest) = w" "dropWhile (\<lambda>c. c \<noteq> d) (w @ d # rest) = d # rest"
    using assms(2) by (auto simp: takeWhile_append dropWhile_append)
  have f: "filter (\<lambda>c. \<not> isspace c) w = w" using assms(2) by (auto simp: filter_id_conv)
  show ?thesis by (subst tokenize.simps) (simp add: t f push_token_def assms(1))
qed

fun join_words :: "char \<Rightarrow> string list \<Rightarrow> string" where
  "join_words d [] = []"
| "join_words d [w] = w"
| "join_words d (w # ws) = w @ d # join_words d ws"

lemma tokenize_join:
  "ws \<noteq> [] \<Longrightarrow> \<forall>w \<in> set ws. w \<noteq> [] \<and> (\<forall>c \<in> set w. \<not> isspace c \<and> c \<noteq> d) \<Longrightarrow>
   tokenize d (join_words d ws) = ws"
  by (induction d ws rule: join_words.induct) (auto simp: tokenize_word tokenize_word_Cons)

end
