(* ===== verification/Request.thy ===== *)
theory Request
  imports Base_Utils
begin

text \<open>
  \<^verbatim>\<open>src/src/base/request.h\<close> and \<^verbatim>\<open>request.cpp\<close>: the request that travels from the trace to
  a DRAM channel, the table of the AiM instruction set (\<open>AiMISRInfo\<close>), and the bounded
  request buffer of the memory controllers (\<open>ReqBuffer\<close>).

  A \<open>std::function\<close> callback is a value of \<open>callback\<close>: the program installs only the handlers
  listed there, so the closure is represented by the name of the handler it calls.
  \<open>Field_\<dots>\<close>, \<open>Type_\<dots>\<close>, \<open>Opcode_\<dots>\<close> and \<open>Region_\<dots>\<close> prefixes separate enumerators that the
  C++ scopes with \<open>enum class\<close>.
\<close>

subsection \<open>Enumerations\<close>

text \<open>\<open>(Type)type_id\<close> may hold a number that is not an enumerator: \<open>Type_other\<close>.\<close>

datatype Type = Read | Write | RefAllBank | RefSingleBank | AIM | Type_MAX | Type_other int

definition type_of_id :: "int \<Rightarrow> Type" where
  "type_of_id i =
     (if i = 0 then Read else if i = 1 then Write else if i = 2 then RefAllBank
      else if i = 3 then RefSingleBank else if i = 4 then AIM else if i = 5 then Type_MAX
      else Type_other i)"

fun id_of_type :: "Type \<Rightarrow> int" where
  "id_of_type Read = 0"
| "id_of_type Write = 1"
| "id_of_type RefAllBank = 2"
| "id_of_type RefSingleBank = 3"
| "id_of_type AIM = 4"
| "id_of_type Type_MAX = 5"
| "id_of_type (Type_other i) = i"

lemma id_of_type_of_id [simp]: "id_of_type (type_of_id i) = i"
  by (simp add: type_of_id_def)

datatype MemAccessRegion = Region_MIN | GPR | CFR | MEM | Region_MAX

datatype Opcode =
    Opcode_MIN | ISR_WR_SBK | ISR_WR_GB | ISR_WR_BIAS | ISR_WR_AFLUT
  | ISR_RD_MAC | ISR_RD_AF | ISR_RD_SBK | ISR_COPY_BKGB | ISR_COPY_GBBK
  | ISR_MAC_SBK | ISR_MAC_ABK | ISR_AF | ISR_EWMUL | ISR_EWADD
  | ISR_WR_ABK | ISR_EOC | ISR_SYNC | Opcode_MAX

text \<open>\<open>(int)opcode\<close>\<close>

fun opcode_num :: "Opcode \<Rightarrow> int" where
  "opcode_num Opcode_MIN = 0"
| "opcode_num ISR_WR_SBK = 1"
| "opcode_num ISR_WR_GB = 2"
| "opcode_num ISR_WR_BIAS = 3"
| "opcode_num ISR_WR_AFLUT = 4"
| "opcode_num ISR_RD_MAC = 5"
| "opcode_num ISR_RD_AF = 6"
| "opcode_num ISR_RD_SBK = 7"
| "opcode_num ISR_COPY_BKGB = 8"
| "opcode_num ISR_COPY_GBBK = 9"
| "opcode_num ISR_MAC_SBK = 10"
| "opcode_num ISR_MAC_ABK = 11"
| "opcode_num ISR_AF = 12"
| "opcode_num ISR_EWMUL = 13"
| "opcode_num ISR_EWADD = 14"
| "opcode_num ISR_WR_ABK = 15"
| "opcode_num ISR_EOC = 16"
| "opcode_num ISR_SYNC = 17"
| "opcode_num Opcode_MAX = 18"

lemma opcode_num_inject: "opcode_num a = opcode_num b \<Longrightarrow> a = b"
  by (cases a; cases b) simp_all

text \<open>\<open>std::map<Opcode, _>\<close> orders its keys by the enumerators' numbers.\<close>

instantiation Opcode :: linorder
begin

definition less_eq_Opcode :: "Opcode \<Rightarrow> Opcode \<Rightarrow> bool" where
  "less_eq_Opcode a b \<longleftrightarrow> opcode_num a \<le> opcode_num b"

definition less_Opcode :: "Opcode \<Rightarrow> Opcode \<Rightarrow> bool" where
  "less_Opcode a b \<longleftrightarrow> opcode_num a < opcode_num b"

instance
  by standard (auto simp: less_eq_Opcode_def less_Opcode_def dest: opcode_num_inject)

end

subsection \<open>Requests\<close>

datatype callback =
    No_callback        \<comment> \<open>an empty \<open>std::function\<close>\<close>
  | Trace_receive      \<comment> \<open>\<open>AiMTrace::receive\<close>\<close>
  | Attention_end      \<comment> \<open>the lambda of \<open>AiMTrace::get_host_request\<close>\<close>
  | System_receive     \<comment> \<open>\<open>AiMDRAMSystem::receive\<close>\<close>

record request =
  addr :: int
  data :: int
  addr_vec :: "int list"
  host_req_id :: int
  AiM_req_id :: int
  req_type :: Type
  mem_access_region :: MemAccessRegion
  opcode :: Opcode
  opsize :: int
  GPR_addr_0 :: int
  GPR_addr_1 :: int
  channel_mask :: int
  bank_index :: int
  row_addr :: int
  col_addr :: int
  thread_index :: int
  broadcast :: int
  afm :: int
  ewmul_bg :: int
  source_id :: int
  command :: int
  final_command :: int
  arrive :: int
  issue :: int
  depart :: int
  type_id :: int
  req_callback :: callback

text \<open>The default member initializers. \<open>data\<close> has none: it is written before it is read
  (only by the decoding of a CFR write), and is 0 here until then.\<close>

definition request_default :: request where
  "request_default =
     \<lparr>addr = -1, data = 0, addr_vec = [], host_req_id = -1, AiM_req_id = -1,
      req_type = Type_MAX, mem_access_region = Region_MAX, opcode = Opcode_MAX,
      opsize = -1, GPR_addr_0 = -1, GPR_addr_1 = -1, channel_mask = -1, bank_index = -1,
      row_addr = -1, col_addr = -1, thread_index = -1, broadcast = -1, afm = -1,
      ewmul_bg = -1, source_id = -1, command = -1, final_command = -1, arrive = -1,
      issue = -1, depart = -1, type_id = -1, req_callback = No_callback\<rparr>"

text \<open>The three constructors of \<open>Request\<close>.\<close>

definition Request_addr :: "int \<Rightarrow> int \<Rightarrow> request" where
  "Request_addr a t = request_default\<lparr>addr := a, type_id := t, req_type := type_of_id t\<rparr>"

definition Request_addr_vec :: "int list \<Rightarrow> int \<Rightarrow> request" where
  "Request_addr_vec av t = request_default\<lparr>addr_vec := av, type_id := t, req_type := type_of_id t\<rparr>"

definition Request_source :: "int \<Rightarrow> int \<Rightarrow> int \<Rightarrow> callback \<Rightarrow> request" where
  "Request_source a t src cb =
     request_default\<lparr>addr := a, type_id := t, req_type := type_of_id t, source_id := src,
                     req_callback := cb\<rparr>"

subsection \<open>The AiM instruction set\<close>

datatype Field =
    Field_opsize | Field_GPR_addr_0 | Field_GPR_addr_1 | Field_channel_mask
  | Field_bank_index | Field_row_addr | Field_col_addr | Field_thread_index

fun field_to_str :: "Field \<Rightarrow> string" where
  "field_to_str Field_opsize = ''opsize''"
| "field_to_str Field_GPR_addr_0 = ''GPR_addr_0''"
| "field_to_str Field_GPR_addr_1 = ''GPR_addr_1''"
| "field_to_str Field_channel_mask = ''channel_mask''"
| "field_to_str Field_bank_index = ''bank_index''"
| "field_to_str Field_row_addr = ''row_addr''"
| "field_to_str Field_col_addr = ''col_addr''"
| "field_to_str Field_thread_index = ''thread_index''"

record AiMISR =
  isr_opcode :: Opcode
  legal_fields :: "Field list"
  channel_count_eq_one :: bool
  AiM_DMA_blocking :: bool
  require_reg_RW_mod :: bool
  target_level :: string

definition mk_AiMISR :: "Opcode \<Rightarrow> Field list \<Rightarrow> bool \<Rightarrow> bool \<Rightarrow> bool \<Rightarrow> string \<Rightarrow> AiMISR" where
  "mk_AiMISR op fs one blocking reg lvl =
     \<lparr>isr_opcode = op, legal_fields = fs, channel_count_eq_one = one,
      AiM_DMA_blocking = blocking, require_reg_RW_mod = reg, target_level = lvl\<rparr>"

definition AiMISR_default :: AiMISR where
  "AiMISR_default = mk_AiMISR Opcode_MAX [] False False False []"

definition is_field_legal :: "AiMISR \<Rightarrow> Field \<Rightarrow> bool" where
  "is_field_legal isr f \<longleftrightarrow> f \<in> set (legal_fields isr)"

text \<open>The static tables of \<open>AiMISRInfo\<close>, empty until \<open>init()\<close> has run.\<close>

record AiMISRInfo =
  opcode_str_to_aim_ISR :: "(string \<times> AiMISR) list"
  aim_opcode_to_str :: "(Opcode \<times> string) list"
  str_to_type :: "(string \<times> Type) list"
  type_to_str :: "(Type \<times> string) list"
  str_to_mem_access_region :: "(string \<times> MemAccessRegion) list"
  mem_access_region_to_str :: "(MemAccessRegion \<times> string) list"

definition AiMISRInfo_uninitialized :: AiMISRInfo where
  "AiMISRInfo_uninitialized =
     \<lparr>opcode_str_to_aim_ISR = [], aim_opcode_to_str = [], str_to_type = [], type_to_str = [],
      str_to_mem_access_region = [], mem_access_region_to_str = []\<rparr>"

definition isr_table_transfer :: "(string \<times> AiMISR) list" where
  "isr_table_transfer =
    [
     (''ISR_WR_SBK'', mk_AiMISR ISR_WR_SBK [Field_GPR_addr_0, Field_channel_mask, Field_bank_index, Field_row_addr] False False False ''column''),
     (''ISR_WR_ABK'', mk_AiMISR ISR_WR_ABK [Field_GPR_addr_0, Field_channel_mask, Field_row_addr] True False False ''column''),
     (''ISR_WR_GB'', mk_AiMISR ISR_WR_GB [Field_opsize, Field_GPR_addr_0, Field_channel_mask] False False True ''channel''),
     (''ISR_WR_BIAS'', mk_AiMISR ISR_WR_BIAS [Field_GPR_addr_0, Field_channel_mask] False False True ''bank''),
     (''ISR_WR_AFLUT'', mk_AiMISR ISR_WR_AFLUT [Field_opsize] False False False ''column''),
     (''ISR_RD_MAC'', mk_AiMISR ISR_RD_MAC [Field_GPR_addr_0, Field_channel_mask] False True True ''bank''),
     (''ISR_RD_AF'', mk_AiMISR ISR_RD_AF [Field_GPR_addr_0, Field_channel_mask] False True True ''bank''),
     (''ISR_RD_SBK'', mk_AiMISR ISR_RD_SBK [Field_GPR_addr_0, Field_channel_mask, Field_bank_index, Field_row_addr] False False False ''column''),
     (''ISR_COPY_BKGB'', mk_AiMISR ISR_COPY_BKGB [Field_opsize, Field_channel_mask, Field_bank_index, Field_row_addr] False False False ''column''),
     (''ISR_COPY_GBBK'', mk_AiMISR ISR_COPY_GBBK [Field_opsize, Field_channel_mask, Field_bank_index, Field_row_addr] False False False ''column'')
    ]"

definition isr_table_compute :: "(string \<times> AiMISR) list" where
  "isr_table_compute =
    [
     (''ISR_MAC_SBK'', mk_AiMISR ISR_MAC_SBK [Field_opsize, Field_channel_mask, Field_bank_index, Field_row_addr] False False False ''bank''),
     (''ISR_MAC_ABK'', mk_AiMISR ISR_MAC_ABK [Field_opsize, Field_channel_mask, Field_row_addr] False False False ''bank''),
     (''ISR_AF'', mk_AiMISR ISR_AF [Field_channel_mask] False False False ''bank''),
     (''ISR_EWMUL'', mk_AiMISR ISR_EWMUL [Field_opsize, Field_channel_mask, Field_row_addr] False False False ''column''),
     (''ISR_EWADD'', mk_AiMISR ISR_EWADD [Field_opsize, Field_GPR_addr_0, Field_GPR_addr_1] False False False ''DMA''),
     (''ISR_SYNC'', mk_AiMISR ISR_SYNC [] False True False ''channel''),
     (''ISR_EOC'', mk_AiMISR ISR_EOC [] False True False ''DMA'')
    ]"

definition isr_table :: "(string \<times> AiMISR) list" where
  "isr_table = isr_table_transfer @ isr_table_compute"

definition type_table :: "(string \<times> Type) list" where
  "type_table = [(''R'', Read), (''W'', Write), (''AiM'', AIM)]"

definition region_table :: "(string \<times> MemAccessRegion) list" where
  "region_table = [(''GPR'', GPR), (''CFR'', CFR), (''MEM'', MEM)]"

text \<open>\<open>AiMISRInfo::init\<close>: the two directions of each table are filled side by side.\<close>

definition AiMISRInfo_init :: AiMISRInfo where
  "AiMISRInfo_init =
     \<lparr>opcode_str_to_aim_ISR = isr_table,
      aim_opcode_to_str = map (\<lambda>(s, isr). (isr_opcode isr, s)) isr_table,
      str_to_type = type_table,
      type_to_str = map (\<lambda>(s, t). (t, s)) type_table,
      str_to_mem_access_region = region_table,
      mem_access_region_to_str = map (\<lambda>(s, r). (r, s)) region_table\<rparr>"

text \<open>A lookup that throws when the table is empty, and tells membership otherwise.\<close>

definition table_valid :: "('k \<times> 'v) list \<Rightarrow> 'k \<Rightarrow> bool result" where
  "table_valid tab k =
     (if tab = [] then Err (Configuration_error ''AiMISRInfo not initialized!'')
      else Ok (map_of tab k \<noteq> None))"

text \<open>\<open>operator[]\<close> of \<open>std::map\<close>: a missing key gets the default value of its type.\<close>

definition table_get :: "('k \<times> 'v) list \<Rightarrow> 'v \<Rightarrow> 'k \<Rightarrow> 'v" where
  "table_get tab dflt k = (case map_of tab k of Some v \<Rightarrow> v | None \<Rightarrow> dflt)"

definition type_str_valid :: "AiMISRInfo \<Rightarrow> string \<Rightarrow> bool result" where
  "type_str_valid info s = table_valid (str_to_type info) s"

definition type_valid :: "AiMISRInfo \<Rightarrow> Type \<Rightarrow> bool result" where
  "type_valid info t = table_valid (type_to_str info) t"

definition convert_str_to_type :: "AiMISRInfo \<Rightarrow> string \<Rightarrow> Type result" where
  "convert_str_to_type info s =
     andThen (type_str_valid info s) (\<lambda>valid.
       if \<not> valid then Err (Configuration_error ''Trace: unknown type'')
       else Ok (table_get (str_to_type info) Read s))"

definition convert_type_to_str :: "AiMISRInfo \<Rightarrow> Type \<Rightarrow> string result" where
  "convert_type_to_str info t =
     andThen (type_valid info t) (\<lambda>valid.
       if \<not> valid then Err (Configuration_error ''Trace: unknown type'')
       else Ok (table_get (type_to_str info) [] t))"

definition AiM_opcode_str_valid :: "AiMISRInfo \<Rightarrow> string \<Rightarrow> bool result" where
  "AiM_opcode_str_valid info s = table_valid (opcode_str_to_aim_ISR info) s"

definition AiM_opcode_valid :: "AiMISRInfo \<Rightarrow> Opcode \<Rightarrow> bool result" where
  "AiM_opcode_valid info op = table_valid (aim_opcode_to_str info) op"

definition convert_opcode_str_to_AiM_ISR :: "AiMISRInfo \<Rightarrow> string \<Rightarrow> AiMISR result" where
  "convert_opcode_str_to_AiM_ISR info s =
     andThen (AiM_opcode_str_valid info s) (\<lambda>valid.
       if \<not> valid then Err (Configuration_error ''Trace: unknown AiM opcode'')
       else Ok (table_get (opcode_str_to_aim_ISR info) AiMISR_default s))"

definition convert_AiM_opcode_to_str :: "AiMISRInfo \<Rightarrow> Opcode \<Rightarrow> string result" where
  "convert_AiM_opcode_to_str info op =
     andThen (AiM_opcode_valid info op) (\<lambda>valid.
       if \<not> valid then Err (Configuration_error ''Trace: unknown AiM opcode'')
       else Ok (table_get (aim_opcode_to_str info) [] op))"

definition convert_AiM_opcode_to_AiM_ISR :: "AiMISRInfo \<Rightarrow> Opcode \<Rightarrow> AiMISR result" where
  "convert_AiM_opcode_to_AiM_ISR info op =
     andThen (convert_AiM_opcode_to_str info op) (\<lambda>s.
       Ok (table_get (opcode_str_to_aim_ISR info) AiMISR_default s))"

definition mem_access_region_str_valid :: "AiMISRInfo \<Rightarrow> string \<Rightarrow> bool result" where
  "mem_access_region_str_valid info s = table_valid (str_to_mem_access_region info) s"

definition mem_access_region_valid :: "AiMISRInfo \<Rightarrow> MemAccessRegion \<Rightarrow> bool result" where
  "mem_access_region_valid info r = table_valid (mem_access_region_to_str info) r"

definition convert_str_to_mem_access_region :: "AiMISRInfo \<Rightarrow> string \<Rightarrow> MemAccessRegion result" where
  "convert_str_to_mem_access_region info s =
     andThen (mem_access_region_str_valid info s) (\<lambda>valid.
       if \<not> valid then Err (Configuration_error ''Trace: unknown mem_access_region'')
       else Ok (table_get (str_to_mem_access_region info) Region_MIN s))"

definition convert_mem_access_region_to_str :: "AiMISRInfo \<Rightarrow> MemAccessRegion \<Rightarrow> string result" where
  "convert_mem_access_region_to_str info r =
     andThen (mem_access_region_valid info r) (\<lambda>valid.
       if \<not> valid then Err (Configuration_error ''Trace: unknown mem_access_region'')
       else Ok (table_get (mem_access_region_to_str info) [] r))"

definition opcode_requires_reg_RW_mod :: "AiMISRInfo \<Rightarrow> Opcode \<Rightarrow> bool result" where
  "opcode_requires_reg_RW_mod info op =
     andThen (convert_AiM_opcode_to_AiM_ISR info op) (\<lambda>isr. Ok (require_reg_RW_mod isr))"

text \<open>\<open>AiMISR::is_field_value_legal\<close>: a legal field must be given (not \<open>-1\<close>), an illegal one
  must not; either violation prints a message and exits.\<close>

definition is_field_value_legal :: "AiMISR \<Rightarrow> Field \<Rightarrow> int \<Rightarrow> unit result" where
  "is_field_value_legal isr f v =
     (if is_field_legal isr f
      then (if v = -1 then Err (Exit_failure ''opcode must be provided with field'') else Ok ())
      else (if v \<noteq> -1 then Err (Exit_failure ''opcode does not accept field'') else Ok ()))"

text \<open>\<open>Request::is_reader\<close>\<close>

definition is_reader :: "AiMISRInfo \<Rightarrow> request \<Rightarrow> bool result" where
  "is_reader info r =
     (if req_type r = Read then Ok True
      else if req_type r = AIM
      then andThen (convert_AiM_opcode_to_AiM_ISR info (opcode r)) (\<lambda>isr. Ok (AiM_DMA_blocking isr))
      else Ok False)"

subsection \<open>Facts about the initialised tables\<close>

definition is_isr :: "Opcode \<Rightarrow> bool" where
  "is_isr op \<longleftrightarrow> op \<noteq> Opcode_MIN \<and> op \<noteq> Opcode_MAX"

lemmas table_simps =
  AiMISRInfo_init_def isr_table_def isr_table_transfer_def isr_table_compute_def
  type_table_def region_table_def table_valid_def table_get_def mk_AiMISR_def

text \<open>The table, evaluated: every instruction converts to its name and to its entry.\<close>

lemma convert_AiM_opcode_to_str_eqs:
  "convert_AiM_opcode_to_str AiMISRInfo_init ISR_WR_SBK = Ok ''ISR_WR_SBK''"
  "convert_AiM_opcode_to_str AiMISRInfo_init ISR_WR_ABK = Ok ''ISR_WR_ABK''"
  "convert_AiM_opcode_to_str AiMISRInfo_init ISR_WR_GB = Ok ''ISR_WR_GB''"
  "convert_AiM_opcode_to_str AiMISRInfo_init ISR_WR_BIAS = Ok ''ISR_WR_BIAS''"
  "convert_AiM_opcode_to_str AiMISRInfo_init ISR_WR_AFLUT = Ok ''ISR_WR_AFLUT''"
  "convert_AiM_opcode_to_str AiMISRInfo_init ISR_RD_MAC = Ok ''ISR_RD_MAC''"
  "convert_AiM_opcode_to_str AiMISRInfo_init ISR_RD_AF = Ok ''ISR_RD_AF''"
  "convert_AiM_opcode_to_str AiMISRInfo_init ISR_RD_SBK = Ok ''ISR_RD_SBK''"
  "convert_AiM_opcode_to_str AiMISRInfo_init ISR_COPY_BKGB = Ok ''ISR_COPY_BKGB''"
  "convert_AiM_opcode_to_str AiMISRInfo_init ISR_COPY_GBBK = Ok ''ISR_COPY_GBBK''"
  "convert_AiM_opcode_to_str AiMISRInfo_init ISR_MAC_SBK = Ok ''ISR_MAC_SBK''"
  "convert_AiM_opcode_to_str AiMISRInfo_init ISR_MAC_ABK = Ok ''ISR_MAC_ABK''"
  "convert_AiM_opcode_to_str AiMISRInfo_init ISR_AF = Ok ''ISR_AF''"
  "convert_AiM_opcode_to_str AiMISRInfo_init ISR_EWMUL = Ok ''ISR_EWMUL''"
  "convert_AiM_opcode_to_str AiMISRInfo_init ISR_EWADD = Ok ''ISR_EWADD''"
  "convert_AiM_opcode_to_str AiMISRInfo_init ISR_SYNC = Ok ''ISR_SYNC''"
  "convert_AiM_opcode_to_str AiMISRInfo_init ISR_EOC = Ok ''ISR_EOC''"
  by code_simp+

lemma convert_opcode_str_eqs:
  "convert_opcode_str_to_AiM_ISR AiMISRInfo_init ''ISR_WR_SBK'' = Ok (mk_AiMISR ISR_WR_SBK [Field_GPR_addr_0, Field_channel_mask, Field_bank_index, Field_row_addr] False False False ''column'')"
  "convert_opcode_str_to_AiM_ISR AiMISRInfo_init ''ISR_WR_ABK'' = Ok (mk_AiMISR ISR_WR_ABK [Field_GPR_addr_0, Field_channel_mask, Field_row_addr] True False False ''column'')"
  "convert_opcode_str_to_AiM_ISR AiMISRInfo_init ''ISR_WR_GB'' = Ok (mk_AiMISR ISR_WR_GB [Field_opsize, Field_GPR_addr_0, Field_channel_mask] False False True ''channel'')"
  "convert_opcode_str_to_AiM_ISR AiMISRInfo_init ''ISR_WR_BIAS'' = Ok (mk_AiMISR ISR_WR_BIAS [Field_GPR_addr_0, Field_channel_mask] False False True ''bank'')"
  "convert_opcode_str_to_AiM_ISR AiMISRInfo_init ''ISR_WR_AFLUT'' = Ok (mk_AiMISR ISR_WR_AFLUT [Field_opsize] False False False ''column'')"
  "convert_opcode_str_to_AiM_ISR AiMISRInfo_init ''ISR_RD_MAC'' = Ok (mk_AiMISR ISR_RD_MAC [Field_GPR_addr_0, Field_channel_mask] False True True ''bank'')"
  "convert_opcode_str_to_AiM_ISR AiMISRInfo_init ''ISR_RD_AF'' = Ok (mk_AiMISR ISR_RD_AF [Field_GPR_addr_0, Field_channel_mask] False True True ''bank'')"
  "convert_opcode_str_to_AiM_ISR AiMISRInfo_init ''ISR_RD_SBK'' = Ok (mk_AiMISR ISR_RD_SBK [Field_GPR_addr_0, Field_channel_mask, Field_bank_index, Field_row_addr] False False False ''column'')"
  "convert_opcode_str_to_AiM_ISR AiMISRInfo_init ''ISR_COPY_BKGB'' = Ok (mk_AiMISR ISR_COPY_BKGB [Field_opsize, Field_channel_mask, Field_bank_index, Field_row_addr] False False False ''column'')"
  "convert_opcode_str_to_AiM_ISR AiMISRInfo_init ''ISR_COPY_GBBK'' = Ok (mk_AiMISR ISR_COPY_GBBK [Field_opsize, Field_channel_mask, Field_bank_index, Field_row_addr] False False False ''column'')"
  "convert_opcode_str_to_AiM_ISR AiMISRInfo_init ''ISR_MAC_SBK'' = Ok (mk_AiMISR ISR_MAC_SBK [Field_opsize, Field_channel_mask, Field_bank_index, Field_row_addr] False False False ''bank'')"
  "convert_opcode_str_to_AiM_ISR AiMISRInfo_init ''ISR_MAC_ABK'' = Ok (mk_AiMISR ISR_MAC_ABK [Field_opsize, Field_channel_mask, Field_row_addr] False False False ''bank'')"
  "convert_opcode_str_to_AiM_ISR AiMISRInfo_init ''ISR_AF'' = Ok (mk_AiMISR ISR_AF [Field_channel_mask] False False False ''bank'')"
  "convert_opcode_str_to_AiM_ISR AiMISRInfo_init ''ISR_EWMUL'' = Ok (mk_AiMISR ISR_EWMUL [Field_opsize, Field_channel_mask, Field_row_addr] False False False ''column'')"
  "convert_opcode_str_to_AiM_ISR AiMISRInfo_init ''ISR_EWADD'' = Ok (mk_AiMISR ISR_EWADD [Field_opsize, Field_GPR_addr_0, Field_GPR_addr_1] False False False ''DMA'')"
  "convert_opcode_str_to_AiM_ISR AiMISRInfo_init ''ISR_SYNC'' = Ok (mk_AiMISR ISR_SYNC [] False True False ''channel'')"
  "convert_opcode_str_to_AiM_ISR AiMISRInfo_init ''ISR_EOC'' = Ok (mk_AiMISR ISR_EOC [] False True False ''DMA'')"
  by code_simp+

lemma convert_AiM_opcode_eqs:
  "convert_AiM_opcode_to_AiM_ISR AiMISRInfo_init ISR_WR_SBK = Ok (mk_AiMISR ISR_WR_SBK [Field_GPR_addr_0, Field_channel_mask, Field_bank_index, Field_row_addr] False False False ''column'')"
  "convert_AiM_opcode_to_AiM_ISR AiMISRInfo_init ISR_WR_ABK = Ok (mk_AiMISR ISR_WR_ABK [Field_GPR_addr_0, Field_channel_mask, Field_row_addr] True False False ''column'')"
  "convert_AiM_opcode_to_AiM_ISR AiMISRInfo_init ISR_WR_GB = Ok (mk_AiMISR ISR_WR_GB [Field_opsize, Field_GPR_addr_0, Field_channel_mask] False False True ''channel'')"
  "convert_AiM_opcode_to_AiM_ISR AiMISRInfo_init ISR_WR_BIAS = Ok (mk_AiMISR ISR_WR_BIAS [Field_GPR_addr_0, Field_channel_mask] False False True ''bank'')"
  "convert_AiM_opcode_to_AiM_ISR AiMISRInfo_init ISR_WR_AFLUT = Ok (mk_AiMISR ISR_WR_AFLUT [Field_opsize] False False False ''column'')"
  "convert_AiM_opcode_to_AiM_ISR AiMISRInfo_init ISR_RD_MAC = Ok (mk_AiMISR ISR_RD_MAC [Field_GPR_addr_0, Field_channel_mask] False True True ''bank'')"
  "convert_AiM_opcode_to_AiM_ISR AiMISRInfo_init ISR_RD_AF = Ok (mk_AiMISR ISR_RD_AF [Field_GPR_addr_0, Field_channel_mask] False True True ''bank'')"
  "convert_AiM_opcode_to_AiM_ISR AiMISRInfo_init ISR_RD_SBK = Ok (mk_AiMISR ISR_RD_SBK [Field_GPR_addr_0, Field_channel_mask, Field_bank_index, Field_row_addr] False False False ''column'')"
  "convert_AiM_opcode_to_AiM_ISR AiMISRInfo_init ISR_COPY_BKGB = Ok (mk_AiMISR ISR_COPY_BKGB [Field_opsize, Field_channel_mask, Field_bank_index, Field_row_addr] False False False ''column'')"
  "convert_AiM_opcode_to_AiM_ISR AiMISRInfo_init ISR_COPY_GBBK = Ok (mk_AiMISR ISR_COPY_GBBK [Field_opsize, Field_channel_mask, Field_bank_index, Field_row_addr] False False False ''column'')"
  "convert_AiM_opcode_to_AiM_ISR AiMISRInfo_init ISR_MAC_SBK = Ok (mk_AiMISR ISR_MAC_SBK [Field_opsize, Field_channel_mask, Field_bank_index, Field_row_addr] False False False ''bank'')"
  "convert_AiM_opcode_to_AiM_ISR AiMISRInfo_init ISR_MAC_ABK = Ok (mk_AiMISR ISR_MAC_ABK [Field_opsize, Field_channel_mask, Field_row_addr] False False False ''bank'')"
  "convert_AiM_opcode_to_AiM_ISR AiMISRInfo_init ISR_AF = Ok (mk_AiMISR ISR_AF [Field_channel_mask] False False False ''bank'')"
  "convert_AiM_opcode_to_AiM_ISR AiMISRInfo_init ISR_EWMUL = Ok (mk_AiMISR ISR_EWMUL [Field_opsize, Field_channel_mask, Field_row_addr] False False False ''column'')"
  "convert_AiM_opcode_to_AiM_ISR AiMISRInfo_init ISR_EWADD = Ok (mk_AiMISR ISR_EWADD [Field_opsize, Field_GPR_addr_0, Field_GPR_addr_1] False False False ''DMA'')"
  "convert_AiM_opcode_to_AiM_ISR AiMISRInfo_init ISR_SYNC = Ok (mk_AiMISR ISR_SYNC [] False True False ''channel'')"
  "convert_AiM_opcode_to_AiM_ISR AiMISRInfo_init ISR_EOC = Ok (mk_AiMISR ISR_EOC [] False True False ''DMA'')"
  by code_simp+

lemma convert_AiM_opcode_bad:
  "convert_AiM_opcode_to_str AiMISRInfo_init Opcode_MIN = Err (Configuration_error ''Trace: unknown AiM opcode'')"
  "convert_AiM_opcode_to_str AiMISRInfo_init Opcode_MAX = Err (Configuration_error ''Trace: unknown AiM opcode'')"
  by code_simp+

lemmas convert_eqs =
  convert_AiM_opcode_to_str_eqs convert_opcode_str_eqs convert_AiM_opcode_eqs convert_AiM_opcode_bad

lemma convert_AiM_opcode_to_str_init:
  "is_isr op \<Longrightarrow> \<exists>s isr. convert_AiM_opcode_to_str AiMISRInfo_init op = Ok s
     \<and> convert_opcode_str_to_AiM_ISR AiMISRInfo_init s = Ok isr
     \<and> convert_AiM_opcode_to_AiM_ISR AiMISRInfo_init op = Ok isr \<and> isr_opcode isr = op"
  by (cases op) (simp_all add: is_isr_def convert_eqs mk_AiMISR_def)

lemma convert_AiM_opcode_to_str_bad:
  "\<not> is_isr op \<Longrightarrow> convert_AiM_opcode_to_str AiMISRInfo_init op
     = Err (Configuration_error ''Trace: unknown AiM opcode'')"
  by (auto simp: is_isr_def convert_AiM_opcode_bad)

lemma convert_isr:
  "convert_AiM_opcode_to_AiM_ISR AiMISRInfo_init op = Ok isr \<Longrightarrow> is_isr op"
  using convert_AiM_opcode_to_str_bad [of op]
  by (cases "is_isr op") (auto simp: convert_AiM_opcode_to_AiM_ISR_def)

lemma isr_blocking:
  "convert_AiM_opcode_to_AiM_ISR AiMISRInfo_init op = Ok isr \<Longrightarrow>
   AiM_DMA_blocking isr \<longleftrightarrow> op \<in> {ISR_RD_MAC, ISR_RD_AF, ISR_SYNC, ISR_EOC}"
  using convert_isr [of op isr] by (cases op) (auto simp: is_isr_def convert_eqs mk_AiMISR_def)

lemma isr_reg_RW:
  "convert_AiM_opcode_to_AiM_ISR AiMISRInfo_init op = Ok isr \<Longrightarrow>
   require_reg_RW_mod isr \<longleftrightarrow> op \<in> {ISR_WR_GB, ISR_WR_BIAS, ISR_RD_MAC, ISR_RD_AF}"
  using convert_isr [of op isr] by (cases op) (auto simp: is_isr_def convert_eqs mk_AiMISR_def)

lemma isr_one_channel:
  "convert_AiM_opcode_to_AiM_ISR AiMISRInfo_init op = Ok isr \<Longrightarrow>
   channel_count_eq_one isr \<longleftrightarrow> op = ISR_WR_ABK"
  using convert_isr [of op isr] by (cases op) (auto simp: is_isr_def convert_eqs mk_AiMISR_def)

lemma isr_total: "is_isr op \<Longrightarrow> \<exists>isr. convert_AiM_opcode_to_AiM_ISR AiMISRInfo_init op = Ok isr"
  using convert_AiM_opcode_to_str_init [of op] by blast

subsection \<open>Request buffers\<close>

record ReqBuffer =
  buffer :: "request list"
  max_size :: nat

definition ReqBuffer_new :: ReqBuffer where
  "ReqBuffer_new = \<lparr>buffer = [], max_size = 32\<rparr>"

definition buf_size :: "ReqBuffer \<Rightarrow> nat" where
  "buf_size b = length (buffer b)"

definition enqueue :: "request \<Rightarrow> ReqBuffer \<Rightarrow> bool \<times> ReqBuffer" where
  "enqueue r b =
     (if buf_size b \<le> max_size b then (True, b\<lparr>buffer := buffer b @ [r]\<rparr>) else (False, b))"

text \<open>\<open>remove(it)\<close>: the iterator is the position of an element.\<close>

definition remove_req :: "nat \<Rightarrow> ReqBuffer \<Rightarrow> ReqBuffer" where
  "remove_req i b = b\<lparr>buffer := remove_at i (buffer b)\<rparr>"

text \<open>Writing through an iterator.\<close>

definition buf_put :: "nat \<Rightarrow> request \<Rightarrow> ReqBuffer \<Rightarrow> ReqBuffer" where
  "buf_put i r b = b\<lparr>buffer := (buffer b)[i := r]\<rparr>"

text \<open>The buffer holds at most one entry more than \<open>max_size\<close>.\<close>

definition buf_bounded :: "ReqBuffer \<Rightarrow> bool" where
  "buf_bounded b \<longleftrightarrow> buf_size b \<le> Suc (max_size b)"

text \<open>
  The contract its clients rely on: a FIFO with positional removal, as operations on the
  list of its elements under an invariant.
\<close>

locale request_buffer =
  fixes enq :: "request \<Rightarrow> 'b \<Rightarrow> bool \<times> 'b"
    and del :: "nat \<Rightarrow> 'b \<Rightarrow> 'b"
    and elems :: "'b \<Rightarrow> request list"
    and ok :: "'b \<Rightarrow> bool"
    and cap :: "'b \<Rightarrow> nat"
  assumes enq_accept: "enq r b = (True, b') \<Longrightarrow> elems b' = elems b @ [r] \<and> cap b' = cap b"
    and enq_reject: "enq r b = (False, b') \<Longrightarrow> b' = b"
    and enq_ok: "ok b \<Longrightarrow> ok (snd (enq r b))"
    and del_elems: "elems (del i b) = remove_at i (elems b)"
    and del_ok: "ok b \<Longrightarrow> ok (del i b)"
    and ok_bound: "ok b \<Longrightarrow> length (elems b) \<le> cap b"
begin

lemma enq_mset:
  "enq r b = (done', b') \<Longrightarrow>
   mset (elems b') = (if done' then add_mset r (mset (elems b)) else mset (elems b))"
  by (cases done') (auto dest: enq_accept enq_reject)

lemma del_mset: "i < length (elems b) \<Longrightarrow> add_mset (elems b ! i) (mset (elems (del i b))) = mset (elems b)"
  by (simp add: del_elems mset_remove_at)

lemma fill_never_overflows:
  "ok b \<Longrightarrow> length (elems (fold (\<lambda>r u. snd (enq r u)) rs b)) \<le> cap (fold (\<lambda>r u. snd (enq r u)) rs b)"
proof (induction rs arbitrary: b)
  case Nil
  then show ?case by (simp add: ok_bound)
next
  case (Cons r rs)
  then show ?case using enq_ok by simp
qed

end

interpretation req_buffer: request_buffer enqueue remove_req buffer buf_bounded "\<lambda>b. Suc (max_size b)"
  by unfold_locales
    (auto simp: enqueue_def remove_req_def buf_bounded_def buf_size_def remove_at_def split: if_splits)

end
