(* ===== verification/AiM_Trace.thy ===== *)
theory AiM_Trace
  imports Request
begin

text \<open>
  \<^verbatim>\<open>src/src/frontend/impl/memory_trace/aim_trace.cpp\<close>: the front end that reads one host
  instruction after another from a trace file and sends it to the memory system, retrying until
  it is accepted.

  The file system is a parameter: a path leads to nothing, to a file that cannot be opened, or to
  a file with its content. The stream is the unread rest of that content. The memory system's
  \<open>send\<close> is a parameter. The lines printed by the callback of the attention boundary are kept as
  the list of the cycles they show.
\<close>

subsection \<open>State\<close>

record AiM_trace =
  m_curr_trace_idx :: int
  m_trace_reached_EOC :: bool
  m_trace_reached_calledback :: bool
  trace_file :: string
  remaining_req :: bool
  next_host_req_id :: int
  m_attention_checkpoints :: int
  delimiter_is_comma :: bool
  AiMTrace_request :: request
  trace_clock_ratio :: int
  attention_end_cycles :: "int list"

record trace_config =
  cfg_path :: "string option"
  cfg_delimiter :: "string option"
  cfg_trace_clock_ratio :: "int option"
  trace_file_path :: string
  use_trace_file_path :: bool

definition init_trace :: "(string \<Rightarrow> string option option) \<Rightarrow> string \<Rightarrow> string result" where
  "init_trace files path =
     (case files path of
        None \<Rightarrow> Err (Configuration_error ''Trace does not exist!'')
      | Some None \<Rightarrow> Err (Configuration_error ''Trace cannot be opened!'')
      | Some (Some content) \<Rightarrow> Ok content)"

definition AiMTrace_init :: "(string \<Rightarrow> string option option) \<Rightarrow> trace_config \<Rightarrow> AiM_trace result" where
  "AiMTrace_init files cfg =
     (let path = (case cfg_path cfg of Some p \<Rightarrow> p | None \<Rightarrow> trace_file_path cfg);
          delimiter = (case cfg_delimiter cfg of Some d \<Rightarrow> d | None \<Rightarrow> '' '') in
      case cfg_trace_clock_ratio cfg of
        None \<Rightarrow> Err (Configuration_error ''Param is required but not given'')
      | Some ratio \<Rightarrow>
          andThen (init_trace files (if use_trace_file_path cfg then trace_file_path cfg else path)) (\<lambda>content.
            Ok \<lparr>m_curr_trace_idx = 0, m_trace_reached_EOC = False, m_trace_reached_calledback = False,
                trace_file = content, remaining_req = False, next_host_req_id = 0,
                m_attention_checkpoints = 0, delimiter_is_comma = (delimiter = '',''),
                AiMTrace_request = Request_addr (-1) (-1), trace_clock_ratio = ratio,
                attention_end_cycles = []\<rparr>))"

subsection \<open>Reading\<close>

text \<open>\<open>std::getline\<close>: the line, the rest of the stream, and \<open>eof()\<close> afterwards, which is set when
  the stream ends before a newline.\<close>

definition get_line :: "string \<Rightarrow> string \<times> string \<times> bool" where
  "get_line s =
     (if CHR 0x0A \<in> set s
      then (takeWhile (\<lambda>c. c \<noteq> CHR 0x0A) s, tl (dropWhile (\<lambda>c. c \<noteq> CHR 0x0A) s), False)
      else (s, [], True))"

lemma get_line_shorter: "get_line s = (line, rest, False) \<Longrightarrow> length rest < length s"
proof -
  assume l: "get_line s = (line, rest, False)"
  then have "CHR 0x0A \<in> set s" by (auto simp: get_line_def split: if_splits)
  then have "dropWhile (\<lambda>c. c \<noteq> CHR 0x0A) s \<noteq> []" by (auto simp: dropWhile_eq_Nil_conv)
  moreover have "length (dropWhile (\<lambda>c. c \<noteq> CHR 0x0A) s) \<le> length s" by (rule length_dropWhile_le)
  ultimately show ?thesis using l by (cases "dropWhile (\<lambda>c. c \<noteq> CHR 0x0A) s") (auto simp: get_line_def split: if_splits)
qed

text \<open>\<open>token_decoder<T>\<close> for a signed type of \<open>w\<close> bits.\<close>

definition token_decoder :: "nat \<Rightarrow> string \<Rightarrow> int result" where
  "token_decoder w str =
     andThen (if take 2 str = ''0x'' \<or> take 2 str = ''0X'' then stoll 16 (drop 2 str) else stoll 10 str)
       (\<lambda>v. Ok (to_signed w v))"

fun field_width :: "Field \<Rightarrow> nat" where
  "field_width Field_opsize = 32"
| "field_width Field_GPR_addr_0 = 64"
| "field_width Field_GPR_addr_1 = 64"
| "field_width Field_channel_mask = 64"
| "field_width Field_bank_index = 16"
| "field_width Field_row_addr = 32"
| "field_width Field_col_addr = 32"
| "field_width Field_thread_index = 8"

fun set_field :: "Field \<Rightarrow> int \<Rightarrow> request \<Rightarrow> request" where
  "set_field Field_opsize v r = r\<lparr>opsize := v\<rparr>"
| "set_field Field_GPR_addr_0 v r = r\<lparr>GPR_addr_0 := v\<rparr>"
| "set_field Field_GPR_addr_1 v r = r\<lparr>GPR_addr_1 := v\<rparr>"
| "set_field Field_channel_mask v r = r\<lparr>channel_mask := v\<rparr>"
| "set_field Field_bank_index v r = r\<lparr>bank_index := v\<rparr>"
| "set_field Field_row_addr v r = r\<lparr>row_addr := v\<rparr>"
| "set_field Field_col_addr v r = r\<lparr>col_addr := v\<rparr>"
| "set_field Field_thread_index v r = r\<lparr>thread_index := v\<rparr>"

text \<open>\<open>DECODE_AND_SET_FIELD\<close>: the index of the next token and the request.\<close>

definition decode_and_set :: "string list \<Rightarrow> nat \<Rightarrow> (int \<Rightarrow> request \<Rightarrow> request) \<Rightarrow> int \<times> request \<Rightarrow> (int \<times> request) result" where
  "decode_and_set tokens w upd = (\<lambda>(idx, r).
     andThen (vec_at tokens idx) (\<lambda>t.
     andThen (token_decoder w t) (\<lambda>v. Ok (idx + 1, upd v r))))"

fun get_field :: "Field \<Rightarrow> request \<Rightarrow> int" where
  "get_field Field_opsize r = opsize r"
| "get_field Field_GPR_addr_0 r = GPR_addr_0 r"
| "get_field Field_GPR_addr_1 r = GPR_addr_1 r"
| "get_field Field_channel_mask r = channel_mask r"
| "get_field Field_bank_index r = bank_index r"
| "get_field Field_row_addr r = row_addr r"
| "get_field Field_col_addr r = col_addr r"
| "get_field Field_thread_index r = thread_index r"

definition decode_if_needed :: "AiMISR \<Rightarrow> string list \<Rightarrow> Field \<Rightarrow> int \<times> request \<Rightarrow> (int \<times> request) result" where
  "decode_if_needed isr tokens f = (\<lambda>(idx, r).
     if is_field_legal isr f
     then andThen (decode_and_set tokens (field_width f) (set_field f) (idx, r)) (\<lambda>(idx, r).
          andThen (is_field_value_legal isr f (get_field f r)) (\<lambda>_. Ok (idx, r)))
     else Ok (idx, r))"

definition trace_fields :: "Field list" where
  "trace_fields = [Field_opsize, Field_GPR_addr_0, Field_GPR_addr_1, Field_channel_mask, Field_bank_index,
     Field_row_addr, Field_col_addr, Field_thread_index]"

text \<open>The name of an opcode, with the prefix \<open>ISR_\<close> added when it is missing. On a name shorter than
  the prefix \<open>std::mismatch\<close> stops at the terminating zero at the latest.\<close>

definition ISR_name :: "string \<Rightarrow> string" where
  "ISR_name s = (if take 4 s = ''ISR_'' then s else ''ISR_'' @ s)"

definition decode_AiM_line :: "AiMISRInfo \<Rightarrow> string list \<Rightarrow> request \<Rightarrow> AiM_trace \<Rightarrow> (request \<times> AiM_trace) result" where
  "decode_AiM_line info tokens r h =
     andThen (vec_at tokens 1) (\<lambda>name.
     andThen (convert_opcode_str_to_AiM_ISR info (ISR_name name)) (\<lambda>isr.
       if int (length (legal_fields isr)) \<noteq> int (length tokens) - 2
       then andThen (convert_AiM_opcode_to_str info (isr_opcode isr)) (\<lambda>_.
            Err (Configuration_error ''Trace: aim request requires another number of fields''))
       else andThen (fold_result (decode_if_needed isr tokens) trace_fields (2, r\<lparr>opcode := isr_opcode isr\<rparr>))
         (\<lambda>(idx, r).
            if opcode r = ISR_EOC
            then Ok (r\<lparr>req_callback := Trace_receive\<rparr>, h\<lparr>m_trace_reached_EOC := True\<rparr>)
            else Ok (r, h))))"

definition decode_access_line :: "AiMISRInfo \<Rightarrow> string list \<Rightarrow> request \<Rightarrow> request result" where
  "decode_access_line info tokens r =
     andThen (vec_at tokens 1) (\<lambda>name.
     andThen (convert_str_to_mem_access_region info name) (\<lambda>region.
     (let r = r\<lparr>mem_access_region := region\<rparr> in
      andThen
       (if region = CFR
        then andThen (decode_and_set tokens 64 (\<lambda>v r. r\<lparr>addr := v\<rparr>) (2, r))
               (decode_and_set tokens 32 (\<lambda>v r. r\<lparr>data := v\<rparr>))
        else if region = GPR
        then decode_and_set tokens 64 (\<lambda>v r. r\<lparr>addr := v\<rparr>) (2, r)
        else andThen (decode_and_set tokens 64 (set_field Field_channel_mask) (2, r)) (\<lambda>st.
             andThen (decode_and_set tokens 16 (set_field Field_bank_index) st)
               (decode_and_set tokens 32 (set_field Field_row_addr)))) (\<lambda>(idx, r). Ok r))))"

definition decode_line :: "AiMISRInfo \<Rightarrow> string list \<Rightarrow> AiM_trace \<Rightarrow> (request \<times> AiM_trace) result" where
  "decode_line info tokens h =
     (let r = (Request_addr (-1) (-1))\<lparr>host_req_id := next_host_req_id h\<rparr>;
          h = h\<lparr>next_host_req_id := next_host_req_id h + 1\<rparr> in
      andThen (vec_at tokens 0) (\<lambda>name.
      andThen (convert_str_to_type info name) (\<lambda>t.
        (let r = r\<lparr>req_type := t, type_id := id_of_type t\<rparr> in
         if t = AIM then decode_AiM_line info tokens r h
         else andThen (decode_access_line info tokens r) (\<lambda>r. Ok (r, h))))))"

text \<open>The attention boundary: a \<open>SYNC\<close> of the trace's own.\<close>

definition attention_request :: "AiM_trace \<Rightarrow> request" where
  "attention_request h =
     (Request_addr (-1) (-1))\<lparr>req_type := AIM, opcode := ISR_SYNC, channel_mask := -1,
        host_req_id := next_host_req_id h, req_callback := Attention_end\<rparr>"

function get_host_request :: "AiMISRInfo \<Rightarrow> AiM_trace \<Rightarrow> (request \<times> AiM_trace) result" where
  "get_host_request info h =
     (if m_trace_reached_EOC h then Err (Configuration_error ''Trace: asking for host request while EOC reached!'')
      else
       (let (line, rest, eof) = get_line (trace_file h);
            h = h\<lparr>trace_file := rest, m_curr_trace_idx := m_curr_trace_idx h + 1\<rparr> in
        if eof then Err (Configuration_error ''Trace: EOF reached while EOC not reached'')
        else if line = [] then get_host_request info h
        else
          (let tokens = tokenize (if delimiter_is_comma h then CHR '','' else CHR '' '') line in
           if tokens = [] then get_host_request info h
           else if hd tokens = ''#''
           then (if length tokens = 3 \<and> tokens ! 1 = ''PHASE'' \<and> tokens ! 2 = ''attention_end''
                 then (let h = h\<lparr>m_attention_checkpoints := m_attention_checkpoints h + 1\<rparr> in
                       if m_attention_checkpoints h \<noteq> 1
                       then Err (Configuration_error ''Trace has more than one Attention/FFN boundary'')
                       else Ok (attention_request h, h\<lparr>next_host_req_id := next_host_req_id h + 1\<rparr>))
                 else get_host_request info h)
           else decode_line info tokens h)))"
  by pat_completeness auto
termination
  by (relation "measure (\<lambda>(info, h). length (trace_file h))") (auto dest: get_line_shorter [OF sym])

declare get_host_request.simps [simp del]

subsection \<open>A cycle\<close>

definition trace_send ::
  "(request \<Rightarrow> 'm \<Rightarrow> (bool \<times> 'm) result) \<Rightarrow> AiM_trace \<times> 'm \<Rightarrow> (AiM_trace \<times> 'm) result" where
  "trace_send send = (\<lambda>(h, m).
     if remaining_req h
     then andThen (send (AiMTrace_request h) m) (\<lambda>(sent, m).
          Ok (if sent then h\<lparr>remaining_req := False\<rparr> else h, m))
     else Ok (h, m))"

definition AiMTrace_tick ::
  "AiMISRInfo \<Rightarrow> (request \<Rightarrow> 'm \<Rightarrow> (bool \<times> 'm) result) \<Rightarrow> AiM_trace \<times> 'm \<Rightarrow> (AiM_trace \<times> 'm) result" where
  "AiMTrace_tick info send = (\<lambda>(h, m).
     andThen (if \<not> remaining_req h \<and> \<not> m_trace_reached_EOC h
              then andThen (get_host_request info h) (\<lambda>(r, h).
                   Ok (h\<lparr>AiMTrace_request := r, remaining_req := True\<rparr>))
              else Ok h) (\<lambda>h. trace_send send (h, m)))"

subsection \<open>Callbacks\<close>

text \<open>\<open>receive\<close>, and the lambda of the attention boundary, which prints the memory system's cycle.\<close>

definition trace_callback :: "int \<Rightarrow> request \<Rightarrow> AiM_trace \<Rightarrow> AiM_trace result" where
  "trace_callback cycle r h =
     (case req_callback r of
        Trace_receive \<Rightarrow> Ok (h\<lparr>m_trace_reached_calledback := True\<rparr>)
      | Attention_end \<Rightarrow> Ok (h\<lparr>attention_end_cycles := attention_end_cycles h @ [cycle]\<rparr>)
      | _ \<Rightarrow> Err (Undefined ''not a callback of the front end''))"

definition trace_is_finished :: "AiM_trace \<Rightarrow> bool" where
  "trace_is_finished h \<longleftrightarrow> m_trace_reached_calledback h"

end
