(* ===== verification/Dram_Spec.thy ===== *)
theory Dram_Spec
  imports Base_Utils
begin

text \<open>
  \<^verbatim>\<open>src/src/dram/spec.h\<close> and the data of \<^verbatim>\<open>src/src/dram/dram.h\<close>: the named tables a device
  model is described with (\<open>ImplDef\<close>, \<open>SpecDef\<close>, \<open>LUT\<close>, \<open>SpecLUT\<close>), the organization, the
  command metadata, the timing constraints and \<open>populate_timingcons\<close>, and the record
  \<open>dram_spec\<close> of everything a device node or a controller reads of a device.

  \<open>ActionFunc_t\<close> and \<open>PreqFunc_t\<close> entries are pointers to the functions of
  \<^verbatim>\<open>lambdas/action.h\<close> and \<^verbatim>\<open>lambdas/preq.h\<close>, named here by \<open>action_fn\<close> and \<open>preq_fn\<close>.
\<close>

subsection \<open>Definitions by name\<close>

type_synonym impl_def = "string list"

text \<open>\<open>ImplDef::operator[](name)\<close> is \<open>consteval\<close>: a name that is not there does not compile.
  The model's value for such a name is the length of the definition, an index out of range.\<close>

fun ImplDef_index :: "impl_def \<Rightarrow> string \<Rightarrow> int" where
  "ImplDef_index [] s = 0"
| "ImplDef_index (n # ns) s = (if n = s then 0 else 1 + ImplDef_index ns s)"

text \<open>\<open>ImplDef::operator()(name)\<close> and \<open>(i)\<close>, at run time: both throw a string literal; the
  latter compares only with the upper bound.\<close>

definition ImplDef_find :: "impl_def \<Rightarrow> string \<Rightarrow> int result" where
  "ImplDef_find ns s =
     (if s \<in> set ns then Ok (ImplDef_index ns s) else Err (Runtime_error ''NON EXISTENT NAME''))"

definition ImplDef_name :: "impl_def \<Rightarrow> int \<Rightarrow> string result" where
  "ImplDef_name ns i =
     (if i < int (length ns) then vec_at ns i else Err (Runtime_error ''NON EXISTENT ID''))"

text \<open>\<open>SpecDef\<close>: the name map is filled in order, so a later duplicate wins; a missing name
  throws. \<open>i < size()\<close> compares as unsigned: a negative \<open>i\<close> throws too.\<close>

fun SpecDef_fill :: "int \<Rightarrow> string list \<Rightarrow> (string \<rightharpoonup> int) \<Rightarrow> (string \<rightharpoonup> int)" where
  "SpecDef_fill i [] m = m"
| "SpecDef_fill i (n # ns) m = SpecDef_fill (i + 1) ns (m(n \<mapsto> i))"

definition SpecDef_contains :: "impl_def \<Rightarrow> string \<Rightarrow> bool" where
  "SpecDef_contains ns s \<longleftrightarrow> SpecDef_fill 0 ns Map.empty s \<noteq> None"

definition SpecDef_id :: "impl_def \<Rightarrow> string \<Rightarrow> int result" where
  "SpecDef_id ns s =
     (case SpecDef_fill 0 ns Map.empty s of Some i \<Rightarrow> Ok i | None \<Rightarrow> Err Out_of_range)"

definition SpecDef_name :: "impl_def \<Rightarrow> int \<Rightarrow> string result" where
  "SpecDef_name ns i = (if in_vec ns i then Ok (ns ! nat i) else Err Out_of_range)"

lemma ImplDef_index_bounds: "0 \<le> ImplDef_index ns s" "ImplDef_index ns s \<le> int (length ns)"
  by (induction ns) auto

lemma ImplDef_index_in: "s \<in> set ns \<Longrightarrow> ImplDef_index ns s < int (length ns)"
  by (induction ns) auto

lemma ImplDef_index_nth: "s \<in> set ns \<Longrightarrow> ns ! nat (ImplDef_index ns s) = s"
proof (induction ns)
  case Nil
  then show ?case by simp
next
  case (Cons n ns)
  have *: "nat (1 + ImplDef_index ns s) = Suc (nat (ImplDef_index ns s))"
    using ImplDef_index_bounds(1) [of ns s] by simp
  show ?case using Cons by (auto simp: *)
qed

lemma in_vec_ImplDef_index: "s \<in> set ns \<Longrightarrow> length xs = length ns \<Longrightarrow> in_vec xs (ImplDef_index ns s)"
  using ImplDef_index_bounds(1) ImplDef_index_in by (simp add: in_vec_def)

lemma SpecDef_fill_other: "s \<notin> set ns \<Longrightarrow> SpecDef_fill i ns m s = m s"
  by (induction ns arbitrary: i m) auto

lemma SpecDef_fill_distinct:
  "distinct ns \<Longrightarrow> s \<in> set ns \<Longrightarrow> SpecDef_fill i ns m s = Some (i + ImplDef_index ns s)"
  by (induction ns arbitrary: i m) (auto simp: SpecDef_fill_other)

text \<open>With distinct names, the run-time map and the compile-time search agree.\<close>

lemma SpecDef_id_eq:
  "distinct ns \<Longrightarrow>
   SpecDef_id ns s = (if s \<in> set ns then Ok (ImplDef_index ns s) else Err Out_of_range)"
  by (simp add: SpecDef_id_def SpecDef_fill_distinct SpecDef_fill_other)

subsection \<open>Look-up tables\<close>

text \<open>\<open>LUT\<close>: the table objects have static storage, so entries the initializer does not name
  are zero. A key or value name that does not exist ends the program before \<open>main\<close>.\<close>

definition ImplLUT :: "impl_def \<Rightarrow> impl_def \<Rightarrow> (string \<times> string) list \<Rightarrow> int list" where
  "ImplLUT keys vals tab =
     fold (\<lambda>(k, v) arr. arr[nat (ImplDef_index keys k) := ImplDef_index vals v]) tab
       (replicate (length keys) 0)"

definition ImplLUT_of :: "impl_def \<Rightarrow> 'v \<Rightarrow> (string \<times> 'v) list \<Rightarrow> 'v list" where
  "ImplLUT_of keys dflt tab =
     fold (\<lambda>(k, v) arr. arr[nat (ImplDef_index keys k) := v]) tab (replicate (length keys) dflt)"

text \<open>\<open>SpecLUT::operator()\<close>, by name and by id.\<close>

definition SpecLUT_named :: "impl_def \<Rightarrow> 'v list \<Rightarrow> string \<Rightarrow> 'v result" where
  "SpecLUT_named keys vals s = andThen (SpecDef_id keys s) (vec_at vals)"

definition SpecLUT_id :: "impl_def \<Rightarrow> 'v list \<Rightarrow> int \<Rightarrow> 'v result" where
  "SpecLUT_id keys vals i = (if in_vec keys i then vec_at vals i else Err Out_of_range)"

text \<open>Assignment through the reference the named access returns.\<close>

definition SpecLUT_set :: "impl_def \<Rightarrow> string \<Rightarrow> 'v \<Rightarrow> 'v list \<Rightarrow> 'v list result" where
  "SpecLUT_set keys s v vals = andThen (SpecDef_id keys s) (\<lambda>i. vec_put vals i v)"

subsection \<open>The data of a device\<close>

record Organization =
  density :: int
  dq :: int
  org_count :: "int list"

record DRAMCommandMeta =
  is_opening :: bool
  is_closing :: bool
  is_accessing :: bool
  is_refreshing :: bool

definition DRAMCommandMeta_default :: DRAMCommandMeta where
  "DRAMCommandMeta_default =
     \<lparr>is_opening = False, is_closing = False, is_accessing = False, is_refreshing = False\<rparr>"

record TimingConsEntry =
  tc_cmd :: int
  tc_val :: int
  tc_window :: int
  tc_sibling :: bool

text \<open>The constructor replaces a negative window by 0.\<close>

definition mk_TimingConsEntry :: "int \<Rightarrow> int \<Rightarrow> int \<Rightarrow> bool \<Rightarrow> TimingConsEntry" where
  "mk_TimingConsEntry c v w s =
     \<lparr>tc_cmd = c, tc_val = v, tc_window = (if w < 0 then 0 else w), tc_sibling = s\<rparr>"

record TimingConsInitializer =
  ts_level :: string
  ts_preceding :: "string list"
  ts_following :: "string list"
  ts_latency :: int
  ts_window :: int
  ts_is_sibling :: bool

type_synonym timing_cons = "TimingConsEntry list list list"

datatype action_fn =
    Bank_ACT | Bank_PRE | BankGroup_ACT4b | BankGroup_PRE4b
  | Rank_PREab | Rank_PREsb | Channel_ACTab | Channel_PREab

datatype preq_fn =
    Bank_RequireRowOpen | Bank_RequireBankClosed | Rank_RequireAllBanksClosed
  | Channel_RequireAllRowsOpen | Channel_RequireAllBanksClosed

record dram_spec =
  m_internal_prefetch_size :: int
  m_levels :: impl_def
  m_organization :: Organization
  m_channel_width :: int
  m_commands :: impl_def
  m_command_scopes :: "int list"
  m_command_meta :: "DRAMCommandMeta list"
  m_requests :: impl_def
  m_request_translations :: "int list"
  m_aim_requests :: impl_def
  m_aim_request_translations :: "int list"
  m_states :: impl_def
  m_init_states :: "int list"
  m_timings :: impl_def
  m_timing_vals :: "int list"
  m_timing_cons :: timing_cons
  m_read_latency :: int
  m_command_latencies :: "int list"
  m_actions :: "action_fn option list list"
  m_preqs :: "preq_fn option list list"

text \<open>\<open>T::m_levels[name]\<close>, \<open>T::m_commands[name]\<close>, \<open>T::m_states[name]\<close>\<close>

abbreviation level_id :: "dram_spec \<Rightarrow> string \<Rightarrow> int" where
  "level_id spec s \<equiv> ImplDef_index (m_levels spec) s"

abbreviation command_id :: "dram_spec \<Rightarrow> string \<Rightarrow> int" where
  "command_id spec s \<equiv> ImplDef_index (m_commands spec) s"

abbreviation state_id :: "dram_spec \<Rightarrow> string \<Rightarrow> int" where
  "state_id spec s \<equiv> ImplDef_index (m_states spec) s"

text \<open>\<open>IDRAM::get_level_size\<close> turns an unknown level into \<open>-1\<close>.\<close>

definition get_level_size :: "dram_spec \<Rightarrow> string \<Rightarrow> int result" where
  "get_level_size spec name =
     (case SpecDef_id (m_levels spec) name of
        Inl e \<Rightarrow> Ok (-1)
      | Inr i \<Rightarrow> vec_at (org_count (m_organization spec)) i)"

subsection \<open>Timing constraints\<close>

text \<open>\<open>m_timing_cons[level][cmd]\<close>\<close>

definition timing_at :: "timing_cons \<Rightarrow> int \<Rightarrow> int \<Rightarrow> TimingConsEntry list result" where
  "timing_at tcs lvl c = andThen (vec_at tcs lvl) (\<lambda>row. vec_at row c)"

definition push_timing :: "int \<Rightarrow> int \<Rightarrow> TimingConsEntry \<Rightarrow> timing_cons \<Rightarrow> timing_cons result" where
  "push_timing lvl p t tcs =
     andThen (vec_at tcs lvl) (\<lambda>row. andThen (vec_at row p) (\<lambda>es.
     andThen (vec_put row p (es @ [t])) (\<lambda>row'. vec_put tcs lvl row')))"

definition populate_following ::
  "impl_def \<Rightarrow> TimingConsInitializer \<Rightarrow> int \<Rightarrow> int \<Rightarrow> timing_cons \<Rightarrow> timing_cons result" where
  "populate_following commands ts lvl p =
     fold_result (\<lambda>f_str tcs. andThen (ImplDef_find commands f_str) (\<lambda>f.
       push_timing lvl p (mk_TimingConsEntry f (ts_latency ts) (ts_window ts) (ts_is_sibling ts)) tcs))
     (ts_following ts)"

definition populate_one ::
  "impl_def \<Rightarrow> impl_def \<Rightarrow> TimingConsInitializer \<Rightarrow> timing_cons \<Rightarrow> timing_cons result" where
  "populate_one levels commands ts tcs =
     andThen (ImplDef_find levels (ts_level ts)) (\<lambda>lvl.
       fold_result (\<lambda>p_str tcs. andThen (ImplDef_find commands p_str) (\<lambda>p.
         populate_following commands ts lvl p tcs)) (ts_preceding ts) tcs)"

definition populate_timingcons ::
  "impl_def \<Rightarrow> impl_def \<Rightarrow> TimingConsInitializer list \<Rightarrow> timing_cons result" where
  "populate_timingcons levels commands inits =
     fold_result (populate_one levels commands) inits
       (replicate (length levels) (replicate (length commands) []))"

text \<open>The constraints of a table as a set, and its shape.\<close>

definition tc_all :: "timing_cons \<Rightarrow> (int \<times> int \<times> TimingConsEntry) set" where
  "tc_all tcs = {(l, p, e). \<exists>es. timing_at tcs l p = Ok es \<and> e \<in> set es}"

definition tc_shape :: "nat \<Rightarrow> nat \<Rightarrow> timing_cons \<Rightarrow> bool" where
  "tc_shape nl nc tcs \<longleftrightarrow> length tcs = nl \<and> (\<forall>row \<in> set tcs. length row = nc)"

lemma tc_shape_row: "tc_shape nl nc tcs \<Longrightarrow> in_vec tcs l \<Longrightarrow> length (tcs ! nat l) = nc"
  by (auto simp: tc_shape_def in_vec_def)

lemma timing_at_shape:
  "tc_shape nl nc tcs \<Longrightarrow> 0 \<le> l \<Longrightarrow> l < int nl \<Longrightarrow> 0 \<le> p \<Longrightarrow> p < int nc \<Longrightarrow>
   timing_at tcs l p = Ok (tcs ! nat l ! nat p)"
proof -
  assume a: "tc_shape nl nc tcs" "0 \<le> l" "l < int nl" "0 \<le> p" "p < int nc"
  have l: "in_vec tcs l" using a by (simp add: tc_shape_def in_vec_def)
  then have "length (tcs ! nat l) = nc"
    using a(1) by (simp add: tc_shape_row)
  then have "in_vec (tcs ! nat l) p" using a by (simp add: in_vec_def)
  then show ?thesis using l by (simp add: timing_at_def vec_at_in)
qed

lemma push_timing_shape: "tc_shape nl nc tcs \<Longrightarrow> push_timing l p t tcs = Ok tcs' \<Longrightarrow> tc_shape nl nc tcs'"
  by (auto simp: push_timing_def tc_shape_def result_simps in_vec_nat dest!: set_update_subset_insert [THEN subsetD])

lemma push_timing_total:
  "tc_shape nl nc tcs \<Longrightarrow> 0 \<le> l \<Longrightarrow> l < int nl \<Longrightarrow> 0 \<le> p \<Longrightarrow> p < int nc \<Longrightarrow>
   \<exists>tcs'. push_timing l p t tcs = Ok tcs'"
proof -
  assume a: "tc_shape nl nc tcs" "0 \<le> l" "l < int nl" "0 \<le> p" "p < int nc"
  have l: "in_vec tcs l" using a by (simp add: tc_shape_def in_vec_def)
  then have "length (tcs ! nat l) = nc"
    using a(1) by (simp add: tc_shape_row)
  then have "in_vec (tcs ! nat l) p" using a by (simp add: in_vec_def)
  then show ?thesis using l by (simp add: push_timing_def vec_at_in vec_put_in)
qed

lemma push_timing_at:
  assumes "push_timing l p t tcs = Ok tcs'"
  shows "timing_at tcs l p = Ok (tcs ! nat l ! nat p)"
    and "timing_at tcs' i j =
      (if i = l \<and> j = p then Ok (tcs ! nat l ! nat p @ [t]) else timing_at tcs i j)"
proof -
  from assms have l: "in_vec tcs l" and p: "in_vec (tcs ! nat l) p"
    and t: "tcs' = tcs[nat l := (tcs ! nat l)[nat p := tcs ! nat l ! nat p @ [t]]]"
    by (auto simp: push_timing_def result_simps)
  show "timing_at tcs l p = Ok (tcs ! nat l ! nat p)"
    using l p by (simp add: timing_at_def vec_at_in)
  have row: "vec_at tcs' i =
      (if i = l then Ok ((tcs ! nat l)[nat p := tcs ! nat l ! nat p @ [t]]) else vec_at tcs i)"
    using l by (auto simp: vec_at_def t in_vec_def nth_list_update)
  have cell: "vec_at ((tcs ! nat l)[nat p := x]) k = (if k = p then Ok x else vec_at (tcs ! nat l) k)" for x k
    using p by (auto simp: vec_at_def in_vec_def nth_list_update)
  show "timing_at tcs' i j =
      (if i = l \<and> j = p then Ok (tcs ! nat l ! nat p @ [t]) else timing_at tcs i j)"
    using l by (simp add: timing_at_def row cell vec_at_in)
qed

lemma push_timing_all:
  assumes "push_timing l p t tcs = Ok tcs'"
  shows "tc_all tcs' = tc_all tcs \<union> {(l, p, t)}"
  unfolding tc_all_def using push_timing_at [OF assms] by (auto split: if_splits)

definition ts_items ::
  "impl_def \<Rightarrow> impl_def \<Rightarrow> TimingConsInitializer \<Rightarrow> (int \<times> int \<times> TimingConsEntry) set" where
  "ts_items levels commands ts =
     (\<Union>p \<in> set (ts_preceding ts). \<Union>f \<in> set (ts_following ts).
        {(ImplDef_index levels (ts_level ts), ImplDef_index commands p,
          mk_TimingConsEntry (ImplDef_index commands f) (ts_latency ts) (ts_window ts)
            (ts_is_sibling ts))})"

definition ts_names_ok :: "impl_def \<Rightarrow> impl_def \<Rightarrow> TimingConsInitializer \<Rightarrow> bool" where
  "ts_names_ok levels commands ts \<longleftrightarrow> ts_level ts \<in> set levels
     \<and> (\<forall>p \<in> set (ts_preceding ts). p \<in> set commands)
     \<and> (\<forall>f \<in> set (ts_following ts). f \<in> set commands)"

lemma populate_one_all:
  assumes "populate_one levels commands ts tcs = Ok tcs'"
  shows "tc_all tcs' = tc_all tcs \<union> ts_items levels commands ts"
proof -
  let ?e = "\<lambda>f. mk_TimingConsEntry (ImplDef_index commands f) (ts_latency ts) (ts_window ts) (ts_is_sibling ts)"
  have follow: "tc_all v = tc_all u \<union>
      (\<Union>f \<in> set (ts_following ts). {(l, p, ?e f)})"
    if "populate_following commands ts l p u = Ok v" for l p u v
    by (rule fold_result_collect [OF that [unfolded populate_following_def]])
      (auto simp: result_simps ImplDef_find_def push_timing_all)
  from assms have "fold_result (\<lambda>p_str tcs. andThen (ImplDef_find commands p_str) (\<lambda>p.
         populate_following commands ts (ImplDef_index levels (ts_level ts)) p tcs))
         (ts_preceding ts) tcs = Ok tcs'"
    by (auto simp: populate_one_def result_simps ImplDef_find_def)
  then have "tc_all tcs' = tc_all tcs \<union> (\<Union>p \<in> set (ts_preceding ts).
      (\<Union>f \<in> set (ts_following ts).
        {(ImplDef_index levels (ts_level ts), ImplDef_index commands p, ?e f)}))"
    by (rule fold_result_collect) (auto simp: result_simps ImplDef_find_def follow)
  then show ?thesis by (simp add: ts_items_def)
qed

text \<open>The table holds exactly what the initializers list.\<close>

lemma populate_timingcons_all:
  assumes "populate_timingcons levels commands inits = Ok tcs"
  shows "tc_all tcs = (\<Union>ts \<in> set inits. ts_items levels commands ts)"
proof -
  have "tc_all tcs = tc_all (replicate (length levels) (replicate (length commands) []))
      \<union> (\<Union>ts \<in> set inits. ts_items levels commands ts)"
    by (rule fold_result_collect [OF assms [unfolded populate_timingcons_def]])
      (auto simp: populate_one_all)
  moreover have "tc_all (replicate m (replicate k [])) = {}" for m k
    by (auto simp: tc_all_def timing_at_def result_simps in_vec_def)
  ultimately show ?thesis by simp
qed

lemma populate_one_total:
  assumes "tc_shape (length levels) (length commands) tcs" and "ts_names_ok levels commands ts"
  shows "\<exists>tcs'. populate_one levels commands ts tcs = Ok tcs'
           \<and> tc_shape (length levels) (length commands) tcs'"
proof -
  let ?I = "tc_shape (length levels) (length commands)"
  have idx: "0 \<le> ImplDef_index ns s \<and> ImplDef_index ns s < int (length ns)" if "s \<in> set ns" for ns s
    using ImplDef_index_bounds(1) ImplDef_index_in [OF that] by simp
  have follow: "\<exists>v. populate_following commands ts (ImplDef_index levels (ts_level ts)) (ImplDef_index commands p) u = Ok v \<and> ?I v"
    if u: "?I u" and p: "p \<in> set commands" for u p
    unfolding populate_following_def
  proof (rule fold_result_total [where I = ?I, OF u])
    fix f w assume f: "f \<in> set (ts_following ts)" and w: "?I w"
    have f': "f \<in> set commands" using f assms(2) by (simp add: ts_names_ok_def)
    obtain v where "push_timing (ImplDef_index levels (ts_level ts)) (ImplDef_index commands p)
        (mk_TimingConsEntry (ImplDef_index commands f) (ts_latency ts) (ts_window ts) (ts_is_sibling ts)) w = Ok v"
      using push_timing_total [OF w] idx [OF p] idx [of "ts_level ts" levels] assms(2)
      by (metis ts_names_ok_def)
    then show "\<exists>v. andThen (ImplDef_find commands f) (\<lambda>f. push_timing (ImplDef_index levels (ts_level ts))
        (ImplDef_index commands p) (mk_TimingConsEntry f (ts_latency ts) (ts_window ts) (ts_is_sibling ts)) w) = Ok v \<and> ?I v"
      using push_timing_shape [OF w] f' by (simp add: ImplDef_find_def)
  qed
  show ?thesis
    using assms(2) unfolding populate_one_def ts_names_ok_def
    by (auto simp: ImplDef_find_def intro!: fold_result_total [where I = ?I, OF assms(1)] follow)
qed

lemma populate_timingcons_total:
  assumes "\<forall>ts \<in> set inits. ts_names_ok levels commands ts"
  shows "\<exists>tcs. populate_timingcons levels commands inits = Ok tcs
           \<and> tc_shape (length levels) (length commands) tcs"
  unfolding populate_timingcons_def
proof (rule fold_result_total)
  show "tc_shape (length levels) (length commands)
          (replicate (length levels) (replicate (length commands) []))"
    by (simp add: tc_shape_def)
qed (simp add: populate_one_total assms)

end
