(* ===== verification/GDDR6_Spec.thy ===== *)
theory GDDR6_Spec
  imports Dram_Spec
begin

text \<open>
  \<^verbatim>\<open>src/src/dram/impl/GDDR6.cpp\<close>, the tables: organization and timing presets, levels,
  commands with their scopes and metadata, request translations, timings, states, and the
  timing constraints handed to \<open>populate_timingcons\<close>, written over \<open>V\<close>, the value of a named
  timing (the macro \<open>V\<close> of the source).
\<close>

subsection \<open>Presets\<close>

definition GDDR6_org_presets :: "(string \<times> Organization) list" where
  "GDDR6_org_presets =
    [(''GDDR6_8Gb_x8'', \<lparr>density = 8192, dq = 8, org_count = [2, 4, 4, 16384, 2048]\<rparr>),
     (''GDDR6_8Gb_x16'', \<lparr>density = 8192, dq = 16, org_count = [2, 4, 4, 16384, 1024]\<rparr>),
     (''GDDR6_16Gb_x8'', \<lparr>density = 16384, dq = 8, org_count = [2, 4, 4, 32768, 2048]\<rparr>),
     (''GDDR6_16Gb_x16'', \<lparr>density = 16384, dq = 16, org_count = [2, 4, 4, 16384, 2048]\<rparr>),
     (''GDDR6_32Gb_x8'', \<lparr>density = 32768, dq = 8, org_count = [2, 4, 4, 65536, 2048]\<rparr>),
     (''GDDR6_32Gb_x16'', \<lparr>density = 32768, dq = 16, org_count = [2, 4, 4, 32768, 2048]\<rparr>),
     (''GDDR6_AiM_org'', \<lparr>density = 131072, dq = 16, org_count = [32, 4, 4, 16384, 1024]\<rparr>)]"

definition GDDR6_timing_2000_1350mV_double :: "int list" where
  "GDDR6_timing_2000_1350mV_double =
    [
     2000, 8, 24, 26, 26, 26, 26, 30, 16, 16, 26, 53, 79, 26, 4, 6, 4, 6, 7, 7, 9, 11, 28, 210,
     105, 14, 3333, 0, 1, 1, 1, 1, 32, 570
    ]"

definition GDDR6_timing_2000_1250mV_double :: "int list" where
  "GDDR6_timing_2000_1250mV_double =
    [
     2000, 8, 24, 30, 30, 30, 30, 30, 19, 19, 30, 60, 89, 30, 4, 6, 4, 6, 11, 11, 9, 11, 42,
     210, 105, 21, 3333, 0, 1, 1, 1, 1, 32, 570
    ]"

definition GDDR6_timing_2000_1350mV_quad :: "int list" where
  "GDDR6_timing_2000_1350mV_quad =
    [
     2000, 4, 24, 26, 26, 26, 26, 30, 16, 16, 26, 53, 79, 26, 4, 6, 4, 6, 7, 7, 9, 11, 28, 210,
     105, 14, 3333, 0, 1, 1, 1, 1, 32, 570
    ]"

definition GDDR6_timing_2000_1250mV_quad :: "int list" where
  "GDDR6_timing_2000_1250mV_quad =
    [
     2000, 4, 24, 30, 30, 30, 30, 30, 19, 19, 30, 60, 89, 30, 4, 6, 4, 6, 11, 11, 9, 11, 42,
     210, 105, 21, 3333, 0, 1, 1, 1, 1, 32, 570
    ]"

definition GDDR6_timing_AiM_timing :: "int list" where
  "GDDR6_timing_AiM_timing =
    [
     2000, 2, 50, 36, 56, 25, 86, 66, 28, 48, 32, 54, 89, 33, 12, 6, 2, 2, 11, 11, 9, 11, 42,
     210, 105, 21, 3333, 0, 1, 1, 1, 1, 32, 500
    ]"

definition GDDR6_timing_presets :: "(string \<times> int list) list" where
  "GDDR6_timing_presets =
    [(''GDDR6_2000_1350mV_double'', GDDR6_timing_2000_1350mV_double),
     (''GDDR6_2000_1250mV_double'', GDDR6_timing_2000_1250mV_double),
     (''GDDR6_2000_1350mV_quad'', GDDR6_timing_2000_1350mV_quad),
     (''GDDR6_2000_1250mV_quad'', GDDR6_timing_2000_1250mV_quad),
     (''GDDR6_AiM_timing'', GDDR6_timing_AiM_timing)]"

subsection \<open>Levels, commands, requests, timings and states\<close>

definition mk_meta :: "bool \<Rightarrow> bool \<Rightarrow> bool \<Rightarrow> bool \<Rightarrow> DRAMCommandMeta" where
  "mk_meta opening closing accessing refreshing =
     \<lparr>is_opening = opening, is_closing = closing, is_accessing = accessing,
      is_refreshing = refreshing\<rparr>"

definition GDDR6_levels :: "impl_def" where
  "GDDR6_levels =
    [
     ''channel'', ''bankgroup'', ''bank'', ''row'', ''column''
    ]"

definition GDDR6_commands :: "impl_def" where
  "GDDR6_commands =
    [
     ''ACT'', ''PREA'', ''PRE'', ''RD'', ''WR'', ''RDA'', ''WRA'', ''REFab'', ''REFpb'',
     ''ACT4'', ''ACT16'', ''PRE4'', ''MAC'', ''MAC16'', ''AF16'', ''EWMUL16'', ''RDCP'',
     ''WRCP'', ''WRGB'', ''RDMAC16'', ''RDAF16'', ''WRMAC16'', ''WRA16'', ''TMOD'', ''SYNC'',
     ''EOC'', ''UNKNOWN''
    ]"

definition GDDR6_command_scopes :: "int list" where
  "GDDR6_command_scopes =
    ImplLUT GDDR6_commands GDDR6_levels
    [
     (''REFab'', ''channel''), (''REFpb'', ''bank''), (''ACT16'', ''channel''),
     (''ACT4'', ''bankgroup''), (''ACT'', ''row''), (''PREA'', ''channel''),
     (''PRE4'', ''bankgroup''), (''PRE'', ''bank''), (''RD'', ''column''),
     (''WR'', ''column''), (''RDA'', ''column''), (''WRA'', ''column''), (''MAC'', ''column''),
     (''MAC16'', ''channel''), (''AF16'', ''channel''), (''EWMUL16'', ''channel''),
     (''RDCP'', ''column''), (''WRCP'', ''column''), (''WRGB'', ''channel''),
     (''RDMAC16'', ''channel''), (''RDAF16'', ''channel''), (''WRMAC16'', ''channel''),
     (''WRA16'', ''channel''), (''TMOD'', ''channel''), (''SYNC'', ''channel''),
     (''EOC'', ''channel'')
    ]"

definition GDDR6_command_meta :: "DRAMCommandMeta list" where
  "GDDR6_command_meta =
    ImplLUT_of GDDR6_commands DRAMCommandMeta_default
    [
     (''ACT'', mk_meta True False False False), (''PREA'', mk_meta False True False False),
     (''PRE'', mk_meta False True False False), (''RD'', mk_meta False False True False),
     (''WR'', mk_meta False False True False), (''RDA'', mk_meta False True True False),
     (''WRA'', mk_meta False True True False), (''REFab'', mk_meta False False False True),
     (''REFpb'', mk_meta False False False True), (''ACT4'', mk_meta True False False False),
     (''ACT16'', mk_meta True False False False), (''PRE4'', mk_meta False True False False),
     (''MAC'', mk_meta False False True False), (''MAC16'', mk_meta False False True False),
     (''AF16'', mk_meta False False False False),
     (''EWMUL16'', mk_meta False False True False), (''RDCP'', mk_meta False False True False),
     (''WRCP'', mk_meta False False True False), (''WRGB'', mk_meta False False False False),
     (''RDMAC16'', mk_meta False False False False),
     (''RDAF16'', mk_meta False False False False),
     (''WRMAC16'', mk_meta False False False False),
     (''WRA16'', mk_meta False True True False), (''TMOD'', mk_meta False False False False),
     (''SYNC'', mk_meta False False False False), (''EOC'', mk_meta False False False False)
    ]"

definition GDDR6_requests :: "impl_def" where
  "GDDR6_requests =
    [
     ''read'', ''write'', ''all-bank-refresh'', ''PREsb''
    ]"

definition GDDR6_aim_requests :: "impl_def" where
  "GDDR6_aim_requests =
    [
     ''MIN'', ''ISR_WR_SBK'', ''ISR_WR_GB'', ''ISR_WR_BIAS'', ''ISR_WR_AFLUT'', ''ISR_RD_MAC'',
     ''ISR_RD_AF'', ''ISR_RD_SBK'', ''ISR_COPY_BKGB'', ''ISR_COPY_GBBK'', ''ISR_MAC_SBK'',
     ''ISR_MAC_ABK'', ''ISR_AF'', ''ISR_EWMUL'', ''ISR_EWADD'', ''ISR_WR_ABK'', ''ISR_SYNC'',
     ''ISR_EOC'', ''MAX''
    ]"

definition GDDR6_request_translations :: "int list" where
  "GDDR6_request_translations =
    ImplLUT GDDR6_requests GDDR6_commands
    [
     (''read'', ''RD''), (''write'', ''WR''), (''all-bank-refresh'', ''REFab''),
     (''PREsb'', ''PRE'')
    ]"

definition GDDR6_aim_request_translations :: "int list" where
  "GDDR6_aim_request_translations =
    ImplLUT GDDR6_aim_requests GDDR6_commands
    [
     (''MIN'', ''UNKNOWN''), (''ISR_WR_SBK'', ''WR''), (''ISR_WR_GB'', ''WRGB''),
     (''ISR_WR_BIAS'', ''WRMAC16''), (''ISR_WR_AFLUT'', ''UNKNOWN''),
     (''ISR_RD_MAC'', ''RDMAC16''), (''ISR_RD_AF'', ''RDAF16''), (''ISR_RD_SBK'', ''RD''),
     (''ISR_COPY_BKGB'', ''RDCP''), (''ISR_COPY_GBBK'', ''WRCP''), (''ISR_MAC_SBK'', ''MAC''),
     (''ISR_MAC_ABK'', ''MAC16''), (''ISR_AF'', ''AF16''), (''ISR_EWMUL'', ''EWMUL16''),
     (''ISR_EWADD'', ''UNKNOWN''), (''ISR_WR_ABK'', ''WRA16''), (''ISR_SYNC'', ''SYNC''),
     (''ISR_EOC'', ''EOC''), (''MAX'', ''UNKNOWN'')
    ]"

definition GDDR6_timings :: "impl_def" where
  "GDDR6_timings =
    [
     ''rate'', ''nBL'', ''nCL'', ''nRCDRD'', ''nRCDRDMAC'', ''nRCDEWMUL'', ''nRCDRDAF'',
     ''nRCDRDCP'', ''nRCDWR'', ''nRCDWRCP'', ''nRP'', ''nRAS'', ''nRC'', ''nWR'', ''nRTP'',
     ''nCWL'', ''nCCDS'', ''nCCDL'', ''nRRDS'', ''nRRDL'', ''nWTRS'', ''nWTRL'', ''nFAW'',
     ''nRFC'', ''nREFI'', ''nRREFD'', ''nRFCpb'', ''nCLREG'', ''nCLGB'', ''nCWLREG'',
     ''nCWLGB'', ''nWPRE'', ''nMODCH'', ''tCK_ps''
    ]"

definition GDDR6_states :: "impl_def" where
  "GDDR6_states =
    [
     ''Opened'', ''Closed'', ''PowerUp'', ''N/A''
    ]"

definition GDDR6_init_states :: "int list" where
  "GDDR6_init_states =
    ImplLUT GDDR6_levels GDDR6_states
    [
     (''channel'', ''N/A''), (''bankgroup'', ''N/A''), (''bank'', ''Closed''),
     (''row'', ''Closed''), (''column'', ''N/A'')
    ]"

subsection \<open>Timing constraints\<close>

text \<open>An initializer that gives neither a window nor the sibling flag.\<close>

definition mk_ts :: "string \<Rightarrow> string list \<Rightarrow> string list \<Rightarrow> int \<Rightarrow> TimingConsInitializer" where
  "mk_ts level pre fol lat =
     \<lparr>ts_level = level, ts_preceding = pre, ts_following = fol, ts_latency = lat,
      ts_window = 1, ts_is_sibling = False\<rparr>"

text \<open>Channel, CAS to CAS.\<close>

definition GDDR6_cons_channel_CAS :: "(string \<Rightarrow> int) \<Rightarrow> TimingConsInitializer list" where
  "GDDR6_cons_channel_CAS V =
    [mk_ts ''channel'' [''RD'', ''RDA'', ''RDMAC16'', ''RDAF16'']
        [''RD'', ''RDA'', ''RDMAC16'', ''RDAF16'']
        (V ''nBL''),
     mk_ts ''channel'' [''WR'', ''WRA'', ''WRA16'', ''WRGB'', ''WRMAC16'']
        [''WR'', ''WRA'', ''WRA16'', ''WRGB'', ''WRMAC16'']
        (V ''nBL''),
     mk_ts ''channel'' [''RD'', ''RDA'', ''MAC'', ''MAC16'', ''RDCP'', ''RDMAC16'', ''RDAF16'']
        [''RD'', ''RDA'', ''MAC'', ''MAC16'', ''RDCP'', ''RDMAC16'', ''RDAF16'']
        (V ''nCCDS''),
     mk_ts ''channel'' [''WR'', ''WRA'', ''WRA16'', ''WRGB'', ''WRCP'', ''WRMAC16'']
        [''WR'', ''WRA'', ''WRA16'', ''WRGB'', ''WRCP'', ''WRMAC16'']
        (V ''nCCDS''),
     mk_ts ''channel'' [''RD'', ''RDA'', ''MAC'', ''RDCP'', ''RDMAC16'', ''RDAF16'', ''MAC16'', ''EWMUL16'']
        [''RDMAC16'', ''RDAF16'', ''MAC16'', ''EWMUL16'']
        (V ''nCCDL''),
     mk_ts ''channel'' [''RDMAC16'', ''RDAF16'', ''MAC16'', ''EWMUL16'']
        [''RD'', ''RDA'', ''MAC'', ''RDCP'', ''RDMAC16'', ''RDAF16'', ''MAC16'', ''EWMUL16'']
        (V ''nCCDL''),
     mk_ts ''channel'' [''WR'', ''WRA'', ''WRCP'', ''WRA16'', ''WRMAC16'', ''EWMUL16'']
        [''WRA16'', ''WRMAC16'', ''EWMUL16'']
        (V ''nCCDL''),
     mk_ts ''channel'' [''WRA16'', ''WRMAC16'', ''EWMUL16'']
        [''WR'', ''WRA'', ''WRCP'', ''WRA16'', ''WRMAC16'', ''EWMUL16'']
        (V ''nCCDL''),
     mk_ts ''channel'' [''RD'', ''RDA'']
        [''WR'', ''WRA'']
        (V ''nCL'' + V ''nBL'' + 3 - V ''nCWL'' + V ''nWPRE''),
     mk_ts ''channel'' [''RD'', ''RDA'']
        [''WRA16'']
        (V ''nCL'' + V ''nBL'' + 3 - V ''nCWL'' + V ''nWPRE''),
     mk_ts ''channel'' [''RDMAC16'', ''RDAF16'']
        [''WR'', ''WRA'']
        (V ''nCLREG'' + V ''nBL'' + 3 - V ''nCWL'' + V ''nWPRE''),
     mk_ts ''channel'' [''RDMAC16'', ''RDAF16'']
        [''WRA16'']
        (V ''nCLREG'' + V ''nBL'' + 3 - V ''nCWL'' + V ''nWPRE''),
     mk_ts ''channel'' [''RD'', ''RDA'']
        [''WRGB'']
        (V ''nCL'' + V ''nBL'' + 3 - V ''nCWLGB'' + V ''nWPRE''),
     mk_ts ''channel'' [''RD'', ''RDA'']
        [''WRMAC16'']
        (V ''nCL'' + V ''nBL'' + 3 - V ''nCWLREG'' + V ''nWPRE''),
     mk_ts ''channel'' [''RDMAC16'', ''RDAF16'']
        [''WRGB'']
        (V ''nCLREG'' + V ''nBL'' + 3 - V ''nCWLGB'' + V ''nWPRE''),
     mk_ts ''channel'' [''RDMAC16'', ''RDAF16'']
        [''WRMAC16'']
        (V ''nCLREG'' + V ''nBL'' + 3 - V ''nCWLREG'' + V ''nWPRE''),
     mk_ts ''channel'' [''WR'', ''WRA'']
        [''RD'', ''RDA'', ''RDMAC16'', ''RDAF16'']
        (V ''nCWL'' + V ''nBL'' + V ''nWTRS''),
     mk_ts ''channel'' [''WRA16'']
        [''RD'', ''RDA'', ''RDMAC16'', ''RDAF16'']
        (V ''nCWL'' + V ''nBL'' + V ''nWTRS''),
     mk_ts ''channel'' [''WRGB'']
        [''RD'', ''RDA'', ''RDMAC16'', ''RDAF16'']
        (V ''nCWLGB'' + V ''nBL'' + V ''nWTRS''),
     mk_ts ''channel'' [''WRMAC16'']
        [''RD'', ''RDA'', ''RDMAC16'', ''RDAF16'']
        (V ''nCWLREG'' + V ''nBL'' + V ''nWTRS''),
     mk_ts ''channel'' [''WR'', ''WRA'']
        [''RDMAC16'', ''RDAF16'']
        (V ''nCWL'' + V ''nBL'' + V ''nWTRL''),
     mk_ts ''channel'' [''WRA16'']
        [''RD'', ''RDA'', ''RDMAC16'', ''RDAF16'']
        (V ''nCWL'' + V ''nBL'' + V ''nWTRL''),
     mk_ts ''channel'' [''WRMAC16'']
        [''RD'', ''RDA'', ''RDMAC16'', ''RDAF16'']
        (V ''nCWLREG'' + V ''nBL'' + V ''nWTRL'')]"

text \<open>Channel, CAS and RAS to RAS.\<close>

definition GDDR6_cons_channel_RAS :: "(string \<Rightarrow> int) \<Rightarrow> TimingConsInitializer list" where
  "GDDR6_cons_channel_RAS V =
    [mk_ts ''channel'' [''RD'', ''RDCP'', ''MAC'', ''MAC16'', ''AF16'', ''EWMUL16'']
        [''PREA'']
        (V ''nRTP''),
     mk_ts ''channel'' [''MAC16'', ''AF16'', ''EWMUL16''] [''PRE'', ''PRE4''] (V ''nRTP''),
     mk_ts ''channel'' [''WR'', ''WRCP''] [''PREA''] (V ''nCWL'' + V ''nBL'' + V ''nWR''),
     mk_ts ''channel'' [''EWMUL16''] [''PRE'', ''PRE4'', ''PREA''] (V ''nCWL'' + V ''nWR''),
     mk_ts ''channel'' [''ACT'', ''ACT4''] [''ACT'', ''ACT4''] (V ''nRRDS''),
     mk_ts ''channel'' [''ACT'', ''ACT4'', ''ACT16''] [''ACT16''] (V ''nRRDL''),
     mk_ts ''channel'' [''ACT16''] [''ACT'', ''ACT4'', ''ACT16''] (V ''nRRDL''),
     mk_ts ''channel'' [''ACT'', ''ACT4'', ''ACT16''] [''ACT16''] (V ''nRC''),
     mk_ts ''channel'' [''ACT16''] [''ACT'', ''ACT4'', ''ACT16''] (V ''nRC''),
     mk_ts ''channel'' [''ACT'', ''ACT4'', ''ACT16''] [''PREA''] (V ''nRAS''),
     mk_ts ''channel'' [''ACT16''] [''PRE'', ''PRE4''] (V ''nRAS''),
     mk_ts ''channel'' [''PRE'', ''PRE4'', ''PREA''] [''ACT16''] (V ''nRP''),
     mk_ts ''channel'' [''PREA''] [''ACT'', ''ACT4'', ''ACT16''] (V ''nRP''),
     mk_ts ''channel'' [''ACT'', ''ACT4'', ''ACT16''] [''MAC16''] (V ''nRCDRDMAC''),
     mk_ts ''channel'' [''ACT'', ''ACT4'', ''ACT16''] [''AF16''] (V ''nRCDRDAF''),
     mk_ts ''channel'' [''ACT'', ''ACT4'', ''ACT16''] [''EWMUL16''] (V ''nRCDEWMUL''),
     mk_ts ''channel'' [''ACT16''] [''MAC''] (V ''nRCDRDMAC''),
     mk_ts ''channel'' [''ACT16''] [''RDCP''] (V ''nRCDRDCP''),
     mk_ts ''channel'' [''ACT16''] [''RD'', ''RDA''] (V ''nRCDRD''),
     mk_ts ''channel'' [''ACT'', ''ACT4'', ''ACT16''] [''WRA16''] (V ''nRCDWR''),
     mk_ts ''channel'' [''ACT16''] [''WRCP''] (V ''nRCDWRCP''),
     mk_ts ''channel'' [''ACT16''] [''WR'', ''WRA''] (V ''nRCDWR''),
     mk_ts ''channel'' [''RDA''] [''ACT16''] (V ''nRTP'' + V ''nRP''),
     mk_ts ''channel'' [''WRA''] [''ACT16''] (V ''nCWL'' + V ''nBL'' + V ''nWR'' + V ''nRP''),
     mk_ts ''channel'' [''WRA16'']
        [''ACT'', ''ACT4'', ''ACT16'']
        (V ''nCWL'' + V ''nBL'' + V ''nWR'' + V ''nRP'')]"

text \<open>Channel, refresh and register mode.\<close>

definition GDDR6_cons_channel_REF :: "(string \<Rightarrow> int) \<Rightarrow> TimingConsInitializer list" where
  "GDDR6_cons_channel_REF V =
    [mk_ts ''channel'' [''ACT'', ''ACT4'', ''ACT16''] [''REFab''] (V ''nRC''),
     mk_ts ''channel'' [''PRE'', ''PRE4'', ''PREA''] [''REFab''] (V ''nRP''),
     mk_ts ''channel'' [''RDA''] [''REFab''] (V ''nRTP'' + V ''nRP''),
     mk_ts ''channel'' [''WRA''] [''REFab''] (V ''nCWL'' + V ''nBL'' + V ''nWR'' + V ''nRP''),
     mk_ts ''channel'' [''WRA16'']
        [''REFpb'', ''REFab'']
        (V ''nCWL'' + V ''nBL'' + V ''nWR'' + V ''nRP''),
     mk_ts ''channel'' [''REFab''] [''ACT'', ''ACT4'', ''ACT16''] (V ''nRFC''),
     mk_ts ''channel'' [''ACT'', ''ACT4'', ''ACT16''] [''REFpb''] (V ''nRRDL''),
     mk_ts ''channel'' [''ACT16''] [''REFpb''] (V ''nRC''),
     mk_ts ''channel'' [''PREA''] [''REFpb''] (V ''nRP''),
     mk_ts ''channel'' [''REFpb''] [''ACT16''] (V ''nRFCpb''),
     mk_ts ''channel'' [''REFpb''] [''ACT'', ''ACT4'', ''ACT16''] (V ''nRREFD''),
     mk_ts ''channel'' [''PREA''] [''PRE'', ''PRE4'', ''PREA''] (V ''nRP''),
     mk_ts ''channel'' [''PRE'', ''PRE4''] [''PREA''] (V ''nRP''),
     mk_ts ''channel'' [''TMOD'']
        [''ACT'', ''PREA'', ''PRE'', ''RD'', ''WR'', ''RDA'', ''WRA'', ''REFab'', ''REFpb'', ''ACT4'', ''ACT16'', ''PRE4'', ''MAC'', ''MAC16'', ''AF16'', ''EWMUL16'', ''RDCP'', ''WRCP'', ''WRGB'', ''RDMAC16'', ''RDAF16'', ''WRMAC16'', ''WRA16'', ''SYNC'', ''EOC'']
        (V ''nMODCH'')]"

text \<open>Bank group.\<close>

definition GDDR6_cons_bankgroup :: "(string \<Rightarrow> int) \<Rightarrow> TimingConsInitializer list" where
  "GDDR6_cons_bankgroup V =
    [mk_ts ''bankgroup'' [''RD'', ''RDA'', ''MAC'', ''RDCP'']
        [''RD'', ''RDA'', ''MAC'', ''RDCP'']
        (V ''nCCDL''),
     mk_ts ''bankgroup'' [''WR'', ''WRA'', ''WRCP''] [''WR'', ''WRA'', ''WRCP''] (V ''nCCDL''),
     mk_ts ''bankgroup'' [''WR'', ''WRA'']
        [''RD'', ''RDA'']
        (V ''nCWL'' + V ''nBL'' + V ''nWTRL''),
     mk_ts ''bankgroup'' [''RD'', ''RDCP'', ''MAC''] [''PRE4''] (V ''nRTP''),
     mk_ts ''bankgroup'' [''WR'', ''WRCP''] [''PRE4''] (V ''nCWL'' + V ''nBL'' + V ''nWR''),
     mk_ts ''bankgroup'' [''ACT'', ''ACT4''] [''ACT'', ''ACT4''] (V ''nRRDL''),
     mk_ts ''bankgroup'' [''ACT'', ''ACT4''] [''ACT4''] (V ''nRC''),
     mk_ts ''bankgroup'' [''ACT4''] [''ACT'', ''ACT4''] (V ''nRC''),
     mk_ts ''bankgroup'' [''ACT'', ''ACT4''] [''PRE4''] (V ''nRAS''),
     mk_ts ''bankgroup'' [''ACT4''] [''PRE''] (V ''nRAS''),
     mk_ts ''bankgroup'' [''PRE'', ''PRE4''] [''ACT4''] (V ''nRP''),
     mk_ts ''bankgroup'' [''PRE4''] [''ACT''] (V ''nRP''),
     mk_ts ''bankgroup'' [''RDA''] [''ACT4''] (V ''nRTP'' + V ''nRP''),
     mk_ts ''bankgroup'' [''WRA''] [''ACT4''] (V ''nCWL'' + V ''nBL'' + V ''nWR'' + V ''nRP''),
     mk_ts ''bankgroup'' [''ACT4''] [''REFpb''] (V ''nRC''),
     mk_ts ''bankgroup'' [''PRE4''] [''REFpb''] (V ''nRP''),
     mk_ts ''bankgroup'' [''REFpb''] [''ACT4''] (V ''nRFCpb''),
     mk_ts ''bankgroup'' [''ACT4''] [''MAC''] (V ''nRCDRDMAC''),
     mk_ts ''bankgroup'' [''ACT4''] [''RDCP''] (V ''nRCDRDCP''),
     mk_ts ''bankgroup'' [''ACT4''] [''RD'', ''RDA''] (V ''nRCDRD''),
     mk_ts ''bankgroup'' [''ACT4''] [''WRCP''] (V ''nRCDWRCP''),
     mk_ts ''bankgroup'' [''ACT4''] [''WR'', ''WRA''] (V ''nRCDWR''),
     mk_ts ''channel'' [''PRE4''] [''PRE'', ''PRE4''] (V ''nRP''),
     mk_ts ''channel'' [''PRE''] [''PRE4''] (V ''nRP'')]"

text \<open>Bank.\<close>

definition GDDR6_cons_bank :: "(string \<Rightarrow> int) \<Rightarrow> TimingConsInitializer list" where
  "GDDR6_cons_bank V =
    [mk_ts ''bank'' [''ACT''] [''MAC''] (V ''nRCDRDMAC''),
     mk_ts ''bank'' [''ACT''] [''RDCP''] (V ''nRCDRDCP''),
     mk_ts ''bank'' [''ACT''] [''RD'', ''RDA''] (V ''nRCDRD''),
     mk_ts ''bank'' [''ACT''] [''WRCP''] (V ''nRCDWRCP''),
     mk_ts ''bank'' [''ACT''] [''WR'', ''WRA''] (V ''nRCDWR''),
     mk_ts ''bank'' [''RD'', ''RDCP'', ''MAC''] [''PRE''] (V ''nRTP''),
     mk_ts ''bank'' [''WR'', ''WRCP''] [''PRE''] (V ''nCWL'' + V ''nBL'' + V ''nWR''),
     mk_ts ''bank'' [''ACT''] [''ACT''] (V ''nRC''),
     mk_ts ''bank'' [''ACT''] [''PRE''] (V ''nRAS''),
     mk_ts ''bank'' [''PRE''] [''ACT''] (V ''nRP''),
     mk_ts ''bank'' [''PRE''] [''PRE''] (V ''nRP''),
     mk_ts ''bank'' [''RDA''] [''ACT''] (V ''nRTP'' + V ''nRP''),
     mk_ts ''bank'' [''WRA''] [''ACT''] (V ''nCWL'' + V ''nBL'' + V ''nWR'' + V ''nRP''),
     mk_ts ''bank'' [''ACT''] [''REFpb''] (V ''nRC''),
     mk_ts ''bank'' [''PRE''] [''REFpb''] (V ''nRP''),
     mk_ts ''bank'' [''RDA''] [''REFpb''] (V ''nRTP'' + V ''nRP''),
     mk_ts ''bank'' [''WRA''] [''REFpb''] (V ''nCWL'' + V ''nBL'' + V ''nWR'' + V ''nRP''),
     mk_ts ''bank'' [''REFpb''] [''ACT''] (V ''nRFCpb'')]"

definition GDDR6_timing_constraints :: "(string \<Rightarrow> int) \<Rightarrow> TimingConsInitializer list" where
  "GDDR6_timing_constraints V =
    GDDR6_cons_channel_CAS V @ GDDR6_cons_channel_RAS V @ GDDR6_cons_channel_REF V @ GDDR6_cons_bankgroup V @ GDDR6_cons_bank V"

subsection \<open>The tables evaluated\<close>

lemma GDDR6_level_ids [simp]:
  "ImplDef_index GDDR6_levels ''channel'' = 0"
  "ImplDef_index GDDR6_levels ''bankgroup'' = 1"
  "ImplDef_index GDDR6_levels ''bank'' = 2"
  "ImplDef_index GDDR6_levels ''row'' = 3"
  "ImplDef_index GDDR6_levels ''column'' = 4"
  by (simp_all add: GDDR6_levels_def)

lemma GDDR6_state_ids [simp]:
  "ImplDef_index GDDR6_states ''Opened'' = 0"
  "ImplDef_index GDDR6_states ''Closed'' = 1"
  "ImplDef_index GDDR6_states ''PowerUp'' = 2"
  "ImplDef_index GDDR6_states ''N/A'' = 3"
  by (simp_all add: GDDR6_states_def)

lemma GDDR6_command_ids [simp]:
  "ImplDef_index GDDR6_commands ''ACT'' = 0"
  "ImplDef_index GDDR6_commands ''PREA'' = 1"
  "ImplDef_index GDDR6_commands ''PRE'' = 2"
  "ImplDef_index GDDR6_commands ''RD'' = 3"
  "ImplDef_index GDDR6_commands ''WR'' = 4"
  "ImplDef_index GDDR6_commands ''RDA'' = 5"
  "ImplDef_index GDDR6_commands ''WRA'' = 6"
  "ImplDef_index GDDR6_commands ''REFab'' = 7"
  "ImplDef_index GDDR6_commands ''REFpb'' = 8"
  "ImplDef_index GDDR6_commands ''ACT4'' = 9"
  "ImplDef_index GDDR6_commands ''ACT16'' = 10"
  "ImplDef_index GDDR6_commands ''PRE4'' = 11"
  "ImplDef_index GDDR6_commands ''MAC'' = 12"
  "ImplDef_index GDDR6_commands ''MAC16'' = 13"
  "ImplDef_index GDDR6_commands ''AF16'' = 14"
  "ImplDef_index GDDR6_commands ''EWMUL16'' = 15"
  "ImplDef_index GDDR6_commands ''RDCP'' = 16"
  "ImplDef_index GDDR6_commands ''WRCP'' = 17"
  "ImplDef_index GDDR6_commands ''WRGB'' = 18"
  "ImplDef_index GDDR6_commands ''RDMAC16'' = 19"
  "ImplDef_index GDDR6_commands ''RDAF16'' = 20"
  "ImplDef_index GDDR6_commands ''WRMAC16'' = 21"
  "ImplDef_index GDDR6_commands ''WRA16'' = 22"
  "ImplDef_index GDDR6_commands ''TMOD'' = 23"
  "ImplDef_index GDDR6_commands ''SYNC'' = 24"
  "ImplDef_index GDDR6_commands ''EOC'' = 25"
  "ImplDef_index GDDR6_commands ''UNKNOWN'' = 26"
  by (simp_all add: GDDR6_commands_def)

lemma GDDR6_lengths [simp]:
  "length GDDR6_levels = 5" "length GDDR6_commands = 27" "length GDDR6_states = 4"
  "length GDDR6_timings = 34" "length GDDR6_requests = 4" "length GDDR6_aim_requests = 19"
  by (simp_all add: GDDR6_levels_def GDDR6_commands_def GDDR6_states_def GDDR6_timings_def
      GDDR6_requests_def GDDR6_aim_requests_def)

lemma GDDR6_command_mem [simp]:
  "''ACT'' \<in> set GDDR6_commands"
  "''PREA'' \<in> set GDDR6_commands"
  "''PRE'' \<in> set GDDR6_commands"
  "''RD'' \<in> set GDDR6_commands"
  "''WR'' \<in> set GDDR6_commands"
  "''RDA'' \<in> set GDDR6_commands"
  "''WRA'' \<in> set GDDR6_commands"
  "''REFab'' \<in> set GDDR6_commands"
  "''REFpb'' \<in> set GDDR6_commands"
  "''ACT4'' \<in> set GDDR6_commands"
  "''ACT16'' \<in> set GDDR6_commands"
  "''PRE4'' \<in> set GDDR6_commands"
  "''MAC'' \<in> set GDDR6_commands"
  "''MAC16'' \<in> set GDDR6_commands"
  "''AF16'' \<in> set GDDR6_commands"
  "''EWMUL16'' \<in> set GDDR6_commands"
  "''RDCP'' \<in> set GDDR6_commands"
  "''WRCP'' \<in> set GDDR6_commands"
  "''WRGB'' \<in> set GDDR6_commands"
  "''RDMAC16'' \<in> set GDDR6_commands"
  "''RDAF16'' \<in> set GDDR6_commands"
  "''WRMAC16'' \<in> set GDDR6_commands"
  "''WRA16'' \<in> set GDDR6_commands"
  "''TMOD'' \<in> set GDDR6_commands"
  "''SYNC'' \<in> set GDDR6_commands"
  "''EOC'' \<in> set GDDR6_commands"
  "''UNKNOWN'' \<in> set GDDR6_commands"
  by (simp_all add: GDDR6_commands_def)

lemma GDDR6_level_mem [simp]:
  "''channel'' \<in> set GDDR6_levels"
  "''bankgroup'' \<in> set GDDR6_levels"
  "''bank'' \<in> set GDDR6_levels"
  "''row'' \<in> set GDDR6_levels"
  "''column'' \<in> set GDDR6_levels"
  by (simp_all add: GDDR6_levels_def)

lemma GDDR6_distinct:
  "distinct GDDR6_levels" "distinct GDDR6_commands" "distinct GDDR6_states"
  "distinct GDDR6_timings" "distinct GDDR6_requests" "distinct GDDR6_aim_requests"
  by (simp_all add: GDDR6_levels_def GDDR6_commands_def GDDR6_states_def GDDR6_timings_def
      GDDR6_requests_def GDDR6_aim_requests_def)

lemma GDDR6_command_scopes_eq:
  "GDDR6_command_scopes =
     [3, 0, 2, 4, 4, 4, 4, 0, 2, 1, 0, 1, 4, 0, 0, 0, 4, 4, 0, 0, 0, 0, 0, 0, 0, 0, 0]"
  by (simp add: GDDR6_command_scopes_def ImplLUT_def eval_nat_numeral)

lemma GDDR6_init_states_eq: "GDDR6_init_states = [3, 3, 1, 1, 3]"
  by (simp add: GDDR6_init_states_def ImplLUT_def eval_nat_numeral)

lemma GDDR6_request_translations_eq: "GDDR6_request_translations = [3, 4, 7, 2]"
  by (simp add: GDDR6_request_translations_def ImplLUT_def GDDR6_requests_def eval_nat_numeral)

lemma GDDR6_aim_request_translations_eq:
  "GDDR6_aim_request_translations =
     [26, 4, 18, 21, 26, 19, 20, 3, 16, 17, 12, 13, 14, 15, 26, 22, 24, 25, 26]"
  by (simp add: GDDR6_aim_request_translations_def ImplLUT_def GDDR6_aim_requests_def eval_nat_numeral)

lemma GDDR6_constraints_names:
  "list_all (ts_names_ok GDDR6_levels GDDR6_commands) (GDDR6_timing_constraints V)"
  by (simp add: GDDR6_timing_constraints_def GDDR6_cons_channel_CAS_def GDDR6_cons_channel_RAS_def
      GDDR6_cons_channel_REF_def GDDR6_cons_bankgroup_def GDDR6_cons_bank_def ts_names_ok_def
      mk_ts_def)

lemma GDDR6_constraints_window:
  "list_all (\<lambda>ts. ts_window ts = 1 \<and> \<not> ts_is_sibling ts) (GDDR6_timing_constraints V)"
  by (simp add: GDDR6_timing_constraints_def GDDR6_cons_channel_CAS_def GDDR6_cons_channel_RAS_def
      GDDR6_cons_channel_REF_def GDDR6_cons_bankgroup_def GDDR6_cons_bank_def mk_ts_def)

end
