(* ===== verification/Dram_Node.thy ===== *)
theory Dram_Node
  imports Dram_Spec
begin

text \<open>
  \<^verbatim>\<open>src/src/dram/node.h\<close> and \<^verbatim>\<open>src/src/dram/lambdas/\<close>: the tree of device nodes of a channel,
  the state-machine actions, the prerequisite functions, and the five recursive walks of
  \<open>DRAMNodeBase\<close>. A node's parent and specification pointers are not stored: no modelled
  function follows the parent pointer, and the specification is an argument. Clocks are
  unbounded (\<open>Clk_t\<close> is 64 bits wide and counts simulated cycles from 0).
\<close>

subsection \<open>Nodes\<close>

record node_data =
  m_level :: int
  m_node_id :: int
  m_size :: int
  m_state :: int
  m_cmd_ready_clk :: "int list"
  m_cmd_history :: "int list list"
  m_row_state :: "int \<rightharpoonup> int"

datatype node = Node (nd: node_data) (m_child_nodes: "node list")

text \<open>The constructor. \<open>window\<close> is the longest window over the constraints of a command.\<close>

definition history_window :: "TimingConsEntry list \<Rightarrow> int" where
  "history_window ts = fold (\<lambda>t w. max w (tc_window t)) ts 0"

definition node_history :: "TimingConsEntry list \<Rightarrow> int list" where
  "node_history ts = replicate (nat (history_window ts)) (-1)"

definition node_data_new :: "dram_spec \<Rightarrow> int \<Rightarrow> int \<Rightarrow> node_data result" where
  "node_data_new spec level nid =
     andThen (map_result (\<lambda>cmd. andThen (timing_at (m_timing_cons spec) level (int cmd))
                                  (\<lambda>ts. Ok (node_history ts)))
                         [0..<length (m_commands spec)]) (\<lambda>hist.
     andThen (vec_at (m_init_states spec) level) (\<lambda>st.
       Ok \<lparr>m_level = level, m_node_id = nid, m_size = -1, m_state = st,
           m_cmd_ready_clk = replicate (length (m_commands spec)) (-1),
           m_cmd_history = hist, m_row_state = Map.empty\<rparr>))"

function Node_new :: "dram_spec \<Rightarrow> int \<Rightarrow> int \<Rightarrow> node result" where
  "Node_new spec level nid =
     andThen (node_data_new spec level nid) (\<lambda>d.
       if level + 1 = level_id spec ''row'' then Ok (Node d [])
       else if in_vec (org_count (m_organization spec)) (level + 1)
       then andThen (map_result (\<lambda>i. Node_new spec (level + 1) (int i))
                      [0..<nat (org_count (m_organization spec) ! nat (level + 1))])
              (\<lambda>ks. Ok (Node d ks))
       else Err (Undefined ''m_organization.count''))"
  by pat_completeness auto

termination
  by (relation "measure (\<lambda>(spec, level, nid). nat (int (length (org_count (m_organization spec))) - level))")
    (auto simp: in_vec_def)

declare Node_new.simps [simp del]

subsection \<open>Actions\<close>

text \<open>The two assignments the bank-closing and bank-opening actions share.\<close>

definition close_bank :: "dram_spec \<Rightarrow> node \<Rightarrow> node" where
  "close_bank spec n =
     Node ((nd n)\<lparr>m_state := state_id spec ''Closed'', m_row_state := Map.empty\<rparr>) (m_child_nodes n)"

definition open_bank :: "dram_spec \<Rightarrow> int \<Rightarrow> node \<Rightarrow> node" where
  "open_bank spec row n =
     Node ((nd n)\<lparr>m_state := state_id spec ''Opened'',
                  m_row_state := (m_row_state (nd n))(row \<mapsto> state_id spec ''Opened'')\<rparr>)
          (m_child_nodes n)"

text \<open>The nested loops over the descendants one, two and three levels down.\<close>

definition map_kids :: "(node \<Rightarrow> node) \<Rightarrow> node \<Rightarrow> node" where
  "map_kids f n = Node (nd n) (map f (m_child_nodes n))"

definition Action_Bank_ACT :: "dram_spec \<Rightarrow> node \<Rightarrow> int list \<Rightarrow> node result" where
  "Action_Bank_ACT spec n addr_vec =
     andThen (vec_at addr_vec (m_level (nd n) + 1)) (\<lambda>target_id. Ok (open_bank spec target_id n))"

definition Action_Bank_PRE :: "dram_spec \<Rightarrow> node \<Rightarrow> node result" where
  "Action_Bank_PRE spec n = Ok (close_bank spec n)"

definition Action_BankGroup_ACT4b :: "dram_spec \<Rightarrow> node \<Rightarrow> int list \<Rightarrow> node result" where
  "Action_BankGroup_ACT4b spec n addr_vec =
     andThen (vec_at addr_vec (level_id spec ''row'')) (\<lambda>target_id.
       Ok (map_kids (open_bank spec target_id) n))"

definition Action_BankGroup_PRE4b :: "dram_spec \<Rightarrow> node \<Rightarrow> node result" where
  "Action_BankGroup_PRE4b spec n = Ok (map_kids (close_bank spec) n)"

text \<open>The branches of \<open>if constexpr\<close>; an organization none of them handles does not compile.\<close>

definition Action_Rank_PREab :: "dram_spec \<Rightarrow> node \<Rightarrow> node result" where
  "Action_Rank_PREab spec n =
     (let d = level_id spec ''bank'' - level_id spec ''rank'' in
      if d = 1 then Ok (map_kids (close_bank spec) n)
      else if d = 2 then Ok (map_kids (map_kids (close_bank spec)) n)
      else Err (Undefined ''static_assert''))"

definition Action_Rank_PREsb :: "dram_spec \<Rightarrow> node \<Rightarrow> int list \<Rightarrow> node result" where
  "Action_Rank_PREsb spec n addr_vec =
     andThen (vec_at addr_vec (m_level (nd n) + 1)) (\<lambda>target_id.
       Ok (map_kids (map_kids
         (\<lambda>bank. if m_node_id (nd bank) = target_id then close_bank spec bank else bank)) n))"

definition Action_Channel_ACTab :: "dram_spec \<Rightarrow> node \<Rightarrow> int list \<Rightarrow> node result" where
  "Action_Channel_ACTab spec n addr_vec =
     andThen (vec_at addr_vec (level_id spec ''row'')) (\<lambda>target_id.
      (let d = level_id spec ''bank'' - level_id spec ''channel'' in
       if d = 2 then Ok (map_kids (map_kids (open_bank spec target_id)) n)
       else if d = 3 then Ok (map_kids (map_kids (map_kids (open_bank spec target_id))) n)
       else Err (Undefined ''static_assert'')))"

definition Action_Channel_PREab :: "dram_spec \<Rightarrow> node \<Rightarrow> node result" where
  "Action_Channel_PREab spec n =
     (let d = level_id spec ''bank'' - level_id spec ''channel'' in
      if d = 2 then Ok (map_kids (map_kids (close_bank spec)) n)
      else if d = 3 then Ok (map_kids (map_kids (map_kids (close_bank spec))) n)
      else Err (Undefined ''static_assert''))"

text \<open>The call through the function pointer.\<close>

fun run_action :: "dram_spec \<Rightarrow> action_fn \<Rightarrow> int list \<Rightarrow> node \<Rightarrow> node result" where
  "run_action spec Bank_ACT addr_vec n = Action_Bank_ACT spec n addr_vec"
| "run_action spec Bank_PRE addr_vec n = Action_Bank_PRE spec n"
| "run_action spec BankGroup_ACT4b addr_vec n = Action_BankGroup_ACT4b spec n addr_vec"
| "run_action spec BankGroup_PRE4b addr_vec n = Action_BankGroup_PRE4b spec n"
| "run_action spec Rank_PREab addr_vec n = Action_Rank_PREab spec n"
| "run_action spec Rank_PREsb addr_vec n = Action_Rank_PREsb spec n addr_vec"
| "run_action spec Channel_ACTab addr_vec n = Action_Channel_ACTab spec n addr_vec"
| "run_action spec Channel_PREab addr_vec n = Action_Channel_PREab spec n"

subsection \<open>Prerequisites, row hits and open rows\<close>

definition row_found :: "node \<Rightarrow> int \<Rightarrow> bool" where
  "row_found n row \<longleftrightarrow> m_row_state (nd n) row \<noteq> None"

definition invalid_bank_state :: "'a result" where
  "invalid_bank_state = Err (Exit_failure ''Invalid bank state for an RD/WR command!'')"

definition Preq_Bank_RequireRowOpen :: "dram_spec \<Rightarrow> node \<Rightarrow> int \<Rightarrow> int list \<Rightarrow> int result" where
  "Preq_Bank_RequireRowOpen spec n cmd addr_vec =
     andThen (vec_at addr_vec (m_level (nd n) + 1)) (\<lambda>target_id.
       if m_state (nd n) = state_id spec ''Closed'' then Ok (command_id spec ''ACT'')
       else if m_state (nd n) = state_id spec ''Opened''
       then Ok (if row_found n target_id then cmd else command_id spec ''PRE'')
       else invalid_bank_state)"

definition Preq_Bank_RequireBankClosed :: "dram_spec \<Rightarrow> node \<Rightarrow> int \<Rightarrow> int result" where
  "Preq_Bank_RequireBankClosed spec n cmd =
     (if m_state (nd n) = state_id spec ''Closed'' then Ok cmd
      else if m_state (nd n) = state_id spec ''Opened'' then Ok (command_id spec ''PRE'')
      else invalid_bank_state)"

text \<open>The banks the nested loops visit, in order.\<close>

definition descendants :: "nat \<Rightarrow> node \<Rightarrow> node list" where
  "descendants k n = ((\<lambda>ns. concat (map m_child_nodes ns)) ^^ k) [n]"

definition all_banks_closed :: "dram_spec \<Rightarrow> node list \<Rightarrow> bool" where
  "all_banks_closed spec banks \<longleftrightarrow>
     list_all (\<lambda>b. m_state (nd b) = state_id spec ''Closed'') banks"

definition Preq_Rank_RequireAllBanksClosed :: "dram_spec \<Rightarrow> node \<Rightarrow> int \<Rightarrow> int result" where
  "Preq_Rank_RequireAllBanksClosed spec n cmd =
     (let d = level_id spec ''bank'' - level_id spec ''rank'' in
      if (d = 1 \<or> d = 2) \<and> \<not> all_banks_closed spec (descendants (nat d) n)
      then Ok (command_id spec ''PREA'') else Ok cmd)"

definition Preq_Channel_RequireAllBanksClosed :: "dram_spec \<Rightarrow> node \<Rightarrow> int \<Rightarrow> int result" where
  "Preq_Channel_RequireAllBanksClosed spec n cmd =
     (let d = level_id spec ''bank'' - level_id spec ''channel'' in
      if (d = 2 \<or> d = 3) \<and> \<not> all_banks_closed spec (descendants (nat d) n)
      then Ok (command_id spec ''PREA'') else Ok cmd)"

text \<open>The loop of \<open>RequireAllRowsOpen\<close>: \<open>None\<close> is the early return of a precharge, otherwise
  the final value of \<open>any_closed\<close>.\<close>

fun scan_rows :: "dram_spec \<Rightarrow> int \<Rightarrow> bool \<Rightarrow> node list \<Rightarrow> bool option" where
  "scan_rows spec row any_closed [] = Some any_closed"
| "scan_rows spec row any_closed (b # bs) =
     (if m_state (nd b) = state_id spec ''Closed'' then scan_rows spec row True bs
      else if row_found b row then scan_rows spec row any_closed bs
      else None)"

definition Preq_Channel_RequireAllRowsOpen :: "dram_spec \<Rightarrow> node \<Rightarrow> int \<Rightarrow> int list \<Rightarrow> int result" where
  "Preq_Channel_RequireAllRowsOpen spec n cmd addr_vec =
     andThen (vec_at addr_vec (level_id spec ''row'')) (\<lambda>target_id.
      (let d = level_id spec ''bank'' - level_id spec ''channel'' in
       case (if d = 2 \<or> d = 3 then scan_rows spec target_id False (descendants (nat d) n)
             else Some False) of
         None \<Rightarrow> Ok (command_id spec ''PREA'')
       | Some any_closed \<Rightarrow> Ok (if any_closed then command_id spec ''ACT16'' else cmd)))"

fun run_preq :: "dram_spec \<Rightarrow> preq_fn \<Rightarrow> int \<Rightarrow> int list \<Rightarrow> node \<Rightarrow> int result" where
  "run_preq spec Bank_RequireRowOpen cmd addr_vec n = Preq_Bank_RequireRowOpen spec n cmd addr_vec"
| "run_preq spec Bank_RequireBankClosed cmd addr_vec n = Preq_Bank_RequireBankClosed spec n cmd"
| "run_preq spec Rank_RequireAllBanksClosed cmd addr_vec n = Preq_Rank_RequireAllBanksClosed spec n cmd"
| "run_preq spec Channel_RequireAllRowsOpen cmd addr_vec n = Preq_Channel_RequireAllRowsOpen spec n cmd addr_vec"
| "run_preq spec Channel_RequireAllBanksClosed cmd addr_vec n = Preq_Channel_RequireAllBanksClosed spec n cmd"

definition RowHit_Bank_RDWR :: "dram_spec \<Rightarrow> node \<Rightarrow> int \<Rightarrow> bool result" where
  "RowHit_Bank_RDWR spec n target_id =
     (if m_state (nd n) = state_id spec ''Closed'' then Ok False
      else if m_state (nd n) = state_id spec ''Opened'' then Ok (row_found n target_id)
      else invalid_bank_state)"

definition RowOpen_Bank_RDWR :: "dram_spec \<Rightarrow> node \<Rightarrow> bool result" where
  "RowOpen_Bank_RDWR spec n =
     (if m_state (nd n) = state_id spec ''Closed'' then Ok False
      else if m_state (nd n) = state_id spec ''Opened'' then Ok True
      else invalid_bank_state)"

subsection \<open>The walks over the tree\<close>

text \<open>No action changes the shape of the tree, so the walk after an action terminates.\<close>

lemma size_open_bank [simp]: "size (open_bank spec r n) = size n"
  by (cases n) (simp add: open_bank_def)

lemma size_close_bank [simp]: "size (close_bank spec n) = size n"
  by (cases n) (simp add: close_bank_def)

lemma size_map_kids: "(\<And>k. size (f k) = size k) \<Longrightarrow> size (map_kids f n) = size n"
  by (cases n) (simp add: map_kids_def size_list_map o_def)

lemmas action_defs =
  Action_Bank_ACT_def Action_Bank_PRE_def Action_BankGroup_ACT4b_def Action_BankGroup_PRE4b_def
  Action_Rank_PREab_def Action_Rank_PREsb_def Action_Channel_ACTab_def Action_Channel_PREab_def

lemma size_run_action: "run_action spec a addr_vec n = Ok n' \<Longrightarrow> size n' = size n"
  by (cases a) (auto simp: action_defs result_simps size_map_kids Let_def split: if_splits)

lemma size_child: "in_vec (m_child_nodes n) i \<Longrightarrow> size (m_child_nodes n ! nat i) < size n"
proof -
  assume i: "in_vec (m_child_nodes n) i"
  obtain d ks where n: "n = Node d ks" by (cases n)
  show ?thesis using nth_size_less [of "nat i" ks] in_vec_nat [OF i] by (simp add: n)
qed

text \<open>Writing a child through its pointer.\<close>

definition put_child :: "node \<Rightarrow> int \<Rightarrow> node \<Rightarrow> node" where
  "put_child n i c = Node (nd n) ((m_child_nodes n)[nat i := c])"

definition action_step :: "dram_spec \<Rightarrow> int \<Rightarrow> int list \<Rightarrow> node \<Rightarrow> node result" where
  "action_step spec command addr_vec n =
     andThen (vec_at (m_actions spec) (m_level (nd n))) (\<lambda>row. andThen (vec_at row command) (\<lambda>a.
       case a of None \<Rightarrow> Ok n | Some f \<Rightarrow> run_action spec f addr_vec n))"

lemma size_action_step: "action_step spec command addr_vec n = Ok n' \<Longrightarrow> size n' = size n"
  by (auto simp: action_step_def result_simps size_run_action split: option.splits)

text \<open>\<open>clk\<close> is handed to the actions, none of which reads it.\<close>

function update_states :: "dram_spec \<Rightarrow> int \<Rightarrow> int list \<Rightarrow> node \<Rightarrow> node result" where
  "update_states spec command addr_vec n =
     andThen (action_step spec command addr_vec n) (\<lambda>n'.
     andThen (vec_at (m_command_scopes spec) command) (\<lambda>scope.
       if m_level (nd n') = scope \<or> m_child_nodes n' = [] then Ok n'
       else andThen (vec_at addr_vec (m_level (nd n') + 1)) (\<lambda>child_id.
         if child_id < 0 then Ok n'
         else andThen (vec_at (m_child_nodes n') child_id) (\<lambda>child.
              andThen (update_states spec command addr_vec child) (\<lambda>c.
                Ok (put_child n' child_id c))))))"
  by pat_completeness auto

termination
  by (relation "measure (\<lambda>(spec, command, addr_vec, n). size n)")
    (auto simp: result_simps dest!: size_action_step size_child)

declare update_states.simps [simp del]

definition raise_ready :: "int \<Rightarrow> int \<Rightarrow> node_data \<Rightarrow> node_data result" where
  "raise_ready cmd future d =
     andThen (vec_at (m_cmd_ready_clk d) cmd) (\<lambda>r.
     andThen (vec_put (m_cmd_ready_clk d) cmd (max r future)) (\<lambda>rs.
       Ok (d\<lparr>m_cmd_ready_clk := rs\<rparr>)))"

definition timing_sibling :: "int \<Rightarrow> TimingConsEntry \<Rightarrow> node_data \<Rightarrow> node_data result" where
  "timing_sibling clk t d =
     (if \<not> tc_sibling t then Ok d else raise_ready (tc_cmd t) (clk + tc_val t) d)"

definition timing_target :: "int \<Rightarrow> TimingConsEntry \<Rightarrow> node_data \<Rightarrow> node_data result" where
  "timing_target command t d =
     (if tc_sibling t then Ok d
      else andThen (vec_at (m_cmd_history d) command) (\<lambda>hist.
           andThen (vec_at hist (tc_window t - 1)) (\<lambda>past.
             if past < 0 then Ok d else raise_ready (tc_cmd t) (past + tc_val t) d)))"

text \<open>\<open>pop_back\<close> and \<open>push_front\<close> of the issue history.\<close>

definition push_history :: "int \<Rightarrow> int \<Rightarrow> node_data \<Rightarrow> node_data result" where
  "push_history command clk d =
     andThen (vec_at (m_cmd_history d) command) (\<lambda>hist.
       if hist = [] then Ok d
       else andThen (vec_put (m_cmd_history d) command (clk # butlast hist)) (\<lambda>h.
              Ok (d\<lparr>m_cmd_history := h\<rparr>)))"

fun update_timing :: "dram_spec \<Rightarrow> int \<Rightarrow> int list \<Rightarrow> int \<Rightarrow> node \<Rightarrow> node result" where
  "update_timing spec command addr_vec clk (Node d ks) =
     andThen (vec_at addr_vec (m_level d)) (\<lambda>here.
     andThen (timing_at (m_timing_cons spec) (m_level d) command) (\<lambda>ts.
       if m_node_id d \<noteq> here
       then andThen (fold_result (timing_sibling clk) ts d) (\<lambda>d'. Ok (Node d' ks))
       else andThen (push_history command clk d) (\<lambda>d'.
            andThen (fold_result (timing_target command) ts d') (\<lambda>d''.
            andThen (map_result (update_timing spec command addr_vec clk) ks) (\<lambda>ks'.
              Ok (Node d'' ks'))))))"

text \<open>Returns \<open>true\<close>, that is 1, at a node without children and without a prerequisite.\<close>

function get_preq_command :: "dram_spec \<Rightarrow> int \<Rightarrow> int list \<Rightarrow> node \<Rightarrow> int result" where
  "get_preq_command spec command addr_vec n =
     andThen (vec_at (m_preqs spec) (m_level (nd n))) (\<lambda>row. andThen (vec_at row command) (\<lambda>p.
     andThen (case p of None \<Rightarrow> Ok (-1) | Some f \<Rightarrow> run_preq spec f command addr_vec n) (\<lambda>preq_cmd.
       if preq_cmd \<noteq> -1 then Ok preq_cmd
       else if m_child_nodes n = [] then Ok 1
       else andThen (vec_at addr_vec (m_level (nd n) + 1)) (\<lambda>child_id.
         if child_id < 0 then Ok command
         else andThen (vec_at (m_child_nodes n) child_id) (\<lambda>child.
                get_preq_command spec command addr_vec child)))))"
  by pat_completeness auto

termination
  by (relation "measure (\<lambda>(spec, command, addr_vec, n). size n)") (auto simp: result_simps size_child)

declare get_preq_command.simps [simp del]

text \<open>Returns the command number converted to \<open>bool\<close> where the address stops.\<close>

function check_ready :: "dram_spec \<Rightarrow> int \<Rightarrow> int list \<Rightarrow> int \<Rightarrow> node \<Rightarrow> bool result" where
  "check_ready spec command addr_vec clk n =
     andThen (vec_at (m_cmd_ready_clk (nd n)) command) (\<lambda>ready.
       if ready \<noteq> -1 \<and> clk < ready then Ok False
       else andThen (vec_at (m_command_scopes spec) command) (\<lambda>scope.
         if m_level (nd n) = scope \<or> m_child_nodes n = [] then Ok True
         else andThen (vec_at addr_vec (m_level (nd n) + 1)) (\<lambda>child_id.
           if child_id < 0 then Ok (command \<noteq> 0)
           else andThen (vec_at (m_child_nodes n) child_id) (\<lambda>child.
                  check_ready spec command addr_vec clk child))))"
  by pat_completeness auto

termination
  by (relation "measure (\<lambda>(spec, command, addr_vec, clk, n). size n)") (auto simp: result_simps size_child)

declare check_ready.simps [simp del]

end
