(* ===== verification/Dram_Timing.thy ===== *)
theory Dram_Timing
  imports Dram_Node
begin

text \<open>
  Properties of the timing half of \<^verbatim>\<open>src/src/dram/node.h\<close>: the shape of a node tree, its
  preservation, the monotonicity of the ready clocks under \<open>update_timing\<close> and
  \<open>update_states\<close>, and the safety of \<open>check_ready\<close>: a command constrained by an earlier one
  is refused until the constraint has elapsed. Everything holds for any device whose tables
  satisfy \<open>spec_ok\<close>.
\<close>

subsection \<open>Paths in the tree\<close>

fun walk :: "node \<Rightarrow> int list \<Rightarrow> node option" where
  "walk n [] = Some n"
| "walk n (i # q) =
     (if in_vec (m_child_nodes n) i then walk (m_child_nodes n ! nat i) q else None)"

lemma walk_append:
  "walk n (p @ q) = (case walk n p of None \<Rightarrow> None | Some m \<Rightarrow> walk m q)"
  by (induction p arbitrary: n) auto

subsection \<open>Well-formed devices and nodes\<close>

definition entry_ok :: "dram_spec \<Rightarrow> TimingConsEntry \<Rightarrow> bool" where
  "entry_ok spec t \<longleftrightarrow>
     0 \<le> tc_cmd t \<and> tc_cmd t < int (length (m_commands spec)) \<and> 1 \<le> tc_window t"

definition spec_ok :: "dram_spec \<Rightarrow> bool" where
  "spec_ok spec \<longleftrightarrow>
     tc_shape (length (m_levels spec)) (length (m_commands spec)) (m_timing_cons spec)
   \<and> (\<forall>(l, p, t) \<in> tc_all (m_timing_cons spec). entry_ok spec t)
   \<and> length (m_command_scopes spec) = length (m_commands spec)
   \<and> length (m_init_states spec) = length (m_levels spec)
   \<and> length (m_actions spec) = length (m_levels spec)
   \<and> (\<forall>row \<in> set (m_actions spec). length row = length (m_commands spec))
   \<and> length (m_preqs spec) = length (m_levels spec)
   \<and> (\<forall>row \<in> set (m_preqs spec). length row = length (m_commands spec))"

definition is_command :: "dram_spec \<Rightarrow> int \<Rightarrow> bool" where
  "is_command spec c \<longleftrightarrow> 0 \<le> c \<and> c < int (length (m_commands spec))"

definition data_ok :: "dram_spec \<Rightarrow> node_data \<Rightarrow> bool" where
  "data_ok spec d \<longleftrightarrow>
     0 \<le> m_level d \<and> m_level d < int (length (m_levels spec))
   \<and> length (m_cmd_ready_clk d) = length (m_commands spec)
   \<and> length (m_cmd_history d) = length (m_commands spec)
   \<and> (\<forall>p t. (m_level d, p, t) \<in> tc_all (m_timing_cons spec)
        \<longrightarrow> nat p < length (m_commands spec) \<longrightarrow> tc_window t \<le> int (length (m_cmd_history d ! nat p)))"

text \<open>The number of children the organization gives a node of a level.\<close>

definition kids_count :: "dram_spec \<Rightarrow> int \<Rightarrow> nat" where
  "kids_count spec level =
     (if level + 1 = level_id spec ''row'' then 0
      else nat (org_count (m_organization spec) ! nat (level + 1)))"

definition kids_ok :: "dram_spec \<Rightarrow> node \<Rightarrow> bool" where
  "kids_ok spec n \<longleftrightarrow> length (m_child_nodes n) = kids_count spec (m_level (nd n)) \<and> (\<forall>i < length (m_child_nodes n).
     m_level (nd (m_child_nodes n ! i)) = m_level (nd n) + 1
   \<and> m_node_id (nd (m_child_nodes n ! i)) = int i)"

definition node_ok :: "dram_spec \<Rightarrow> node \<Rightarrow> bool" where
  "node_ok spec n \<longleftrightarrow> (\<forall>path m. walk n path = Some m \<longrightarrow> data_ok spec (nd m) \<and> kids_ok spec m)"

lemma node_okD: "node_ok spec n \<Longrightarrow> data_ok spec (nd n)" "node_ok spec n \<Longrightarrow> kids_ok spec n"
  unfolding node_ok_def by (metis walk.simps(1))+

lemma node_ok_child: "node_ok spec n \<Longrightarrow> in_vec (m_child_nodes n) i \<Longrightarrow> node_ok spec (m_child_nodes n ! nat i)"
  unfolding node_ok_def by (metis walk.simps(2))

lemma node_okI:
  assumes "data_ok spec (nd n)" "kids_ok spec n"
    and "\<And>k. k < length (m_child_nodes n) \<Longrightarrow> node_ok spec (m_child_nodes n ! k)"
  shows "node_ok spec n"
  unfolding node_ok_def
proof (intro allI impI)
  fix path m assume w: "walk n path = Some m"
  show "data_ok spec (nd m) \<and> kids_ok spec m"
  proof (cases path)
    case Nil
    then show ?thesis using w assms(1,2) by simp
  next
    case (Cons i q)
    then have i: "in_vec (m_child_nodes n) i" "walk (m_child_nodes n ! nat i) q = Some m"
      using w by (auto split: if_splits)
    then show ?thesis using assms(3) [of "nat i"] in_vec_nat by (auto simp: node_ok_def)
  qed
qed

lemma walk_node_ok: "node_ok spec n \<Longrightarrow> walk n path = Some m \<Longrightarrow> node_ok spec m"
  by (induction path arbitrary: n) (auto dest: node_ok_child split: if_splits)

lemma walk_level: "node_ok spec n \<Longrightarrow> walk n path = Some m \<Longrightarrow> m_level (nd m) = m_level (nd n) + int (length path)"
proof (induction path arbitrary: n)
  case Nil
  then show ?case by simp
next
  case (Cons i path)
  then have i: "in_vec (m_child_nodes n) i" "walk (m_child_nodes n ! nat i) path = Some m"
    by (auto split: if_splits)
  have "m_level (nd (m_child_nodes n ! nat i)) = m_level (nd n) + 1"
    using node_okD(2) [OF Cons.prems(1)] in_vec_nat [OF i(1)] by (simp add: kids_ok_def)
  then show ?case using Cons.IH [OF node_ok_child [OF Cons.prems(1) i(1)] i(2)] by simp
qed

subsection \<open>The constructor\<close>

lemma history_window_ge: "t \<in> set ts \<Longrightarrow> tc_window t \<le> history_window ts"
proof -
  have grow: "w \<le> fold (\<lambda>t w. max w (tc_window t)) us w" for us w
  proof (induction us arbitrary: w)
    case (Cons u us)
    show ?case using Cons.IH [of "max w (tc_window u)"] by simp
  qed simp
  have "t \<in> set us \<Longrightarrow> tc_window t \<le> fold (\<lambda>t w. max w (tc_window t)) us w" for us w
    by (induction us arbitrary: w) (auto intro: order_trans [OF max.cobounded2 grow])
  then show "t \<in> set ts \<Longrightarrow> tc_window t \<le> history_window ts"
    by (simp add: history_window_def)
qed

lemma node_data_new_ok:
  assumes "spec_ok spec" and "0 \<le> level" and "level < int (length (m_levels spec))"
  shows "\<exists>d. node_data_new spec level nid = Ok d \<and> data_ok spec d
           \<and> m_level d = level \<and> m_node_id d = nid
           \<and> m_state d = m_init_states spec ! nat level \<and> m_row_state d = Map.empty
           \<and> m_cmd_ready_clk d = replicate (length (m_commands spec)) (-1)"
proof -
  let ?nc = "length (m_commands spec)" and ?tc = "m_timing_cons spec"
  have sh: "tc_shape (length (m_levels spec)) ?nc ?tc" using assms(1) by (simp add: spec_ok_def)
  have at: "timing_at ?tc level (int c) = Ok (?tc ! nat level ! c)" if "c < ?nc" for c
    using timing_at_shape [OF sh assms(2,3)] that by simp
  let ?f = "\<lambda>cmd. andThen (timing_at ?tc level (int cmd)) (\<lambda>ts. Ok (node_history ts))"
  have "is_ok (map_result ?f [0..<?nc])"
    by (rule map_result_total) (simp add: at)
  then obtain hist where hist: "map_result ?f [0..<?nc] = Ok hist" by (auto simp: is_ok_iff)
  have len: "length hist = ?nc" using map_result_length [OF hist] by simp
  have nth: "hist ! c = node_history (?tc ! nat level ! c)" if "c < ?nc" for c
    using map_result_nth [OF hist, of c] that by (simp add: at)
  have win: "tc_window t \<le> int (length (hist ! nat p))" if "(level, p, t) \<in> tc_all ?tc" for p t
  proof -
    from that obtain es where es: "timing_at ?tc level p = Ok es" "t \<in> set es"
      by (auto simp: tc_all_def)
    then have p: "nat p < ?nc" "0 \<le> p" using tc_shape_row [OF sh]
      by (auto simp: timing_at_def result_simps in_vec_def)
    then have "es = ?tc ! nat level ! nat p" using es(1) at [of "nat p"] by simp
    then show ?thesis using history_window_ge [OF es(2)] nth [OF p(1)] by (simp add: node_history_def)
  qed
  have "vec_at (m_init_states spec) level = Ok (m_init_states spec ! nat level)"
    using assms by (simp add: vec_at_def in_vec_def spec_ok_def)
  then show ?thesis using hist len win assms
    by (auto simp: node_data_new_def data_ok_def)
qed

text \<open>The organization covers every level above the rows.\<close>

definition org_ok :: "dram_spec \<Rightarrow> bool" where
  "org_ok spec \<longleftrightarrow> length (org_count (m_organization spec)) = length (m_levels spec)
     \<and> ''row'' \<in> set (m_levels spec)"

lemma Node_new_ok:
  assumes "spec_ok spec" and "org_ok spec" and "0 \<le> level" and "level < level_id spec ''row''"
  shows "\<exists>n. Node_new spec level nid = Ok n \<and> node_ok spec n
           \<and> m_level (nd n) = level \<and> m_node_id (nd n) = nid
           \<and> m_state (nd n) = m_init_states spec ! nat level \<and> m_row_state (nd n) = Map.empty
           \<and> length (m_child_nodes n) = kids_count spec level"
  using assms(3,4)
proof (induction "nat (level_id spec ''row'' - level)" arbitrary: level nid rule: less_induct)
  case less
  let ?row = "level_id spec ''row''" and ?count = "org_count (m_organization spec)"
  have row: "?row < int (length (m_levels spec))"
    using assms(2) ImplDef_index_in by (simp add: org_ok_def)
  obtain d where d: "node_data_new spec level nid = Ok d" "data_ok spec d" "m_level d = level"
      "m_node_id d = nid" "m_state d = m_init_states spec ! nat level" "m_row_state d = Map.empty"
    using node_data_new_ok [OF assms(1) less.prems(1), of nid] less.prems(2) row by auto
  show ?case
  proof (cases "level + 1 = ?row")
    case True
    then have "Node_new spec level nid = Ok (Node d [])"
      by (subst Node_new.simps) (simp add: d(1))
    moreover have "node_ok spec (Node d [])"
      by (rule node_okI) (simp_all add: d kids_ok_def kids_count_def True)
    ultimately show ?thesis using d True by (simp add: kids_count_def)
  next
    case False
    let ?f = "\<lambda>i. Node_new spec (level + 1) (int i)" and ?k = "nat (?count ! nat (level + 1))"
    have kid: "\<exists>n. ?f i = Ok n \<and> node_ok spec n \<and> m_level (nd n) = level + 1 \<and> m_node_id (nd n) = int i"
      for i
      using less.hyps [of "level + 1" "int i"] less.prems False by auto
    have "is_ok (map_result ?f [0..<?k])"
      by (rule map_result_total) (metis kid is_ok.simps(1))
    then obtain ks where ks: "map_result ?f [0..<?k] = Ok ks" by (auto simp: is_ok_iff)
    have len: "length ks = ?k" using map_result_length [OF ks] by simp
    have nth: "node_ok spec (ks ! i) \<and> m_level (nd (ks ! i)) = level + 1 \<and> m_node_id (nd (ks ! i)) = int i"
      if "i < ?k" for i
      using map_result_nth [OF ks, of i] kid [of i] that by simp
    have "in_vec ?count (level + 1)"
      using less.prems row False assms(2) by (simp add: in_vec_def org_ok_def)
    then have "Node_new spec level nid = Ok (Node d ks)"
      using False by (subst Node_new.simps) (simp add: d(1) ks)
    moreover have "node_ok spec (Node d ks)"
      by (rule node_okI) (use d nth len False in \<open>simp_all add: kids_ok_def kids_count_def\<close>)
    ultimately show ?thesis using d len False by (simp add: kids_count_def)
  qed
qed

subsection \<open>Ready clocks only grow\<close>

definition clk_le :: "node_data \<Rightarrow> node_data \<Rightarrow> bool" where
  "clk_le d d' \<longleftrightarrow> m_level d = m_level d' \<and> m_node_id d = m_node_id d'
     \<and> list_all2 (\<le>) (m_cmd_ready_clk d) (m_cmd_ready_clk d')
     \<and> map length (m_cmd_history d) = map length (m_cmd_history d')"

lemma clk_le_refl [simp]: "clk_le d d"
  by (simp add: clk_le_def list.rel_refl)

lemma clk_le_trans [trans]: "clk_le a b \<Longrightarrow> clk_le b c \<Longrightarrow> clk_le a c"
  by (auto simp: clk_le_def elim: list_all2_trans [rotated])

lemma clk_le_ready: "clk_le d d' \<Longrightarrow> in_vec (m_cmd_ready_clk d) c \<Longrightarrow>
  m_cmd_ready_clk d ! nat c \<le> m_cmd_ready_clk d' ! nat c"
  by (auto simp: clk_le_def list_all2_conv_all_nth dest: in_vec_nat)

lemma data_ok_clk_le: "data_ok spec d \<Longrightarrow> clk_le d d' \<Longrightarrow> data_ok spec d'"
proof -
  assume d: "data_ok spec d" and le: "clk_le d d'"
  have len: "length (m_cmd_history d) = length (m_cmd_history d')"
    using le by (metis clk_le_def length_map)
  have at: "length (m_cmd_history d' ! c) = length (m_cmd_history d ! c)"
    if "c < length (m_cmd_history d)" for c
  proof -
    have "map length (m_cmd_history d) ! c = map length (m_cmd_history d') ! c"
      using le by (simp add: clk_le_def)
    then show ?thesis using that len by simp
  qed
  show ?thesis unfolding data_ok_def
  proof (intro conjI allI impI)
    fix p t assume t: "(m_level d', p, t) \<in> tc_all (m_timing_cons spec)"
      and p: "nat p < length (m_commands spec)"
    show "tc_window t \<le> int (length (m_cmd_history d' ! nat p))"
      using d le t p at by (simp add: data_ok_def clk_le_def)
  qed (use d le len in \<open>auto simp: data_ok_def clk_le_def dest: list_all2_lengthD\<close>)
qed

definition tree_le :: "node \<Rightarrow> node \<Rightarrow> bool" where
  "tree_le n n' \<longleftrightarrow> (\<forall>path. case walk n path of
       None \<Rightarrow> walk n' path = None
     | Some m \<Rightarrow> \<exists>m'. walk n' path = Some m' \<and> clk_le (nd m) (nd m')
         \<and> length (m_child_nodes m') = length (m_child_nodes m))"

lemma tree_le_refl [simp]: "tree_le n n"
  by (auto simp: tree_le_def split: option.splits)

lemma tree_le_walk: "tree_le n n' \<Longrightarrow> walk n path = Some m \<Longrightarrow>
  \<exists>m'. walk n' path = Some m' \<and> clk_le (nd m) (nd m')
     \<and> length (m_child_nodes m') = length (m_child_nodes m)"
  by (auto simp: tree_le_def dest: spec [of _ path])

lemma tree_le_trans [trans]: "tree_le a b \<Longrightarrow> tree_le b c \<Longrightarrow> tree_le a c"
  unfolding tree_le_def
proof (rule allI)
  fix path
  assume ab: "\<forall>path. case walk a path of None \<Rightarrow> walk b path = None
      | Some m \<Rightarrow> \<exists>m'. walk b path = Some m' \<and> clk_le (nd m) (nd m') \<and> length (m_child_nodes m') = length (m_child_nodes m)"
  assume bc: "\<forall>path. case walk b path of None \<Rightarrow> walk c path = None
      | Some m \<Rightarrow> \<exists>m'. walk c path = Some m' \<and> clk_le (nd m) (nd m') \<and> length (m_child_nodes m') = length (m_child_nodes m)"
  show "case walk a path of None \<Rightarrow> walk c path = None
      | Some m \<Rightarrow> \<exists>m'. walk c path = Some m' \<and> clk_le (nd m) (nd m') \<and> length (m_child_nodes m') = length (m_child_nodes m)"
    using ab [rule_format, of path] bc [rule_format, of path]
    by (auto split: option.splits intro: clk_le_trans)
qed

lemma tree_leI:
  assumes "clk_le (nd n) (nd n')" and len: "length (m_child_nodes n') = length (m_child_nodes n)"
    and kid: "\<And>k. k < length (m_child_nodes n) \<Longrightarrow> tree_le (m_child_nodes n ! k) (m_child_nodes n' ! k)"
  shows "tree_le n n'"
  unfolding tree_le_def
proof (rule allI)
  fix path
  show "case walk n path of None \<Rightarrow> walk n' path = None
     | Some m \<Rightarrow> \<exists>m'. walk n' path = Some m' \<and> clk_le (nd m) (nd m') \<and> length (m_child_nodes m') = length (m_child_nodes m)"
  proof (cases path)
    case Nil
    then show ?thesis using assms by simp
  next
    case (Cons i q)
    have eq: "in_vec (m_child_nodes n') i \<longleftrightarrow> in_vec (m_child_nodes n) i"
      using len by (rule in_vec_length)
    show ?thesis
      using kid [of "nat i", unfolded tree_le_def, rule_format, of q] in_vec_nat [of "m_child_nodes n" i]
      unfolding Cons by (auto simp: eq split: option.splits)
  qed
qed

lemma node_ok_tree_le: "node_ok spec n \<Longrightarrow> tree_le n n' \<Longrightarrow> node_ok spec n'"
  unfolding node_ok_def
proof (intro allI impI)
  fix path m'
  assume ok: "\<forall>path m. walk n path = Some m \<longrightarrow> data_ok spec (nd m) \<and> kids_ok spec m"
    and le: "tree_le n n'" and w': "walk n' path = Some m'"
  obtain m where m: "walk n path = Some m" "clk_le (nd m) (nd m')"
      "length (m_child_nodes m') = length (m_child_nodes m)"
    using le w' unfolding tree_le_def by (cases "walk n path") (force dest: spec [of _ path])+
  have "m_level (nd (m_child_nodes m' ! i)) = m_level (nd (m_child_nodes m ! i))
      \<and> m_node_id (nd (m_child_nodes m' ! i)) = m_node_id (nd (m_child_nodes m ! i))"
    if "i < length (m_child_nodes m)" for i
    using tree_le_walk [OF le, of "path @ [int i]"] m(1,3) w' that
    by (auto simp: walk_append clk_le_def)
  moreover have "data_ok spec (nd m')" using ok m(1,2) data_ok_clk_le by blast
  moreover have "kids_ok spec m" "m_level (nd m') = m_level (nd m)" using ok m(1,2) by (auto simp: clk_le_def)
  ultimately show "data_ok spec (nd m') \<and> kids_ok spec m'"
    using m(3) by (simp add: kids_ok_def)
qed

lemma raise_ready_le: "raise_ready c x d = Ok d' \<Longrightarrow> clk_le d d'"
  by (auto simp: raise_ready_def result_simps clk_le_def list_all2_conv_all_nth nth_list_update in_vec_nat)

lemma timing_sibling_le: "timing_sibling clk t d = Ok d' \<Longrightarrow> clk_le d d'"
  by (auto simp: timing_sibling_def raise_ready_le split: if_splits)

lemma timing_target_le: "timing_target p t d = Ok d' \<Longrightarrow> clk_le d d'"
  by (auto simp: timing_target_def result_simps raise_ready_le split: if_splits)

lemma push_history_le: "push_history p clk d = Ok d' \<Longrightarrow> clk_le d d'"
proof -
  assume p: "push_history p clk d = Ok d'"
  then obtain hist where h: "vec_at (m_cmd_history d) p = Ok hist" by (auto simp: push_history_def result_simps)
  show ?thesis
  proof (cases "hist = []")
    case True
    then show ?thesis using p h by (simp add: push_history_def)
  next
    case False
    then have "length (clk # butlast hist) = length hist" by simp
    moreover have "hist = m_cmd_history d ! nat p" "nat p < length (m_cmd_history d)"
      using h by (auto simp: result_simps dest: in_vec_nat)
    moreover have "d' = d\<lparr>m_cmd_history := (m_cmd_history d)[nat p := clk # butlast hist]\<rparr>"
      using p h False by (auto simp: push_history_def result_simps)
    ultimately show ?thesis
      by (auto simp: clk_le_def list.rel_refl nth_list_update intro!: nth_equalityI)
  qed
qed

lemma fold_timing_le:
  assumes "fold_result f ts d = Ok d'" and "\<And>t u v. f t u = Ok v \<Longrightarrow> clk_le u v"
  shows "clk_le d d'"
  by (rule fold_result_invariant [where I = "clk_le d", OF assms(1)])
    (use assms(2) clk_le_trans in \<open>auto\<close>)

lemma fold_sibling_le: "fold_result (timing_sibling clk) ts d = Ok d' \<Longrightarrow> clk_le d d'"
  by (rule fold_timing_le) (auto intro: timing_sibling_le)

lemma fold_target_le: "fold_result (timing_target p) ts d = Ok d' \<Longrightarrow> clk_le d d'"
  by (rule fold_timing_le) (auto intro: timing_target_le)

lemma update_timing_le: "update_timing spec p addr clk n = Ok n' \<Longrightarrow> tree_le n n'"
proof (induction spec p addr clk n arbitrary: n' rule: update_timing.induct)
  case (1 spec p addr clk d ks)
  from "1.prems" obtain here ts where h: "vec_at addr (m_level d) = Ok here"
      "timing_at (m_timing_cons spec) (m_level d) p = Ok ts"
    by (auto simp: result_simps)
  show ?case
  proof (cases "m_node_id d = here")
    case False
    then obtain d' where d': "fold_result (timing_sibling clk) ts d = Ok d'" "n' = Node d' ks"
      using "1.prems" by (auto simp: h andThen_Ok_iff)
    have "clk_le d d'" by (rule fold_sibling_le [OF d'(1)])
    then show ?thesis by (simp add: d'(2) tree_leI)
  next
    case True
    then obtain d' d'' ks' where d: "push_history p clk d = Ok d'"
        "fold_result (timing_target p) ts d' = Ok d''"
        and ks: "map_result (update_timing spec p addr clk) ks = Ok ks'" and n': "n' = Node d'' ks'"
      using "1.prems" by (auto simp: h andThen_Ok_iff)
    have "clk_le d d''"
      using push_history_le [OF d(1)] fold_target_le [OF d(2)] by (rule clk_le_trans)
    moreover have "tree_le (ks ! k) (ks' ! k)" if "k < length ks" for k
      using "1.IH" [OF h] True d map_result_nth [OF ks that] that by simp
    ultimately have "tree_le (Node d ks) (Node d'' ks')"
      using tree_leI [of "Node d ks" "Node d'' ks'"] map_result_length [OF ks] by simp
    then show ?thesis by (simp add: n')
  qed
qed

text \<open>The actions change states only: the clocks are kept in both directions.\<close>

definition same_clocks :: "node \<Rightarrow> node \<Rightarrow> bool" where
  "same_clocks n n' \<longleftrightarrow> tree_le n n' \<and> tree_le n' n"

lemma same_clocks_refl [simp]: "same_clocks n n"
  by (simp add: same_clocks_def)

lemma same_clocks_trans: "same_clocks a b \<Longrightarrow> same_clocks b c \<Longrightarrow> same_clocks a c"
  by (auto simp: same_clocks_def intro: tree_le_trans)

lemma same_clocksI:
  assumes "clk_le (nd n) (nd n')" "clk_le (nd n') (nd n)"
    and len: "length (m_child_nodes n') = length (m_child_nodes n)"
    and kid: "\<And>k. k < length (m_child_nodes n) \<Longrightarrow> same_clocks (m_child_nodes n ! k) (m_child_nodes n' ! k)"
  shows "same_clocks n n'"
  using assms by (simp add: same_clocks_def tree_leI)

lemma open_bank_same [simp]: "same_clocks n (open_bank spec r n)"
  by (rule same_clocksI) (auto simp: open_bank_def clk_le_def list.rel_refl)

lemma close_bank_same [simp]: "same_clocks n (close_bank spec n)"
  by (rule same_clocksI) (auto simp: close_bank_def clk_le_def list.rel_refl)

lemma map_kids_same: "(\<And>k. same_clocks k (f k)) \<Longrightarrow> same_clocks n (map_kids f n)"
  by (rule same_clocksI) (auto simp: map_kids_def)

lemma run_action_same: "run_action spec a addr n = Ok n' \<Longrightarrow> same_clocks n n'"
  by (cases a) (auto simp: action_defs result_simps Let_def split: if_splits intro!: map_kids_same)

lemma action_step_same: "action_step spec c addr n = Ok n' \<Longrightarrow> same_clocks n n'"
  by (auto simp: action_step_def result_simps run_action_same split: option.splits)

lemma put_child_same:
  assumes "in_vec (m_child_nodes n) i" and "same_clocks (m_child_nodes n ! nat i) c"
  shows "same_clocks n (put_child n i c)"
  by (rule same_clocksI) (use assms in \<open>auto simp: put_child_def nth_list_update in_vec_nat\<close>)

lemma update_states_same: "update_states spec c addr n = Ok n' \<Longrightarrow> same_clocks n n'"
proof (induction spec c addr n arbitrary: n' rule: update_states.induct)
  case (1 spec c addr n)
  from "1.prems" obtain n1 scope where a: "action_step spec c addr n = Ok n1"
      "vec_at (m_command_scopes spec) c = Ok scope"
    by (subst (asm) update_states.simps) (auto simp: andThen_Ok_iff)
  have same: "same_clocks n n1" by (rule action_step_same [OF a(1)])
  show ?case
  proof (cases "m_level (nd n1) = scope \<or> m_child_nodes n1 = []")
    case True
    then show ?thesis using "1.prems" a same by (subst (asm) update_states.simps) simp
  next
    case False
    then obtain i where i: "vec_at addr (m_level (nd n1) + 1) = Ok i"
      using "1.prems" a by (subst (asm) update_states.simps) (auto simp: andThen_Ok_iff)
    show ?thesis
    proof (cases "i < 0")
      case True
      then show ?thesis using "1.prems" a same i False by (subst (asm) update_states.simps) simp
    next
      case ge: False
      obtain child c' where ch: "vec_at (m_child_nodes n1) i = Ok child"
          "update_states spec c addr child = Ok c'" "n' = put_child n1 i c'"
        using "1.prems" a i ge False by (subst (asm) update_states.simps) (auto simp: andThen_Ok_iff)
      have "same_clocks child c'" using "1.IH" [OF a(1,2) False i ge ch(1,2)] .
      then have "same_clocks n1 n'" using ch by (auto simp: vec_at_Ok_iff intro: put_child_same)
      then show ?thesis using same same_clocks_trans by blast
    qed
  qed
qed

lemma update_states_le: "update_states spec c addr n = Ok n' \<Longrightarrow> tree_le n n'"
  using update_states_same by (simp add: same_clocks_def)

lemma same_clocks_ready:
  assumes "same_clocks n n'" and "walk n path = Some m"
  shows "\<exists>m'. walk n' path = Some m' \<and> m_cmd_ready_clk (nd m') = m_cmd_ready_clk (nd m)
           \<and> m_level (nd m') = m_level (nd m) \<and> m_node_id (nd m') = m_node_id (nd m)"
proof -
  obtain m' where m': "walk n' path = Some m'" "clk_le (nd m) (nd m')"
    using tree_le_walk assms by (metis same_clocks_def)
  moreover have "clk_le (nd m') (nd m)"
    using tree_le_walk [of n' n path m'] assms m' by (auto simp: same_clocks_def)
  ultimately have "list_all2 (\<le>) (m_cmd_ready_clk (nd m)) (m_cmd_ready_clk (nd m'))"
      "list_all2 (\<le>) (m_cmd_ready_clk (nd m')) (m_cmd_ready_clk (nd m))"
    by (simp_all add: clk_le_def)
  then have "m_cmd_ready_clk (nd m') = m_cmd_ready_clk (nd m)"
    by (auto simp: list_all2_conv_all_nth intro!: nth_equalityI antisym)
  then show ?thesis using m' by (auto simp: clk_le_def)
qed

subsection \<open>The ready clocks, exactly\<close>

text \<open>Device models all of whose constraints look one issue back and spare the siblings.\<close>

definition simple_timing :: "dram_spec \<Rightarrow> bool" where
  "simple_timing spec \<longleftrightarrow>
     (\<forall>(l, p, t) \<in> tc_all (m_timing_cons spec). \<not> tc_sibling t \<and> tc_window t = 1)"

lemma timing_target_history: "timing_target p t d = Ok d' \<Longrightarrow> m_cmd_history d' = m_cmd_history d"
  by (auto simp: timing_target_def raise_ready_def result_simps split: if_splits)

lemma fold_target_exact:
  assumes "fold_result (timing_target p) ts d = Ok d'"
    and "\<forall>t \<in> set ts. \<not> tc_sibling t \<and> tc_window t = 1 \<and> 0 \<le> tc_cmd t"
    and "m_cmd_history d ! nat p = clk # rest" "0 \<le> clk" "in_vec (m_cmd_ready_clk d) f"
  shows "x < m_cmd_ready_clk d' ! nat f \<longleftrightarrow>
    x < m_cmd_ready_clk d ! nat f \<or> (\<exists>t \<in> set ts. tc_cmd t = f \<and> x < clk + tc_val t)"
  using assms(1-3,5)
proof (induction ts arbitrary: d)
  case Nil
  then show ?case by simp
next
  case (Cons t ts)
  from Cons.prems(1) obtain d1 where d1: "timing_target p t d = Ok d1"
      "fold_result (timing_target p) ts d1 = Ok d'"
    by (auto simp: andThen_Ok_iff)
  have t: "\<not> tc_sibling t" "tc_window t = 1" "0 \<le> tc_cmd t" using Cons.prems(2) by auto
  have raise: "raise_ready (tc_cmd t) (clk + tc_val t) d = Ok d1"
    using d1(1) t Cons.prems(3) assms(4) by (auto simp: timing_target_def result_simps)
  then have "x < m_cmd_ready_clk d1 ! nat f \<longleftrightarrow>
      x < m_cmd_ready_clk d ! nat f \<or> (tc_cmd t = f \<and> x < clk + tc_val t)"
    using t(3) Cons.prems(4)
    by (cases "tc_cmd t = f") (auto simp: raise_ready_def result_simps in_vec_def nth_list_update split: if_splits)
  moreover have "in_vec (m_cmd_ready_clk d1) f"
    using raise Cons.prems(4) by (auto simp: raise_ready_def result_simps)
  moreover have "m_cmd_history d1 ! nat p = clk # rest"
    using timing_target_history [OF d1(1)] Cons.prems(3) by simp
  ultimately show ?case using Cons.IH [OF d1(2)] Cons.prems(2) by auto
qed

lemma push_history_head:
  assumes "push_history p clk d = Ok d'" and "m_cmd_history d ! nat p \<noteq> []"
  shows "m_cmd_history d' ! nat p = clk # butlast (m_cmd_history d ! nat p)"
    and "m_cmd_ready_clk d' = m_cmd_ready_clk d"
  using assms by (auto simp: push_history_def result_simps in_vec_nat)

lemma push_history_empty:
  "push_history p clk d = Ok d' \<Longrightarrow> m_cmd_ready_clk d' = m_cmd_ready_clk d"
  by (auto simp: push_history_def result_simps split: if_splits)

text \<open>The rest of an address, below a node.\<close>

definition follows :: "int list \<Rightarrow> node \<Rightarrow> int list \<Rightarrow> bool" where
  "follows addr n path \<longleftrightarrow>
     (\<forall>k < length path. nat (m_level (nd n)) + 1 + k < length addr
                      \<and> addr ! (nat (m_level (nd n)) + 1 + k) = path ! k)"

lemma follows_Nil [simp]: "follows addr n []"
  by (simp add: follows_def)

lemma follows_Cons:
  assumes "0 \<le> m_level (nd n)" "m_level (nd c) = m_level (nd n) + 1"
  shows "follows addr n (i # q) \<longleftrightarrow> vec_at addr (m_level (nd n) + 1) = Ok i \<and> follows addr c q"
proof -
  let ?l = "nat (m_level (nd n))"
  have at: "vec_at addr (m_level (nd n) + 1) = Ok i \<longleftrightarrow> ?l + 1 < length addr \<and> addr ! (?l + 1) = i"
    using assms(1) by (auto simp: vec_at_def in_vec_def nat_add_distrib)
  have lc: "nat (m_level (nd c)) = ?l + 1" using assms by simp
  show ?thesis unfolding at follows_def lc by (auto simp: less_Suc_eq_0_disj)
qed

definition addressed :: "int list \<Rightarrow> node \<Rightarrow> int list \<Rightarrow> bool" where
  "addressed addr n path \<longleftrightarrow>
     vec_at addr (m_level (nd n)) = Ok (m_node_id (nd n)) \<and> follows addr n path"

lemma kid_data:
  assumes "node_ok spec n" and "in_vec (m_child_nodes n) i"
  shows "m_level (nd (m_child_nodes n ! nat i)) = m_level (nd n) + 1"
    and "m_node_id (nd (m_child_nodes n ! nat i)) = i" and "0 \<le> m_level (nd n)"
  using node_okD [OF assms(1)] assms(2) in_vec_nat [OF assms(2)]
  by (auto simp: kids_ok_def data_ok_def in_vec_def)

lemma walk_levels_ge: "node_ok spec n \<Longrightarrow> walk n path = Some m \<Longrightarrow> m_level (nd n) \<le> m_level (nd m)"
  using walk_level by fastforce

lemma update_timing_exact:
  assumes "simple_timing spec" "spec_ok spec"
    and "update_timing spec p addr clk n = Ok n'" and "node_ok spec n"
    and "walk n path = Some m" and "0 \<le> clk" "is_command spec p" "is_command spec f"
  shows "\<exists>m'. walk n' path = Some m' \<and>
    (x < m_cmd_ready_clk (nd m') ! nat f \<longleftrightarrow>
      x < m_cmd_ready_clk (nd m) ! nat f \<or>
      (addressed addr n path \<and> (\<exists>t. (m_level (nd m), p, t) \<in> tc_all (m_timing_cons spec)
          \<and> tc_cmd t = f \<and> x < clk + tc_val t)))"
  using assms(3-5)
proof (induction path arbitrary: n n')
  case Nil
  obtain d ks where n: "n = Node d ks" by (cases n)
  then have m: "m = Node d ks" using Nil.prems(3) by simp
  obtain here ts where here: "vec_at addr (m_level d) = Ok here"
      and ts: "timing_at (m_timing_cons spec) (m_level d) p = Ok ts"
    using Nil.prems(1) by (auto simp: n andThen_Ok_iff)
  have all: "(m_level d, p, t) \<in> tc_all (m_timing_cons spec) \<longleftrightarrow> t \<in> set ts" for t
    using ts by (auto simp: tc_all_def)
  have simple: "\<forall>t \<in> set ts. \<not> tc_sibling t \<and> tc_window t = 1 \<and> 0 \<le> tc_cmd t"
    using assms(1,2) by (auto simp: simple_timing_def spec_ok_def entry_ok_def simp flip: all)
  have ok: "data_ok spec d" using node_okD(1) [OF Nil.prems(2)] by (simp add: n)
  show ?case
  proof (cases "m_node_id d = here")
    case False
    then obtain d' where d': "fold_result (timing_sibling clk) ts d = Ok d'" "n' = Node d' ks"
      using Nil.prems(1) by (auto simp: n here ts andThen_Ok_iff)
    have "d' = d"
      by (rule fold_result_invariant [where I = "\<lambda>u. u = d", OF d'(1)])
        (use simple in \<open>auto simp: timing_sibling_def\<close>)
    then show ?thesis using False here by (simp add: d'(2) m n addressed_def)
  next
    case True
    obtain d' d'' ks' where d: "push_history p clk d = Ok d'"
        "fold_result (timing_target p) ts d' = Ok d''" "n' = Node d'' ks'"
      using Nil.prems(1) True by (auto simp: n here ts andThen_Ok_iff)
    have ready: "m_cmd_ready_clk d' = m_cmd_ready_clk d" by (rule push_history_empty [OF d(1)])
    have f: "in_vec (m_cmd_ready_clk d') f"
      using ok assms(8) by (simp add: ready data_ok_def is_command_def in_vec_def)
    have "x < m_cmd_ready_clk d'' ! nat f \<longleftrightarrow>
        x < m_cmd_ready_clk d' ! nat f \<or> (\<exists>t \<in> set ts. tc_cmd t = f \<and> x < clk + tc_val t)"
    proof (cases "ts = []")
      case True
      then show ?thesis using d(2) by simp
    next
      case False
      then obtain t where "t \<in> set ts" by (cases ts) auto
      then have "1 \<le> length (m_cmd_history d ! nat p)"
        using ok simple all assms(7) by (fastforce simp: data_ok_def is_command_def)
      then have "m_cmd_history d ! nat p \<noteq> []" by auto
      from fold_target_exact [OF d(2) simple push_history_head(1) [OF d(1) this] assms(6) f]
      show ?thesis .
    qed
    then show ?thesis using True here
      by (simp add: d(3) m n addressed_def ready all Bex_def)
  qed
next
  case (Cons i q)
  obtain d ks where n: "n = Node d ks" by (cases n)
  have i: "in_vec ks i" and w: "walk (ks ! nat i) q = Some m"
    using Cons.prems(3) by (auto simp: n split: if_splits)
  have i': "in_vec (m_child_nodes n) i" using i by (simp add: n)
  note kid = kid_data [OF Cons.prems(2) i', unfolded n, simplified]
  have addr: "addressed addr n (i # q) \<longleftrightarrow>
      vec_at addr (m_level d) = Ok (m_node_id d) \<and> addressed addr (ks ! nat i) q"
    using follows_Cons [of n "ks ! nat i" addr i q] kid by (auto simp: addressed_def n)
  obtain here ts where here: "vec_at addr (m_level d) = Ok here"
      and ts: "timing_at (m_timing_cons spec) (m_level d) p = Ok ts"
    using Cons.prems(1) by (auto simp: n andThen_Ok_iff)
  show ?case
  proof (cases "m_node_id d = here")
    case False
    then obtain d' where d': "n' = Node d' ks"
      using Cons.prems(1) by (auto simp: n here ts andThen_Ok_iff)
    then show ?thesis using False here i w by (simp add: addr)
  next
    case True
    obtain d'' ks' where ks: "map_result (update_timing spec p addr clk) ks = Ok ks'" "n' = Node d'' ks'"
      using Cons.prems(1) True by (auto simp: n here ts andThen_Ok_iff)
    have upd: "update_timing spec p addr clk (ks ! nat i) = Ok (ks' ! nat i)"
      using map_result_nth [OF ks(1)] in_vec_nat [OF i] by simp
    have ok: "node_ok spec (ks ! nat i)" using node_ok_child [OF Cons.prems(2) i'] by (simp add: n)
    have "in_vec ks' i" using i map_result_length [OF ks(1)] by (simp add: in_vec_def)
    then show ?thesis using Cons.IH [OF upd ok w] here True by (simp add: ks(2) addr)
  qed
qed

text \<open>\<open>check_ready\<close> accepts a command when the ready clocks of all nodes it visits have passed:
  the nodes down to the command's scope or to a leaf.\<close>

lemma check_ready_exact:
  assumes "node_ok spec n" and "follows addr n path" and "walk n path = Some m"
    and "m_level (nd m) = m_command_scopes spec ! nat f \<or> m_child_nodes m = []"
    and "\<forall>k < length path. m_command_scopes spec ! nat f \<noteq> m_level (nd n) + int k"
    and "0 \<le> clk" "is_command spec f" "length (m_command_scopes spec) = length (m_commands spec)"
  shows "check_ready spec f addr clk n =
    Ok (\<forall>k \<le> length path. \<exists>v. walk n (take k path) = Some v \<and> m_cmd_ready_clk (nd v) ! nat f \<le> clk)"
  using assms(1-5)
proof (induction path arbitrary: n)
  case Nil
  then have "in_vec (m_cmd_ready_clk (nd n)) f"
    using node_okD(1) [OF Nil.prems(1)] assms(7) by (simp add: data_ok_def is_command_def in_vec_def)
  moreover have "vec_at (m_command_scopes spec) f = Ok (m_command_scopes spec ! nat f)"
    using assms(7,8) by (simp add: vec_at_def in_vec_def is_command_def)
  ultimately show ?case using Nil.prems(3,4) assms(6)
    by (subst check_ready.simps) (auto simp: vec_at_in)
next
  case (Cons i q)
  have r: "vec_at (m_cmd_ready_clk (nd n)) f = Ok (m_cmd_ready_clk (nd n) ! nat f)"
    using node_okD(1) [OF Cons.prems(1)] assms(7)
    by (simp add: vec_at_def data_ok_def is_command_def in_vec_def)
  have s: "vec_at (m_command_scopes spec) f = Ok (m_command_scopes spec ! nat f)"
    using assms(7,8) by (simp add: vec_at_def in_vec_def is_command_def)
  have i: "in_vec (m_child_nodes n) i" and w: "walk (m_child_nodes n ! nat i) q = Some m"
    using Cons.prems(3) by (auto split: if_splits)
  note kid = kid_data [OF Cons.prems(1) i]
  have f: "vec_at addr (m_level (nd n) + 1) = Ok i" "follows addr (m_child_nodes n ! nat i) q"
    using Cons.prems(2) follows_Cons [OF kid(3,1)] by auto
  have sc: "\<forall>k < length q. m_command_scopes spec ! nat f \<noteq> m_level (nd (m_child_nodes n ! nat i)) + int k"
    using Cons.prems(5) by (auto simp: kid dest: spec [of _ "Suc _"])
  note IH = Cons.IH [OF node_ok_child [OF Cons.prems(1) i] f(2) w Cons.prems(4) sc]
  have "m_level (nd n) \<noteq> m_command_scopes spec ! nat f"
    using Cons.prems(5) by (auto dest: spec [of _ 0])
  moreover have "m_child_nodes n \<noteq> []" "0 \<le> i" using i by (auto simp: in_vec_def)
  ultimately have eq: "check_ready spec f addr clk n =
      (if clk < m_cmd_ready_clk (nd n) ! nat f then Ok False
       else check_ready spec f addr clk (m_child_nodes n ! nat i))"
    using r s f(1) i assms(6) by (subst check_ready.simps) (auto simp: vec_at_in)
  have all: "(\<forall>k \<le> Suc (length q). P k) \<longleftrightarrow> P 0 \<and> (\<forall>k \<le> length q. P (Suc k))" for P :: "nat \<Rightarrow> bool"
  proof safe
    fix k assume "P 0" "\<forall>k \<le> length q. P (Suc k)" "k \<le> Suc (length q)"
    then show "P k" by (cases k) auto
  qed auto
  show ?case unfolding eq IH by (auto simp: all i)
qed

subsection \<open>No undefined behaviour\<close>

lemma raise_ready_total: "in_vec (m_cmd_ready_clk d) c \<Longrightarrow> \<exists>d'. raise_ready c x d = Ok d'"
  by (simp add: raise_ready_def vec_at_in vec_put_in)

lemma data_ok_ready: "data_ok spec d \<Longrightarrow> entry_ok spec t \<Longrightarrow> in_vec (m_cmd_ready_clk d) (tc_cmd t)"
  by (simp add: data_ok_def entry_ok_def in_vec_def)

lemma timing_sibling_total:
  "data_ok spec d \<Longrightarrow> entry_ok spec t \<Longrightarrow> \<exists>d'. timing_sibling clk t d = Ok d'"
  by (simp add: timing_sibling_def raise_ready_total data_ok_ready)

lemma timing_target_total:
  assumes d: "data_ok spec d" and e: "entry_ok spec t" and p: "is_command spec p"
    and t: "(m_level d, p, t) \<in> tc_all (m_timing_cons spec)"
  shows "\<exists>d'. timing_target p t d = Ok d'"
proof -
  have "in_vec (m_cmd_history d) p" using d p by (simp add: data_ok_def is_command_def in_vec_def)
  moreover have "tc_window t \<le> int (length (m_cmd_history d ! nat p))"
    using d p t by (auto simp: data_ok_def is_command_def)
  then have "in_vec (m_cmd_history d ! nat p) (tc_window t - 1)"
    using e by (simp add: in_vec_def entry_ok_def)
  ultimately show ?thesis
    using raise_ready_total [OF data_ok_ready [OF d e]] by (simp add: timing_target_def vec_at_in)
qed

lemma push_history_total:
  "data_ok spec d \<Longrightarrow> is_command spec p \<Longrightarrow> \<exists>d'. push_history p clk d = Ok d'"
  by (simp add: push_history_def vec_at_def vec_put_def data_ok_def is_command_def in_vec_def)

lemma update_timing_total:
  assumes s: "spec_ok spec" and p: "is_command spec p" and a: "length addr = length (m_levels spec)"
    and "node_ok spec n"
  shows "\<exists>n'. update_timing spec p addr clk n = Ok n'"
  using assms(4)
proof (induction n)
  case (Node d ks)
  have d: "data_ok spec d" using node_okD(1) [OF Node.prems] by simp
  have sh: "tc_shape (length (m_levels spec)) (length (m_commands spec)) (m_timing_cons spec)"
    using s by (simp add: spec_ok_def)
  obtain here where here: "vec_at addr (m_level d) = Ok here"
    using d a by (simp add: data_ok_def vec_at_def in_vec_def)
  obtain ts where ts: "timing_at (m_timing_cons spec) (m_level d) p = Ok ts"
    using timing_at_shape [OF sh] d p by (simp add: data_ok_def is_command_def)
  have all: "(m_level d, p, t) \<in> tc_all (m_timing_cons spec) \<and> entry_ok spec t" if "t \<in> set ts" for t
    using ts that s by (auto simp: tc_all_def spec_ok_def)
  show ?case
  proof (cases "m_node_id d = here")
    case False
    have "\<exists>d'. fold_result (timing_sibling clk) ts d = Ok d' \<and> data_ok spec d'"
      by (rule fold_result_total [where I = "data_ok spec", OF d])
        (use all timing_sibling_total timing_sibling_le data_ok_clk_le in blast)
    then show ?thesis using False by (auto simp: here ts)
  next
    case True
    obtain d1 where d1: "push_history p clk d = Ok d1" using push_history_total [OF d p] by blast
    have ok1: "data_ok spec d1 \<and> m_level d1 = m_level d"
      using push_history_le [OF d1] data_ok_clk_le [OF d] by (simp add: clk_le_def)
    have "\<exists>d'. fold_result (timing_target p) ts d1 = Ok d' \<and> (data_ok spec d' \<and> m_level d' = m_level d)"
    proof (rule fold_result_total [where I = "\<lambda>u. data_ok spec u \<and> m_level u = m_level d", OF ok1])
      fix t u assume t: "t \<in> set ts" and u: "data_ok spec u \<and> m_level u = m_level d"
      obtain v where v: "timing_target p t u = Ok v"
        using timing_target_total [of spec u t p] u all [OF t] p by auto
      then show "\<exists>v. timing_target p t u = Ok v \<and> data_ok spec v \<and> m_level v = m_level d"
        using u data_ok_clk_le timing_target_le [OF v] by (auto simp: clk_le_def)
    qed
    then obtain d2 where d2: "fold_result (timing_target p) ts d1 = Ok d2" by blast
    have "is_ok (map_result (update_timing spec p addr clk) ks)"
    proof (rule map_result_total)
      fix k assume k: "k \<in> set ks"
      then obtain i where "i < length ks" "ks ! i = k" by (auto simp: in_set_conv_nth)
      then have "node_ok spec k" using node_ok_child [OF Node.prems, of "int i"] by simp
      then show "is_ok (update_timing spec p addr clk k)" using Node.IH [OF k] by (simp add: is_ok_iff)
    qed
    then show ?thesis using True d1 d2 by (auto simp: here ts is_ok_iff)
  qed
qed

end
