(* ===== verification/GDDR6.thy ===== *)
theory GDDR6
  imports GDDR6_Spec Dram_Timing
begin

unbundle bit_operations_syntax

text \<open>
  \<^verbatim>\<open>src/src/dram/impl/GDDR6.cpp\<close>, the device: its initialisation from a configuration
  (\<open>set_organization\<close>, \<open>set_timing_vals\<close>, \<open>set_actions\<close>, \<open>set_preqs\<close>, \<open>create_nodes\<close>), and
  the operations a controller calls (\<open>tick\<close>, \<open>issue_command\<close>, \<open>get_preq_command\<close>,
  \<open>check_ready\<close>). The YAML configuration is the record \<open>gddr6_config\<close> of its typed optional
  values.
\<close>

subsection \<open>Configuration\<close>

record gddr6_config =
  cfg_channel_width :: "int option"
  cfg_org_preset :: "string option"
  cfg_dq :: "int option"
  cfg_level :: "string \<Rightarrow> int option"
  cfg_density :: "int option"
  cfg_timing_preset :: "string option"
  cfg_rate :: "int option"
  cfg_cycles :: "string \<Rightarrow> int option"   \<comment> \<open>a timing in cycles, e.g. \<open>nRCD\<close>\<close>
  cfg_ps :: "string \<Rightarrow> int option"       \<comment> \<open>a timing in ns, e.g. \<open>tRCD\<close>, times 1000\<close>

definition opt_or :: "'a option \<Rightarrow> 'a \<Rightarrow> 'a" where
  "opt_or x d = (case x of Some v \<Rightarrow> v | None \<Rightarrow> d)"

subsection \<open>Organization\<close>

definition density_of :: "Organization \<Rightarrow> int result" where
  "density_of org =
     andThen (map_result (\<lambda>l. vec_at (org_count org) (ImplDef_index GDDR6_levels l))
               [''channel'', ''bankgroup'', ''bank'', ''row'', ''column'']) (\<lambda>cs.
       Ok (fold (\<lambda>x y. to_unsigned 64 (y * to_unsigned 64 x)) (cs @ [dq org]) 1 div 2 ^ 20))"

definition override_levels :: "gddr6_config \<Rightarrow> int list \<Rightarrow> int list result" where
  "override_levels cfg counts =
     fold_result (\<lambda>i cs. andThen (ImplDef_name GDDR6_levels i) (\<lambda>name.
         case cfg_level cfg name of Some sz \<Rightarrow> vec_put cs i sz | None \<Rightarrow> Ok cs))
       (map int [0..<length GDDR6_levels]) counts"

definition set_organization :: "gddr6_config \<Rightarrow> Organization result" where
  "set_organization cfg =
     andThen (case cfg_org_preset cfg of
         None \<Rightarrow> Ok \<lparr>density = -1, dq = -1, org_count = replicate (length GDDR6_levels) (-1)\<rparr>
       | Some preset \<Rightarrow>
           (case map_of GDDR6_org_presets preset of
              Some org \<Rightarrow> Ok org
            | None \<Rightarrow> Err (Configuration_error ''Unrecognized organization preset''))) (\<lambda>org.
     andThen (override_levels cfg (org_count org)) (\<lambda>counts.
     (let org' = \<lparr>density = opt_or (cfg_density cfg) (density org),
                  dq = opt_or (cfg_dq cfg) (dq org), org_count = counts\<rparr> in
      andThen (density_of org') (\<lambda>d.
        if to_unsigned 64 (density org') \<noteq> d
        then Err (Configuration_error ''chip density does not equal the provided density'')
        else Ok org'))))"

subsection \<open>Timing values\<close>

abbreviation set_timing :: "string \<Rightarrow> int \<Rightarrow> int list \<Rightarrow> int list result" where
  "set_timing \<equiv> SpecLUT_set GDDR6_timings"

definition dq_id :: "int \<Rightarrow> int" where
  "dq_id d = (if d = 8 then 0 else if d = 16 then 1 else -1)"

definition rate_id :: "int \<Rightarrow> int" where
  "rate_id r = (if r = 2000 then 0 else -1)"

definition density_id :: "int \<Rightarrow> int" where
  "density_id d = (if d = 4096 then 0 else if d = 8192 then 1 else if d = 16384 then 2 else -1)"

definition nRRDS_TABLE :: "int list list" where "nRRDS_TABLE = [[4], [5]]"
definition nRRDL_TABLE :: "int list list" where "nRRDL_TABLE = [[5], [6]]"
definition nFAW_TABLE :: "int list list" where "nFAW_TABLE = [[20], [28]]"
definition tRFC_TABLE :: "int list list" where
  "tRFC_TABLE = [[260, 360, 550], [160, 260, 350], [110, 160, 260]]"

text \<open>A density without an entry reads \<open>tRFC_TABLE[0][-1]\<close>: whatever integer lies before the
  table. That value is the argument \<open>stray\<close>.\<close>

definition read_tRFC :: "int \<Rightarrow> int \<Rightarrow> int" where
  "read_tRFC stray d_id = (if d_id = -1 then stray else tRFC_TABLE ! 0 ! nat d_id)"

definition table_at :: "int list list \<Rightarrow> int \<Rightarrow> int \<Rightarrow> int result" where
  "table_at tab i j = andThen (vec_at tab i) (\<lambda>row. vec_at row j)"

definition secondary_timings :: "Organization \<Rightarrow> int list \<Rightarrow> int list result" where
  "secondary_timings org vals =
     andThen (SpecLUT_named GDDR6_timings vals ''rate'') (\<lambda>rate.
     (let d = dq_id (dq org); r = rate_id rate in
      if d \<noteq> -1 \<and> r \<noteq> -1
      then andThen (table_at nRRDS_TABLE d r) (\<lambda>x.
           andThen (set_timing ''nRRDS'' x vals) (\<lambda>vals.
           andThen (table_at nRRDL_TABLE d r) (\<lambda>x.
           andThen (set_timing ''nRRDL'' x vals) (\<lambda>vals.
           andThen (table_at nFAW_TABLE d r) (\<lambda>x. set_timing ''nFAW'' x vals)))))
      else Ok vals))"

definition rounded :: "int \<Rightarrow> int \<Rightarrow> int result" where
  "rounded t_ps tCK_ps = andThen (JEDEC_rounding t_ps tCK_ps) (\<lambda>n. Ok (to_signed 32 n))"

definition refresh_timings :: "int \<Rightarrow> Organization \<Rightarrow> int \<Rightarrow> int list \<Rightarrow> int list result" where
  "refresh_timings stray org tCK_ps vals =
     andThen (rounded (read_tRFC stray (density_id (density org)) * 1000) tCK_ps) (\<lambda>x.
     andThen (set_timing ''nRFC'' x vals) (\<lambda>vals.
     andThen (rounded (7800 * 1000) tCK_ps) (\<lambda>x.
     set_timing ''nREFI'' x vals)))"

definition override_timing :: "gddr6_config \<Rightarrow> int \<Rightarrow> int \<Rightarrow> int list \<Rightarrow> int list result" where
  "override_timing cfg tCK_ps i vals =
     andThen (ImplDef_name GDDR6_timings i) (\<lambda>name.
       case cfg_cycles cfg name of
         Some v \<Rightarrow> vec_put vals i v
       | None \<Rightarrow>
         (case cfg_ps cfg (CHR ''t'' # tl name) of
            Some t \<Rightarrow> andThen (rounded t tCK_ps) (\<lambda>v. vec_put vals i v)
          | None \<Rightarrow> Ok vals))"

definition AiM_timings :: "int list \<Rightarrow> int list result" where
  "AiM_timings vals =
     andThen (set_timing ''nCLREG'' 0 vals) (\<lambda>vals.
     andThen (set_timing ''nCLGB'' 1 vals) (\<lambda>vals.
     andThen (set_timing ''nCWLREG'' 1 vals) (\<lambda>vals.
     andThen (set_timing ''nCWLGB'' 1 vals) (\<lambda>vals.
     set_timing ''nWPRE'' 1 vals))))"

text \<open>The value of a named timing; every name the source uses exists.\<close>

definition timing_val :: "int list \<Rightarrow> string \<Rightarrow> int" where
  "timing_val vals s = vals ! nat (ImplDef_index GDDR6_timings s)"

definition timing_values :: "int \<Rightarrow> gddr6_config \<Rightarrow> Organization \<Rightarrow> int list result" where
  "timing_values stray cfg org =
     andThen (case cfg_timing_preset cfg of
         None \<Rightarrow> Ok (False, replicate (length GDDR6_timings) (-1))
       | Some preset \<Rightarrow>
           (case map_of GDDR6_timing_presets preset of
              Some vals \<Rightarrow> Ok (True, vals)
            | None \<Rightarrow> Err (Configuration_error ''Unrecognized timing preset''))) (\<lambda>(preset_provided, vals).
     andThen (case cfg_rate cfg of
         None \<Rightarrow> Ok vals
       | Some r \<Rightarrow>
           if preset_provided then Err (Configuration_error ''Cannot change the transfer rate'')
           else set_timing ''rate'' r vals) (\<lambda>vals.
     andThen (SpecLUT_named GDDR6_timings vals ''tCK_ps'') (\<lambda>tCK_ps.
     andThen (secondary_timings org vals) (\<lambda>vals.
     andThen (refresh_timings stray org tCK_ps vals) (\<lambda>vals.
     andThen (fold_result (override_timing cfg tCK_ps)
                (map int [1..<length GDDR6_timings - 1]) vals) (\<lambda>vals.
     if -1 \<in> set vals then Err (Configuration_error ''timing is not specified'')
     else AiM_timings vals))))))"

definition GDDR6_command_latencies :: "(string \<Rightarrow> int) \<Rightarrow> int list" where
  "GDDR6_command_latencies V =
     ImplLUT_of GDDR6_commands (-1)
       [(''WR'', V ''nCWL'' + V ''nBL''), (''WRGB'', V ''nCWLGB'' + V ''nBL''),
        (''WRMAC16'', V ''nCWLREG'' + V ''nBL''), (''RDMAC16'', V ''nCLREG'' + V ''nBL''),
        (''RDAF16'', V ''nCLREG'' + V ''nBL''), (''RD'', V ''nCL'' + V ''nBL''), (''RDCP'', 1),
        (''WRCP'', 1), (''MAC'', 1), (''MAC16'', 1), (''AF16'', 1), (''EWMUL16'', 1),
        (''WRA16'', V ''nCWL'' + V ''nBL'' + V ''nRP''), (''SYNC'', 1), (''EOC'', 1)]"

definition GDDR6_read_latency :: "(string \<Rightarrow> int) \<Rightarrow> int" where
  "GDDR6_read_latency V = V ''nCL'' + V ''nBL''"

subsection \<open>Actions and prerequisites\<close>

text \<open>\<open>resize\<close> fills the matrix with empty functions; each assignment names its level and
  command.\<close>

definition set_functions :: "(string \<times> string \<times> 'f) list \<Rightarrow> 'f option list list" where
  "set_functions fs =
     fold (\<lambda>(l, c, f) mat.
         mat[nat (ImplDef_index GDDR6_levels l) :=
               (mat ! nat (ImplDef_index GDDR6_levels l))
                 [nat (ImplDef_index GDDR6_commands c) := Some f]]) fs
       (replicate (length GDDR6_levels) (replicate (length GDDR6_commands) None))"

definition GDDR6_actions :: "action_fn option list list" where
  "GDDR6_actions = set_functions
     [(''channel'', ''WRA16'', Channel_PREab), (''channel'', ''PREA'', Channel_PREab),
      (''channel'', ''ACT16'', Channel_ACTab),
      (''bankgroup'', ''PRE4'', BankGroup_PRE4b), (''bankgroup'', ''ACT4'', BankGroup_ACT4b),
      (''bank'', ''ACT'', Bank_ACT), (''bank'', ''PRE'', Bank_PRE),
      (''bank'', ''RDA'', Bank_PRE), (''bank'', ''WRA'', Bank_PRE)]"

definition GDDR6_preqs :: "preq_fn option list list" where
  "GDDR6_preqs = set_functions
     [(''channel'', ''REFab'', Channel_RequireAllBanksClosed),
      (''bank'', ''RD'', Bank_RequireRowOpen), (''bank'', ''WR'', Bank_RequireRowOpen),
      (''bank'', ''RDA'', Bank_RequireRowOpen), (''bank'', ''WRA'', Bank_RequireRowOpen),
      (''bank'', ''RDCP'', Bank_RequireRowOpen), (''bank'', ''WRCP'', Bank_RequireRowOpen),
      (''bank'', ''MAC'', Bank_RequireRowOpen),
      (''channel'', ''WRA16'', Channel_RequireAllRowsOpen),
      (''channel'', ''MAC16'', Channel_RequireAllRowsOpen),
      (''channel'', ''AF16'', Channel_RequireAllRowsOpen),
      (''channel'', ''EWMUL16'', Channel_RequireAllRowsOpen)]"

subsection \<open>The device\<close>

definition GDDR6_spec :: "gddr6_config \<Rightarrow> Organization \<Rightarrow> int list \<Rightarrow> timing_cons \<Rightarrow> dram_spec" where
  "GDDR6_spec cfg org vals tcs =
     \<lparr>m_internal_prefetch_size = 8, m_levels = GDDR6_levels, m_organization = org,
      m_channel_width = opt_or (cfg_channel_width cfg) 64,
      m_commands = GDDR6_commands, m_command_scopes = GDDR6_command_scopes,
      m_command_meta = GDDR6_command_meta, m_requests = GDDR6_requests,
      m_request_translations = GDDR6_request_translations,
      m_aim_requests = GDDR6_aim_requests,
      m_aim_request_translations = GDDR6_aim_request_translations,
      m_states = GDDR6_states, m_init_states = GDDR6_init_states,
      m_timings = GDDR6_timings, m_timing_vals = vals, m_timing_cons = tcs,
      m_read_latency = GDDR6_read_latency (timing_val vals),
      m_command_latencies = GDDR6_command_latencies (timing_val vals),
      m_actions = GDDR6_actions, m_preqs = GDDR6_preqs\<rparr>"

record dram =
  dram_spec :: dram_spec
  dram_clk :: int
  m_channels :: "node list"
  m_open_rows :: "16 word list"

definition create_nodes :: "dram_spec \<Rightarrow> node list result" where
  "create_nodes spec =
     andThen (vec_at (org_count (m_organization spec)) (level_id spec ''channel'')) (\<lambda>num_channels.
       map_result (\<lambda>i. Node_new spec 0 (int i)) [0..<nat num_channels])"

definition GDDR6_init :: "int \<Rightarrow> gddr6_config \<Rightarrow> dram result" where
  "GDDR6_init stray cfg =
     andThen (set_organization cfg) (\<lambda>org.
     andThen (timing_values stray cfg org) (\<lambda>vals.
     andThen (populate_timingcons GDDR6_levels GDDR6_commands
                (GDDR6_timing_constraints (timing_val vals))) (\<lambda>tcs.
     (let spec = GDDR6_spec cfg org vals tcs in
      andThen (create_nodes spec) (\<lambda>channels.
        Ok \<lparr>dram_spec = spec, dram_clk = 0, m_channels = channels,
            m_open_rows = replicate (length channels) 0\<rparr>)))))"

definition dram_tick :: "dram \<Rightarrow> dram" where
  "dram_tick d = d\<lparr>dram_clk := dram_clk d + 1\<rparr>"

definition dram_get_preq :: "dram \<Rightarrow> int \<Rightarrow> int list \<Rightarrow> int result" where
  "dram_get_preq d command addr_vec =
     andThen (vec_at addr_vec (level_id (dram_spec d) ''channel'')) (\<lambda>ch.
     andThen (vec_at (m_channels d) ch) (\<lambda>n.
       get_preq_command (dram_spec d) command addr_vec n))"

definition dram_check_ready :: "dram \<Rightarrow> int \<Rightarrow> int list \<Rightarrow> bool result" where
  "dram_check_ready d command addr_vec =
     andThen (vec_at addr_vec (level_id (dram_spec d) ''channel'')) (\<lambda>ch.
     andThen (vec_at (m_channels d) ch) (\<lambda>n.
       check_ready (dram_spec d) command addr_vec (dram_clk d) n))"

text \<open>\<open>(uint16_t)(1 << bank_id)\<close>; a shift by a negative or too large amount is undefined.\<close>

definition bank_bit :: "int \<Rightarrow> 16 word result" where
  "bank_bit b = (if 0 \<le> b \<and> b < 32 then Ok (push_bit (nat b) 1) else Err (Undefined ''shift''))"

definition bank_bits :: "int list \<Rightarrow> 16 word result" where
  "bank_bits bs = fold_result (\<lambda>b w. andThen (bank_bit b) (\<lambda>x. Ok (w OR x))) bs 0"

definition track_open_rows :: "dram_spec \<Rightarrow> int \<Rightarrow> int list \<Rightarrow> 16 word \<Rightarrow> 16 word result" where
  "track_open_rows spec command addr_vec w =
    (let bankgroup_banks = andThen (vec_at addr_vec (level_id spec ''bankgroup'')) (\<lambda>bg.
             bank_bits [bg * 4, bg * 4 + 1, bg * 4 + 2, bg * 4 + 3]);
         one_bank = andThen (vec_at addr_vec (level_id spec ''bank'')) bank_bit in
     if command = command_id spec ''WRA16'' \<or> command = command_id spec ''PREA'' then Ok 0
     else if command = command_id spec ''PRE4''
     then andThen bankgroup_banks (\<lambda>x. Ok (w AND NOT x))
     else if command \<in> {command_id spec ''PRE'', command_id spec ''RDA'', command_id spec ''WRA''}
     then andThen one_bank (\<lambda>x. Ok (w AND NOT x))
     else if command = command_id spec ''ACT16'' then Ok 0xFFFF
     else if command = command_id spec ''ACT4''
     then andThen bankgroup_banks (\<lambda>x. Ok (w OR x))
     else if command = command_id spec ''ACT'' then andThen one_bank (\<lambda>x. Ok (w OR x))
     else Ok w)"

definition issue_command :: "int \<Rightarrow> int list \<Rightarrow> dram \<Rightarrow> dram result" where
  "issue_command command addr_vec d =
    (let spec = dram_spec d in
     andThen (vec_at addr_vec (level_id spec ''channel'')) (\<lambda>ch.
     andThen (vec_at (m_channels d) ch) (\<lambda>n.
     andThen (update_timing spec command addr_vec (dram_clk d) n) (\<lambda>n.
     andThen (update_states spec command addr_vec n) (\<lambda>n.
     andThen (vec_put (m_channels d) ch n) (\<lambda>channels.
     andThen (vec_at (m_open_rows d) ch) (\<lambda>w.
     andThen (track_open_rows spec command addr_vec w) (\<lambda>w.
     andThen (vec_put (m_open_rows d) ch w) (\<lambda>rows.
       Ok (d\<lparr>m_channels := channels, m_open_rows := rows\<rparr>))))))))))"

end
