(* ===== verification/Small_Device.thy ===== *)
theory Small_Device
  imports GDDR6
begin

text \<open>
  A device small enough to be evaluated, on which witnesses run the controllers: one channel
  with one bank group of two banks, with the tables of \<^verbatim>\<open>src/src/dram/impl/GDDR6.cpp\<close> (commands,
  actions, prerequisites, request translations, latencies under the AiM timing preset) and a
  single timing constraint, three cycles from \<open>ACT\<close> to \<open>RD\<close> of a bank. It models no part of the
  program.
\<close>

definition small_config :: gddr6_config where
  "small_config =
     \<lparr>cfg_channel_width = None, cfg_org_preset = None, cfg_dq = None, cfg_level = (\<lambda>_. None),
      cfg_density = None, cfg_timing_preset = Some ''GDDR6_AiM_timing'', cfg_rate = None,
      cfg_cycles = (\<lambda>_. None), cfg_ps = (\<lambda>_. None)\<rparr>"

definition small_vals :: "int list" where
  "small_vals = [2000, 2, 50, 36, 56, 25, 86, 66, 28, 48, 32, 54, 89, 33, 12, 6, 2, 2, 5, 6, 9, 11, 28,
     0, 15600, 21, 3333, 0, 1, 1, 1, 1, 32, 500]"

definition small_constraint :: TimingConsInitializer where
  "small_constraint =
     \<lparr>ts_level = ''bank'', ts_preceding = [''ACT''], ts_following = [''RD''], ts_latency = 3,
      ts_window = 1, ts_is_sibling = False\<rparr>"

definition small_spec :: dram_spec where
  "small_spec = GDDR6_spec small_config \<lparr>density = 1, dq = 16, org_count = [1, 1, 2, 8, 4]\<rparr>
     small_vals (case populate_timingcons GDDR6_levels GDDR6_commands [small_constraint] of
       Inr tcs \<Rightarrow> tcs | Inl e \<Rightarrow> [])"

definition small_device :: dram where
  "small_device =
     \<lparr>dram_spec = small_spec, dram_clk = 0,
      m_channels = (case create_nodes small_spec of Inr ns \<Rightarrow> ns | Inl e \<Rightarrow> []), m_open_rows = [0]\<rparr>"

end
