(* ===== verification/Scheduler.thy ===== *)
theory Scheduler
  imports Small_Device Request
begin

text \<open>
  \<^verbatim>\<open>src/src/dram_controller/scheduler.h\<close> and \<^verbatim>\<open>impl/scheduler/generic_scheduler.cpp\<close>: the
  first-ready, first-come-first-served scheduler. An iterator into a request buffer is the
  position of the element it points at, and \<open>buffer.end()\<close> is \<open>None\<close>.

  The locale \<open>request_scheduler\<close> is the contract of \<open>IScheduler::get_best_request\<close> the
  controllers rely on; FRFCFS is interpreted in it.
\<close>

subsection \<open>FRFCFS\<close>

definition request_ready :: "dram \<Rightarrow> request \<Rightarrow> bool result" where
  "request_ready d r = dram_check_ready d (command r) (addr_vec r)"

definition FRFCFS_compare :: "dram \<Rightarrow> request list \<Rightarrow> nat \<Rightarrow> nat \<Rightarrow> nat result" where
  "FRFCFS_compare d rs req1 req2 =
     andThen (request_ready d (rs ! req1)) (\<lambda>ready1.
     andThen (request_ready d (rs ! req2)) (\<lambda>ready2.
       if ready1 \<noteq> ready2 then Ok (if ready1 then req1 else req2)
       else Ok (if arrive (rs ! req1) \<le> arrive (rs ! req2) then req1 else req2)))"

definition set_preq_command :: "dram \<Rightarrow> request \<Rightarrow> request result" where
  "set_preq_command d r =
     andThen (dram_get_preq d (final_command r) (addr_vec r)) (\<lambda>c. Ok (r\<lparr>command := c\<rparr>))"

definition FRFCFS_get_best_request :: "dram \<Rightarrow> ReqBuffer \<Rightarrow> (nat option \<times> ReqBuffer) result" where
  "FRFCFS_get_best_request d b =
     (if buf_size b = 0 then Ok (None, b)
      else andThen (map_result (set_preq_command d) (buffer b)) (\<lambda>rs.
           andThen (fold_result (\<lambda>next_req candidate. FRFCFS_compare d rs candidate next_req)
                      [1..<length rs] 0) (\<lambda>candidate.
             Ok (Some candidate, b\<lparr>buffer := rs\<rparr>))))"

subsection \<open>The order it implements\<close>

text \<open>Ready requests first, then earlier arrivals, then earlier positions.\<close>

definition is_ready :: "dram \<Rightarrow> request \<Rightarrow> bool" where
  "is_ready d r \<longleftrightarrow> request_ready d r = Ok True"

definition served_before :: "dram \<Rightarrow> request list \<Rightarrow> nat \<Rightarrow> nat \<Rightarrow> bool" where
  "served_before d rs i j \<longleftrightarrow>
     (if is_ready d (rs ! i) = is_ready d (rs ! j)
      then arrive (rs ! i) < arrive (rs ! j) \<or> arrive (rs ! i) = arrive (rs ! j) \<and> i \<le> j
      else is_ready d (rs ! i))"

lemma served_before_refl: "served_before d rs i i"
  by (simp add: served_before_def)

lemma served_before_trans:
  "served_before d rs i j \<Longrightarrow> served_before d rs j k \<Longrightarrow> served_before d rs i k"
  by (auto simp: served_before_def split: if_splits)

lemma compare_spec:
  assumes "FRFCFS_compare d rs i j = Ok k" and "i < j"
  shows "k \<in> {i, j}" "served_before d rs k i" "served_before d rs k j"
  using assms
  by (auto simp: FRFCFS_compare_def served_before_def is_ready_def result_simps split: if_splits)

lemma candidates_best:
  assumes "fold_result (\<lambda>next_req candidate. FRFCFS_compare d rs candidate next_req) [m..<n] c = Ok k"
    and "c < m" and "\<And>j. j < m \<Longrightarrow> served_before d rs c j"
  shows "k < max m n \<and> (\<forall>j<max m n. served_before d rs k j)"
  using assms
proof (induction "n - m" arbitrary: m c)
  case 0
  then show ?case by simp
next
  case (Suc x)
  then have mn: "m < n" by simp
  with Suc.prems(1) obtain c' where c': "FRFCFS_compare d rs c m = Ok c'"
    and rest: "fold_result (\<lambda>next_req candidate. FRFCFS_compare d rs candidate next_req) [Suc m..<n] c' = Ok k"
    by (auto simp: upt_conv_Cons result_simps)
  note spec = compare_spec [OF c' Suc.prems(2)]
  have "served_before d rs c' j" if "j < Suc m" for j
    using that spec(2,3) Suc.prems(3) [of j] served_before_trans [of d rs c' c j]
    by (cases "j = m") auto
  then have "k < max (Suc m) n \<and> (\<forall>j<max (Suc m) n. served_before d rs k j)"
    using Suc.hyps(1) [OF _ rest] Suc.hyps(2) spec(1) Suc.prems(2) by auto
  then show ?case using mn by (simp add: max_def split: if_splits)
qed

subsection \<open>The contract of a scheduler\<close>

text \<open>Only the \<open>command\<close> field is written, with the prerequisite of the request's command.\<close>

definition rescheduled :: "dram \<Rightarrow> request \<Rightarrow> request \<Rightarrow> bool" where
  "rescheduled d r r' \<longleftrightarrow> set_preq_command d r = Ok r'"

lemma rescheduled_fields:
  assumes "rescheduled d r r'"
  shows "r' = r\<lparr>command := command r'\<rparr>" "dram_get_preq d (final_command r) (addr_vec r) = Ok (command r')"
  using assms by (auto simp: rescheduled_def set_preq_command_def result_simps)

lemma rescheduled_keeps: "rescheduled d r r' \<Longrightarrow> (\<And>r c. f (r\<lparr>command := c\<rparr>) = f r) \<Longrightarrow> f r' = f r"
  by (metis rescheduled_fields(1))

locale request_scheduler =
  fixes best :: "dram \<Rightarrow> ReqBuffer \<Rightarrow> (nat option \<times> ReqBuffer) result"
  assumes best_empty: "buffer b = [] \<Longrightarrow> best d b = Ok (None, b)"
    and best_some: "best d b = Ok (sel, b') \<Longrightarrow> buffer b \<noteq> [] \<Longrightarrow> \<exists>i<length (buffer b). sel = Some i"
    and best_capacity: "best d b = Ok (sel, b') \<Longrightarrow> max_size b' = max_size b"
    and best_rescheduled:
      "best d b = Ok (sel, b') \<Longrightarrow> list_all2 (rescheduled d) (buffer b) (buffer b')"
begin

lemma best_length: "best d b = Ok (sel, b') \<Longrightarrow> length (buffer b') = length (buffer b)"
  by (simp add: list_all2_lengthD [OF best_rescheduled])

lemma best_index: "best d b = Ok (Some i, b') \<Longrightarrow> i < length (buffer b')"
  using best_some [of d b "Some i" b'] best_empty [of b d] best_length [of d b "Some i" b']
  by (cases "buffer b = []") auto

lemma best_none: "best d b = Ok (None, b') \<Longrightarrow> buffer b = [] \<and> b' = b"
  using best_some [of d b None b'] best_empty [of b d] by auto

lemma best_bounded: "best d b = Ok (sel, b') \<Longrightarrow> buf_bounded b \<Longrightarrow> buf_bounded b'"
  by (simp add: buf_bounded_def buf_size_def best_length best_capacity)

text \<open>A property of requests that does not read \<open>command\<close> survives scheduling.\<close>

lemma best_keeps:
  assumes "best d b = Ok (sel, b')" and "\<And>r c. P (r\<lparr>command := c\<rparr>) = P r"
  shows "list_all2 (\<lambda>r r'. P r = P r') (buffer b) (buffer b')"
  using best_rescheduled [OF assms(1)]
proof (rule list_all2_mono)
  fix r r' assume "rescheduled d r r'"
  then have "P r' = P r" by (rule rescheduled_keeps) (rule assms(2))
  then show "P r = P r'" by simp
qed

lemma best_all:
  assumes "best d b = Ok (sel, b')" and "\<And>r c. P (r\<lparr>command := c\<rparr>) = P r"
  shows "(\<forall>r\<in>set (buffer b'). P r) \<longleftrightarrow> (\<forall>r\<in>set (buffer b). P r)"
proof -
  note k = best_keeps [OF assms]
  then have "length (buffer b') = length (buffer b)" by (simp add: list_all2_lengthD)
  with k show ?thesis by (auto simp: list_all2_conv_all_nth all_set_conv_all_nth)
qed

lemma best_map:
  assumes "best d b = Ok (sel, b')" and "\<And>r c. f (r\<lparr>command := c\<rparr>) = f r"
  shows "map f (buffer b') = map f (buffer b)"
proof (rule nth_equalityI)
  show len: "length (map f (buffer b')) = length (map f (buffer b))"
    by (simp add: best_length [OF assms(1)])
  show "map f (buffer b') ! i = map f (buffer b) ! i" if "i < length (map f (buffer b'))" for i
  proof -
    have "rescheduled d (buffer b ! i) (buffer b' ! i)"
      using that len best_rescheduled [OF assms(1)] by (simp add: list_all2_conv_all_nth)
    then have "f (buffer b' ! i) = f (buffer b ! i)" by (rule rescheduled_keeps) (rule assms(2))
    then show ?thesis using that len by simp
  qed
qed

end

lemma FRFCFS_cases:
  assumes "FRFCFS_get_best_request d b = Ok (sel, b')"
  obtains (empty) "buffer b = []" "sel = None" "b' = b"
    | (best) rs k where "buffer b \<noteq> []" "map_result (set_preq_command d) (buffer b) = Ok rs"
        "sel = Some k" "b' = b\<lparr>buffer := rs\<rparr>" "k < length rs" "length rs = length (buffer b)"
        "\<forall>j<length rs. served_before d rs k j"
proof (cases "buffer b = []")
  case True
  with assms have "sel = None \<and> b' = b" by (auto simp: FRFCFS_get_best_request_def buf_size_def)
  then show thesis using that(1) True by blast
next
  case False
  then obtain rs k where rs: "map_result (set_preq_command d) (buffer b) = Ok rs"
    and k: "fold_result (\<lambda>next_req candidate. FRFCFS_compare d rs candidate next_req) [1..<length rs] 0 = Ok k"
    and e: "sel = Some k" "b' = b\<lparr>buffer := rs\<rparr>"
    using assms by (auto simp: FRFCFS_get_best_request_def buf_size_def andThen_Ok_iff)
  have len: "length rs = length (buffer b)" by (rule map_result_length [OF rs])
  with False have pos: "0 < length rs" by simp
  have "k < max 1 (length rs) \<and> (\<forall>j<max 1 (length rs). served_before d rs k j)"
    by (rule candidates_best [OF k]) (auto simp: served_before_refl)
  with pos have "k < length rs" "\<forall>j<length rs. served_before d rs k j"
    by (auto simp: max_def split: if_splits)
  then show thesis using that(2) [OF False rs e(1,2)] len by blast
qed

interpretation frfcfs: request_scheduler FRFCFS_get_best_request
proof unfold_locales
  show "FRFCFS_get_best_request d b = Ok (None, b)" if "buffer b = []" for d b
    using that by (simp add: FRFCFS_get_best_request_def buf_size_def)
  show "\<exists>i<length (buffer b). sel = Some i"
    if "FRFCFS_get_best_request d b = Ok (sel, b')" "buffer b \<noteq> []" for d b sel b'
    using that by (auto elim!: FRFCFS_cases)
  show "max_size b' = max_size b" if "FRFCFS_get_best_request d b = Ok (sel, b')" for d b sel b'
    using that by (auto elim!: FRFCFS_cases)
  show "list_all2 (rescheduled d) (buffer b) (buffer b')"
    if "FRFCFS_get_best_request d b = Ok (sel, b')" for d b sel b'
    using that
    by (cases rule: FRFCFS_cases)
      (simp_all add: map_result_Ok_iff rescheduled_def [abs_def])
qed

subsection \<open>Absence of errors\<close>

lemma FRFCFS_total:
  assumes "\<And>r. r \<in> set (buffer b) \<Longrightarrow> \<exists>c ready. dram_get_preq d (final_command r) (addr_vec r) = Ok c
             \<and> dram_check_ready d c (addr_vec r) = Ok ready"
  shows "is_ok (FRFCFS_get_best_request d b)"
proof (cases "buffer b = []")
  case True
  then show ?thesis by (simp add: frfcfs.best_empty)
next
  case False
  have "is_ok (map_result (set_preq_command d) (buffer b))"
    using assms by (intro map_result_total) (force simp: set_preq_command_def is_ok_iff)
  then obtain rs where rs: "map_result (set_preq_command d) (buffer b) = Ok rs" by (auto simp: is_ok_iff)
  have ready: "is_ok (request_ready d (rs ! i))" if "i < length rs" for i
  proof -
    from that have i: "i < length (buffer b)" by (simp add: map_result_length [OF rs])
    have r: "rescheduled d (buffer b ! i) (rs ! i)" using map_result_nth [OF rs i] by (simp add: rescheduled_def)
    show ?thesis using assms [of "buffer b ! i"] i rescheduled_fields(2) [OF r] rescheduled_keeps [OF r, of addr_vec]
      by (auto simp: request_ready_def is_ok_iff)
  qed
  have "\<exists>k. fold_result (\<lambda>next_req candidate. FRFCFS_compare d rs candidate next_req) [1..<length rs] 0 = Ok k
          \<and> k < length rs"
  proof (rule fold_result_total)
    show "0 < length rs" using False map_result_length [OF rs] by simp
    fix j k assume "j \<in> set [1..<length rs]" and k: "k < length rs"
    then have j: "j < length rs" by simp
    obtain x y where "request_ready d (rs ! k) = Ok x" "request_ready d (rs ! j) = Ok y"
      using ready [OF k] ready [OF j] by (auto simp: is_ok_iff)
    then show "\<exists>v. FRFCFS_compare d rs k j = Ok v \<and> v < length rs"
      using j k by (auto simp: FRFCFS_compare_def)
  qed
  with rs False show ?thesis by (auto simp: FRFCFS_get_best_request_def buf_size_def is_ok_iff)
qed

subsection \<open>Properties\<close>

text \<open>C19: \<open>FRFCFS::get_best_request\<close> on a non-empty buffer returns a request before
  which no other is served: it is ready if any request of the buffer is, no ready request (no
  request at all, when none is ready) has arrived before it, and of several that arrived
  together it is the first in the buffer.\<close>

theorem frfcfs_optimal:
  assumes "FRFCFS_get_best_request d b = Ok (Some i, b')"
  shows "i < length (buffer b')
    \<and> (\<forall>j<length (buffer b').
         (is_ready d (buffer b' ! j) \<longrightarrow> is_ready d (buffer b' ! i))
         \<and> (is_ready d (buffer b' ! i) = is_ready d (buffer b' ! j) \<longrightarrow>
              arrive (buffer b' ! i) < arrive (buffer b' ! j)
              \<or> arrive (buffer b' ! i) = arrive (buffer b' ! j) \<and> i \<le> j))"
  using assms by (cases rule: FRFCFS_cases) (auto simp: served_before_def split: if_splits)

definition read_request :: "int \<Rightarrow> int \<Rightarrow> request" where
  "read_request row at = Request_addr_vec [0, 0, 1, row, 0] 0\<lparr>final_command := 3, arrive := at\<rparr>"

theorem frfcfs_optimal_witness:
  "\<exists>b'. FRFCFS_get_best_request small_device \<lparr>buffer = [read_request 3 5, read_request 4 2], max_size = 32\<rparr>
      = Ok (Some 1, b') \<and> arrive (buffer b' ! 1) < arrive (buffer b' ! 0)"
proof -
  let ?b = "\<lparr>buffer = [read_request 3 5\<lparr>command := 0\<rparr>, read_request 4 2\<lparr>command := 0\<rparr>], max_size = 32\<rparr>"
  have e: "FRFCFS_get_best_request small_device \<lparr>buffer = [read_request 3 5, read_request 4 2], max_size = 32\<rparr>
      = Ok (Some 1, ?b)" and r: "list_all (is_ready small_device) (buffer ?b)" by code_simp+
  have "arrive (buffer ?b ! 1) < arrive (buffer ?b ! 0) \<or> arrive (buffer ?b ! 1) = arrive (buffer ?b ! 0) \<and> 1 \<le> (0::nat)"
    using frfcfs_optimal [OF e] r by auto
  then show ?thesis using e by auto
qed

end
