(* ===== verification/GDDR6_Timing.thy ===== *)
theory GDDR6_Timing
  imports GDDR6
begin

text \<open>
  The timing contract of the GDDR6 device of \<^verbatim>\<open>src/src/dram/impl/GDDR6.cpp\<close>: after any history
  of clock ticks and issued commands, \<open>check_ready\<close> answers exactly what the list of timing
  constraints says about the commands issued so far. The log of issued commands is the
  abstract specification; the per-node ready clocks and histories implement it.
\<close>

subsection \<open>The evaluated tables\<close>

lemma GDDR6_actions_eq:
  "GDDR6_actions =
     [(replicate 27 None)[22 := Some Channel_PREab, 1 := Some Channel_PREab, 10 := Some Channel_ACTab],
      (replicate 27 None)[11 := Some BankGroup_PRE4b, 9 := Some BankGroup_ACT4b],
      (replicate 27 None)[0 := Some Bank_ACT, 2 := Some Bank_PRE, 5 := Some Bank_PRE, 6 := Some Bank_PRE],
      replicate 27 None, replicate 27 None]"
  by (simp add: GDDR6_actions_def set_functions_def eval_nat_numeral)

lemma GDDR6_preqs_eq:
  "GDDR6_preqs =
     [(replicate 27 None)[7 := Some Channel_RequireAllBanksClosed, 22 := Some Channel_RequireAllRowsOpen,
        13 := Some Channel_RequireAllRowsOpen, 14 := Some Channel_RequireAllRowsOpen,
        15 := Some Channel_RequireAllRowsOpen],
      replicate 27 None,
      (replicate 27 None)[3 := Some Bank_RequireRowOpen, 4 := Some Bank_RequireRowOpen,
        5 := Some Bank_RequireRowOpen, 6 := Some Bank_RequireRowOpen, 16 := Some Bank_RequireRowOpen,
        17 := Some Bank_RequireRowOpen, 12 := Some Bank_RequireRowOpen],
      replicate 27 None, replicate 27 None]"
  by (simp add: GDDR6_preqs_def set_functions_def eval_nat_numeral)

text \<open>Every constraint is attached to a level its following commands reach.\<close>

definition ts_reaches :: "TimingConsInitializer \<Rightarrow> bool" where
  "ts_reaches ts \<longleftrightarrow> ImplDef_index GDDR6_levels (ts_level ts) \<le> 2 \<and>
     list_all (\<lambda>f. ImplDef_index GDDR6_levels (ts_level ts)
                 \<le> GDDR6_command_scopes ! nat (ImplDef_index GDDR6_commands f)) (ts_following ts)"

lemma GDDR6_constraints_reach: "list_all ts_reaches (GDDR6_timing_constraints V)"
  by (simp add: GDDR6_timing_constraints_def GDDR6_cons_channel_CAS_def GDDR6_cons_channel_RAS_def
      GDDR6_cons_channel_REF_def GDDR6_cons_bankgroup_def GDDR6_cons_bank_def ts_reaches_def
      mk_ts_def GDDR6_command_scopes_eq)

subsection \<open>Well-formed devices\<close>

definition gddr6_spec_ok :: "dram_spec \<Rightarrow> bool" where
  "gddr6_spec_ok spec \<longleftrightarrow> (\<exists>cfg org vals tcs. spec = GDDR6_spec cfg org vals tcs
     \<and> length (org_count org) = 5
     \<and> populate_timingcons GDDR6_levels GDDR6_commands (GDDR6_timing_constraints (timing_val vals)) = Ok tcs)"

definition dram_ok :: "dram \<Rightarrow> bool" where
  "dram_ok d \<longleftrightarrow> gddr6_spec_ok (dram_spec d) \<and> 0 \<le> dram_clk d
     \<and> length (m_open_rows d) = length (m_channels d)
     \<and> (\<forall>i < length (m_channels d). node_ok (dram_spec d) (m_channels d ! i)
          \<and> m_level (nd (m_channels d ! i)) = 0 \<and> m_node_id (nd (m_channels d ! i)) = int i)"

lemma gddr6_fields:
  assumes "gddr6_spec_ok spec"
  shows "m_levels spec = GDDR6_levels" "m_commands spec = GDDR6_commands" "m_states spec = GDDR6_states"
    "m_command_scopes spec = GDDR6_command_scopes" "m_init_states spec = GDDR6_init_states"
    "m_actions spec = GDDR6_actions" "m_preqs spec = GDDR6_preqs"
    "m_requests spec = GDDR6_requests" "m_request_translations spec = GDDR6_request_translations"
    "m_aim_requests spec = GDDR6_aim_requests"
    "m_aim_request_translations spec = GDDR6_aim_request_translations"
    "m_command_meta spec = GDDR6_command_meta"
    "length (org_count (m_organization spec)) = 5"
  using assms by (auto simp: gddr6_spec_ok_def GDDR6_spec_def)

definition spec_constraints :: "dram_spec \<Rightarrow> TimingConsInitializer list" where
  "spec_constraints spec = GDDR6_timing_constraints (timing_val (m_timing_vals spec))"

lemma gddr6_tc_all:
  assumes "gddr6_spec_ok spec"
  shows "tc_all (m_timing_cons spec) = (\<Union>ts \<in> set (spec_constraints spec). ts_items GDDR6_levels GDDR6_commands ts)"
  using assms populate_timingcons_all by (auto simp: gddr6_spec_ok_def GDDR6_spec_def spec_constraints_def)

lemma ts_facts:
  assumes "ts \<in> set (spec_constraints spec)"
  shows "ts_names_ok GDDR6_levels GDDR6_commands ts" "ts_window ts = 1" "\<not> ts_is_sibling ts" "ts_reaches ts"
  using assms GDDR6_constraints_names GDDR6_constraints_window GDDR6_constraints_reach
  unfolding spec_constraints_def list_all_iff by blast+

lemma gddr6_simple_timing: "gddr6_spec_ok spec \<Longrightarrow> simple_timing spec"
  by (auto simp: simple_timing_def gddr6_tc_all ts_items_def mk_TimingConsEntry_def dest: ts_facts)

lemma gddr6_spec_okD: "gddr6_spec_ok spec \<Longrightarrow> spec_ok spec"
proof -
  assume g: "gddr6_spec_ok spec"
  then obtain tcs V where "populate_timingcons GDDR6_levels GDDR6_commands (GDDR6_timing_constraints V) = Ok tcs"
      "m_timing_cons spec = tcs"
    by (auto simp: gddr6_spec_ok_def GDDR6_spec_def)
  then have shape: "tc_shape 5 27 (m_timing_cons spec)"
    using populate_timingcons_total [of "GDDR6_timing_constraints V" GDDR6_levels GDDR6_commands]
      GDDR6_constraints_names [of V] by (auto simp: list_all_iff)
  have entries: "entry_ok spec t" if t: "(l, p, t) \<in> tc_all (m_timing_cons spec)" for l p t
  proof -
    from t obtain ts f where ts: "ts \<in> set (spec_constraints spec)" "f \<in> set (ts_following ts)"
        "tc_cmd t = ImplDef_index GDDR6_commands f" "tc_window t = 1"
      by (auto simp: gddr6_tc_all [OF g] ts_items_def mk_TimingConsEntry_def ts_facts(2))
    then have "f \<in> set GDDR6_commands" using ts_facts(1) [OF ts(1)] by (simp add: ts_names_ok_def)
    then show ?thesis using ts ImplDef_index_bounds(1) ImplDef_index_in [of f GDDR6_commands]
      by (simp add: entry_ok_def gddr6_fields [OF g])
  qed
  show ?thesis unfolding spec_ok_def
    using shape entries
    by (auto simp: gddr6_fields [OF g] GDDR6_command_scopes_eq GDDR6_init_states_eq
        GDDR6_actions_eq GDDR6_preqs_eq)
qed

lemma gddr6_org_ok: "gddr6_spec_ok spec \<Longrightarrow> org_ok spec"
  by (simp add: org_ok_def gddr6_fields)

subsection \<open>Initialisation\<close>

lemma vec_put_length: "vec_put xs i v = Ok ys \<Longrightarrow> length ys = length xs"
  by (auto simp: result_simps)

lemma override_levels_length: "override_levels cfg cs = Ok cs' \<Longrightarrow> length cs' = length cs"
  unfolding override_levels_def
  by (erule fold_result_invariant) (auto simp: result_simps split: option.splits)

lemma GDDR6_org_presets_length: "map_of GDDR6_org_presets s = Some org \<Longrightarrow> length (org_count org) = 5"
  by (drule map_of_SomeD) (auto simp: GDDR6_org_presets_def)

lemma set_organization_length: "set_organization cfg = Ok org \<Longrightarrow> length (org_count org) = 5"
  by (auto simp: set_organization_def result_simps Let_def
      dest!: override_levels_length GDDR6_org_presets_length split: option.splits if_splits)

lemma create_nodes_ok:
  assumes g: "gddr6_spec_ok spec" and c: "create_nodes spec = Ok ns" and i: "i < length ns"
  shows "node_ok spec (ns ! i) \<and> m_level (nd (ns ! i)) = 0 \<and> m_node_id (nd (ns ! i)) = int i"
proof -
  from c obtain k where k: "map_result (\<lambda>i. Node_new spec 0 (int i)) [0..<nat k] = Ok ns"
    by (auto simp: create_nodes_def result_simps)
  have "i < nat k" using map_result_length [OF k] i by simp
  then have "Node_new spec 0 (int i) = Ok (ns ! i)" using map_result_nth [OF k, of i] by simp
  then show ?thesis
    using Node_new_ok [OF gddr6_spec_okD [OF g] gddr6_org_ok [OF g], of 0 "int i"]
    by (simp add: gddr6_fields [OF g])
qed

theorem GDDR6_init_dram_ok:
  assumes "GDDR6_init stray cfg = Ok d"
  shows "dram_ok d"
proof -
  from assms obtain org vals tcs channels where i: "set_organization cfg = Ok org"
      "populate_timingcons GDDR6_levels GDDR6_commands (GDDR6_timing_constraints (timing_val vals)) = Ok tcs"
      "create_nodes (GDDR6_spec cfg org vals tcs) = Ok channels"
      and d: "d = \<lparr>dram_spec = GDDR6_spec cfg org vals tcs, dram_clk = 0, m_channels = channels,
                   m_open_rows = replicate (length channels) 0\<rparr>"
    by (auto simp: GDDR6_init_def result_simps Let_def)
  have "gddr6_spec_ok (GDDR6_spec cfg org vals tcs)"
    using i(2) set_organization_length [OF i(1)] by (auto simp: gddr6_spec_ok_def)
  then show ?thesis using create_nodes_ok [OF _ i(3)] by (simp add: dram_ok_def d)
qed

subsection \<open>Histories\<close>

datatype dram_event = Dram_tick | Dram_issue int "int list"

fun dram_run :: "dram_event list \<Rightarrow> dram \<Rightarrow> dram result" where
  "dram_run [] d = Ok d"
| "dram_run (Dram_tick # es) d = dram_run es (dram_tick d)"
| "dram_run (Dram_issue c a # es) d = andThen (issue_command c a d) (dram_run es)"

text \<open>The log: each issued command with its address and the clock it was issued at.\<close>

fun issue_log :: "int \<Rightarrow> dram_event list \<Rightarrow> (int \<times> int list \<times> int) list" where
  "issue_log clk [] = []"
| "issue_log clk (Dram_tick # es) = issue_log (clk + 1) es"
| "issue_log clk (Dram_issue c a # es) = (c, a, clk) # issue_log clk es"

lemma issue_command_cases:
  assumes "issue_command c a d = Ok d'" "dram_ok d"
  obtains ch n n1 n2 where "vec_at a 0 = Ok ch" "in_vec (m_channels d) ch" "n = m_channels d ! nat ch"
    "update_timing (dram_spec d) c a (dram_clk d) n = Ok n1"
    "update_states (dram_spec d) c a n1 = Ok n2"
    "m_channels d' = (m_channels d)[nat ch := n2]" "dram_spec d' = dram_spec d"
    "dram_clk d' = dram_clk d" "length (m_open_rows d') = length (m_open_rows d)"
proof -
  have lvl: "level_id (dram_spec d) ''channel'' = 0"
    using assms(2) by (simp add: dram_ok_def gddr6_fields)
  show ?thesis
    using assms(1) that by (auto simp: issue_command_def Let_def lvl result_simps)
qed

lemma issue_command_ok: "issue_command c a d = Ok d' \<Longrightarrow> dram_ok d \<Longrightarrow> dram_ok d'"
proof (erule (1) issue_command_cases)
  fix ch n n1 n2
  assume ok: "dram_ok d" and s: "in_vec (m_channels d) ch" "n = m_channels d ! nat ch"
    "update_timing (dram_spec d) c a (dram_clk d) n = Ok n1" "update_states (dram_spec d) c a n1 = Ok n2"
    "m_channels d' = (m_channels d)[nat ch := n2]" "dram_spec d' = dram_spec d"
    "dram_clk d' = dram_clk d" "length (m_open_rows d') = length (m_open_rows d)"
  have le: "tree_le n n2" using update_timing_le [OF s(3)] update_states_le [OF s(4)] by (rule tree_le_trans)
  have "node_ok (dram_spec d) n" using ok s(1,2) in_vec_nat by (auto simp: dram_ok_def)
  then have "node_ok (dram_spec d) n2" using le by (rule node_ok_tree_le)
  moreover have "m_level (nd n2) = m_level (nd n) \<and> m_node_id (nd n2) = m_node_id (nd n)"
    using tree_le_walk [OF le, of "[]"] by (auto simp: clk_le_def)
  ultimately show "dram_ok d'" using ok s in_vec_nat [OF s(1)]
    by (auto simp: dram_ok_def nth_list_update)
qed

lemma dram_tick_ok: "dram_ok d \<Longrightarrow> dram_ok (dram_tick d)"
  by (simp add: dram_ok_def dram_tick_def)

lemma dram_run_ok: "dram_run es d = Ok d' \<Longrightarrow> dram_ok d \<Longrightarrow> dram_ok d' \<and> dram_spec d' = dram_spec d"
proof (induction es d rule: dram_run.induct)
  case (3 c a es d)
  then obtain d1 where d1: "issue_command c a d = Ok d1" "dram_run es d1 = Ok d'"
    by (auto simp: andThen_Ok_iff)
  have "dram_spec d1 = dram_spec d" using d1(1) 3(3) by (rule issue_command_cases)
  then show ?case using 3(1) [OF d1] issue_command_ok [OF d1(1) 3(3)] by simp
qed (auto simp: dram_tick_ok, simp add: dram_tick_def)

subsection \<open>The log as the specification\<close>

definition ts_constrains :: "TimingConsInitializer \<Rightarrow> int \<Rightarrow> int \<Rightarrow> bool" where
  "ts_constrains ts p f \<longleftrightarrow>
     GDDR6_commands ! nat p \<in> set (ts_preceding ts) \<and> GDDR6_commands ! nat f \<in> set (ts_following ts)"

text \<open>Two addresses meet in one node of the level of a constraint.\<close>

definition same_place :: "TimingConsInitializer \<Rightarrow> int list \<Rightarrow> int list \<Rightarrow> bool" where
  "same_place ts a b \<longleftrightarrow>
     (let k = Suc (nat (ImplDef_index GDDR6_levels (ts_level ts))) in take k a = take k b)"

definition log_allows ::
  "TimingConsInitializer list \<Rightarrow> (int \<times> int list \<times> int) list \<Rightarrow> int \<Rightarrow> int list \<Rightarrow> int \<Rightarrow> bool" where
  "log_allows cons lg f b clk \<longleftrightarrow>
     list_all (\<lambda>(p, a, t).
       list_all (\<lambda>ts. ts_constrains ts p f \<and> same_place ts a b \<longrightarrow> t + ts_latency ts \<le> clk) cons) lg"

text \<open>An address that names an existing node for every level a command reaches.\<close>

definition valid_addr :: "dram \<Rightarrow> int \<Rightarrow> int list \<Rightarrow> bool" where
  "valid_addr d f b \<longleftrightarrow> length b = 5 \<and> in_vec (m_channels d) (b ! 0) \<and>
     list_all (\<lambda>l. 0 \<le> b ! l \<and> b ! l < org_count (m_organization (dram_spec d)) ! l)
       [1..<Suc (nat (min (GDDR6_command_scopes ! nat f) 2))]"

text \<open>The simulation relation between a device and a log.\<close>

definition log_raises :: "dram_spec \<Rightarrow> (int \<times> int list \<times> int) list \<Rightarrow> int list \<Rightarrow> int \<Rightarrow> int \<Rightarrow> bool" where
  "log_raises spec lg path f x \<longleftrightarrow> (\<exists>(p, a, t) \<in> set lg. take (length path) a = path \<and>
     (\<exists>e. (int (length path) - 1, p, e) \<in> tc_all (m_timing_cons spec) \<and> tc_cmd e = f \<and> x < t + tc_val e))"

definition clocks_match :: "dram \<Rightarrow> (int \<times> int list \<times> int) list \<Rightarrow> bool" where
  "clocks_match d lg \<longleftrightarrow> (\<forall>ch path m f x.
     in_vec (m_channels d) ch \<longrightarrow> walk (m_channels d ! nat ch) path = Some m \<longrightarrow>
     is_command (dram_spec d) f \<longrightarrow> 0 \<le> x \<longrightarrow>
     (x < m_cmd_ready_clk (nd m) ! nat f \<longleftrightarrow> log_raises (dram_spec d) lg (ch # path) f x))"

lemma Node_new_walk:
  "walk n path = Some m \<Longrightarrow> Node_new spec level nid = Ok n \<Longrightarrow>
   \<exists>nid'. node_data_new spec (level + int (length path)) nid' = Ok (nd m)"
proof (induction path arbitrary: n level nid)
  case Nil
  then show ?case by (subst (asm) Node_new.simps) (auto simp: andThen_Ok_iff split: if_splits)
next
  case (Cons i q)
  from Cons.prems have i: "in_vec (m_child_nodes n) i" "walk (m_child_nodes n ! nat i) q = Some m"
    by (auto split: if_splits)
  from Cons.prems(2) obtain d where "n = Node d [] \<or> (\<exists>k ks. n = Node d ks
      \<and> map_result (\<lambda>i. Node_new spec (level + 1) (int i)) [0..<k] = Ok ks)"
    by (subst (asm) Node_new.simps) (auto simp: andThen_Ok_iff split: if_splits)
  then obtain k where k: "map_result (\<lambda>i. Node_new spec (level + 1) (int i)) [0..<k] = Ok (m_child_nodes n)"
    using i(1) by (auto simp: in_vec_def)
  have "nat i < k" using map_result_length [OF k] in_vec_nat [OF i(1)] by simp
  then have "Node_new spec (level + 1) (int (nat i)) = Ok (m_child_nodes n ! nat i)"
    using map_result_nth [OF k, of "nat i"] by simp
  from Cons.IH [OF i(2) this] show ?case by (simp add: add.assoc)
qed

lemma GDDR6_init_channels:
  assumes "GDDR6_init stray cfg = Ok d" and "in_vec (m_channels d) ch"
  shows "Node_new (dram_spec d) 0 ch = Ok (m_channels d ! nat ch)"
proof -
  from assms(1) obtain k where k: "map_result (\<lambda>i. Node_new (dram_spec d) 0 (int i)) [0..<k] = Ok (m_channels d)"
    by (auto simp: GDDR6_init_def result_simps Let_def create_nodes_def)
  have "nat ch < k" using map_result_length [OF k] in_vec_nat [OF assms(2)] by simp
  then show ?thesis using map_result_nth [OF k, of "nat ch"] assms(2) by (simp add: in_vec_def)
qed

lemma node_data_new_fresh:
  "node_data_new spec l i = Ok d \<Longrightarrow>
   m_cmd_ready_clk d = replicate (length (m_commands spec)) (-1) \<and> m_row_state d = Map.empty
   \<and> m_state d = m_init_states spec ! nat l"
  by (auto simp: node_data_new_def andThen_Ok_iff vec_at_Ok_iff)

lemma GDDR6_init_clocks: "GDDR6_init stray cfg = Ok d \<Longrightarrow> clocks_match d []"
  unfolding clocks_match_def
proof (intro allI impI)
  fix ch path m f x
  assume "GDDR6_init stray cfg = Ok d" "in_vec (m_channels d) ch"
    and w: "walk (m_channels d ! nat ch) path = Some m"
    and f: "is_command (dram_spec d) f" "0 \<le> (x::int)"
  from Node_new_walk [OF w GDDR6_init_channels [OF this(1,2)]]
  have "m_cmd_ready_clk (nd m) = replicate (length (m_commands (dram_spec d))) (-1)"
    by (auto dest: node_data_new_fresh)
  then show "x < m_cmd_ready_clk (nd m) ! nat f \<longleftrightarrow> log_raises (dram_spec d) [] (ch # path) f x"
    using f by (auto simp: log_raises_def is_command_def)
qed

lemma addressed_take:
  assumes "m_level (nd n) = 0" "m_node_id (nd n) = ch"
  shows "addressed addr n path \<longleftrightarrow> take (Suc (length path)) addr = ch # path"
proof -
  have "addressed addr n path \<longleftrightarrow> addr \<noteq> [] \<and> addr ! 0 = ch
      \<and> (\<forall>k < length path. Suc k < length addr \<and> addr ! Suc k = path ! k)"
    using assms by (auto simp: addressed_def follows_def vec_at_def in_vec_def)
  also have "\<dots> \<longleftrightarrow> take (Suc (length path)) addr = ch # path"
  proof (cases addr)
    case (Cons c r)
    have "(\<forall>k < length path. k < length r \<and> r ! k = path ! k) \<longleftrightarrow> take (length path) r = path"
      by (auto simp: list_eq_iff_nth_eq) (metis not_less min.absorb2 nat_less_le less_irrefl)+
    then show ?thesis by (auto simp: Cons)
  qed simp
  finally show ?thesis .
qed

lemma update_timing_command:
  assumes "update_timing spec c a clk n = Ok n'" "spec_ok spec" "node_ok spec n"
  shows "is_command spec c"
proof -
  obtain d ks where n: "n = Node d ks" by (cases n)
  from assms(1) obtain ts where "timing_at (m_timing_cons spec) (m_level d) c = Ok ts"
    by (auto simp: n andThen_Ok_iff)
  then show ?thesis using assms(2) tc_shape_row
    by (force simp: timing_at_def result_simps is_command_def spec_ok_def in_vec_def)
qed

lemma issue_command_clocks:
  assumes "issue_command c a d = Ok d'" and "dram_ok d" and "clocks_match d lg"
  shows "clocks_match d' (lg @ [(c, a, dram_clk d)])"
  using assms(1,2)
proof (rule issue_command_cases)
  fix ch n n1 n2
  assume ch: "vec_at a 0 = Ok ch" "in_vec (m_channels d) ch" "n = m_channels d ! nat ch"
    and t: "update_timing (dram_spec d) c a (dram_clk d) n = Ok n1"
    and u: "update_states (dram_spec d) c a n1 = Ok n2"
    and d': "m_channels d' = (m_channels d)[nat ch := n2]" "dram_spec d' = dram_spec d"
      "dram_clk d' = dram_clk d"
  have g: "gddr6_spec_ok (dram_spec d)" and clk: "0 \<le> dram_clk d" using assms(2) by (simp_all add: dram_ok_def)
  have n: "node_ok (dram_spec d) n" "m_level (nd n) = 0" "m_node_id (nd n) = ch"
    using assms(2) ch in_vec_nat [OF ch(2)] by (auto simp: dram_ok_def in_vec_def)
  show ?thesis unfolding clocks_match_def d'(2)
  proof (intro allI impI)
    fix ch' path m' f x
    assume ch': "in_vec (m_channels d') ch'" and w': "walk (m_channels d' ! nat ch') path = Some m'"
      and f: "is_command (dram_spec d) f" and x: "0 \<le> (x::int)"
    have snoc: "log_raises (dram_spec d) (lg @ [(c, a, dram_clk d)]) (ch' # path) f x \<longleftrightarrow>
        log_raises (dram_spec d) lg (ch' # path) f x \<or>
        (take (Suc (length path)) a = ch' # path \<and> (\<exists>e. (int (length path), c, e)
           \<in> tc_all (m_timing_cons (dram_spec d)) \<and> tc_cmd e = f \<and> x < dram_clk d + tc_val e))"
      by (auto simp: log_raises_def)
    show "x < m_cmd_ready_clk (nd m') ! nat f \<longleftrightarrow>
        log_raises (dram_spec d) (lg @ [(c, a, dram_clk d)]) (ch' # path) f x"
    proof (cases "ch' = ch")
      case False
      then have "m_channels d' ! nat ch' = m_channels d ! nat ch'"
        using ch(2) ch' by (auto simp: d'(1) in_vec_def nth_list_update)
      moreover have "take (Suc (length path)) a \<noteq> ch' # path"
        using ch(1) False by (cases a) (auto simp: vec_at_def split: if_splits)
      ultimately show ?thesis
        using assms(3) ch' w' f x unfolding snoc clocks_match_def by (simp add: d'(1))
    next
      case True
      then have at: "m_channels d' ! nat ch' = n2" using in_vec_nat [OF ch(2)] by (simp add: d'(1))
      have le: "tree_le n n1" by (rule update_timing_le [OF t])
      obtain m1 where m1: "walk n1 path = Some m1" "m_cmd_ready_clk (nd m1) = m_cmd_ready_clk (nd m')"
        using same_clocks_ready [of n2 n1] update_states_same [OF u] w' at
        by (auto simp: same_clocks_def)
      obtain m where m: "walk n path = Some m"
        using le m1(1) unfolding tree_le_def by (cases "walk n path") (force dest: spec [of _ path])+
      have lv: "m_level (nd m) = int (length path)" using walk_level [OF n(1) m] n(2) by simp
      have cmd: "is_command (dram_spec d) c"
        by (rule update_timing_command [OF t gddr6_spec_okD [OF g] n(1)])
      have "x < m_cmd_ready_clk (nd m1) ! nat f \<longleftrightarrow>
          x < m_cmd_ready_clk (nd m) ! nat f \<or> (addressed a n path \<and>
            (\<exists>t. (m_level (nd m), c, t) \<in> tc_all (m_timing_cons (dram_spec d)) \<and> tc_cmd t = f \<and> x < dram_clk d + tc_val t))"
        using update_timing_exact [OF gddr6_simple_timing [OF g] gddr6_spec_okD [OF g] t n(1) m clk cmd f, of x] m1(1)
        by auto
      moreover have "x < m_cmd_ready_clk (nd m) ! nat f \<longleftrightarrow> log_raises (dram_spec d) lg (ch # path) f x"
        using assms(3) ch(2,3) m f x unfolding clocks_match_def by auto
      ultimately show ?thesis
        unfolding snoc using True addressed_take [OF n(2,3)] m1(2) lv by simp
    qed
  qed
qed

lemma dram_run_clocks:
  "dram_run es d = Ok d' \<Longrightarrow> dram_ok d \<Longrightarrow> clocks_match d lg \<Longrightarrow>
   clocks_match d' (lg @ issue_log (dram_clk d) es)"
proof (induction es d arbitrary: lg rule: dram_run.induct)
  case (1 d)
  then show ?case by simp
next
  case (2 es d)
  have "clocks_match (dram_tick d) lg" using 2(4) by (simp add: clocks_match_def dram_tick_def)
  then show ?case using 2 dram_tick_ok by (simp add: dram_tick_def)
next
  case (3 c a es d)
  then obtain d1 where d1: "issue_command c a d = Ok d1" "dram_run es d1 = Ok d'"
    by (auto simp: andThen_Ok_iff)
  have "dram_clk d1 = dram_clk d" using d1(1) 3(3) by (rule issue_command_cases)
  then show ?case
    using 3(1) [OF d1 issue_command_ok [OF d1(1) 3(3)] issue_command_clocks [OF d1(1) 3(3,4)]] by simp
qed

lemma walk_exists:
  assumes "node_ok spec n"
    and "\<forall>k < length path. m_level (nd n) + 1 + int k < level_id spec ''row'' \<and> 0 \<le> path ! k
       \<and> path ! k < org_count (m_organization spec) ! nat (m_level (nd n) + 1 + int k)"
  shows "\<exists>m. walk n path = Some m"
  using assms
proof (induction path arbitrary: n)
  case (Cons i q)
  have "m_level (nd n) + 1 < level_id spec ''row'' \<and> 0 \<le> i
       \<and> i < org_count (m_organization spec) ! nat (m_level (nd n) + 1)"
    using Cons.prems(2) by (auto dest: spec [of _ 0])
  then have i: "in_vec (m_child_nodes n) i"
    using node_okD(2) [OF Cons.prems(1)] by (auto simp: kids_ok_def kids_count_def in_vec_def)
  have "\<exists>m. walk (m_child_nodes n ! nat i) q = Some m"
    by (rule Cons.IH [OF node_ok_child [OF Cons.prems(1) i]])
      (use Cons.prems(2) in \<open>auto simp: kid_data [OF Cons.prems(1) i] add.assoc dest: spec [of _ "Suc _"]\<close>)
  then show ?case using i by simp
qed simp

lemma in_set_command: "is_command spec f \<Longrightarrow> m_commands spec = GDDR6_commands \<Longrightarrow>
   ImplDef_index GDDR6_commands s = f \<and> s \<in> set GDDR6_commands \<longleftrightarrow> s = GDDR6_commands ! nat f"
proof -
  assume f: "is_command spec f" "m_commands spec = GDDR6_commands"
  then have "list_all (\<lambda>k. ImplDef_index GDDR6_commands (GDDR6_commands ! k) = int k) [0..<27] \<Longrightarrow>
      ImplDef_index GDDR6_commands (GDDR6_commands ! nat f) = f"
    by (auto simp: is_command_def list_all_iff dest: bspec [of _ _ "nat f"])
  moreover have "list_all (\<lambda>k. ImplDef_index GDDR6_commands (GDDR6_commands ! k) = int k) [0..<27]"
    by code_simp
  ultimately have "ImplDef_index GDDR6_commands (GDDR6_commands ! nat f) = f" by blast
  moreover have "GDDR6_commands ! nat f \<in> set GDDR6_commands"
    using f by (auto simp: is_command_def intro!: nth_mem)
  ultimately show ?thesis using ImplDef_index_nth by metis
qed

text \<open>The constraints of the table, read back as the initializers of the source.\<close>

lemma tc_all_constraint:
  assumes g: "gddr6_spec_ok spec" and f: "is_command spec f" and p: "is_command spec p"
  shows "(\<exists>e. (l, p, e) \<in> tc_all (m_timing_cons spec) \<and> tc_cmd e = f \<and> x < t + tc_val e) \<longleftrightarrow>
    (\<exists>ts \<in> set (spec_constraints spec). ts_constrains ts p f
       \<and> ImplDef_index GDDR6_levels (ts_level ts) = l \<and> x < t + ts_latency ts)"
    (is "?L \<longleftrightarrow> ?R")
proof
  assume ?L
  then obtain ts ps fs where ts: "ts \<in> set (spec_constraints spec)" "ps \<in> set (ts_preceding ts)"
      "fs \<in> set (ts_following ts)" "l = ImplDef_index GDDR6_levels (ts_level ts)"
      "p = ImplDef_index GDDR6_commands ps" "f = ImplDef_index GDDR6_commands fs" "x < t + ts_latency ts"
    by (auto simp: gddr6_tc_all [OF g] ts_items_def mk_TimingConsEntry_def)
  moreover have "ps \<in> set GDDR6_commands" "fs \<in> set GDDR6_commands"
    using ts ts_facts(1) [OF ts(1)] by (simp_all add: ts_names_ok_def)
  ultimately show ?R
    using ImplDef_index_nth by (auto simp: ts_constrains_def)
next
  assume ?R
  then obtain ts where ts: "ts \<in> set (spec_constraints spec)" "ts_constrains ts p f"
      "ImplDef_index GDDR6_levels (ts_level ts) = l" "x < t + ts_latency ts" by blast
  have "ImplDef_index GDDR6_commands (GDDR6_commands ! nat p) = p"
       "ImplDef_index GDDR6_commands (GDDR6_commands ! nat f) = f"
    using in_set_command [OF p] in_set_command [OF f] gddr6_fields(2) [OF g] by blast+
  then have "(l, p, mk_TimingConsEntry f (ts_latency ts) (ts_window ts) (ts_is_sibling ts))
      \<in> ts_items GDDR6_levels GDDR6_commands ts"
    using ts(2,3) unfolding ts_items_def ts_constrains_def by force
  then show ?L using ts(1,4) by (auto simp: gddr6_tc_all [OF g] mk_TimingConsEntry_def
      intro!: exI [of _ "mk_TimingConsEntry f (ts_latency ts) (ts_window ts) (ts_is_sibling ts)"])
qed

lemma dram_run_commands:
  "dram_run es d = Ok d' \<Longrightarrow> dram_ok d \<Longrightarrow>
   list_all (\<lambda>(p, a, t). is_command (dram_spec d) p) (issue_log clk es)"
proof (induction es d arbitrary: clk rule: dram_run.induct)
  case (2 es d)
  then show ?case using dram_tick_ok by (simp add: dram_tick_def)
next
  case (3 c a es d)
  then obtain d1 where d1: "issue_command c a d = Ok d1" "dram_run es d1 = Ok d'"
    by (auto simp: andThen_Ok_iff)
  have g: "spec_ok (dram_spec d)" using 3(3) gddr6_spec_okD by (simp add: dram_ok_def)
  have "is_command (dram_spec d) c \<and> dram_spec d1 = dram_spec d"
    using d1(1) 3(3)
  proof (rule issue_command_cases)
    fix ch n n1 n2
    assume ch: "in_vec (m_channels d) ch" "n = m_channels d ! nat ch"
      and t: "update_timing (dram_spec d) c a (dram_clk d) n = Ok n1" and s: "dram_spec d1 = dram_spec d"
    have "node_ok (dram_spec d) n" using 3(3) ch in_vec_nat [OF ch(1)] by (simp add: dram_ok_def)
    then show ?thesis using update_timing_command [OF t g] s by simp
  qed
  then show ?case using 3(1) [OF d1 issue_command_ok [OF d1(1) 3(3)]] by auto
qed simp

text \<open>The path \<open>check_ready\<close> walks for a command: down to its scope, at most to the bank.\<close>

definition ready_path :: "int \<Rightarrow> int list \<Rightarrow> int list" where
  "ready_path f b = take (nat (min (GDDR6_command_scopes ! nat f) 2)) (tl b)"

lemma scope_nonneg: "0 \<le> f \<Longrightarrow> f < 27 \<Longrightarrow> 0 \<le> GDDR6_command_scopes ! nat f"
proof -
  assume f: "0 \<le> f" "f < 27"
  have "list_all (\<lambda>s. 0 \<le> s) GDDR6_command_scopes" by (simp add: GDDR6_command_scopes_eq)
  moreover have "nat f < length GDDR6_command_scopes" using f by (simp add: GDDR6_command_scopes_eq)
  ultimately show ?thesis by (simp add: list_all_length)
qed

lemma ready_path_walk:
  assumes ok: "dram_ok d" and f: "is_command (dram_spec d) f" and b: "valid_addr d f b"
  obtains m where "walk (m_channels d ! nat (b ! 0)) (ready_path f b) = Some m"
    and "m_level (nd m) = GDDR6_command_scopes ! nat f \<or> m_child_nodes m = []"
    and "length (ready_path f b) = nat (min (GDDR6_command_scopes ! nat f) 2)"
    and "follows b (m_channels d ! nat (b ! 0)) (ready_path f b)"
proof -
  let ?n = "m_channels d ! nat (b ! 0)" and ?s = "GDDR6_command_scopes ! nat f"
  have g: "gddr6_spec_ok (dram_spec d)" using ok by (simp add: dram_ok_def)
  have n: "node_ok (dram_spec d) ?n" "m_level (nd ?n) = 0"
    using ok b in_vec_nat by (auto simp: dram_ok_def valid_addr_def)
  have len: "length b = 5" using b by (simp add: valid_addr_def)
  have s: "0 \<le> ?s" using f scope_nonneg by (simp add: is_command_def gddr6_fields [OF g])
  have plen: "length (ready_path f b) = nat (min ?s 2)" using len by (simp add: ready_path_def)
  have at: "ready_path f b ! k = b ! Suc k" if "k < length (ready_path f b)" for k
    using that len by (simp add: ready_path_def nth_tl)
  have range: "0 \<le> b ! Suc k \<and> b ! Suc k < org_count (m_organization (dram_spec d)) ! Suc k"
    if "k < nat (min ?s 2)" for k
  proof -
    have "Suc k \<in> set [1..<Suc (nat (min ?s 2))]" using that by (simp only: set_upt) auto
    then show ?thesis using b unfolding valid_addr_def list_all_iff by blast
  qed
  have "\<exists>m. walk ?n (ready_path f b) = Some m"
    by (rule walk_exists [OF n(1)])
      (use range at plen n(2) in \<open>auto simp: gddr6_fields [OF g] nat_add_distrib\<close>)
  then obtain m where m: "walk ?n (ready_path f b) = Some m" ..
  have lv: "m_level (nd m) = min ?s 2" using walk_level [OF n(1) m] n(2) plen s by simp
  have "m_child_nodes m = []" if "m_level (nd m) \<noteq> ?s"
    using node_okD(2) [OF walk_node_ok [OF n(1) m]] lv that
    by (simp add: kids_ok_def kids_count_def gddr6_fields [OF g] min_def split: if_splits)
  moreover have "follows b ?n (ready_path f b)"
    using at plen len n(2) by (auto simp: follows_def)
  ultimately show thesis using that m plen by blast
qed

lemma walk_prefix: "walk n path = Some m \<Longrightarrow> \<exists>v. walk n (take k path) = Some v"
  using walk_append [of n "take k path" "drop k path"] by (auto split: option.splits)

text \<open>C1: \<open>check_ready\<close> of the GDDR6 device is exactly the list of timing constraints. After any
  history of clock ticks and issued commands from the initialised device, a command may be issued
  at an address if and only if, for every earlier issue and every constraint of the source's list
  that names the earlier command before and this command after, at a node the two addresses
  share, the constraint's latency has elapsed. (\<open>stray\<close> is the integer an out-of-range read of
  \<open>tRFC_TABLE\<close> yields.)\<close>

theorem check_ready_refines_log:
  assumes init: "GDDR6_init stray cfg = Ok d0" and run: "dram_run es d0 = Ok d"
    and f: "is_command (dram_spec d) f" and b: "valid_addr d f b"
  shows "dram_check_ready d f b =
    Ok (log_allows (spec_constraints (dram_spec d)) (issue_log 0 es) f b (dram_clk d))"
proof -
  let ?n = "m_channels d ! nat (b ! 0)" and ?s = "GDDR6_command_scopes ! nat f" and ?lg = "issue_log 0 es"
  have ok0: "dram_ok d0" by (rule GDDR6_init_dram_ok [OF init])
  have ok: "dram_ok d" "dram_spec d = dram_spec d0" using dram_run_ok [OF run ok0] by simp_all
  have g: "gddr6_spec_ok (dram_spec d)" and clk: "0 \<le> dram_clk d" using ok(1) by (simp_all add: dram_ok_def)
  have "dram_clk d0 = 0" using init by (auto simp: GDDR6_init_def result_simps Let_def)
  then have match: "clocks_match d ?lg"
    using dram_run_clocks [OF run ok0 GDDR6_init_clocks [OF init]] by simp
  have cmds: "\<And>p a t. (p, a, t) \<in> set ?lg \<Longrightarrow> is_command (dram_spec d) p"
    using dram_run_commands [OF run ok0, of 0] by (auto simp: list_all_iff ok(2))
  have len: "length b = 5" and ch: "in_vec (m_channels d) (b ! 0)" using b by (simp_all add: valid_addr_def)
  have n: "node_ok (dram_spec d) ?n" "m_level (nd ?n) = 0"
    using ok(1) ch in_vec_nat by (auto simp: dram_ok_def)
  obtain m where m: "walk ?n (ready_path f b) = Some m"
      "m_level (nd m) = ?s \<or> m_child_nodes m = []"
      "length (ready_path f b) = nat (min ?s 2)" "follows b ?n (ready_path f b)"
    using ready_path_walk [OF ok(1) f b] .
  have s: "0 \<le> ?s" using f scope_nonneg by (simp add: is_command_def gddr6_fields [OF g])
  have path: "b ! 0 # take k (ready_path f b) = take (Suc k) b" if "k \<le> nat (min ?s 2)" for k
    using that len by (cases b) (simp_all add: ready_path_def min_def)
  have step: "(\<exists>v. walk ?n (take k (ready_path f b)) = Some v \<and> m_cmd_ready_clk (nd v) ! nat f \<le> dram_clk d)
      \<longleftrightarrow> \<not> log_raises (dram_spec d) ?lg (take (Suc k) b) f (dram_clk d)"
    if k: "k \<le> nat (min ?s 2)" for k
  proof -
    obtain v where v: "walk ?n (take k (ready_path f b)) = Some v" using walk_prefix [OF m(1)] by blast
    then show ?thesis using match ch f clk path [OF k] unfolding clocks_match_def
      by (metis not_less option.inject)
  qed
  have raises: "log_raises (dram_spec d) ?lg (take (Suc k) b) f (dram_clk d) \<longleftrightarrow>
      (\<exists>(p, a, t) \<in> set ?lg. \<exists>ts \<in> set (spec_constraints (dram_spec d)). ts_constrains ts p f
         \<and> same_place ts a b \<and> ImplDef_index GDDR6_levels (ts_level ts) = int k \<and> dram_clk d < t + ts_latency ts)"
    if k: "k \<le> nat (min ?s 2)" for k
  proof -
    have "k \<le> 2" using k by linarith
    then have tk: "length (take (Suc k) b) = Suc k" using len by simp
    have sp: "same_place ts a b \<longleftrightarrow> take (Suc k) a = take (Suc k) b"
      if "ImplDef_index GDDR6_levels (ts_level ts) = int k" for ts a
      using that by (simp add: same_place_def Let_def)
    show ?thesis unfolding log_raises_def tk
      using tc_all_constraint [OF g f cmds] sp by (fastforce simp: Bex_def)
  qed
  have reach: "\<exists>k \<le> nat (min ?s 2). ImplDef_index GDDR6_levels (ts_level ts) = int k"
    if "ts \<in> set (spec_constraints (dram_spec d))" "ts_constrains ts p f" for ts p
  proof -
    let ?l = "ImplDef_index GDDR6_levels (ts_level ts)"
    have "ImplDef_index GDDR6_commands (GDDR6_commands ! nat f) = f"
      using in_set_command [OF f gddr6_fields(2) [OF g]] by blast
    then have "?l \<le> 2" "?l \<le> ?s"
      using ts_facts(4) [OF that(1)] that(2) by (auto simp: ts_reaches_def ts_constrains_def list_all_iff)
    moreover have "0 \<le> ?l" by (rule ImplDef_index_bounds)
    ultimately show ?thesis by (intro exI [of _ "nat ?l"]) simp
  qed
  have "dram_check_ready d f b = check_ready (dram_spec d) f b (dram_clk d) ?n"
    using ch len by (simp add: dram_check_ready_def gddr6_fields [OF g] vec_at_def in_vec_def)
  also have "\<dots> = Ok (\<forall>k \<le> length (ready_path f b). \<exists>v. walk ?n (take k (ready_path f b)) = Some v
      \<and> m_cmd_ready_clk (nd v) ! nat f \<le> dram_clk d)"
    by (rule check_ready_exact [OF n(1) m(4,1) _ _ clk f])
      (use m(2,3) n(2) s in \<open>auto simp: gddr6_fields [OF g] GDDR6_command_scopes_eq\<close>)
  also have "\<dots> = Ok (\<forall>k \<le> nat (min ?s 2). \<not> log_raises (dram_spec d) ?lg (take (Suc k) b) f (dram_clk d))"
    using step by (simp add: m(3))
  also have "(\<forall>k \<le> nat (min ?s 2). \<not> log_raises (dram_spec d) ?lg (take (Suc k) b) f (dram_clk d)) \<longleftrightarrow>
      log_allows (spec_constraints (dram_spec d)) ?lg f b (dram_clk d)"
  proof -
    let ?bad = "\<lambda>p a t ts. ts \<in> set (spec_constraints (dram_spec d)) \<and> ts_constrains ts p f
        \<and> same_place ts a b \<and> dram_clk d < t + ts_latency ts"
    have "(\<exists>k \<le> nat (min ?s 2). log_raises (dram_spec d) ?lg (take (Suc k) b) f (dram_clk d))
        \<longleftrightarrow> (\<exists>p a t ts. (p, a, t) \<in> set ?lg \<and> ?bad p a t ts)"
      using raises reach by blast
    moreover have "log_allows (spec_constraints (dram_spec d)) ?lg f b (dram_clk d)
        \<longleftrightarrow> \<not> (\<exists>p a t ts. (p, a, t) \<in> set ?lg \<and> ?bad p a t ts)"
      unfolding log_allows_def list_all_iff not_less [symmetric] by blast
    ultimately show ?thesis by blast
  qed
  finally show ?thesis .
qed

end
