(* ===== verification/GDDR6_State.thy ===== *)
theory GDDR6_State
  imports GDDR6_Timing
begin

text \<open>
  The row-buffer contract of the GDDR6 device of \<^verbatim>\<open>src/src/dram/impl/GDDR6.cpp\<close>: the bank
  states and row maps of the node tree implement an abstract table of open rows per bank,
  and \<open>get_preq_command\<close> answers from that table.
\<close>

subsection \<open>Command classes\<close>

lemma gddr6_scope_cases:
  assumes "is_command spec c" "m_commands spec = GDDR6_commands"
  shows "GDDR6_command_scopes ! nat c =
    (if c \<in> {2, 8} then 2 else if c \<in> {9, 11} then 1 else if c = 0 then 3
     else if c \<in> {3, 4, 5, 6, 12, 16, 17} then 4 else 0)"
proof -
  have "list_all (\<lambda>k. GDDR6_command_scopes ! k =
      (if int k \<in> {2, 8} then 2 else if int k \<in> {9, 11} then 1 else if int k = 0 then 3
       else if int k \<in> {3, 4, 5, 6, 12, 16, 17} then 4 else 0)) [0..<27]"
    by (simp add: GDDR6_command_scopes_eq upt_conv_Cons)
  moreover have "nat c \<in> set [0..<27]" using assms by (auto simp: is_command_def)
  ultimately have "GDDR6_command_scopes ! nat c =
      (if int (nat c) \<in> {2, 8} then 2 else if int (nat c) \<in> {9, 11} then 1 else if int (nat c) = 0 then 3
       else if int (nat c) \<in> {3, 4, 5, 6, 12, 16, 17} then 4 else 0)"
    unfolding list_all_iff by blast
  moreover have "int (nat c) = c" using assms by (simp add: is_command_def)
  ultimately show ?thesis by simp
qed

lemma gddr6_action_step:
  assumes g: "gddr6_spec_ok spec" and c: "is_command spec c"
  shows "m_level (nd n) = 0 \<Longrightarrow> action_step spec c a n =
      (if c = 22 \<or> c = 1 then Ok (map_kids (map_kids (close_bank spec)) n)
       else if c = 10 then andThen (vec_at a 3) (\<lambda>r. Ok (map_kids (map_kids (open_bank spec r)) n))
       else Ok n)"
    and "m_level (nd n) = 1 \<Longrightarrow> action_step spec c a n =
      (if c = 11 then Ok (map_kids (close_bank spec) n)
       else if c = 9 then andThen (vec_at a 3) (\<lambda>r. Ok (map_kids (open_bank spec r) n))
       else Ok n)"
    and "m_level (nd n) = 2 \<Longrightarrow> action_step spec c a n =
      (if c = 2 \<or> c = 5 \<or> c = 6 then Ok (close_bank spec n)
       else if c = 0 then andThen (vec_at a 3) (\<lambda>r. Ok (open_bank spec r n))
       else Ok n)"
  using c by (auto simp: action_step_def gddr6_fields [OF g] GDDR6_actions_eq is_command_def vec_at_def
      in_vec_def nth_list_update nat_eq_iff action_defs Let_def)

subsection \<open>The effect of a command on one bank\<close>

lemma walk_map_kids: "walk (map_kids f n) (i # q) =
    (if in_vec (m_child_nodes n) i then walk (f (m_child_nodes n ! nat i)) q else None)"
  by (simp add: map_kids_def in_vec_def nat_less_iff)

definition bank_level :: "dram_spec \<Rightarrow> int \<Rightarrow> int list \<Rightarrow> node \<Rightarrow> node" where
  "bank_level spec c a b =
     (if c \<in> {2, 5, 6} then close_bank spec b else if c = 0 then open_bank spec (a ! 3) b else b)"

definition bankgroup_level :: "dram_spec \<Rightarrow> int \<Rightarrow> int list \<Rightarrow> int \<Rightarrow> node \<Rightarrow> node" where
  "bankgroup_level spec c a j b =
     (if c = 11 then close_bank spec b else if c = 9 then open_bank spec (a ! 3) b
      else if a ! 2 = j then bank_level spec c a b else b)"

definition channel_level :: "dram_spec \<Rightarrow> int \<Rightarrow> int list \<Rightarrow> int \<Rightarrow> int \<Rightarrow> node \<Rightarrow> node" where
  "channel_level spec c a i j b =
     (if c \<in> {1, 22} then close_bank spec b else if c = 10 then open_bank spec (a ! 3) b
      else if a ! 1 = i then bankgroup_level spec c a j b else b)"

lemma vec_at_nth: "vec_at a k = Ok v \<Longrightarrow> v = a ! nat k"
  by (simp add: vec_at_Ok_iff)

lemma update_states_bank:
  assumes g: "gddr6_spec_ok spec" and c: "is_command spec c" and ok: "node_ok spec n"
    and l: "m_level (nd n) = 2" and u: "update_states spec c a n = Ok n'"
  shows "n' = bank_level spec c a n"
proof -
  have leaf: "m_child_nodes n = []"
    using node_okD(2) [OF ok] l by (simp add: kids_ok_def kids_count_def gddr6_fields [OF g])
  obtain n1 where a: "action_step spec c a n = Ok n1" and n1: "m_child_nodes n1 = [] \<Longrightarrow> n' = n1"
    using u by (subst (asm) update_states.simps) (auto simp: andThen_Ok_iff split: if_splits)
  have "n1 = bank_level spec c a n"
    using a gddr6_action_step(3) [OF g c l, of a]
    by (auto simp: bank_level_def andThen_Ok_iff dest: vec_at_nth split: if_splits)
  moreover have "m_child_nodes (bank_level spec c a n) = []"
    using leaf by (simp add: bank_level_def close_bank_def open_bank_def)
  ultimately show ?thesis using n1 by simp
qed

text \<open>One level of the walk, above the banks: the action, then at most one child.\<close>

lemma update_states_inner:
  assumes u: "update_states spec c a n = Ok n'"
  obtains n1 where "action_step spec c a n = Ok n1"
    and "m_level (nd n1) = m_command_scopes spec ! nat c \<Longrightarrow> n' = n1"
    and "m_level (nd n1) \<noteq> m_command_scopes spec ! nat c \<Longrightarrow> m_child_nodes n1 \<noteq> [] \<Longrightarrow>
      a ! nat (m_level (nd n1) + 1) < 0 \<and> n' = n1 \<or>
      (\<exists>c'. in_vec (m_child_nodes n1) (a ! nat (m_level (nd n1) + 1)) \<and>
        update_states spec c a (m_child_nodes n1 ! nat (a ! nat (m_level (nd n1) + 1))) = Ok c' \<and>
        n' = put_child n1 (a ! nat (m_level (nd n1) + 1)) c')"
proof -
  from u obtain n1 where a: "action_step spec c a n = Ok n1"
    and r: "(if m_level (nd n1) = m_command_scopes spec ! nat c \<or> m_child_nodes n1 = [] then Ok n1
         else andThen (vec_at a (m_level (nd n1) + 1)) (\<lambda>child_id.
           if child_id < 0 then Ok n1
           else andThen (vec_at (m_child_nodes n1) child_id) (\<lambda>child.
                andThen (update_states spec c a child) (\<lambda>c. Ok (put_child n1 child_id c))))) = Ok n'"
    by (subst (asm) update_states.simps) (auto simp: andThen_Ok_iff vec_at_Ok_iff)
  show thesis
    by (rule that [OF a]) (use r in \<open>auto simp: andThen_Ok_iff vec_at_Ok_iff split: if_splits\<close>)
qed

lemma walk_put_child:
  "in_vec (m_child_nodes n) i \<Longrightarrow> 0 \<le> j \<Longrightarrow>
   walk (put_child n i x) (j # q) =
     (if j = i then walk x q else walk n (j # q))"
  by (auto simp: put_child_def in_vec_def nth_list_update nat_eq_iff2)

lemma update_states_bankgroup:
  assumes g: "gddr6_spec_ok spec" and c: "is_command spec c" and ok: "node_ok spec n"
    and l: "m_level (nd n) = 1" and u: "update_states spec c a n = Ok n'" and w: "walk n [j] = Some b"
    and nc: "c \<notin> {1, 10, 22}"
  shows "walk n' [j] = Some (bankgroup_level spec c a j b)"
proof -
  obtain n1 where a: "action_step spec c a n = Ok n1"
    and stop: "m_level (nd n1) = m_command_scopes spec ! nat c \<Longrightarrow> n' = n1"
    and down: "m_level (nd n1) \<noteq> m_command_scopes spec ! nat c \<Longrightarrow> m_child_nodes n1 \<noteq> [] \<Longrightarrow>
      a ! nat (m_level (nd n1) + 1) < 0 \<and> n' = n1 \<or>
      (\<exists>c'. in_vec (m_child_nodes n1) (a ! nat (m_level (nd n1) + 1)) \<and>
        update_states spec c a (m_child_nodes n1 ! nat (a ! nat (m_level (nd n1) + 1))) = Ok c' \<and>
        n' = put_child n1 (a ! nat (m_level (nd n1) + 1)) c')"
    using update_states_inner [OF u] by blast
  note act = gddr6_action_step(2) [OF g c l, of a] and sc = gddr6_scope_cases [OF c gddr6_fields(2) [OF g]]
  have j: "in_vec (m_child_nodes n) j" "b = m_child_nodes n ! nat j" using w by (auto split: if_splits)
  then have j0: "0 \<le> j" by (simp add: in_vec_def)
  show ?thesis
  proof (cases "c \<in> {9, 11}")
    case True
    then have "m_level (nd n1) = m_command_scopes spec ! nat c"
      using a act l sc by (auto simp: gddr6_fields [OF g] andThen_Ok_iff map_kids_def)
    then show ?thesis
      using stop a act True w j
      by (auto simp: andThen_Ok_iff vec_at_Ok_iff bankgroup_level_def walk_map_kids simp del: walk.simps(2))
  next
    case False
    then have n1: "n1 = n" using a act by simp
    have "m_level (nd n1) \<noteq> m_command_scopes spec ! nat c"
      using False sc by (simp add: n1 l gddr6_fields [OF g])
    moreover have "m_child_nodes n1 \<noteq> []" using j(1) by (auto simp: n1 in_vec_def)
    ultimately have d: "a ! 2 < 0 \<and> n' = n \<or>
        (\<exists>c'. in_vec (m_child_nodes n) (a ! 2) \<and>
          update_states spec c a (m_child_nodes n ! nat (a ! 2)) = Ok c' \<and> n' = put_child n (a ! 2) c')"
      using down by (simp add: n1 l)
    have b: "bankgroup_level spec c a j b = (if a ! 2 = j then bank_level spec c a b else b)"
      using False by (simp add: bankgroup_level_def)
    show ?thesis
    proof (cases "a ! 2 < 0")
      case True
      then show ?thesis using d w j0 by (auto simp: b in_vec_def)
    next
      case ge: False
      then obtain c' where c': "in_vec (m_child_nodes n) (a ! 2)"
          "update_states spec c a (m_child_nodes n ! nat (a ! 2)) = Ok c'" "n' = put_child n (a ! 2) c'"
        using d by auto
      have "c' = bank_level spec c a (m_child_nodes n ! nat (a ! 2))"
        using update_states_bank [OF g c node_ok_child [OF ok c'(1)] _ c'(2)] kid_data [OF ok c'(1)] l by simp
      then show ?thesis using w j
        using b by (auto simp: c'(3) walk_put_child [OF c'(1) j0] simp del: walk.simps(2))
    qed
  qed
qed

lemma update_states_channel:
  assumes g: "gddr6_spec_ok spec" and c: "is_command spec c" and ok: "node_ok spec n"
    and l: "m_level (nd n) = 0" and u: "update_states spec c a n = Ok n'" and w: "walk n [i, j] = Some b"
  shows "walk n' [i, j] = Some (channel_level spec c a i j b)"
proof -
  obtain n1 where a: "action_step spec c a n = Ok n1"
    and stop: "m_level (nd n1) = m_command_scopes spec ! nat c \<Longrightarrow> n' = n1"
    and down: "m_level (nd n1) \<noteq> m_command_scopes spec ! nat c \<Longrightarrow> m_child_nodes n1 \<noteq> [] \<Longrightarrow>
      a ! nat (m_level (nd n1) + 1) < 0 \<and> n' = n1 \<or>
      (\<exists>c'. in_vec (m_child_nodes n1) (a ! nat (m_level (nd n1) + 1)) \<and>
        update_states spec c a (m_child_nodes n1 ! nat (a ! nat (m_level (nd n1) + 1))) = Ok c' \<and>
        n' = put_child n1 (a ! nat (m_level (nd n1) + 1)) c')"
    using update_states_inner [OF u] by blast
  note act = gddr6_action_step(1) [OF g c l, of a] and sc = gddr6_scope_cases [OF c gddr6_fields(2) [OF g]]
  have i: "in_vec (m_child_nodes n) i" "walk (m_child_nodes n ! nat i) [j] = Some b"
    using w by (auto split: if_splits)
  then have i0: "0 \<le> i" by (simp add: in_vec_def)
  have j: "in_vec (m_child_nodes (m_child_nodes n ! nat i)) j" "b = m_child_nodes (m_child_nodes n ! nat i) ! nat j"
    using i(2) by (auto split: if_splits)
  show ?thesis
  proof (cases "GDDR6_command_scopes ! nat c = 0")
    case True
    then have n': "n' = n1"
      using stop a act l by (auto simp: gddr6_fields [OF g] andThen_Ok_iff map_kids_def split: if_splits)
    have "c \<notin> {0, 2, 5, 6, 9, 11}" using True sc by (auto split: if_splits)
    then show ?thesis using a act w i(1) j
      by (auto simp: n' andThen_Ok_iff channel_level_def bankgroup_level_def bank_level_def walk_map_kids
          simp del: walk.simps(2) dest: vec_at_nth split: if_splits)
  next
    case False
    then have nc: "c \<notin> {1, 10, 22}" using sc by auto
    then have n1: "n1 = n" using a act by simp
    have "m_level (nd n1) \<noteq> m_command_scopes spec ! nat c"
      using False by (simp add: n1 l gddr6_fields [OF g])
    moreover have "m_child_nodes n1 \<noteq> []" using i(1) by (auto simp: n1 in_vec_def)
    ultimately have d: "a ! 1 < 0 \<and> n' = n \<or>
        (\<exists>c'. in_vec (m_child_nodes n) (a ! 1) \<and>
          update_states spec c a (m_child_nodes n ! nat (a ! 1)) = Ok c' \<and> n' = put_child n (a ! 1) c')"
      using down by (simp add: n1 l)
    have b: "channel_level spec c a i j b = (if a ! 1 = i then bankgroup_level spec c a j b else b)"
      using nc by (simp add: channel_level_def)
    show ?thesis
    proof (cases "a ! 1 < 0")
      case True
      then show ?thesis using d w i0 by (auto simp: b in_vec_def)
    next
      case ge: False
      then obtain c' where c': "in_vec (m_child_nodes n) (a ! 1)"
          "update_states spec c a (m_child_nodes n ! nat (a ! 1)) = Ok c'" "n' = put_child n (a ! 1) c'"
        using d by auto
      have "walk c' [j] = Some (bankgroup_level spec c a j b)" if "a ! 1 = i"
        by (rule update_states_bankgroup [OF g c node_ok_child [OF ok c'(1)] _ c'(2) _ nc])
          (use kid_data [OF ok c'(1)] l i(2) that in \<open>simp_all del: walk.simps\<close>)
      then show ?thesis using w
        by (auto simp: b c'(3) walk_put_child [OF c'(1) i0] simp del: walk.simps(2) One_nat_def)
    qed
  qed
qed

subsection \<open>The table of open rows\<close>

text \<open>A bank with the set of its open rows; the invariant of the bank states.\<close>

definition bank_rep :: "node \<Rightarrow> int set \<Rightarrow> bool" where
  "bank_rep b R \<longleftrightarrow> dom (m_row_state (nd b)) = R \<and> m_state (nd b) = (if R = {} then 1 else 0)"

lemma bank_rep_open: "gddr6_spec_ok spec \<Longrightarrow> bank_rep b R \<Longrightarrow> bank_rep (open_bank spec r b) (insert r R)"
  by (auto simp: bank_rep_def open_bank_def gddr6_fields)

lemma bank_rep_close: "gddr6_spec_ok spec \<Longrightarrow> bank_rep (close_bank spec b) {}"
  by (auto simp: bank_rep_def close_bank_def gddr6_fields)

type_synonym row_table = "int \<Rightarrow> int \<Rightarrow> int \<Rightarrow> int set"

definition row_step :: "int \<Rightarrow> int list \<Rightarrow> row_table \<Rightarrow> row_table" where
  "row_step c a T = (\<lambda>ch bg ba.
     let R = T ch bg ba; cmd = GDDR6_commands ! nat c in
     if ch \<noteq> a ! 0 then R
     else if cmd \<in> {''PREA'', ''WRA16''} then {}
     else if cmd = ''ACT16'' then insert (a ! 3) R
     else if bg \<noteq> a ! 1 then R
     else if cmd = ''PRE4'' then {}
     else if cmd = ''ACT4'' then insert (a ! 3) R
     else if ba \<noteq> a ! 2 then R
     else if cmd \<in> {''PRE'', ''RDA'', ''WRA''} then {}
     else if cmd = ''ACT'' then insert (a ! 3) R
     else R)"

definition rows_rep :: "dram \<Rightarrow> row_table \<Rightarrow> bool" where
  "rows_rep d T \<longleftrightarrow> (\<forall>ch bg ba b. in_vec (m_channels d) ch \<longrightarrow>
     walk (m_channels d ! nat ch) [bg, ba] = Some b \<longrightarrow> bank_rep b (T ch bg ba))"

lemma command_name:
  assumes "is_command spec c" "m_commands spec = GDDR6_commands" "s \<in> set GDDR6_commands"
  shows "GDDR6_commands ! nat c = s \<longleftrightarrow> c = ImplDef_index GDDR6_commands s"
  using in_set_command [OF assms(1,2), of s] assms(3) by auto

lemma channel_level_rep:
  assumes g: "gddr6_spec_ok spec" and c: "is_command spec c" and b: "bank_rep b (T ch i j)" and a: "a ! 0 = ch"
  shows "bank_rep (channel_level spec c a i j b) (row_step c a T ch i j)"
  using b a bank_rep_open [OF g b] bank_rep_close [OF g]
  by (auto simp: row_step_def Let_def channel_level_def bankgroup_level_def bank_level_def
      command_name [OF c gddr6_fields(2) [OF g]])

text \<open>The timing walk leaves the states alone.\<close>

lemma fold_timing_state:
  assumes "fold_result f ts d = Ok d'"
    and "\<And>t u v. f t u = Ok v \<Longrightarrow> m_state v = m_state u \<and> m_row_state v = m_row_state u"
  shows "m_state d' = m_state d \<and> m_row_state d' = m_row_state d"
  by (rule fold_result_invariant [where I = "\<lambda>u. m_state u = m_state d \<and> m_row_state u = m_row_state d", OF assms(1)])
    (use assms(2) in auto)

lemma update_timing_state:
  assumes "update_timing spec p a clk n = Ok n'" and "walk n path = Some m"
  shows "\<exists>m'. walk n' path = Some m' \<and> m_state (nd m') = m_state (nd m) \<and> m_row_state (nd m') = m_row_state (nd m)"
  using assms
proof (induction path arbitrary: n n')
  case Nil
  obtain d ks where n: "n = Node d ks" by (cases n)
  obtain here ts where h: "vec_at a (m_level d) = Ok here" "timing_at (m_timing_cons spec) (m_level d) p = Ok ts"
    using Nil.prems(1) by (auto simp: n andThen_Ok_iff)
  show ?case
  proof (cases "m_node_id d = here")
    case True
    then obtain d' d'' ks' where d: "push_history p clk d = Ok d'"
        "fold_result (timing_target p) ts d' = Ok d''" "n' = Node d'' ks'"
      using Nil.prems(1) by (auto simp: n h andThen_Ok_iff)
    have "m_state d' = m_state d \<and> m_row_state d' = m_row_state d"
      using d(1) by (auto simp: push_history_def result_simps split: if_splits)
    moreover have "m_state d'' = m_state d' \<and> m_row_state d'' = m_row_state d'"
      by (rule fold_timing_state [OF d(2)])
        (auto simp: timing_target_def raise_ready_def result_simps split: if_splits)
    ultimately show ?thesis using Nil.prems(2) by (auto simp: n d(3))
  next
    case False
    then obtain d' where d': "fold_result (timing_sibling clk) ts d = Ok d'" "n' = Node d' ks"
      using Nil.prems(1) by (auto simp: n h andThen_Ok_iff)
    have "m_state d' = m_state d \<and> m_row_state d' = m_row_state d"
      by (rule fold_timing_state [OF d'(1)])
        (auto simp: timing_sibling_def raise_ready_def result_simps split: if_splits)
    then show ?thesis using Nil.prems(2) by (auto simp: n d'(2))
  qed
next
  case (Cons i q)
  obtain d ks where n: "n = Node d ks" by (cases n)
  have i: "in_vec ks i" and w: "walk (ks ! nat i) q = Some m"
    using Cons.prems(2) by (auto simp: n split: if_splits)
  obtain here ts where h: "vec_at a (m_level d) = Ok here" "timing_at (m_timing_cons spec) (m_level d) p = Ok ts"
    using Cons.prems(1) by (auto simp: n andThen_Ok_iff)
  show ?case
  proof (cases "m_node_id d = here")
    case True
    then obtain d'' ks' where ks: "map_result (update_timing spec p a clk) ks = Ok ks'" "n' = Node d'' ks'"
      using Cons.prems(1) by (auto simp: n h andThen_Ok_iff)
    have "update_timing spec p a clk (ks ! nat i) = Ok (ks' ! nat i)"
      using map_result_nth [OF ks(1)] in_vec_nat [OF i] by simp
    moreover have "in_vec ks' i" using i map_result_length [OF ks(1)] by (simp add: in_vec_def)
    ultimately show ?thesis using Cons.IH [OF _ w] by (simp add: ks(2))
  next
    case False
    then obtain d' where "n' = Node d' ks" using Cons.prems(1) by (auto simp: n h andThen_Ok_iff)
    then show ?thesis using i w by simp
  qed
qed

text \<open>One issued command refines one step of the table.\<close>

lemma issue_command_rows:
  assumes i: "issue_command c a d = Ok d'" and ok: "dram_ok d" and T: "rows_rep d T"
  shows "rows_rep d' (row_step c a T)"
  using i ok
proof (rule issue_command_cases)
  fix ch n n1 n2
  assume ch: "vec_at a 0 = Ok ch" "in_vec (m_channels d) ch" "n = m_channels d ! nat ch"
    and t: "update_timing (dram_spec d) c a (dram_clk d) n = Ok n1"
    and u: "update_states (dram_spec d) c a n1 = Ok n2"
    and d': "m_channels d' = (m_channels d)[nat ch := n2]"
  have g: "gddr6_spec_ok (dram_spec d)" using ok by (simp add: dram_ok_def)
  have n: "node_ok (dram_spec d) n" "m_level (nd n) = 0"
    using ok ch in_vec_nat [OF ch(2)] by (auto simp: dram_ok_def)
  have le: "tree_le n n1" by (rule update_timing_le [OF t])
  have n1: "node_ok (dram_spec d) n1" "m_level (nd n1) = 0"
    using node_ok_tree_le [OF n(1) le] tree_le_walk [OF le, of "[]"] n(2) by (auto simp: clk_le_def)
  have c: "is_command (dram_spec d) c"
    by (rule update_timing_command [OF t gddr6_spec_okD [OF g] n(1)])
  have a0: "a ! 0 = ch" using ch(1) by (simp add: vec_at_Ok_iff)
  show ?thesis unfolding rows_rep_def
  proof (intro allI impI)
    fix ch' bg ba b
    assume ch': "in_vec (m_channels d') ch'" and w: "walk (m_channels d' ! nat ch') [bg, ba] = Some b"
    show "bank_rep b (row_step c a T ch' bg ba)"
    proof (cases "ch' = ch")
      case False
      then have "m_channels d' ! nat ch' = m_channels d ! nat ch'"
        using ch(2) ch' by (auto simp: d' in_vec_def nth_list_update)
      then show ?thesis using T ch' w False a0 by (simp add: rows_rep_def d' row_step_def)
    next
      case True
      then have w2: "walk n2 [bg, ba] = Some b" using w in_vec_nat [OF ch(2)] by (simp add: d')
      obtain m1 where m1: "walk n1 [bg, ba] = Some m1"
        using update_states_same [OF u] tree_le_walk [OF _ w2] by (auto simp: same_clocks_def simp del: walk.simps)
      have b: "b = channel_level (dram_spec d) c a bg ba m1"
        using update_states_channel [OF g c n1 u m1] w2 by simp
      obtain m where m: "walk n [bg, ba] = Some m"
        using le m1 unfolding tree_le_def by (cases "walk n [bg, ba]") (force dest: spec [of _ "[bg, ba]"] simp del: walk.simps)+
      have "bank_rep m (T ch bg ba)" using T ch(2,3) m by (simp add: rows_rep_def del: walk.simps)
      then have "bank_rep m1 (T ch bg ba)"
        using update_timing_state [OF t m] m1 by (auto simp: bank_rep_def simp del: walk.simps)
      then show ?thesis using channel_level_rep [OF g c _ a0] b True by simp
    qed
  qed
qed

fun row_run :: "dram_event list \<Rightarrow> row_table \<Rightarrow> row_table" where
  "row_run [] T = T"
| "row_run (Dram_tick # es) T = row_run es T"
| "row_run (Dram_issue c a # es) T = row_run es (row_step c a T)"

lemma dram_run_rows:
  "dram_run es d = Ok d' \<Longrightarrow> dram_ok d \<Longrightarrow> rows_rep d T \<Longrightarrow> rows_rep d' (row_run es T)"
proof (induction es d arbitrary: T rule: dram_run.induct)
  case (2 es d)
  have "rows_rep (dram_tick d) T" using 2(4) by (simp add: rows_rep_def dram_tick_def del: walk.simps)
  then show ?case using 2 dram_tick_ok by simp
next
  case (3 c a es d)
  then obtain d1 where d1: "issue_command c a d = Ok d1" "dram_run es d1 = Ok d'"
    by (auto simp: andThen_Ok_iff)
  show ?case
    using 3(1) [OF d1 issue_command_ok [OF d1(1) 3(3)] issue_command_rows [OF d1(1) 3(3,4)]] by simp
qed simp

lemma GDDR6_init_rows:
  assumes "GDDR6_init stray cfg = Ok d"
  shows "rows_rep d (\<lambda>_ _ _. {})"
  unfolding rows_rep_def
proof (intro allI impI)
  fix ch bg ba b
  assume ch: "in_vec (m_channels d) ch" and w: "walk (m_channels d ! nat ch) [bg, ba] = Some b"
  have g: "gddr6_spec_ok (dram_spec d)" using GDDR6_init_dram_ok [OF assms] by (simp add: dram_ok_def)
  obtain i where "node_data_new (dram_spec d) (0 + int (length [bg, ba])) i = Ok (nd b)"
    using Node_new_walk [OF w GDDR6_init_channels [OF assms ch]] by blast
  then have "m_row_state (nd b) = Map.empty \<and> m_state (nd b) = m_init_states (dram_spec d) ! 2"
    using node_data_new_fresh by fastforce
  then show "bank_rep b {}" by (simp add: bank_rep_def gddr6_fields [OF g] GDDR6_init_states_eq)
qed

subsection \<open>Prerequisites, from the table\<close>

definition bank_list :: "dram \<Rightarrow> (int \<times> int) list" where
  "bank_list d = (let cs = org_count (m_organization (dram_spec d)) in
     concat (map (\<lambda>bg. map (\<lambda>ba. (int bg, int ba)) [0..<nat (cs ! 2)]) [0..<nat (cs ! 1)]))"

text \<open>The name of the command that has to come first.\<close>

definition preq_name :: "(int \<times> int) list \<Rightarrow> row_table \<Rightarrow> string \<Rightarrow> int list \<Rightarrow> string" where
  "preq_name banks T cmd a =
    (let ch = a ! 0; row = a ! 3; R = T ch (a ! 1) (a ! 2) in
     if cmd \<in> {''WRA16'', ''MAC16'', ''AF16'', ''EWMUL16''}
     then (if list_ex (\<lambda>(bg, ba). T ch bg ba \<noteq> {} \<and> row \<notin> T ch bg ba) banks then ''PREA''
           else if list_ex (\<lambda>(bg, ba). T ch bg ba = {}) banks then ''ACT16'' else cmd)
     else if cmd = ''REFab'' \<and> list_ex (\<lambda>(bg, ba). T ch bg ba \<noteq> {}) banks then ''PREA''
     else if cmd = ''REFab'' \<or> a ! 1 < 0 \<or> a ! 2 < 0 then cmd
     else if cmd \<in> {''RD'', ''WR'', ''RDA'', ''WRA'', ''RDCP'', ''WRCP'', ''MAC''}
     then (if R = {} then ''ACT'' else if row \<in> R then cmd else ''PRE'')
     else ''PREA'')"

lemma walk2_iff: "walk n [i, j] = Some b \<longleftrightarrow>
    in_vec (m_child_nodes n) i \<and> in_vec (m_child_nodes (m_child_nodes n ! nat i)) j
    \<and> b = m_child_nodes (m_child_nodes n ! nat i) ! nat j"
  by auto

lemma descendants2: "set (descendants 2 n) = {b. \<exists>i j. walk n [i, j] = Some b}"
proof -
  have "descendants 2 n = concat (map m_child_nodes (m_child_nodes n))"
    by (simp add: descendants_def numeral_2_eq_2)
  moreover have "b \<in> set (concat (map m_child_nodes (m_child_nodes n))) \<longleftrightarrow> (\<exists>i j. walk n [i, j] = Some b)" for b
  proof
    assume "b \<in> set (concat (map m_child_nodes (m_child_nodes n)))"
    then obtain k l where "k < length (m_child_nodes n)" "l < length (m_child_nodes (m_child_nodes n ! k))"
        "b = m_child_nodes (m_child_nodes n ! k) ! l"
      by (auto simp: in_set_conv_nth)
    then have "walk n [int k, int l] = Some b" by simp
    then show "\<exists>i j. walk n [i, j] = Some b" by blast
  next
    assume "\<exists>i j. walk n [i, j] = Some b"
    then obtain i j where ij: "in_vec (m_child_nodes n) i" "in_vec (m_child_nodes (m_child_nodes n ! nat i)) j"
        "b = m_child_nodes (m_child_nodes n ! nat i) ! nat j"
      unfolding walk2_iff by blast
    have "m_child_nodes n ! nat i \<in> set (m_child_nodes n)" using in_vec_nat [OF ij(1)] by simp
    moreover have "b \<in> set (m_child_nodes (m_child_nodes n ! nat i))"
      using in_vec_nat [OF ij(2)] by (simp add: ij(3))
    ultimately show "b \<in> set (concat (map m_child_nodes (m_child_nodes n)))" by auto
  qed
  ultimately show ?thesis by (simp only: set_eq_iff mem_Collect_eq) blast
qed

lemma scan_rows_spec:
  "scan_rows spec row any bs =
    (if \<exists>b \<in> set bs. m_state (nd b) \<noteq> state_id spec ''Closed'' \<and> \<not> row_found b row then None
     else Some (any \<or> (\<exists>b \<in> set bs. m_state (nd b) = state_id spec ''Closed'')))"
  by (induction bs arbitrary: any) auto

lemma bank_rep_state: "bank_rep b R \<Longrightarrow> (m_state (nd b) = 1 \<longleftrightarrow> R = {}) \<and> (m_state (nd b) = 0 \<longleftrightarrow> R \<noteq> {})
   \<and> (row_found b r \<longleftrightarrow> r \<in> R)"
  by (auto simp: bank_rep_def row_found_def)

lemma bank_list_iff:
  "(i, j) \<in> set (bank_list d) \<longleftrightarrow>
     (let cs = org_count (m_organization (dram_spec d)) in 0 \<le> i \<and> i < cs ! 1 \<and> 0 \<le> j \<and> j < cs ! 2)"
proof -
  let ?cs = "org_count (m_organization (dram_spec d))"
  have "(i, j) \<in> set (bank_list d) \<longleftrightarrow> (\<exists>k < nat (?cs ! 1). \<exists>l < nat (?cs ! 2). i = int k \<and> j = int l)"
    by (auto simp: bank_list_def Let_def image_iff Bex_def)
  also have "\<dots> \<longleftrightarrow> 0 \<le> i \<and> i < ?cs ! 1 \<and> 0 \<le> j \<and> j < ?cs ! 2"
  proof -
    have "(\<exists>k < nat x. y = int k) \<longleftrightarrow> 0 \<le> y \<and> y < x" for x y by (auto intro!: exI [of _ "nat y"])
    then show ?thesis by blast
  qed
  finally show ?thesis by (simp add: Let_def)
qed

lemma channel_banks:
  assumes ok: "dram_ok d" and ch: "in_vec (m_channels d) ch"
  shows "(\<exists>b. walk (m_channels d ! nat ch) [i, j] = Some b) \<longleftrightarrow> (i, j) \<in> set (bank_list d)"
proof -
  let ?n = "m_channels d ! nat ch" and ?cs = "org_count (m_organization (dram_spec d))"
  have g: "gddr6_spec_ok (dram_spec d)" using ok by (simp add: dram_ok_def)
  have n: "node_ok (dram_spec d) ?n" "m_level (nd ?n) = 0"
    using ok in_vec_nat [OF ch] by (auto simp: dram_ok_def)
  have k0: "in_vec (m_child_nodes ?n) i \<longleftrightarrow> 0 \<le> i \<and> i < ?cs ! 1"
    using node_okD(2) [OF n(1)] n(2) by (auto simp: kids_ok_def kids_count_def gddr6_fields [OF g] in_vec_def)
  have k1: "in_vec (m_child_nodes (m_child_nodes ?n ! nat i)) j \<longleftrightarrow> 0 \<le> j \<and> j < ?cs ! 2"
    if "in_vec (m_child_nodes ?n) i"
    using node_okD(2) [OF node_ok_child [OF n(1) that]] kid_data [OF n(1) that] n(2)
    by (auto simp: kids_ok_def kids_count_def gddr6_fields [OF g] in_vec_def)
  show ?thesis unfolding walk2_iff bank_list_iff using k0 k1 by auto
qed

lemma get_preq_leafs:
  assumes g: "gddr6_spec_ok spec" and c: "is_command spec c"
  shows "GDDR6_preqs ! 0 ! nat c = (if c = 7 then Some Channel_RequireAllBanksClosed
           else if c \<in> {13, 14, 15, 22} then Some Channel_RequireAllRowsOpen else None)"
    and "GDDR6_preqs ! Suc 0 ! nat c = None"
    and "GDDR6_preqs ! 2 ! nat c = (if c \<in> {3, 4, 5, 6, 12, 16, 17} then Some Bank_RequireRowOpen else None)"
  using c by (auto simp: gddr6_fields [OF g] GDDR6_preqs_eq is_command_def nth_list_update nat_eq_iff)

lemma get_preq_unfold:
  assumes g: "gddr6_spec_ok spec" and c: "is_command spec c" and l: "m_level (nd n) = l" "l \<in> {0, 1, 2}"
  shows "get_preq_command spec c a n =
     andThen (case GDDR6_preqs ! nat l ! nat c of None \<Rightarrow> Ok (-1) | Some f \<Rightarrow> run_preq spec f c a n) (\<lambda>preq_cmd.
       if preq_cmd \<noteq> -1 then Ok preq_cmd
       else if m_child_nodes n = [] then Ok 1
       else andThen (vec_at a (l + 1)) (\<lambda>child_id.
         if child_id < 0 then Ok c
         else andThen (vec_at (m_child_nodes n) child_id) (\<lambda>child. get_preq_command spec c a child)))"
proof -
  have "vec_at (m_preqs spec) l = Ok (GDDR6_preqs ! nat l)"
    using l(2) by (auto simp: vec_at_def in_vec_def gddr6_fields [OF g] GDDR6_preqs_eq)
  moreover have "vec_at (GDDR6_preqs ! nat l) c = Ok (GDDR6_preqs ! nat l ! nat c)"
    using l(2) c by (auto simp: vec_at_def in_vec_def gddr6_fields [OF g] GDDR6_preqs_eq is_command_def)
  ultimately show ?thesis by (subst get_preq_command.simps) (simp add: l(1) cong: if_cong)
qed

lemma andThen_not_minus_one:
  "(\<And>r. m = Ok r \<Longrightarrow> r \<noteq> -1) \<Longrightarrow>
   andThen m (\<lambda>r. if r \<noteq> -1 then Ok r else k) = (m :: int result)"
  by (cases m) auto

text \<open>An address that is complete and names an existing bank where it names one at all.\<close>

definition bank_addr :: "dram \<Rightarrow> int list \<Rightarrow> bool" where
  "bank_addr d a \<longleftrightarrow> length a = 5 \<and> in_vec (m_channels d) (a ! 0) \<and> bank_list d \<noteq> [] \<and>
     (let cs = org_count (m_organization (dram_spec d)) in a ! 1 < cs ! 1 \<and> a ! 2 < cs ! 2)"

theorem get_preq_refines_rows:
  assumes ok: "dram_ok d" and T: "rows_rep d T" and c: "is_command (dram_spec d) c" and a: "bank_addr d a"
  shows "dram_get_preq d c a =
    Ok (ImplDef_index GDDR6_commands (preq_name (bank_list d) T (GDDR6_commands ! nat c) a))"
proof -
  let ?spec = "dram_spec d" and ?ch = "a ! 0" and ?cmd = "GDDR6_commands ! nat c"
  let ?n = "m_channels d ! nat ?ch"
  have g: "gddr6_spec_ok ?spec" using ok by (simp add: dram_ok_def)
  have len: "length a = 5" and ch: "in_vec (m_channels d) ?ch" using a by (simp_all add: bank_addr_def)
  have at: "vec_at a 0 = Ok ?ch" "vec_at a 1 = Ok (a ! 1)" "vec_at a 2 = Ok (a ! 2)" "vec_at a 3 = Ok (a ! 3)"
    using len by (simp_all add: vec_at_def in_vec_def)
  have n: "node_ok ?spec ?n" "m_level (nd ?n) = 0"
    using ok in_vec_nat [OF ch] by (auto simp: dram_ok_def)
  note nm = command_name [OF c gddr6_fields(2) [OF g]]
  have idx: "ImplDef_index GDDR6_commands ?cmd = c" using in_set_command [OF c gddr6_fields(2) [OF g]] by blast
  note preqs = get_preq_leafs [OF g c]
  have rep: "bank_rep b (T ?ch i j)" if "walk ?n [i, j] = Some b" for i j b
    using T ch that unfolding rows_rep_def by blast
  note banks = channel_banks [OF ok ch]
  have start: "dram_get_preq d c a = get_preq_command ?spec c a ?n"
    using ch by (simp add: dram_get_preq_def gddr6_fields [OF g] at(1) vec_at_in)
  have closed: "all_banks_closed ?spec (descendants 2 ?n) \<longleftrightarrow>
      \<not> list_ex (\<lambda>(i, j). T ?ch i j \<noteq> {}) (bank_list d)"
  proof -
    have "all_banks_closed ?spec (descendants 2 ?n) \<longleftrightarrow> (\<forall>i j b. walk ?n [i, j] = Some b \<longrightarrow> m_state (nd b) = 1)"
      unfolding all_banks_closed_def list_all_iff descendants2 by (auto simp: gddr6_fields [OF g] simp del: walk.simps)
    also have "\<dots> \<longleftrightarrow> (\<forall>i j b. walk ?n [i, j] = Some b \<longrightarrow> T ?ch i j = {})"
      using rep bank_rep_state by blast
    also have "\<dots> \<longleftrightarrow> (\<forall>(i, j) \<in> set (bank_list d). T ?ch i j = {})"
      using banks by blast
    finally show ?thesis by (auto simp: list_ex_iff)
  qed
  have scan: "scan_rows ?spec (a ! 3) False (descendants 2 ?n) =
      (if list_ex (\<lambda>(i, j). T ?ch i j \<noteq> {} \<and> a ! 3 \<notin> T ?ch i j) (bank_list d) then None
       else Some (list_ex (\<lambda>(i, j). T ?ch i j = {}) (bank_list d)))"
  proof -
    have 1: "(\<exists>b \<in> set (descendants 2 ?n). m_state (nd b) \<noteq> 1 \<and> \<not> row_found b (a ! 3)) \<longleftrightarrow>
        list_ex (\<lambda>(i, j). T ?ch i j \<noteq> {} \<and> a ! 3 \<notin> T ?ch i j) (bank_list d)"
    proof -
      have "(\<exists>b \<in> set (descendants 2 ?n). m_state (nd b) \<noteq> 1 \<and> \<not> row_found b (a ! 3)) \<longleftrightarrow>
          (\<exists>i j b. walk ?n [i, j] = Some b \<and> T ?ch i j \<noteq> {} \<and> a ! 3 \<notin> T ?ch i j)"
        unfolding descendants2 using rep bank_rep_state by blast
      also have "\<dots> \<longleftrightarrow> (\<exists>(i, j) \<in> set (bank_list d). T ?ch i j \<noteq> {} \<and> a ! 3 \<notin> T ?ch i j)"
        using banks by blast
      finally show ?thesis by (auto simp: list_ex_iff)
    qed
    have 2: "(\<exists>b \<in> set (descendants 2 ?n). m_state (nd b) = 1) \<longleftrightarrow>
        list_ex (\<lambda>(i, j). T ?ch i j = {}) (bank_list d)"
    proof -
      have "(\<exists>b \<in> set (descendants 2 ?n). m_state (nd b) = 1) \<longleftrightarrow>
          (\<exists>i j b. walk ?n [i, j] = Some b \<and> T ?ch i j = {})"
        unfolding descendants2 using rep bank_rep_state by blast
      also have "\<dots> \<longleftrightarrow> (\<exists>(i, j) \<in> set (bank_list d). T ?ch i j = {})" using banks by blast
      finally show ?thesis by (auto simp: list_ex_iff)
    qed
    show ?thesis unfolding scan_rows_spec using 1 2 by (simp add: gddr6_fields [OF g])
  qed
  show ?thesis
  proof (cases "c \<in> {7, 13, 14, 15, 22}")
    case True
    have c0: "0 \<le> c" using c by (simp add: is_command_def)
    show ?thesis
    proof (cases "c = 7")
      case c7: True
      have "GDDR6_preqs ! 0 ! nat c = Some Channel_RequireAllBanksClosed"
        unfolding preqs(1) using c7 by simp
      then have "get_preq_command ?spec c a ?n = Preq_Channel_RequireAllBanksClosed ?spec ?n c"
        using c0 by (subst get_preq_unfold [OF g c n(2)])
          (simp_all add: Preq_Channel_RequireAllBanksClosed_def gddr6_fields [OF g])
      moreover have cmd: "?cmd = ''REFab''" using nm [of "''REFab''"] c7 by simp
      ultimately show ?thesis unfolding start preq_name_def cmd
        using closed c7 by (simp add: Let_def gddr6_fields [OF g] Preq_Channel_RequireAllBanksClosed_def)
    next
      case False
      then have "GDDR6_preqs ! 0 ! nat c = Some Channel_RequireAllRowsOpen"
        unfolding preqs(1) using True by simp
      then have "get_preq_command ?spec c a ?n = Preq_Channel_RequireAllRowsOpen ?spec ?n c a"
        using c0 scan by (subst get_preq_unfold [OF g c n(2)])
          (simp_all add: Preq_Channel_RequireAllRowsOpen_def at gddr6_fields [OF g])
      moreover have "preq_name (bank_list d) T ?cmd a =
          (if list_ex (\<lambda>(bg, ba). T ?ch bg ba \<noteq> {} \<and> a ! 3 \<notin> T ?ch bg ba) (bank_list d) then ''PREA''
           else if list_ex (\<lambda>(bg, ba). T ?ch bg ba = {}) (bank_list d) then ''ACT16'' else ?cmd)"
      proof -
        have "c = 22 \<or> c = 13 \<or> c = 14 \<or> c = 15" using True False by auto
        then show ?thesis by (simp add: preq_name_def Let_def nm)
      qed
      ultimately show ?thesis unfolding start
        using scan by (simp add: idx at gddr6_fields [OF g] Preq_Channel_RequireAllRowsOpen_def)
    qed
  next
    case False
    then have pre0: "GDDR6_preqs ! 0 ! nat c = None" by (simp add: preqs)
    obtain i0 j0 where "(i0, j0) \<in> set (bank_list d)"
      using a by (cases "bank_list d") (auto simp: bank_addr_def)
    then obtain b0 where "walk ?n [i0, j0] = Some b0" using banks by blast
    then have ne: "m_child_nodes ?n \<noteq> []" by (auto simp: in_vec_def split: if_splits)
    have u0: "get_preq_command ?spec c a ?n = (if a ! 1 < 0 then Ok c
        else andThen (vec_at (m_child_nodes ?n) (a ! 1)) (get_preq_command ?spec c a))"
      using ne at(2) by (subst get_preq_unfold [OF g c n(2)]) (simp_all add: pre0)
    show ?thesis
    proof (cases "a ! 1 < 0")
      case True
      then show ?thesis unfolding start u0
        using False by (simp add: preq_name_def Let_def nm idx)
    next
      case a1: False
      have in1: "(a ! 1, j0) \<in> set (bank_list d)"
        using a1 a \<open>(i0, j0) \<in> set (bank_list d)\<close> by (simp add: bank_list_iff bank_addr_def Let_def)
      then obtain b1 where b1: "walk ?n [a ! 1, j0] = Some b1" using banks by blast
      let ?m = "m_child_nodes ?n ! nat (a ! 1)"
      have m: "in_vec (m_child_nodes ?n) (a ! 1)" "m_child_nodes ?m \<noteq> []"
        using b1 unfolding walk2_iff by (auto simp: in_vec_def)
      have lm: "m_level (nd ?m) = 1" using kid_data [OF n(1) m(1)] n(2) by simp
      have u1: "get_preq_command ?spec c a ?m = (if a ! 2 < 0 then Ok c
          else andThen (vec_at (m_child_nodes ?m) (a ! 2)) (get_preq_command ?spec c a))"
        using m(2) at(3) by (subst get_preq_unfold [OF g c lm]) (simp_all add: preqs del: One_nat_def)
      have u: "get_preq_command ?spec c a ?n = get_preq_command ?spec c a ?m"
        using a1 m(1) by (simp add: u0 vec_at_in)
      show ?thesis
      proof (cases "a ! 2 < 0")
        case True
        then show ?thesis unfolding start u u1 using False a1 by (simp add: preq_name_def Let_def nm idx)
      next
        case a2: False
        have "(a ! 1, a ! 2) \<in> set (bank_list d)"
          using a1 a2 a by (simp add: bank_list_iff bank_addr_def Let_def)
        then obtain b where b: "walk ?n [a ! 1, a ! 2] = Some b" using banks by blast
        have bm: "in_vec (m_child_nodes ?m) (a ! 2)" "b = m_child_nodes ?m ! nat (a ! 2)"
          using b unfolding walk2_iff by simp_all
        have okb: "node_ok ?spec b" and lb: "m_level (nd b) = 2"
          using walk_node_ok [OF n(1) b] walk_level [OF n(1) b] n(2) by simp_all
        have leaf: "m_child_nodes b = []"
          using node_okD(2) [OF okb] lb by (simp add: kids_ok_def kids_count_def gddr6_fields [OF g])
        have u2: "get_preq_command ?spec c a b =
            (if c \<in> {3, 4, 5, 6, 12, 16, 17} then Preq_Bank_RequireRowOpen ?spec b c a else Ok 1)"
        proof (cases "c \<in> {3, 4, 5, 6, 12, 16, 17}")
          case True
          have "r \<noteq> -1" if "Preq_Bank_RequireRowOpen ?spec b c a = Ok r" for r
            using that True c by (auto simp: Preq_Bank_RequireRowOpen_def lb at gddr6_fields [OF g]
                invalid_bank_state_def is_command_def split: if_splits)
          note keep = andThen_not_minus_one [OF this]
          have "GDDR6_preqs ! nat 2 ! nat c = Some Bank_RequireRowOpen" using preqs(3) True by simp
          then have "get_preq_command ?spec c a b = Preq_Bank_RequireRowOpen ?spec b c a"
            unfolding get_preq_unfold [OF g c lb, simplified] by (simp add: keep)
          then show ?thesis using True by simp
        qed (subst get_preq_unfold [OF g c lb], simp_all add: preqs leaf)
        have "Preq_Bank_RequireRowOpen ?spec b c a =
            Ok (if T ?ch (a ! 1) (a ! 2) = {} then 0 else if a ! 3 \<in> T ?ch (a ! 1) (a ! 2) then c else 2)"
          using bank_rep_state [OF rep [OF b], of "a ! 3"] lb at
          by (auto simp: Preq_Bank_RequireRowOpen_def gddr6_fields [OF g])
        moreover have "get_preq_command ?spec c a ?n = get_preq_command ?spec c a b"
          unfolding u u1 using a2 bm by (simp add: vec_at_in)
        moreover have "preq_name (bank_list d) T ?cmd a =
            (if c \<in> {3, 4, 5, 6, 12, 16, 17}
             then (if T ?ch (a ! 1) (a ! 2) = {} then ''ACT''
                   else if a ! 3 \<in> T ?ch (a ! 1) (a ! 2) then ?cmd else ''PRE'')
             else ''PREA'')"
          using False a1 a2 by (simp add: preq_name_def Let_def nm)
        ultimately show ?thesis unfolding start
          by (cases "c \<in> {3, 4, 5, 6, 12, 16, 17}") (simp_all add: u2 idx del: insert_iff)
      qed
    qed
  qed
qed

subsection \<open>Issuing is defined on valid addresses\<close>

lemma action_step_total:
  assumes g: "gddr6_spec_ok spec" and c: "is_command spec c" and a: "length a = 5"
    and l: "m_level (nd n) \<in> {0, 1, 2}"
  shows "\<exists>n'. action_step spec c a n = Ok n' \<and> m_level (nd n') = m_level (nd n)
           \<and> length (m_child_nodes n') = length (m_child_nodes n)"
proof -
  have "vec_at a 3 = Ok (a ! 3)" using a by (simp add: vec_at_def in_vec_def)
  then show ?thesis using l gddr6_action_step [OF g c]
    by (auto simp: map_kids_def close_bank_def open_bank_def)
qed

lemma update_states_total:
  assumes g: "gddr6_spec_ok spec" and c: "is_command spec c" and a: "length a = 5"
    and "node_ok spec n" and "m_level (nd n) = int l" "l \<le> 2"
    and "a ! 1 < org_count (m_organization spec) ! 1" "a ! 2 < org_count (m_organization spec) ! 2"
  shows "\<exists>n'. update_states spec c a n = Ok n'"
  using assms(4-6)
proof (induction "2 - l" arbitrary: n l)
  case (0 l n)
  obtain n1 where n1: "action_step spec c a n = Ok n1" "m_level (nd n1) = m_level (nd n)"
      "length (m_child_nodes n1) = length (m_child_nodes n)"
    using action_step_total [OF g c a, of n] 0 by auto
  have "m_child_nodes n = []"
    using node_okD(2) [OF "0.prems"(1)] 0 by (simp add: kids_ok_def kids_count_def gddr6_fields [OF g])
  moreover have "vec_at (m_command_scopes spec) c = Ok (m_command_scopes spec ! nat c)"
    using c gddr6_spec_okD [OF g] by (simp add: vec_at_def in_vec_def is_command_def spec_ok_def)
  ultimately show ?case using n1 by (subst update_states.simps) simp
next
  case (Suc k l n)
  obtain n1 where n1: "action_step spec c a n = Ok n1" "m_level (nd n1) = m_level (nd n)"
      "length (m_child_nodes n1) = length (m_child_nodes n)"
  proof -
    have "l = 0 \<or> l = 1" using Suc.hyps(2) by linarith
    then show thesis using action_step_total [OF g c a, of n] Suc.prems(2) that by auto
  qed
  have ok1: "node_ok spec n1"
    using action_step_same [OF n1(1)] node_ok_tree_le [OF Suc.prems(1)] by (simp add: same_clocks_def)
  have sc: "vec_at (m_command_scopes spec) c = Ok (m_command_scopes spec ! nat c)"
    using c gddr6_spec_okD [OF g] by (simp add: vec_at_def in_vec_def is_command_def spec_ok_def)
  have at: "vec_at a (int l + 1) = Ok (a ! Suc l)"
    using a Suc.prems by (simp add: vec_at_def in_vec_def nat_add_distrib)
  show ?case
  proof (cases "m_level (nd n1) = m_command_scopes spec ! nat c \<or> m_child_nodes n1 = [] \<or> a ! Suc l < 0")
    case True
    then show ?thesis using n1 sc at Suc.prems by (subst update_states.simps) auto
  next
    case False
    have "length (m_child_nodes n1) = nat (org_count (m_organization spec) ! Suc l)"
      using node_okD(2) [OF ok1] n1(2) Suc.prems Suc.hyps(2)
      by (simp add: kids_ok_def kids_count_def gddr6_fields [OF g] nat_add_distrib)
    moreover have "a ! Suc l < org_count (m_organization spec) ! Suc l"
    proof -
      have "l = 0 \<or> l = 1" using Suc.hyps(2) by linarith
      then show ?thesis using assms(7,8) by (auto simp: numeral_2_eq_2)
    qed
    ultimately have i: "in_vec (m_child_nodes n1) (a ! Suc l)"
      using False by (simp add: in_vec_def)
    obtain c' where "update_states spec c a (m_child_nodes n1 ! nat (a ! Suc l)) = Ok c'"
    proof -
      have "k = 2 - Suc l" "Suc l \<le> 2" using Suc.hyps(2) by linarith+
      then show thesis
        using Suc.hyps(1) [of "Suc l" "m_child_nodes n1 ! nat (a ! Suc l)"]
          node_ok_child [OF ok1 i] kid_data [OF ok1 i] n1(2) Suc.prems(2) that by auto
    qed
    then show ?thesis using n1 sc at i False Suc.prems
      by (subst update_states.simps) (simp add: vec_at_in)
  qed
qed

text \<open>The commands that name one bank or one bank group need its number.\<close>

definition issuable :: "dram \<Rightarrow> int \<Rightarrow> int list \<Rightarrow> bool" where
  "issuable d c a \<longleftrightarrow> is_command (dram_spec d) c \<and> length a = 5 \<and> in_vec (m_channels d) (a ! 0)
     \<and> a ! 1 < org_count (m_organization (dram_spec d)) ! 1 \<and> a ! 2 < org_count (m_organization (dram_spec d)) ! 2
     \<and> (c \<in> {0, 2, 5, 6} \<longrightarrow> 0 \<le> a ! 2 \<and> a ! 2 < 32) \<and> (c \<in> {9, 11} \<longrightarrow> 0 \<le> a ! 1 \<and> a ! 1 < 8)"

lemma track_open_rows_total:
  assumes g: "gddr6_spec_ok (dram_spec d)" and i: "issuable d c a"
  shows "\<exists>w'. track_open_rows (dram_spec d) c a w = Ok w'"
proof -
  have at: "vec_at a 1 = Ok (a ! 1)" "vec_at a 2 = Ok (a ! 2)"
    using i by (simp_all add: issuable_def vec_at_def in_vec_def)
  have "\<exists>x. bank_bits [b * 4, b * 4 + 1, b * 4 + 2, b * 4 + 3] = Ok x" if "0 \<le> b" "b < 8" for b
    using that by (simp add: bank_bits_def bank_bit_def)
  then obtain x where x: "c \<in> {9, 11} \<Longrightarrow> bank_bits [a ! 1 * 4, a ! 1 * 4 + 1, a ! 1 * 4 + 2, a ! 1 * 4 + 3] = Ok x"
    using i unfolding issuable_def by meson
  obtain y where y: "c \<in> {0, 2, 5, 6} \<Longrightarrow> bank_bit (a ! 2) = Ok y"
    using i unfolding issuable_def by (auto simp: bank_bit_def)
  show ?thesis
  proof (cases "c \<in> {9, 11}")
    case True
    then show ?thesis using x [OF True] at by (auto simp: track_open_rows_def gddr6_fields [OF g])
  next
    case False
    show ?thesis
    proof (cases "c \<in> {0, 2, 5, 6}")
      case True
      then show ?thesis using y [OF True] at by (auto simp: track_open_rows_def gddr6_fields [OF g])
    qed (use False in \<open>auto simp: track_open_rows_def gddr6_fields [OF g] Let_def\<close>)
  qed
qed

lemma issue_command_total:
  assumes ok: "dram_ok d" and i: "issuable d c a"
  shows "\<exists>d'. issue_command c a d = Ok d'"
proof -
  have g: "gddr6_spec_ok (dram_spec d)" using ok by (simp add: dram_ok_def)
  let ?n = "m_channels d ! nat (a ! 0)"
  have ch: "in_vec (m_channels d) (a ! 0)" and a: "length a = 5" and c: "is_command (dram_spec d) c"
    using i by (simp_all add: issuable_def)
  have n: "node_ok (dram_spec d) ?n" "m_level (nd ?n) = 0"
    using ok in_vec_nat [OF ch] by (auto simp: dram_ok_def)
  obtain n1 where n1: "update_timing (dram_spec d) c a (dram_clk d) ?n = Ok n1"
    using update_timing_total [OF gddr6_spec_okD [OF g] c _ n(1)] a by (auto simp: gddr6_fields [OF g])
  have le: "tree_le ?n n1" by (rule update_timing_le [OF n1])
  have "node_ok (dram_spec d) n1" "m_level (nd n1) = int 0"
    using node_ok_tree_le [OF n(1) le] tree_le_walk [OF le, of "[]"] n(2) by (auto simp: clk_le_def)
  then obtain n2 where n2: "update_states (dram_spec d) c a n1 = Ok n2"
    using update_states_total [OF g c a, of n1 0] i by (auto simp: issuable_def)
  have rows: "in_vec (m_open_rows d) (a ! 0)" using ch ok by (simp add: dram_ok_def in_vec_def)
  obtain w where "track_open_rows (dram_spec d) c a (m_open_rows d ! nat (a ! 0)) = Ok w"
    using track_open_rows_total [OF g i] by blast
  moreover have "vec_at a 0 = Ok (a ! 0)" using a by (simp add: vec_at_def in_vec_def)
  ultimately show ?thesis
    using ch rows n1 n2 by (simp add: issue_command_def Let_def gddr6_fields [OF g] vec_at_in vec_put_in)
qed

end
