(* ===== verification/GDDR6_Props.thy ===== *)
theory GDDR6_Props
  imports GDDR6_State Request
begin

text \<open>
  Properties of the GDDR6 device of \<^verbatim>\<open>src/src/dram/impl/GDDR6.cpp\<close> over whole histories, and
  their witnesses on the configuration of \<^verbatim>\<open>src/test/example_GDDR6.yaml\<close>.
\<close>

subsection \<open>The AiM configuration\<close>

definition AiM_config :: gddr6_config where
  "AiM_config =
     \<lparr>cfg_channel_width = None, cfg_org_preset = Some ''GDDR6_AiM_org'', cfg_dq = None,
      cfg_level = (\<lambda>_. None), cfg_density = None,
      cfg_timing_preset = Some ''GDDR6_AiM_timing'', cfg_rate = None,
      cfg_cycles = (\<lambda>_. None), cfg_ps = (\<lambda>_. None)\<rparr>"

definition AiM_org :: Organization where
  "AiM_org = \<lparr>density = 131072, dq = 16, org_count = [32, 4, 4, 16384, 1024]\<rparr>"

lemma AiM_organization: "set_organization AiM_config = Ok AiM_org"
  by code_simp

definition AiM_vals :: "int list" where
  "AiM_vals = [2000, 2, 50, 36, 56, 25, 86, 66, 28, 48, 32, 54, 89, 33, 12, 6, 2, 2, 5, 6, 9, 11, 28,
     0, 15600, 21, 3333, 0, 1, 1, 1, 1, 32, 500]"

lemma AiM_timing: "timing_values 0 AiM_config AiM_org = Ok AiM_vals"
  by code_simp

lemma GDDR6_init_total:
  assumes "set_organization cfg = Ok org" and "timing_values stray cfg org = Ok vals"
  shows "\<exists>d. GDDR6_init stray cfg = Ok d \<and> m_organization (dram_spec d) = org
           \<and> m_timing_vals (dram_spec d) = vals
           \<and> dram_clk d = 0 \<and> length (m_channels d) = nat (org_count org ! 0)"
proof -
  obtain tcs where tcs: "populate_timingcons GDDR6_levels GDDR6_commands
      (GDDR6_timing_constraints (timing_val vals)) = Ok tcs"
    using populate_timingcons_total GDDR6_constraints_names by (metis list_all_iff)
  let ?spec = "GDDR6_spec cfg org vals tcs"
  have len: "length (org_count org) = 5" by (rule set_organization_length [OF assms(1)])
  have g: "gddr6_spec_ok ?spec" using len tcs by (auto simp: gddr6_spec_ok_def)
  have "is_ok (map_result (\<lambda>i. Node_new ?spec 0 (int i)) [0..<nat (org_count org ! 0)])"
    by (rule map_result_total)
      (use Node_new_ok [OF gddr6_spec_okD [OF g] gddr6_org_ok [OF g], of 0] in
        \<open>auto simp: is_ok_iff gddr6_fields [OF g]\<close>)
  then obtain ns where ns: "map_result (\<lambda>i. Node_new ?spec 0 (int i)) [0..<nat (org_count org ! 0)] = Ok ns"
    by (auto simp: is_ok_iff)
  have "create_nodes ?spec = Ok ns"
    using ns len by (simp add: create_nodes_def gddr6_fields [OF g] vec_at_def in_vec_def GDDR6_spec_def)
  then show ?thesis using assms tcs map_result_length [OF ns]
    by (auto simp: GDDR6_init_def Let_def GDDR6_spec_def)
qed

lemma AiM_init:
  "\<exists>d. GDDR6_init 0 AiM_config = Ok d \<and> m_organization (dram_spec d) = AiM_org
     \<and> m_timing_vals (dram_spec d) = AiM_vals \<and> dram_clk d = 0 \<and> length (m_channels d) = 32"
  using GDDR6_init_total [OF AiM_organization AiM_timing] by (simp add: AiM_org_def)

subsection \<open>Serving a command\<close>

lemma preq_is_command: "is_command spec c \<Longrightarrow> m_commands spec = GDDR6_commands \<Longrightarrow>
   preq_name banks T (GDDR6_commands ! nat c) a \<in> set GDDR6_commands"
  using in_set_command [of spec c "GDDR6_commands ! nat c"]
  by (auto simp: preq_name_def Let_def)

lemma index_is_command: "m_commands spec = GDDR6_commands \<Longrightarrow> s \<in> set GDDR6_commands \<Longrightarrow>
   is_command spec (ImplDef_index GDDR6_commands s)"
  using ImplDef_index_bounds(1) ImplDef_index_in [of s GDDR6_commands] by (simp add: is_command_def)

text \<open>Issue prerequisites, at most \<open>fuel\<close> of them, until the command needs none.\<close>

fun serve :: "nat \<Rightarrow> int \<Rightarrow> int list \<Rightarrow> dram \<Rightarrow> (int list \<times> dram) result" where
  "serve 0 c a d = Ok ([], d)"
| "serve (Suc fuel) c a d =
     andThen (dram_get_preq d c a) (\<lambda>p.
       if p = c then Ok ([], d)
       else andThen (issue_command p a d) (\<lambda>d'.
            andThen (serve fuel c a d') (\<lambda>(ps, d''). Ok (p # ps, d''))))"

definition full_addr :: "dram \<Rightarrow> int list \<Rightarrow> bool" where
  "full_addr d a \<longleftrightarrow> bank_addr d a \<and> 0 \<le> a ! 1 \<and> 0 \<le> a ! 2 \<and> a ! 2 < 32"

lemma issue_command_keeps:
  assumes "issue_command c a d = Ok d'" "dram_ok d"
  shows "dram_spec d' = dram_spec d" "length (m_channels d') = length (m_channels d)" "dram_ok d'"
    "bank_list d' = bank_list d" "bank_addr d' x = bank_addr d x" "full_addr d' x = full_addr d x"
proof -
  show s: "dram_spec d' = dram_spec d" using assms by (rule issue_command_cases)
  show l: "length (m_channels d') = length (m_channels d)"
    using assms by (rule issue_command_cases) simp
  show "dram_ok d'" by (rule issue_command_ok [OF assms])
  show b: "bank_list d' = bank_list d" by (simp add: bank_list_def s)
  show "bank_addr d' x = bank_addr d x" using in_vec_length [OF l] by (simp add: bank_addr_def s b)
  then show "full_addr d' x = full_addr d x" by (simp add: full_addr_def)
qed

lemma preq_issuable:
  assumes ok: "dram_ok d" and a: "full_addr d a" and s: "s \<in> {''ACT'', ''PRE'', ''PREA'', ''ACT16''}"
  shows "\<exists>d'. issue_command (ImplDef_index GDDR6_commands s) a d = Ok d'"
proof -
  have g: "gddr6_spec_ok (dram_spec d)" using ok by (simp add: dram_ok_def)
  have "issuable d (ImplDef_index GDDR6_commands s) a"
    using a s by (auto simp: issuable_def full_addr_def bank_addr_def Let_def is_command_def gddr6_fields [OF g])
  then show ?thesis by (rule issue_command_total [OF ok])
qed

text \<open>One round: the prerequisite is issued and the table steps.\<close>

lemma serve_step:
  assumes ok: "dram_ok d" and T: "rows_rep d T" and c: "is_command (dram_spec d) c" and a: "full_addr d a"
    and p: "preq_name (bank_list d) T (GDDR6_commands ! nat c) a = s" "s \<in> {''ACT'', ''PRE'', ''PREA'', ''ACT16''}"
    and ne: "s \<noteq> GDDR6_commands ! nat c"
  obtains d' where "issue_command (ImplDef_index GDDR6_commands s) a d = Ok d'" "dram_ok d'"
    "rows_rep d' (row_step (ImplDef_index GDDR6_commands s) a T)"
    "serve (Suc fuel) c a d = andThen (serve fuel c a d') (\<lambda>(ps, d''). Ok (ImplDef_index GDDR6_commands s # ps, d''))"
    "dram_spec d' = dram_spec d" "full_addr d' a" "bank_list d' = bank_list d"
proof -
  have g: "gddr6_spec_ok (dram_spec d)" using ok by (simp add: dram_ok_def)
  have ba: "bank_addr d a" using a by (simp add: full_addr_def)
  obtain d' where d': "issue_command (ImplDef_index GDDR6_commands s) a d = Ok d'"
    using preq_issuable [OF ok a p(2)] by blast
  have "ImplDef_index GDDR6_commands s \<noteq> c"
    using ne p(2) command_name [OF c gddr6_fields(2) [OF g], of s] by auto
  then have "serve (Suc fuel) c a d = andThen (serve fuel c a d') (\<lambda>(ps, d''). Ok (ImplDef_index GDDR6_commands s # ps, d''))"
    using get_preq_refines_rows [OF ok T c ba] p(1) d' by simp
  then show thesis
    using that [OF d'] issue_command_keeps [OF d' ok] issue_command_rows [OF d' ok T] a by simp
qed

lemma serve_done:
  assumes ok: "dram_ok d" and T: "rows_rep d T" and c: "is_command (dram_spec d) c" and a: "bank_addr d a"
    and p: "preq_name (bank_list d) T (GDDR6_commands ! nat c) a = GDDR6_commands ! nat c"
  shows "dram_get_preq d c a = Ok c" "serve fuel c a d = Ok ([], d)"
proof -
  have g: "gddr6_spec_ok (dram_spec d)" using ok by (simp add: dram_ok_def)
  have "ImplDef_index GDDR6_commands (GDDR6_commands ! nat c) = c"
    using in_set_command [OF c gddr6_fields(2) [OF g]] by blast
  then show *: "dram_get_preq d c a = Ok c" using get_preq_refines_rows [OF ok T c a] p by simp
  show "serve fuel c a d = Ok ([], d)" by (cases fuel) (simp_all add: *)
qed

definition column_commands :: "string list" where
  "column_commands = [''RD'', ''WR'', ''RDA'', ''WRA'', ''RDCP'', ''WRCP'', ''MAC'']"

definition all_bank_commands :: "string list" where
  "all_bank_commands = [''WRA16'', ''MAC16'', ''AF16'', ''EWMUL16'']"

lemma row_step_names:
  assumes "a ! 0 = ch"
  shows "row_step (ImplDef_index GDDR6_commands ''ACT'') a T ch (a ! 1) (a ! 2) = insert (a ! 3) (T ch (a ! 1) (a ! 2))"
    "row_step (ImplDef_index GDDR6_commands ''PRE'') a T ch (a ! 1) (a ! 2) = {}"
    "row_step (ImplDef_index GDDR6_commands ''PREA'') a T ch i j = {}"
    "row_step (ImplDef_index GDDR6_commands ''ACT16'') a T ch i j = insert (a ! 3) (T ch i j)"
  using assms by (simp_all add: row_step_def Let_def ImplDef_index_nth [unfolded GDDR6_command_ids] GDDR6_commands_def
      del: GDDR6_command_ids)

lemma preq_name_column:
  assumes "cmd \<in> set column_commands" "0 \<le> a ! 1" "0 \<le> a ! 2"
  shows "preq_name banks T cmd a = (let R = T (a ! 0) (a ! 1) (a ! 2) in
     if R = {} then ''ACT'' else if a ! 3 \<in> R then cmd else ''PRE'')"
  using assms by (simp add: column_commands_def preq_name_def Let_def) auto


lemma column_names: "cmd \<in> set column_commands \<Longrightarrow> cmd \<notin> {''ACT'', ''PRE'', ''PREA'', ''ACT16''}"
  "cmd \<in> set all_bank_commands \<Longrightarrow> cmd \<notin> {''ACT'', ''PRE'', ''PREA'', ''ACT16''}"
  by (auto simp: column_commands_def all_bank_commands_def)

lemma serve_column_open:
  assumes ok: "dram_ok d" and T: "rows_rep d T" and c: "is_command (dram_spec d) c" and a: "full_addr d a"
    and cmd: "GDDR6_commands ! nat c \<in> set column_commands" and R: "T (a ! 0) (a ! 1) (a ! 2) = {}"
  shows "\<exists>d'. serve (Suc fuel) c a d = Ok ([0], d') \<and> dram_get_preq d' c a = Ok c"
proof -
  have pos: "0 \<le> a ! 1" "0 \<le> a ! 2" and ba: "bank_addr d a" using a by (simp_all add: full_addr_def)
  note name = preq_name_column [OF cmd pos]
  have ne: "''ACT'' \<noteq> GDDR6_commands ! nat c" using column_names(1) [OF cmd] by auto
  have p: "preq_name (bank_list d) T (GDDR6_commands ! nat c) a = ''ACT''"
    using name R by (simp add: Let_def)
  have s: "''ACT'' \<in> {''ACT'', ''PRE'', ''PREA'', ''ACT16''}" by simp
  obtain d1 where d1: "dram_ok d1" "rows_rep d1 (row_step (ImplDef_index GDDR6_commands ''ACT'') a T)"
    "serve (Suc fuel) c a d = andThen (serve fuel c a d1) (\<lambda>(ps, d''). Ok (ImplDef_index GDDR6_commands ''ACT'' # ps, d''))"
    "dram_spec d1 = dram_spec d" "full_addr d1 a" "bank_list d1 = bank_list d"
    using serve_step [OF ok T c a p s ne, of fuel] by blast
  have "preq_name (bank_list d1) (row_step (ImplDef_index GDDR6_commands ''ACT'') a T) (GDDR6_commands ! nat c) a
      = GDDR6_commands ! nat c"
    unfolding name by (simp add: Let_def row_step_names(1) [OF refl] del: GDDR6_command_ids One_nat_def)
  then have "dram_get_preq d1 c a = Ok c" "serve fuel c a d1 = Ok ([], d1)"
    using serve_done [OF d1(1,2)] c d1(4,5) by (simp_all add: full_addr_def)
  then show ?thesis using d1(3) by simp
qed

lemma serve_column:
  assumes ok: "dram_ok d" and T: "rows_rep d T" and c: "is_command (dram_spec d) c" and a: "full_addr d a"
    and cmd: "GDDR6_commands ! nat c \<in> set column_commands"
  shows "\<exists>ps d'. serve 2 c a d = Ok (ps, d') \<and> dram_get_preq d' c a = Ok c
    \<and> ps = (let R = T (a ! 0) (a ! 1) (a ! 2) in if R = {} then [0] else if a ! 3 \<in> R then [] else [2, 0])"
proof -
  have pos: "0 \<le> a ! 1" "0 \<le> a ! 2" and ba: "bank_addr d a" using a by (simp_all add: full_addr_def)
  note name = preq_name_column [OF cmd pos]
  consider (closed) "T (a ! 0) (a ! 1) (a ! 2) = {}"
    | (hit) "T (a ! 0) (a ! 1) (a ! 2) \<noteq> {}" "a ! 3 \<in> T (a ! 0) (a ! 1) (a ! 2)"
    | (miss) "T (a ! 0) (a ! 1) (a ! 2) \<noteq> {}" "a ! 3 \<notin> T (a ! 0) (a ! 1) (a ! 2)" by blast
  then show ?thesis
  proof cases
    case closed
    then show ?thesis using serve_column_open [OF ok T c a cmd closed, of 1]
      by (simp add: numeral_2_eq_2)
  next
    case hit
    then show ?thesis using serve_done [OF ok T c ba] name by auto
  next
    case miss
    have ne: "''PRE'' \<noteq> GDDR6_commands ! nat c" using column_names(1) [OF cmd] by auto
    have p: "preq_name (bank_list d) T (GDDR6_commands ! nat c) a = ''PRE''"
      using name miss by (simp add: Let_def)
    have s: "''PRE'' \<in> {''ACT'', ''PRE'', ''PREA'', ''ACT16''}" by simp
    obtain d1 where d1: "dram_ok d1" "rows_rep d1 (row_step (ImplDef_index GDDR6_commands ''PRE'') a T)"
      "serve (Suc 1) c a d = andThen (serve 1 c a d1) (\<lambda>(ps, d''). Ok (ImplDef_index GDDR6_commands ''PRE'' # ps, d''))"
      "dram_spec d1 = dram_spec d" "full_addr d1 a"
      using serve_step [OF ok T c a p s ne, of 1] by blast
    have "\<exists>d'. serve (Suc 0) c a d1 = Ok ([0], d') \<and> dram_get_preq d' c a = Ok c"
      using serve_column_open [OF d1(1,2) _ d1(5) cmd] c d1(4)
      by (simp add: row_step_names(2) [OF refl] del: GDDR6_command_ids One_nat_def serve.simps)
    then show ?thesis using d1(3) miss by (auto simp: numeral_2_eq_2 simp del: serve.simps)
  qed
qed



subsection \<open>Histories from the initial device\<close>

lemma history_ok:
  assumes "GDDR6_init stray cfg = Ok d0" and "dram_run es d0 = Ok d"
  shows "dram_ok d" and "rows_rep d (row_run es (\<lambda>_ _ _. {}))"
proof -
  have ok: "dram_ok d0" by (rule GDDR6_init_dram_ok [OF assms(1)])
  show "dram_ok d" using dram_run_ok [OF assms(2) ok] by simp
  show "rows_rep d (row_run es (\<lambda>_ _ _. {}))"
    by (rule dram_run_rows [OF assms(2) ok GDDR6_init_rows [OF assms(1)]])
qed

lemma AiM_addr:
  assumes "m_organization (dram_spec d) = AiM_org" "length (m_channels d) = 32"
  shows "full_addr d [3, 1, 2, 77, 0]" "bank_addr d [3, 1, 2, 77, 0]" "valid_addr d 3 [3, 1, 2, 77, 0]"
proof -
  have "(0, 0) \<in> set (bank_list d)" by (simp add: bank_list_iff assms AiM_org_def)
  then have ne: "bank_list d \<noteq> []" by auto
  then show f: "full_addr d [3, 1, 2, 77, 0]"
    by (simp add: full_addr_def bank_addr_def assms AiM_org_def in_vec_def)
  then show "bank_addr d [3, 1, 2, 77, 0]" by (simp add: full_addr_def)
  have "[1..<Suc 2] = [1, 2]" by code_simp
  then show "valid_addr d 3 [3, 1, 2, 77, 0]"
    by (simp add: valid_addr_def assms AiM_org_def in_vec_def GDDR6_command_scopes_eq)
qed

lemma AiM_command:
  assumes "GDDR6_init s AiM_config = Ok d"
  shows "is_command (dram_spec d) c \<longleftrightarrow> 0 \<le> c \<and> c < 27"
proof -
  have "gddr6_spec_ok (dram_spec d)" using GDDR6_init_dram_ok [OF assms] by (simp add: dram_ok_def)
  then show ?thesis by (simp add: is_command_def gddr6_fields)
qed

text \<open>C3: \<open>get_preq_command\<close> of the GDDR6 device. After any history of clock ticks and issued
  commands, the prerequisite it returns for a command and an address is the one the table of open
  rows demands: \<open>ACT\<close> on a closed bank, \<open>PRE\<close> on a bank with another row, the command itself on a
  row hit; \<open>PREA\<close>/\<open>ACT16\<close> for the all-bank commands; \<open>PREA\<close> before a refresh. The last branch is the
  \<open>return true\<close> at a leaf: any other command with a complete bank address gets \<open>PREA\<close>.\<close>

theorem preq_of_history:
  assumes "GDDR6_init stray cfg = Ok d0" and "dram_run es d0 = Ok d"
    and "is_command (dram_spec d) c" and "bank_addr d a"
  shows "dram_get_preq d c a = Ok (ImplDef_index GDDR6_commands
    (preq_name (bank_list d) (row_run es (\<lambda>_ _ _. {})) (GDDR6_commands ! nat c) a))"
  by (rule get_preq_refines_rows [OF history_ok [OF assms(1,2)] assms(3,4)])

theorem preq_of_history_witness:
  "\<exists>d. GDDR6_init 0 AiM_config = Ok d \<and> dram_get_preq d 3 [3, 1, 2, 77, 0] = Ok 0"
proof -
  obtain d where d: "GDDR6_init 0 AiM_config = Ok d" "m_organization (dram_spec d) = AiM_org"
    "length (m_channels d) = 32" using AiM_init by blast
  have "dram_get_preq d 3 [3, 1, 2, 77, 0] = Ok (ImplDef_index GDDR6_commands
      (preq_name (bank_list d) (row_run [] (\<lambda>_ _ _. {})) (GDDR6_commands ! nat 3) [3, 1, 2, 77, 0]))"
    by (rule preq_of_history [OF d(1)]) (simp_all add: AiM_command [OF d(1)] AiM_addr [OF d(2,3)])
  then show ?thesis using d(1) by (auto simp: preq_name_def GDDR6_commands_def)
qed

text \<open>C4: serving a column command (\<open>RD\<close>, \<open>WR\<close>, \<open>RDA\<close>, \<open>WRA\<close>, \<open>RDCP\<close>, \<open>WRCP\<close>, \<open>MAC\<close>) by
  issuing the prerequisites \<open>get_preq_command\<close> names ends after at most two of them, whatever the
  history: none on a row hit, \<open>ACT\<close> on a closed bank, \<open>PRE\<close> then \<open>ACT\<close> on a conflict. Issuing them
  never runs into undefined behaviour.\<close>

theorem serve_column_history:
  assumes "GDDR6_init stray cfg = Ok d0" and "dram_run es d0 = Ok d"
    and "is_command (dram_spec d) c" and "full_addr d a" and "GDDR6_commands ! nat c \<in> set column_commands"
  shows "\<exists>ps d'. serve 2 c a d = Ok (ps, d') \<and> dram_get_preq d' c a = Ok c
    \<and> ps = (let R = row_run es (\<lambda>_ _ _. {}) (a ! 0) (a ! 1) (a ! 2) in
             if R = {} then [0] else if a ! 3 \<in> R then [] else [2, 0])"
  by (rule serve_column [OF history_ok [OF assms(1,2)] assms(3,4,5)])

theorem serve_column_history_witness:
  "\<exists>d d'. GDDR6_init 0 AiM_config = Ok d \<and> serve 2 3 [3, 1, 2, 77, 0] d = Ok ([0], d')
     \<and> dram_get_preq d' 3 [3, 1, 2, 77, 0] = Ok 3"
proof -
  obtain d where d: "GDDR6_init 0 AiM_config = Ok d" "m_organization (dram_spec d) = AiM_org"
    "length (m_channels d) = 32" using AiM_init by blast
  have "\<exists>ps d'. serve 2 3 [3, 1, 2, 77, 0] d = Ok (ps, d') \<and> dram_get_preq d' 3 [3, 1, 2, 77, 0] = Ok 3
    \<and> ps = (let R = row_run [] (\<lambda>_ _ _. {}) ([3, 1, 2, 77, 0] ! 0) ([3, 1, 2, 77, 0] ! 1) ([3, 1, 2, 77, 0] ! 2) in
             if R = {} then [0] else if [3, 1, 2, 77, 0] ! 3 \<in> R then [] else [2, 0])"
    by (rule serve_column_history [OF d(1)])
      (simp_all add: AiM_command [OF d(1)] AiM_addr [OF d(2,3)] column_commands_def GDDR6_commands_def)
  then show ?thesis using d(1) by auto
qed



lemma dram_run_ticks: "dram_run (replicate k Dram_tick) d = Ok (d\<lparr>dram_clk := dram_clk d + int k\<rparr>)"
proof (induction k arbitrary: d)
  case (Suc k)
  then show ?case by (simp add: dram_tick_def algebra_simps)
qed simp

text \<open>\<open>nRCDRD\<close> is 36: a read is refused 35 cycles after the activation and accepted after 36.\<close>

theorem check_ready_refines_log_witness:
  "\<exists>d0 d d'. GDDR6_init 0 AiM_config = Ok d0
     \<and> dram_run (Dram_issue 0 [3, 1, 2, 77, 0] # replicate 35 Dram_tick) d0 = Ok d
     \<and> dram_check_ready d 3 [3, 1, 2, 77, 0] = Ok False
     \<and> dram_run (Dram_issue 0 [3, 1, 2, 77, 0] # replicate 36 Dram_tick) d0 = Ok d'
     \<and> dram_check_ready d' 3 [3, 1, 2, 77, 0] = Ok True"
proof -
  let ?a = "[3, 1, 2, 77, 0] :: int list"
  obtain d0 where d0: "GDDR6_init 0 AiM_config = Ok d0" "m_organization (dram_spec d0) = AiM_org"
    "m_timing_vals (dram_spec d0) = AiM_vals" "dram_clk d0 = 0" "length (m_channels d0) = 32"
    using AiM_init by blast
  have ok: "dram_ok d0" by (rule GDDR6_init_dram_ok [OF d0(1)])
  obtain d1 where d1: "issue_command 0 ?a d0 = Ok d1"
    using preq_issuable [OF ok AiM_addr(1) [OF d0(2,5)], of "''ACT''"] by auto
  note k = issue_command_keeps [OF d1 ok]
  have clk: "dram_clk d1 = 0" using d1 ok d0(4) by (metis issue_command_cases)
  have run: "dram_run (Dram_issue 0 ?a # replicate n Dram_tick) d0 = Ok (d1\<lparr>dram_clk := int n\<rparr>)" for n
    by (simp add: d1 dram_run_ticks clk)
  have log: "issue_log 0 (Dram_issue 0 ?a # replicate n Dram_tick) = [(0, ?a, 0)]" for n
  proof -
    have "issue_log x (replicate n Dram_tick) = []" for x by (induction n arbitrary: x) simp_all
    then show ?thesis by simp
  qed
  have cons: "spec_constraints (dram_spec d0) = GDDR6_timing_constraints (timing_val AiM_vals)"
    by (simp add: spec_constraints_def d0(3))
  have addr: "valid_addr (d1\<lparr>dram_clk := int n\<rparr>) 3 ?a" for n
    using AiM_addr(3) [of "d1\<lparr>dram_clk := int n\<rparr>"] k d0 by simp
  have ready: "dram_check_ready (d1\<lparr>dram_clk := int n\<rparr>) 3 ?a =
      Ok (log_allows (GDDR6_timing_constraints (timing_val AiM_vals)) [(0, ?a, 0)] 3 ?a (int n))" for n
    using check_ready_refines_log [OF d0(1) run [of n], of 3 ?a] addr [of n] log AiM_command [OF d0(1), of 3] k(1) cons
    by (simp add: is_command_def)
  have "log_allows (GDDR6_timing_constraints (timing_val AiM_vals)) [(0, ?a, 0)] 3 ?a 35 = False"
    "log_allows (GDDR6_timing_constraints (timing_val AiM_vals)) [(0, ?a, 0)] 3 ?a 36 = True"
    by code_simp+
  then show ?thesis using d0(1) run [of 35] run [of 36] ready [of 35] ready [of 36] by auto
qed

subsection \<open>One open row per bank\<close>

text \<open>The discipline of the controllers: what is issued is what \<open>get_preq_command\<close> returned for
  the command a request finally needs.\<close>

datatype serve_event = Serve_tick | Serve int "int list"

fun serve_run :: "serve_event list \<Rightarrow> dram \<Rightarrow> dram result" where
  "serve_run [] d = Ok d"
| "serve_run (Serve_tick # es) d = serve_run es (dram_tick d)"
| "serve_run (Serve c a # es) d =
     andThen (dram_get_preq d c a) (\<lambda>p. andThen (issue_command p a d) (serve_run es))"

definition final_command_ok :: "dram \<Rightarrow> serve_event \<Rightarrow> bool" where
  "final_command_ok d e \<longleftrightarrow> (case e of Serve_tick \<Rightarrow> True
     | Serve c a \<Rightarrow> is_command (dram_spec d) c \<and> bank_addr d a
         \<and> GDDR6_commands ! nat c \<notin> {''ACT'', ''ACT4'', ''ACT16''})"

definition single_rows :: "dram \<Rightarrow> row_table \<Rightarrow> bool" where
  "single_rows d T \<longleftrightarrow> (\<forall>ch. \<forall>(i, j) \<in> set (bank_list d). \<exists>r. T ch i j \<subseteq> {r})"

lemma single_rowsD: "single_rows d T \<Longrightarrow> (i, j) \<in> set (bank_list d) \<Longrightarrow> \<exists>r. T ch i j \<subseteq> {r}"
  unfolding single_rows_def by fastforce

lemma single_rows_step:
  assumes "single_rows d T" and "cmd \<notin> {''ACT'', ''ACT4'', ''ACT16''}" and "s = preq_name (bank_list d) T cmd a"
    and c: "GDDR6_commands ! nat c = s"
  shows "single_rows d (row_step c a T)"
  unfolding single_rows_def
proof (intro allI ballI)
  fix ch x assume x: "x \<in> set (bank_list d)"
  obtain i j where ij: "x = (i, j)" by (cases x)
  obtain r where r: "T ch i j \<subseteq> {r}" using single_rowsD [OF assms(1)] x ij by blast
  have act16: "T (a ! 0) i j \<subseteq> {a ! 3}" if "s = ''ACT16''"
  proof -
    have "\<not> list_ex (\<lambda>(bg, ba). T (a ! 0) bg ba \<noteq> {} \<and> a ! 3 \<notin> T (a ! 0) bg ba) (bank_list d)"
      using that assms(2,3) by (auto simp: preq_name_def Let_def split: if_splits)
    then have "T (a ! 0) i j = {} \<or> a ! 3 \<in> T (a ! 0) i j" using x ij by (auto simp: list_ex_iff)
    moreover obtain r' where "T (a ! 0) i j \<subseteq> {r'}" using single_rowsD [OF assms(1)] x ij by blast
    ultimately show ?thesis by auto
  qed
  have act: "T (a ! 0) (a ! 1) (a ! 2) = {}" if "s = ''ACT''"
    using that assms(2,3) by (auto simp: preq_name_def Let_def split: if_splits)
  have act4: "s \<noteq> ''ACT4''"
    using assms(2,3) by (auto simp: preq_name_def Let_def split: if_splits)
  show "case x of (i, j) \<Rightarrow> \<exists>r. row_step c a T ch i j \<subseteq> {r}"
  proof -
    consider "ch = a ! 0" "s = ''ACT16''" | "ch = a ! 0" "i = a ! 1" "j = a ! 2" "s = ''ACT''"
      | "\<not> (ch = a ! 0 \<and> s = ''ACT16'')" "\<not> (ch = a ! 0 \<and> i = a ! 1 \<and> j = a ! 2 \<and> s = ''ACT'')" by blast
    then have "\<exists>r. row_step c a T ch i j \<subseteq> {r}"
    proof cases
      case 1
      then have "row_step c a T ch i j = insert (a ! 3) (T ch i j)" by (simp add: row_step_def Let_def c)
      then show ?thesis using act16 1 by auto
    next
      case 2
      then have "row_step c a T ch i j = insert (a ! 3) (T ch i j)" by (simp add: row_step_def Let_def c)
      then show ?thesis using act 2 by auto
    next
      case 3
      then have "row_step c a T ch i j \<subseteq> T ch i j" using act4 by (simp add: row_step_def Let_def c)
      then show ?thesis using r by auto
    qed
    then show ?thesis by (simp add: ij)
  qed
qed

lemma serve_run_single:
  "serve_run es d = Ok d' \<Longrightarrow> dram_ok d \<Longrightarrow> rows_rep d T \<Longrightarrow> single_rows d T \<Longrightarrow>
   list_all (final_command_ok d) es \<Longrightarrow>
   \<exists>T'. dram_ok d' \<and> rows_rep d' T' \<and> single_rows d' T'"
proof (induction es d arbitrary: T rule: serve_run.induct)
  case (1 d)
  then show ?case by auto
next
  case (2 es d)
  have "rows_rep (dram_tick d) T" using 2 by (simp add: rows_rep_def dram_tick_def del: walk.simps)
  moreover have "single_rows (dram_tick d) T"
    using 2 by (simp add: single_rows_def dram_tick_def bank_list_def)
  moreover have "final_command_ok (dram_tick d) = final_command_ok d"
    by (rule ext) (simp add: final_command_ok_def dram_tick_def bank_addr_def bank_list_def split: serve_event.split)
  ultimately show ?case using 2 dram_tick_ok by auto
next
  case (3 c a es d)
  have g: "gddr6_spec_ok (dram_spec d)" using 3 by (simp add: dram_ok_def)
  have c: "is_command (dram_spec d) c" "bank_addr d a" "GDDR6_commands ! nat c \<notin> {''ACT'', ''ACT4'', ''ACT16''}"
    using 3(6) by (simp_all add: final_command_ok_def)
  let ?s = "preq_name (bank_list d) T (GDDR6_commands ! nat c) a"
  have p: "dram_get_preq d c a = Ok (ImplDef_index GDDR6_commands ?s)"
    by (rule get_preq_refines_rows [OF 3(3,4) c(1,2)])
  then obtain d1 where d1: "issue_command (ImplDef_index GDDR6_commands ?s) a d = Ok d1" "serve_run es d1 = Ok d'"
    using 3(2) by (auto simp: andThen_Ok_iff)
  note k = issue_command_keeps [OF d1(1) 3(3)]
  have mem: "?s \<in> set GDDR6_commands" by (rule preq_is_command [OF c(1) gddr6_fields(2) [OF g]])
  have "single_rows d (row_step (ImplDef_index GDDR6_commands ?s) a T)"
    by (rule single_rows_step [OF 3(5) c(3) refl ImplDef_index_nth [OF mem]])
  then have "single_rows d1 (row_step (ImplDef_index GDDR6_commands ?s) a T)"
    by (simp add: single_rows_def k(4))
  moreover have "final_command_ok d1 = final_command_ok d"
    by (rule ext) (simp add: final_command_ok_def k split: serve_event.split)
  ultimately show ?case
    using 3(1) [OF p d1 k(3) issue_command_rows [OF d1(1) 3(3,4)]] 3(6) by simp
qed

text \<open>C2: a bank never has two rows open. When every issued command is the one
  \<open>get_preq_command\<close> returned for the final command of a request (no final command activates), every
  bank of every channel is either \<open>Closed\<close> with an empty row map or \<open>Opened\<close> with exactly one row,
  after any history. (The assertion of \<^verbatim>\<open>Lambdas::Action::Bank::ACT\<close> that the bank is closed
  follows.)\<close>

theorem single_open_row:
  assumes "GDDR6_init stray cfg = Ok d0" and "serve_run es d0 = Ok d"
    and "list_all (final_command_ok d0) es"
    and "in_vec (m_channels d) ch" and "walk (m_channels d ! nat ch) [bg, ba] = Some bank"
  shows "m_state (nd bank) = ImplDef_index GDDR6_states ''Closed'' \<and> dom (m_row_state (nd bank)) = {}
    \<or> m_state (nd bank) = ImplDef_index GDDR6_states ''Opened'' \<and> (\<exists>r. dom (m_row_state (nd bank)) = {r})"
proof -
  obtain T where T: "dram_ok d" "rows_rep d T" "single_rows d T"
    using serve_run_single [OF assms(2) GDDR6_init_dram_ok [OF assms(1)] GDDR6_init_rows [OF assms(1)] _ assms(3)]
    by (auto simp: single_rows_def)
  have rep: "bank_rep bank (T ch bg ba)" using T(2) assms(4,5) unfolding rows_rep_def by blast
  have "(bg, ba) \<in> set (bank_list d)" using channel_banks [OF T(1) assms(4)] assms(5) by blast
  then obtain r where "T ch bg ba \<subseteq> {r}" using single_rowsD [OF T(3)] by blast
  then show ?thesis using rep by (auto simp: bank_rep_def)
qed

theorem single_open_row_witness:
  "\<exists>d0 d bank. GDDR6_init 0 AiM_config = Ok d0 \<and> serve_run [Serve 3 [3, 1, 2, 77, 0]] d0 = Ok d
     \<and> walk (m_channels d ! nat 3) [1, 2] = Some bank
     \<and> (m_state (nd bank) = 1 \<and> dom (m_row_state (nd bank)) = {}
        \<or> m_state (nd bank) = 0 \<and> (\<exists>r. dom (m_row_state (nd bank)) = {r}))"
proof -
  let ?a = "[3, 1, 2, 77, 0] :: int list"
  obtain d0 where d0: "GDDR6_init 0 AiM_config = Ok d0" "m_organization (dram_spec d0) = AiM_org"
    "length (m_channels d0) = 32" using AiM_init by blast
  have ok: "dram_ok d0" by (rule GDDR6_init_dram_ok [OF d0(1)])
  note a = AiM_addr [OF d0(2,3)]
  have "dram_get_preq d0 3 ?a = Ok 0"
    using get_preq_refines_rows [OF ok GDDR6_init_rows [OF d0(1)] _ a(2), of 3] AiM_command [OF d0(1), of 3]
    by (simp add: preq_name_def GDDR6_commands_def)
  moreover obtain d1 where d1: "issue_command 0 ?a d0 = Ok d1"
    using preq_issuable [OF ok a(1), of "''ACT''"] by auto
  ultimately have run: "serve_run [Serve 3 ?a] d0 = Ok d1" by simp
  note k = issue_command_keeps [OF d1 ok]
  have ch: "in_vec (m_channels d1) 3" using k(2) d0(3) by (simp add: in_vec_def)
  have "(1, 2) \<in> set (bank_list d1)" by (simp add: bank_list_iff k(1) d0(2) AiM_org_def)
  then obtain bank where b: "walk (m_channels d1 ! nat 3) [1, 2] = Some bank"
    using channel_banks [OF k(3) ch, of 1 2] by blast
  have "list_all (final_command_ok d0) [Serve 3 ?a]"
    using a(2) AiM_command [OF d0(1), of 3] by (simp add: final_command_ok_def GDDR6_commands_def)
  from single_open_row [OF d0(1) run this ch b] show ?thesis using d0(1) run b by auto
qed

subsection \<open>Absence of undefined behaviour\<close>

text \<open>C6: after any history, issuing any command at an address that stays inside the
  organization is defined: no vector is indexed out of range and no shift is too wide. Negative
  bank-group and bank indices (the \<open>-1\<close> of broadcast commands) are inside, except for the
  commands that name one bank or one bank group.\<close>

theorem issue_command_defined:
  assumes "GDDR6_init stray cfg = Ok d0" and "dram_run es d0 = Ok d" and "issuable d c a"
  shows "\<exists>d'. issue_command c a d = Ok d'"
  by (rule issue_command_total [OF history_ok(1) [OF assms(1,2)] assms(3)])

theorem issue_command_defined_witness:
  "\<exists>d d'. GDDR6_init 0 AiM_config = Ok d \<and> issue_command 13 [5, -1, -1, 77, 0] d = Ok d'"
proof -
  obtain d where d: "GDDR6_init 0 AiM_config = Ok d" "m_organization (dram_spec d) = AiM_org"
    "length (m_channels d) = 32" using AiM_init by blast
  have "\<exists>d'. issue_command 13 [5, -1, -1, 77, 0] d = Ok d'"
    by (rule issue_command_defined [OF d(1), of "[]"])
      (simp_all add: issuable_def AiM_command [OF d(1)] d(2,3) AiM_org_def in_vec_def)
  then show ?thesis using d(1) by blast
qed

text \<open>C7: \<open>populate_timingcons\<close> accepts the constraint list for all timing values (every level and
  command name in it exists), and the table it fills holds exactly the listed constraints, each at
  a level the following command reaches.\<close>

theorem populate_GDDR6:
  "\<exists>tcs. populate_timingcons GDDR6_levels GDDR6_commands (GDDR6_timing_constraints V) = Ok tcs
     \<and> tc_all tcs = (\<Union>ts \<in> set (GDDR6_timing_constraints V). ts_items GDDR6_levels GDDR6_commands ts)
     \<and> list_all ts_reaches (GDDR6_timing_constraints V)"
  using populate_timingcons_total [of "GDDR6_timing_constraints V" GDDR6_levels GDDR6_commands]
    populate_timingcons_all GDDR6_constraints_names [of V] GDDR6_constraints_reach [of V]
  by (auto simp: list_all_iff)

subsection \<open>What the tables say\<close>






end
