(* ===== verification/Refresh.thy ===== *)
theory Refresh
  imports GDDR6_Props Small_Device
begin

text \<open>
  \<^verbatim>\<open>src/src/dram_controller/refresh.h\<close> and \<^verbatim>\<open>impl/refresh/all_bank_refresh.cpp\<close>: the refresh
  manager that posts an all-bank refresh to every rank each \<open>nREFI\<close> cycles.

  The manager calls back into its controller (\<open>m_ctrl->priority_send\<close>): the call is the
  parameter \<open>send\<close>, over the controller's state \<open>'c\<close>.
\<close>

record AllBankRefresh =
  ref_clk :: int
  m_dram_org_levels :: int
  m_num_ranks :: int
  m_nrefi :: int
  m_ref_req_id :: int
  m_next_refresh_cycle :: int

definition AllBankRefresh_new :: AllBankRefresh where
  "AllBankRefresh_new =
     \<lparr>ref_clk = 0, m_dram_org_levels = -1, m_num_ranks = -1, m_nrefi = -1, m_ref_req_id = -1,
      m_next_refresh_cycle = -1\<rparr>"

definition AllBankRefresh_setup :: "dram_spec \<Rightarrow> AllBankRefresh \<Rightarrow> AllBankRefresh result" where
  "AllBankRefresh_setup spec rf =
     andThen (get_level_size spec ''rank'') (\<lambda>ranks.
     andThen (SpecLUT_named (m_timings spec) (m_timing_vals spec) ''nREFI'') (\<lambda>nrefi.
     andThen (SpecDef_id (m_requests spec) ''all-bank-refresh'') (\<lambda>req_id.
       Ok (rf\<lparr>m_dram_org_levels := int (length (m_levels spec)), m_num_ranks := ranks,
              m_nrefi := nrefi, m_ref_req_id := req_id, m_next_refresh_cycle := nrefi\<rparr>))))"

definition refresh_request :: "AllBankRefresh \<Rightarrow> int \<Rightarrow> int \<Rightarrow> request result" where
  "refresh_request rf channel_id r =
     andThen (vec_put (replicate (nat (m_dram_org_levels rf)) (-1)) 0 channel_id) (\<lambda>av.
     andThen (vec_put av 1 r) (\<lambda>av. Ok (Request_addr_vec av (m_ref_req_id rf))))"

definition AllBankRefresh_tick ::
  "(request \<Rightarrow> 'c \<Rightarrow> (bool \<times> 'c) result) \<Rightarrow> int \<Rightarrow> AllBankRefresh \<Rightarrow> 'c \<Rightarrow> (AllBankRefresh \<times> 'c) result" where
  "AllBankRefresh_tick send channel_id rf ctrl =
    (let clk = ref_clk rf + 1 in
     if clk = m_next_refresh_cycle rf
     then andThen (fold_result (\<lambda>r ctrl.
              andThen (refresh_request rf channel_id (int r)) (\<lambda>req.
              andThen (send req ctrl) (\<lambda>(is_success, ctrl).
                if is_success then Ok ctrl else Err (Runtime_error ''Failed to send refresh!''))))
            [0..<nat (m_num_ranks rf)] ctrl) (\<lambda>ctrl.
          Ok (rf\<lparr>ref_clk := clk, m_next_refresh_cycle := m_next_refresh_cycle rf + m_nrefi rf\<rparr>, ctrl))
     else Ok (rf\<lparr>ref_clk := clk\<rparr>, ctrl))"

text \<open>
  The contract of \<open>IRefreshManager::tick\<close> towards a controller: whatever it does to the
  controller it does by sending priority requests.
\<close>

locale refresh_manager =
  fixes rtick :: "(request \<Rightarrow> 'c \<Rightarrow> (bool \<times> 'c) result) \<Rightarrow> int \<Rightarrow> 'r \<Rightarrow> 'c \<Rightarrow> ('r \<times> 'c) result"
  assumes tick_sends: "rtick send ch rf c = Ok (rf', c') \<Longrightarrow> I c
    \<Longrightarrow> (\<And>q u v. I u \<Longrightarrow> send q u = Ok (True, v) \<Longrightarrow> I v) \<Longrightarrow> I c'"

interpretation all_bank: refresh_manager AllBankRefresh_tick
proof
  fix send :: "request \<Rightarrow> 'c \<Rightarrow> (bool \<times> 'c) result" and ch rf c rf' c' and I :: "'c \<Rightarrow> bool"
  assume t: "AllBankRefresh_tick send ch rf c = Ok (rf', c')" and I: "I c"
    and step: "\<And>q u v. I u \<Longrightarrow> send q u = Ok (True, v) \<Longrightarrow> I v"
  let ?body = "\<lambda>r ctrl. andThen (refresh_request rf ch (int r)) (\<lambda>req.
              andThen (send req ctrl) (\<lambda>(is_success, ctrl).
                if is_success then Ok ctrl else Err (Runtime_error ''Failed to send refresh!'')))"
  show "I c'"
  proof (cases "ref_clk rf + 1 = m_next_refresh_cycle rf")
    case True
    then have "fold_result ?body [0..<nat (m_num_ranks rf)] c = Ok c'"
      using t by (auto simp: AllBankRefresh_tick_def Let_def andThen_Ok_iff)
    then show ?thesis using I
      by (rule fold_result_invariant) (auto simp: result_simps split: if_splits intro: step)
  next
    case False
    then show ?thesis using t I by (simp add: AllBankRefresh_tick_def)
  qed
qed

text \<open>\<open>n\<close> ticks in a row, and the requests they have posted when none is refused.\<close>

fun refresh_ticks :: "nat \<Rightarrow> int \<Rightarrow> AllBankRefresh \<Rightarrow> request list \<Rightarrow> (AllBankRefresh \<times> request list) result" where
  "refresh_ticks 0 ch rf sent = Ok (rf, sent)"
| "refresh_ticks (Suc n) ch rf sent =
     andThen (AllBankRefresh_tick (\<lambda>q s. Ok (True, s @ [q])) ch rf sent) (\<lambda>(rf, sent).
       refresh_ticks n ch rf sent)"

lemma refresh_requests:
  assumes "2 \<le> m_dram_org_levels rf"
  shows "refresh_request rf ch r =
    Ok (Request_addr_vec (ch # r # replicate (nat (m_dram_org_levels rf) - 2) (-1)) (m_ref_req_id rf))"
proof -
  obtain n where n: "nat (m_dram_org_levels rf) = Suc (Suc n)"
    using assms by (metis One_nat_def Suc_1 add_2_eq_Suc le_Suc_ex nat_le_iff of_nat_numeral nat_mono nat_numeral)
  then show ?thesis by (simp add: refresh_request_def vec_put_def in_vec_def)
qed

definition rank_refreshes :: "AllBankRefresh \<Rightarrow> int \<Rightarrow> request list" where
  "rank_refreshes rf ch =
     map (\<lambda>r. Request_addr_vec (ch # int r # replicate (nat (m_dram_org_levels rf) - 2) (-1)) (m_ref_req_id rf))
       [0..<nat (m_num_ranks rf)]"

lemma fold_sends:
  "fold_result (\<lambda>r s. Ok (s @ [f r])) xs s = Ok (s @ map f xs)"
  by (induction xs arbitrary: s) auto

lemma tick_records:
  assumes "2 \<le> m_dram_org_levels rf"
  shows "AllBankRefresh_tick (\<lambda>q s. Ok (True, s @ [q])) ch rf sent =
    Ok (if ref_clk rf + 1 = m_next_refresh_cycle rf
        then (rf\<lparr>ref_clk := ref_clk rf + 1, m_next_refresh_cycle := m_next_refresh_cycle rf + m_nrefi rf\<rparr>,
              sent @ rank_refreshes rf ch)
        else (rf\<lparr>ref_clk := ref_clk rf + 1\<rparr>, sent))"
  by (simp add: AllBankRefresh_tick_def Let_def refresh_requests [OF assms] fold_sends rank_refreshes_def)

lemma ticks_records:
  assumes "2 \<le> m_dram_org_levels rf" "0 < m_nrefi rf" "m_next_refresh_cycle rf = (ref_clk rf div m_nrefi rf + 1) * m_nrefi rf"
    "0 \<le> ref_clk rf"
  shows "refresh_ticks n ch rf sent =
    Ok (rf\<lparr>ref_clk := ref_clk rf + int n,
           m_next_refresh_cycle := ((ref_clk rf + int n) div m_nrefi rf + 1) * m_nrefi rf\<rparr>,
        sent @ concat (replicate (nat ((ref_clk rf + int n) div m_nrefi rf - ref_clk rf div m_nrefi rf)) (rank_refreshes rf ch)))"
  using assms
proof (induction n arbitrary: rf sent)
  case 0
  then show ?case by simp
next
  case (Suc n)
  let ?N = "m_nrefi rf" and ?k = "ref_clk rf"
  let ?fire = "?k + 1 = m_next_refresh_cycle rf"
  define rf' where "rf' = rf\<lparr>ref_clk := ?k + 1, m_next_refresh_cycle := ((?k + 1) div ?N + 1) * ?N\<rparr>"
  have fire: "(?k + 1) div ?N = ?k div ?N + (if ?fire then 1 else 0)"
  proof -
    have m: "?k = ?k div ?N * ?N + ?k mod ?N" "0 \<le> ?k mod ?N" "?k mod ?N < ?N" using Suc.prems(2) by simp_all
    show ?thesis
    proof (cases ?fire)
      case True
      then show ?thesis using Suc.prems(2,3) by simp
    next
      case False
      moreover have "m_next_refresh_cycle rf = ?k div ?N * ?N + ?N"
        using Suc.prems(3) by (simp add: distrib_right)
      ultimately have "?k mod ?N + 1 < ?N" using m by linarith
      then have "(?k + 1) div ?N = ?k div ?N" using m Suc.prems(2)
        by (intro int_div_pos_eq [of _ _ _ "?k mod ?N + 1"]) (auto simp: mult.commute)
      then show ?thesis using False by simp
    qed
  qed
  have tick: "AllBankRefresh_tick (\<lambda>q s. Ok (True, s @ [q])) ch rf sent
     = Ok (rf', sent @ (if ?fire then rank_refreshes rf ch else []))"
    using fire Suc.prems(3) by (auto simp: tick_records [OF Suc.prems(1)] rf'_def algebra_simps)
  have mono: "(?k + 1) div ?N \<le> (?k + 1 + int n) div ?N" using Suc.prems(2) by (intro zdiv_mono1) auto
  have "nat ((?k + 1 + int n) div ?N - ?k div ?N)
      = (if ?fire then 1 else 0) + nat ((?k + 1 + int n) div ?N - (?k + 1) div ?N)"
    using mono fire by auto
  moreover have "rank_refreshes rf' ch = rank_refreshes rf ch" by (simp add: rf'_def rank_refreshes_def)
  ultimately show ?case
    using Suc.IH [of rf' "sent @ (if ?fire then rank_refreshes rf ch else [])"] Suc.prems
    by (auto simp: tick rf'_def algebra_simps)
qed

subsection \<open>Properties\<close>

text \<open>C20: on a device whose organization has ranks, \<open>AllBankRefresh\<close> posts, over
  any number \<open>n\<close> of cycles after \<open>setup\<close>, exactly one all-bank refresh per rank for each of the
  \<open>n div nREFI\<close> refresh intervals that have passed, rank after rank, addressed to the rank as a
  whole (every level below it is \<open>-1\<close>).\<close>

theorem refresh_every_nREFI:
  assumes "AllBankRefresh_setup spec AllBankRefresh_new = Ok rf"
    and "2 \<le> length (m_levels spec)" and "0 < m_nrefi rf"
  shows "\<exists>rf'. refresh_ticks n ch rf []
    = Ok (rf', concat (replicate (nat (int n div m_nrefi rf))
        (map (\<lambda>r. Request_addr_vec (ch # int r # replicate (length (m_levels spec) - 2) (-1)) (m_ref_req_id rf))
          [0..<nat (m_num_ranks rf)])))"
proof -
  have "m_dram_org_levels rf = int (length (m_levels spec))" "ref_clk rf = 0" "m_next_refresh_cycle rf = m_nrefi rf"
    using assms(1) by (auto simp: AllBankRefresh_setup_def AllBankRefresh_new_def andThen_Ok_iff)
  then show ?thesis using ticks_records [of rf n ch "[]"] assms(2,3)
    by (simp add: rank_refreshes_def)
qed

definition ranked_spec :: dram_spec where
  "ranked_spec = small_spec\<lparr>m_levels := [''channel'', ''rank'', ''bank'', ''row'', ''column''],
     m_organization := \<lparr>density = 1, dq = 16, org_count = [1, 2, 2, 8, 4]\<rparr>\<rparr>"

theorem refresh_every_nREFI_witness:
  "\<exists>rf'. refresh_ticks 16000 5 \<lparr>ref_clk = 0, m_dram_org_levels = 5, m_num_ranks = 2, m_nrefi = 15600,
       m_ref_req_id = 2, m_next_refresh_cycle = 15600\<rparr> []
    = Ok (rf', [Request_addr_vec [5, 0, -1, -1, -1] 2, Request_addr_vec [5, 1, -1, -1, -1] 2])"
proof -
  let ?rf = "\<lparr>ref_clk = 0, m_dram_org_levels = 5, m_num_ranks = 2, m_nrefi = 15600,
       m_ref_req_id = 2, m_next_refresh_cycle = 15600\<rparr>"
  have "AllBankRefresh_setup ranked_spec AllBankRefresh_new = Ok ?rf" by code_simp
  from refresh_every_nREFI [OF this, of 16000 5] show ?thesis
    by (simp add: ranked_spec_def numeral_2_eq_2 eval_nat_numeral)
qed

lemma gddr6_rank: "dram_ok d \<Longrightarrow> get_level_size (dram_spec d) ''rank'' = Ok (-1)"
proof -
  assume "dram_ok d"
  then have "m_levels (dram_spec d) = GDDR6_levels" by (simp add: dram_ok_def gddr6_fields)
  then show ?thesis by (simp add: get_level_size_def SpecDef_id_def GDDR6_levels_def)
qed

lemma gddr6_timings: "dram_ok d \<Longrightarrow> m_timings (dram_spec d) = GDDR6_timings"
  by (auto simp: dram_ok_def gddr6_spec_ok_def GDDR6_spec_def)

text \<open>C21: on the GDDR6 device, which has no rank level,
  \<open>get_level_size("rank")\<close> is \<open>-1\<close>, and \<open>AllBankRefresh\<close> never posts a refresh, whatever the
  timing preset and however long the simulation.\<close>

theorem gddr6_never_refreshes:
  assumes "GDDR6_init stray cfg = Ok d"
    and "AllBankRefresh_setup (dram_spec d) AllBankRefresh_new = Ok rf" and "0 < m_nrefi rf"
  shows "\<exists>rf'. refresh_ticks n ch rf [] = Ok (rf', [])"
proof -
  have ok: "dram_ok d" by (rule GDDR6_init_dram_ok [OF assms(1)])
  have "m_num_ranks rf = -1" "m_dram_org_levels rf = 5" "ref_clk rf = 0" "m_next_refresh_cycle rf = m_nrefi rf"
    using assms(2) ok gddr6_rank [OF ok]
    by (auto simp: AllBankRefresh_setup_def AllBankRefresh_new_def andThen_Ok_iff dram_ok_def gddr6_fields
        GDDR6_levels_def)
  then show ?thesis using ticks_records [of rf n ch "[]"] assms(3)
    by (simp add: rank_refreshes_def)
qed

theorem gddr6_never_refreshes_witness:
  "\<exists>d rf rf'. GDDR6_init 0 AiM_config = Ok d
     \<and> AllBankRefresh_setup (dram_spec d) AllBankRefresh_new = Ok rf \<and> m_nrefi rf = 15600
     \<and> refresh_ticks 100000 0 rf [] = Ok (rf', [])"
proof -
  obtain d where d: "GDDR6_init 0 AiM_config = Ok d" "m_timing_vals (dram_spec d) = AiM_vals"
    using AiM_init by blast
  have ok: "dram_ok d" by (rule GDDR6_init_dram_ok [OF d(1)])
  have names: "SpecLUT_named GDDR6_timings AiM_vals ''nREFI'' = Ok 15600"
    "SpecDef_id GDDR6_requests ''all-bank-refresh'' = Ok 2" by code_simp+
  have "\<exists>rf. AllBankRefresh_setup (dram_spec d) AllBankRefresh_new = Ok rf \<and> m_nrefi rf = 15600"
    using ok names d(2) gddr6_rank [OF ok] gddr6_timings [OF ok]
    by (simp add: AllBankRefresh_setup_def AllBankRefresh_new_def dram_ok_def gddr6_fields)
  then obtain rf where rf: "AllBankRefresh_setup (dram_spec d) AllBankRefresh_new = Ok rf" "m_nrefi rf = 15600"
    by blast
  then show ?thesis using gddr6_never_refreshes [OF d(1) rf(1), of 100000 0] d(1) by auto
qed

end
