(* ===== verification/Plugin.thy ===== *)
theory Plugin
  imports Small_Device Request
begin

text \<open>
  \<^verbatim>\<open>src/src/dram_controller/plugin.h\<close>: the hook a controller calls each cycle, as a locale, and
  the plugin \<open>CommandCounter\<close> of \<^verbatim>\<open>impl/plugin/cmd_counter.cpp\<close> (the file it writes at the end
  of a run is not modelled). The iterator a controller passes when it found no request is
  indeterminate: here it is \<open>None\<close>.
\<close>

locale controller_plugin =
  fixes upd :: "bool \<Rightarrow> request option \<Rightarrow> 'p \<Rightarrow> 'p result"
  assumes idle: "upd False r p = Ok p"
    and defined_on_request: "is_ok (upd True (Some q) p)"
begin

lemma all_idle: "map_result (upd False r) ps = Ok ps"
  by (induction ps) (simp_all add: idle)

lemma all_defined: "\<exists>ps'. map_result (upd True (Some r)) ps = Ok ps' \<and> length ps' = length ps"
  using map_result_total [of ps "upd True (Some r)"] defined_on_request
  by (auto simp: is_ok_iff dest: map_result_length)

end

subsection \<open>The command counter\<close>

record CommandCounter =
  m_commands_to_count :: "string list"
  m_command_counters :: "int \<rightharpoonup> int"

definition CommandCounter_setup :: "dram_spec \<Rightarrow> CommandCounter \<Rightarrow> CommandCounter result" where
  "CommandCounter_setup spec p =
     fold_result (\<lambda>command_name p.
         if \<not> SpecDef_contains (m_commands spec) command_name
         then Err (Configuration_error ''Command does not exist in the DRAM standard'')
         else andThen (SpecDef_id (m_commands spec) command_name) (\<lambda>c.
              Ok (p\<lparr>m_command_counters := (m_command_counters p)(c \<mapsto> 0)\<rparr>)))
       (m_commands_to_count p) p"

text \<open>\<open>m_command_counters[c]++\<close>: a counter that is not there starts from 0.\<close>

definition counter_of :: "(int \<rightharpoonup> int) \<Rightarrow> int \<Rightarrow> int" where
  "counter_of m c = (case m c of Some n \<Rightarrow> n | None \<Rightarrow> 0)"

definition CommandCounter_update :: "bool \<Rightarrow> request option \<Rightarrow> CommandCounter \<Rightarrow> CommandCounter result" where
  "CommandCounter_update request_found req_it p =
     (if request_found
      then (case req_it of
              None \<Rightarrow> Err (Undefined ''indeterminate iterator'')
            | Some r \<Rightarrow> Ok (p\<lparr>m_command_counters := (m_command_counters p)
                  (command r \<mapsto> counter_of (m_command_counters p) (command r) + 1)\<rparr>))
      else Ok p)"

interpretation command_counter: controller_plugin CommandCounter_update
  by unfold_locales (simp_all add: CommandCounter_update_def)

lemma setup_counters:
  assumes "CommandCounter_setup spec p = Ok p'"
  shows "counter_of (m_command_counters p') c =
    (if \<exists>s \<in> set (m_commands_to_count p). SpecDef_id (m_commands spec) s = Ok c then 0
     else counter_of (m_command_counters p) c)"
proof -
  have loop: "counter_of (m_command_counters q') c =
      (if \<exists>s \<in> set names. SpecDef_id (m_commands spec) s = Ok c then 0 else counter_of (m_command_counters q) c)"
    if "fold_result (\<lambda>command_name p.
         if \<not> SpecDef_contains (m_commands spec) command_name
         then Err (Configuration_error ''Command does not exist in the DRAM standard'')
         else andThen (SpecDef_id (m_commands spec) command_name) (\<lambda>c.
              Ok (p\<lparr>m_command_counters := (m_command_counters p)(c \<mapsto> 0)\<rparr>))) names q = Ok q'"
    for names q q'
    using that
  proof (induction names arbitrary: q)
    case Nil
    then show ?case by simp
  next
    case (Cons s names)
    then obtain i where i: "SpecDef_id (m_commands spec) s = Ok i"
      by (auto simp: andThen_Ok_iff split: if_splits)
    then have "counter_of (m_command_counters q') c =
        (if \<exists>s \<in> set names. SpecDef_id (m_commands spec) s = Ok c then 0
         else counter_of ((m_command_counters q)(i \<mapsto> 0)) c)"
      using Cons by (fastforce simp: andThen_Ok_iff split: if_splits)
    then show ?case using i by (auto simp: counter_of_def)
  qed
  show ?thesis by (rule loop) (use assms in \<open>simp only: CommandCounter_setup_def\<close>)
qed

text \<open>A sequence of calls of the hook.\<close>

fun plugin_calls :: "(bool \<times> request option) list \<Rightarrow> CommandCounter \<Rightarrow> CommandCounter result" where
  "plugin_calls [] p = Ok p"
| "plugin_calls ((found, r) # cs) p = andThen (CommandCounter_update found r p) (plugin_calls cs)"

lemma plugin_calls_count:
  "plugin_calls cs p = Ok p' \<Longrightarrow> counter_of (m_command_counters p') c =
     counter_of (m_command_counters p) c
     + int (length (filter (\<lambda>(found, r). found \<and> map_option command r = Some c) cs))"
proof (induction cs p rule: plugin_calls.induct)
  case (1 p)
  then show ?case by simp
next
  case (2 found r cs p)
  then obtain q where q: "CommandCounter_update found r p = Ok q" "plugin_calls cs q = Ok p'"
    by (auto simp: andThen_Ok_iff)
  have "counter_of (m_command_counters q) c = counter_of (m_command_counters p) c
      + (if found \<and> map_option command r = Some c then 1 else 0)"
    using q(1) by (auto simp: CommandCounter_update_def counter_of_def split: if_splits option.splits)
  with 2(1) [OF q] show ?case by auto
qed

text \<open>C22: after \<open>setup\<close> and any sequence of calls of the hook, the counter of
  a command is the number of calls that reported a request being served with that command.\<close>

theorem command_counter_counts:
  assumes "CommandCounter_setup spec \<lparr>m_commands_to_count = names, m_command_counters = Map.empty\<rparr> = Ok p"
    and "plugin_calls cs p = Ok p'"
  shows "counter_of (m_command_counters p') c
    = int (length (filter (\<lambda>(found, r). found \<and> map_option command r = Some c) cs))"
  using setup_counters [OF assms(1), of c] plugin_calls_count [OF assms(2), of c]
  by (simp add: counter_of_def split: if_splits)

theorem command_counter_counts_witness:
  "\<exists>p p'. CommandCounter_setup small_spec \<lparr>m_commands_to_count = [''ACT'', ''RD''], m_command_counters = Map.empty\<rparr> = Ok p
    \<and> plugin_calls [(True, Some (request_default\<lparr>command := 0\<rparr>)), (False, None),
         (True, Some (request_default\<lparr>command := 3\<rparr>)), (True, Some (request_default\<lparr>command := 0\<rparr>))] p = Ok p'
    \<and> counter_of (m_command_counters p') 0 = 2"
proof -
  let ?cs = "[(True, Some (request_default\<lparr>command := 0\<rparr>)), (False, None),
    (True, Some (request_default\<lparr>command := 3\<rparr>)), (True, Some (request_default\<lparr>command := 0\<rparr>))]"
  have "is_ok (andThen (CommandCounter_setup small_spec
      \<lparr>m_commands_to_count = [''ACT'', ''RD''], m_command_counters = Map.empty\<rparr>) (plugin_calls ?cs))"
    by code_simp
  then obtain p p' where p: "CommandCounter_setup small_spec
      \<lparr>m_commands_to_count = [''ACT'', ''RD''], m_command_counters = Map.empty\<rparr> = Ok p"
    and p': "plugin_calls ?cs p = Ok p'"
    by (auto simp: is_ok_iff andThen_Ok_iff)
  from command_counter_counts [OF p p', of 0] have "counter_of (m_command_counters p') 0 = 2" by simp
  with p p' show ?thesis by blast
qed

end
