(* ===== verification/AiM_Controller.thy ===== *)
theory AiM_Controller
  imports Complex_Main Scheduler Refresh Plugin
begin

text \<open>
  \<^verbatim>\<open>src/src/dram_controller/impl/AiM_dram_controller.cpp\<close>: the memory controller of one
  channel. The record holds the members of \<open>AiMDRAMController\<close> and those of \<open>IDRAMController\<close>;
  the device it shares with the other controllers is an argument of the operations. The
  scheduler is the parameter \<open>best\<close> (\<open>IScheduler::get_best_request\<close>).

  A request's callback runs in the middle of \<open>tick\<close>; it acts on objects outside the controller,
  whose state is threaded as \<open>'s\<close> and which the parameter \<open>cb\<close> steps.

  \<open>wr_low_watermark\<close> and \<open>wr_high_watermark\<close> are \<open>float\<close>s, here the rational numbers they
  denote; the default write buffer has 32 entries and the products with 32 are exact. The
  cycle counters are unbounded integers.
\<close>

subsection \<open>State\<close>

datatype buffer_id = Active_buffer | Priority_buffer | Read_buffer | Write_buffer | AiM_buffer

record AiMController =
  m_channel_id :: int
  ctrl_clk :: int
  ctrl_clock_ratio :: int
  pending_reads :: "request list"
  pending_writes :: "request list"
  m_active_buffer :: ReqBuffer
  m_priority_buffer :: ReqBuffer
  m_read_buffer :: ReqBuffer
  m_write_buffer :: ReqBuffer
  m_aim_buffer :: ReqBuffer
  m_row_addr_idx :: int
  m_wr_low_watermark :: rat
  m_wr_high_watermark :: rat
  m_is_write_mode :: bool
  m_refresh :: AllBankRefresh
  m_plugins :: "CommandCounter list"
  s_num_RW_cycles :: "Type \<rightharpoonup> int"
  s_num_AiM_cycles :: "Opcode \<rightharpoonup> int"
  s_num_commands :: "int \<rightharpoonup> int"
  s_num_idle_cycles :: int
  s_num_active_cycles :: int
  s_num_precharged_cycles :: int
  is_reg_RW_mode :: bool

fun get_buf :: "buffer_id \<Rightarrow> AiMController \<Rightarrow> ReqBuffer" where
  "get_buf Active_buffer c = m_active_buffer c"
| "get_buf Priority_buffer c = m_priority_buffer c"
| "get_buf Read_buffer c = m_read_buffer c"
| "get_buf Write_buffer c = m_write_buffer c"
| "get_buf AiM_buffer c = m_aim_buffer c"

fun put_buf :: "buffer_id \<Rightarrow> ReqBuffer \<Rightarrow> AiMController \<Rightarrow> AiMController" where
  "put_buf Active_buffer b c = c\<lparr>m_active_buffer := b\<rparr>"
| "put_buf Priority_buffer b c = c\<lparr>m_priority_buffer := b\<rparr>"
| "put_buf Read_buffer b c = c\<lparr>m_read_buffer := b\<rparr>"
| "put_buf Write_buffer b c = c\<lparr>m_write_buffer := b\<rparr>"
| "put_buf AiM_buffer b c = c\<lparr>m_aim_buffer := b\<rparr>"

text \<open>The parameters of the configuration file; a plugin is given by its
  \<open>commands_to_count\<close>.\<close>

record controller_config =
  cfg_wr_low_watermark :: "rat option"
  cfg_wr_high_watermark :: "rat option"
  cfg_clock_ratio :: "int option"
  cfg_plugins :: "string list list"

text \<open>\<open>0.2f\<close> and \<open>0.8f\<close>\<close>

definition default_low_watermark :: rat where
  "default_low_watermark = 13421773 / 67108864"

definition default_high_watermark :: rat where
  "default_high_watermark = 13421773 / 16777216"

definition AiMController_init :: "controller_config \<Rightarrow> int \<Rightarrow> AiMController result" where
  "AiMController_init cfg channel_id =
     (case cfg_clock_ratio cfg of
        None \<Rightarrow> Err (Configuration_error ''Param is required but not given'')
      | Some ratio \<Rightarrow> Ok
          \<lparr>m_channel_id = channel_id, ctrl_clk = 0, ctrl_clock_ratio = ratio,
           pending_reads = [], pending_writes = [],
           m_active_buffer = ReqBuffer_new, m_priority_buffer = ReqBuffer_new,
           m_read_buffer = ReqBuffer_new, m_write_buffer = ReqBuffer_new,
           m_aim_buffer = ReqBuffer_new, m_row_addr_idx = -1,
           m_wr_low_watermark = opt_or (cfg_wr_low_watermark cfg) default_low_watermark,
           m_wr_high_watermark = opt_or (cfg_wr_high_watermark cfg) default_high_watermark,
           m_is_write_mode = False, m_refresh = AllBankRefresh_new,
           m_plugins = map (\<lambda>names. \<lparr>m_commands_to_count = names, m_command_counters = Map.empty\<rparr>)
             (cfg_plugins cfg),
           s_num_RW_cycles = Map.empty, s_num_AiM_cycles = Map.empty, s_num_commands = Map.empty,
           s_num_idle_cycles = 0, s_num_active_cycles = 0, s_num_precharged_cycles = 0,
           is_reg_RW_mode = False\<rparr>)"

text \<open>The opcodes from \<open>MIN + 1\<close> up to \<open>MAX\<close>.\<close>

definition isr_opcodes :: "Opcode list" where
  "isr_opcodes =
     [ISR_WR_SBK, ISR_WR_GB, ISR_WR_BIAS, ISR_WR_AFLUT, ISR_RD_MAC, ISR_RD_AF, ISR_RD_SBK,
      ISR_COPY_BKGB, ISR_COPY_GBBK, ISR_MAC_SBK, ISR_MAC_ABK, ISR_AF, ISR_EWMUL, ISR_EWADD,
      ISR_WR_ABK, ISR_EOC, ISR_SYNC]"

text \<open>\<open>setup\<close>: the counters are registered under names the tables of \<open>AiMISRInfo\<close> must know.\<close>

definition AiMController_setup :: "AiMISRInfo \<Rightarrow> dram_spec \<Rightarrow> AiMController \<Rightarrow> AiMController result" where
  "AiMController_setup info spec c =
     andThen (SpecDef_id (m_levels spec) ''row'') (\<lambda>row.
     andThen (map_result (convert_type_to_str info) [Read, Write]) (\<lambda>_.
     andThen (map_result (convert_AiM_opcode_to_str info) isr_opcodes) (\<lambda>_.
       Ok (c\<lparr>m_row_addr_idx := row,
             m_priority_buffer := (m_priority_buffer c)\<lparr>max_size := 512 * 3 + 32\<rparr>,
             s_num_RW_cycles := (s_num_RW_cycles c)(Read \<mapsto> 0, Write \<mapsto> 0),
             s_num_AiM_cycles := fold (\<lambda>op m. m(op \<mapsto> 0)) isr_opcodes (s_num_AiM_cycles c),
             s_num_commands := fold (\<lambda>i m. m(int i \<mapsto> 0)) [0..<length (m_commands spec)] (s_num_commands c)\<rparr>))))"

text \<open>\<open>connect_frontend\<close> sets up every component, a controller before its refresh manager and
  its plugins.\<close>

definition AiMController_connect :: "AiMISRInfo \<Rightarrow> dram_spec \<Rightarrow> AiMController \<Rightarrow> AiMController result" where
  "AiMController_connect info spec c =
     andThen (AiMController_setup info spec c) (\<lambda>c.
     andThen (AllBankRefresh_setup spec (m_refresh c)) (\<lambda>rf.
     andThen (map_result (CommandCounter_setup spec) (m_plugins c)) (\<lambda>ps.
       Ok (c\<lparr>m_refresh := rf, m_plugins := ps\<rparr>))))"

text \<open>\<open>compare_addr_vec\<close> (not called by the program).\<close>

fun compare_levels :: "request \<Rightarrow> request \<Rightarrow> int list \<Rightarrow> bool result" where
  "compare_levels req1 req2 [] = Ok True"
| "compare_levels req1 req2 (l # ls) =
     andThen (vec_at (addr_vec req1) l) (\<lambda>a1.
       if a1 = -1 then Ok True
       else andThen (vec_at (addr_vec req2) l) (\<lambda>a2.
         if a2 = -1 then Ok True
         else if a1 \<noteq> a2 then Ok False
         else compare_levels req1 req2 ls))"

definition compare_addr_vec :: "dram_spec \<Rightarrow> request \<Rightarrow> request \<Rightarrow> int \<Rightarrow> bool result" where
  "compare_addr_vec spec req1 req2 min_compared_level =
     andThen (SpecDef_id (m_levels spec) ''channel'') (\<lambda>l0.
       compare_levels req1 req2 [l0..min_compared_level])"

subsection \<open>Accepting requests\<close>

definition request_final_command :: "dram_spec \<Rightarrow> request \<Rightarrow> int result" where
  "request_final_command spec r =
     (if req_type r = AIM
      then SpecLUT_id (m_aim_requests spec) (m_aim_request_translations spec) (opcode_num (opcode r))
      else SpecLUT_id (m_requests spec) (m_request_translations spec) (id_of_type (req_type r)))"

definition enqueue_to :: "buffer_id \<Rightarrow> request \<Rightarrow> AiMController \<Rightarrow> bool \<times> request \<times> AiMController" where
  "enqueue_to bid r c =
     (let (is_success, b) = enqueue r (get_buf bid c) in
      (is_success, if is_success then r else r\<lparr>arrive := -1\<rparr>, put_buf bid b c))"

text \<open>\<open>send(Request &req)\<close> returns the flag, the request as it has written it, and the new state.\<close>

definition AiM_send :: "dram_spec \<Rightarrow> request \<Rightarrow> AiMController \<Rightarrow> (bool \<times> request \<times> AiMController) result" where
  "AiM_send spec r c =
     (if req_type r = AIM \<and> (buf_size (m_write_buffer c) \<noteq> 0 \<or> buf_size (m_read_buffer c) \<noteq> 0)
      then Ok (False, r, c)
      else if req_type r \<noteq> AIM \<and> buf_size (m_aim_buffer c) \<noteq> 0 then Ok (False, r, c)
      else andThen (request_final_command spec r) (\<lambda>f.
        (let r = r\<lparr>final_command := f\<rparr> in
         if req_type r = Read \<and> list_ex (\<lambda>wreq. addr wreq = addr r) (buffer (m_write_buffer c))
         then (let r = r\<lparr>depart := ctrl_clk c + 1\<rparr> in
               Ok (True, r, c\<lparr>pending_reads := pending_reads c @ [r]\<rparr>))
         else (let r = r\<lparr>arrive := ctrl_clk c\<rparr> in
               case req_type r of
                 Read \<Rightarrow> Ok (enqueue_to Read_buffer r c)
               | Write \<Rightarrow> Ok (enqueue_to Write_buffer r c)
               | AIM \<Rightarrow> Ok (enqueue_to AiM_buffer r c)
               | _ \<Rightarrow> Err (Runtime_error ''Invalid request type!'')))))"

definition priority_send :: "dram_spec \<Rightarrow> request \<Rightarrow> AiMController \<Rightarrow> (bool \<times> AiMController) result" where
  "priority_send spec r c =
     andThen (request_final_command spec r) (\<lambda>f.
       (let (is_success, b) = enqueue (r\<lparr>final_command := f\<rparr>) (m_priority_buffer c) in
        Ok (is_success, c\<lparr>m_priority_buffer := b\<rparr>)))"

subsection \<open>Completion\<close>

definition is_barrier :: "request \<Rightarrow> bool" where
  "is_barrier r \<longleftrightarrow> opcode r = ISR_EOC \<or> opcode r = ISR_SYNC"

definition run_callback :: "(request \<Rightarrow> 's \<Rightarrow> 's result) \<Rightarrow> request \<Rightarrow> 's \<Rightarrow> 's result" where
  "run_callback cb r s = (if req_callback r = No_callback then Ok s else cb r s)"

definition serve_completed_reqs ::
  "(request \<Rightarrow> 's \<Rightarrow> 's result) \<Rightarrow> AiMController \<Rightarrow> 's \<Rightarrow> (AiMController \<times> 's) result" where
  "serve_completed_reqs cb c s =
     andThen (case pending_reads c of
         [] \<Rightarrow> Ok (c, s)
       | r # rest \<Rightarrow>
           if depart r \<le> ctrl_clk c \<and> (\<not> is_barrier r \<or> pending_writes c = [])
           then andThen (run_callback cb r s) (\<lambda>s. Ok (c\<lparr>pending_reads := rest\<rparr>, s))
           else Ok (c, s)) (\<lambda>(c, s).
       Ok (c\<lparr>pending_writes := filter (\<lambda>w. \<not> depart w \<le> ctrl_clk c) (pending_writes c)\<rparr>, s))"

subsection \<open>Scheduling\<close>

definition set_write_mode :: "AiMController \<Rightarrow> AiMController" where
  "set_write_mode c =
     (let w = m_write_buffer c in
      if \<not> m_is_write_mode c
      then (if of_nat (buf_size w) > m_wr_high_watermark c * of_nat (max_size w)
               \<or> buf_size (m_read_buffer c) = 0
            then c\<lparr>m_is_write_mode := True\<rparr> else c)
      else (if of_nat (buf_size w) < m_wr_low_watermark c * of_nat (max_size w)
               \<and> buf_size (m_read_buffer c) \<noteq> 0
            then c\<lparr>m_is_write_mode := False\<rparr> else c))"

text \<open>The outcome of \<open>schedule_request\<close>: the buffer and the position of the request found.\<close>

type_synonym selection = "(buffer_id \<times> nat) option"

text \<open>Scheduling from a buffer through the scheduler (the active, the read and the write
  buffer), and from the head of a buffer (the priority and the AiM buffer).\<close>

definition pick_best ::
  "(dram \<Rightarrow> ReqBuffer \<Rightarrow> (nat option \<times> ReqBuffer) result) \<Rightarrow> dram \<Rightarrow> buffer_id \<Rightarrow> AiMController
    \<Rightarrow> (selection \<times> AiMController) result" where
  "pick_best best d bid c =
     andThen (best d (get_buf bid c)) (\<lambda>(it, b).
       case it of
         None \<Rightarrow> Ok (None, put_buf bid b c)
       | Some i \<Rightarrow> andThen (request_ready d (buffer b ! i)) (\<lambda>request_found.
           Ok (if request_found then Some (bid, i) else None, put_buf bid b c)))"

definition pick_head :: "dram \<Rightarrow> buffer_id \<Rightarrow> AiMController \<Rightarrow> (selection \<times> AiMController) result" where
  "pick_head d bid c =
     andThen (set_preq_command d (buffer (get_buf bid c) ! 0)) (\<lambda>r.
     andThen (request_ready d r) (\<lambda>request_found.
       Ok (if request_found then Some (bid, 0) else None, put_buf bid (buf_put 0 r (get_buf bid c)) c)))"

text \<open>Step 2.3: a command that closes rows is not issued to the row group (the address down to
  the level above the rows) of a request in the active buffer.\<close>

definition row_group :: "AiMController \<Rightarrow> request \<Rightarrow> int list result" where
  "row_group c r =
     (if nat (m_row_addr_idx c) \<le> length (addr_vec r) then Ok (take (nat (m_row_addr_idx c)) (addr_vec r))
      else Err (Undefined ''vector range''))"

definition interrupts_active :: "dram \<Rightarrow> AiMController \<Rightarrow> request \<Rightarrow> bool result" where
  "interrupts_active d c r =
     andThen (SpecLUT_id (m_commands (dram_spec d)) (m_command_meta (dram_spec d)) (command r)) (\<lambda>meta.
       if is_closing meta
       then andThen (row_group c r) (\<lambda>rowgroup.
            andThen (map_result (row_group c) (buffer (m_active_buffer c))) (\<lambda>groups.
              Ok (rowgroup \<in> set groups)))
       else Ok False)"

definition protect_active :: "dram \<Rightarrow> selection \<times> AiMController \<Rightarrow> (selection \<times> AiMController) result" where
  "protect_active d = (\<lambda>(sel, c).
     case sel of
       None \<Rightarrow> Ok (None, c)
     | Some (bid, i) \<Rightarrow>
         andThen (interrupts_active d c (buffer (get_buf bid c) ! i)) (\<lambda>interrupt.
           Ok (if interrupt then None else sel, c)))"

definition schedule_queues ::
  "(dram \<Rightarrow> ReqBuffer \<Rightarrow> (nat option \<times> ReqBuffer) result) \<Rightarrow> dram \<Rightarrow> AiMController
    \<Rightarrow> (selection \<times> AiMController) result" where
  "schedule_queues best d c =
     (if buf_size (m_aim_buffer c) \<noteq> 0
      then if is_barrier (buffer (m_aim_buffer c) ! 0) then Ok (Some (AiM_buffer, 0), c)
           else andThen (pick_head d AiM_buffer c) (protect_active d)
      else (let c = set_write_mode c in
            andThen (pick_best best d (if m_is_write_mode c then Write_buffer else Read_buffer) c)
              (protect_active d)))"

definition schedule_request ::
  "(dram \<Rightarrow> ReqBuffer \<Rightarrow> (nat option \<times> ReqBuffer) result) \<Rightarrow> dram \<Rightarrow> AiMController
    \<Rightarrow> (selection \<times> AiMController) result" where
  "schedule_request best d c =
     andThen (pick_best best d Active_buffer c) (\<lambda>(sel, c).
       if sel \<noteq> None then protect_active d (sel, c)
       else if buf_size (m_priority_buffer c) \<noteq> 0
       then andThen (pick_head d Priority_buffer c) (protect_active d)
       else schedule_queues best d c)"

subsection \<open>Serving\<close>

definition increment :: "('k \<rightharpoonup> int) \<Rightarrow> 'k \<Rightarrow> int \<Rightarrow> ('k \<rightharpoonup> int)" where
  "increment m k x = m(k \<mapsto> (case m k of Some n \<Rightarrow> n | None \<Rightarrow> 0) + x)"

definition remove_from :: "buffer_id \<Rightarrow> nat \<Rightarrow> AiMController \<Rightarrow> AiMController" where
  "remove_from bid i c = put_buf bid (remove_req i (get_buf bid c)) c"

text \<open>\<open>EOC\<close> and \<open>SYNC\<close> issue no command: they wait in \<open>pending_reads\<close> for their callback.\<close>

definition serve_barrier :: "buffer_id \<Rightarrow> nat \<Rightarrow> AiMController \<Rightarrow> AiMController result" where
  "serve_barrier bid i c =
     (let r = buffer (get_buf bid c) ! i in
      andThen (map_result (CommandCounter_update False (Some r)) (m_plugins c)) (\<lambda>plugins.
        Ok (remove_from bid i (c\<lparr>m_plugins := plugins,
              pending_reads := pending_reads c @ [r\<lparr>depart := ctrl_clk c\<rparr>]\<rparr>))))"

definition requires_reg_RW_mode :: "AiMISRInfo \<Rightarrow> request \<Rightarrow> bool result" where
  "requires_reg_RW_mode info r =
     (if req_type r = AIM then opcode_requires_reg_RW_mod info (opcode r) else Ok False)"

text \<open>The mode switch: \<open>TMOD\<close> takes the place of the command that was found ready.\<close>

definition switch_mode :: "AiMISRInfo \<Rightarrow> dram_spec \<Rightarrow> request \<Rightarrow> bool \<Rightarrow> (request \<times> bool) result" where
  "switch_mode info spec r mode =
     andThen (requires_reg_RW_mode info r) (\<lambda>req_mode.
       if req_mode \<noteq> mode
       then andThen (SpecDef_id (m_commands spec) ''TMOD'') (\<lambda>tmod. Ok (r\<lparr>command := tmod\<rparr>, \<not> mode))
       else Ok (r, mode))"

text \<open>After the last command of a request.\<close>

definition complete_request ::
  "AiMISRInfo \<Rightarrow> dram_spec \<Rightarrow> buffer_id \<Rightarrow> nat \<Rightarrow> request \<Rightarrow> AiMController \<Rightarrow> AiMController result" where
  "complete_request info spec bid i r c =
     andThen (SpecLUT_id (m_commands spec) (m_command_latencies spec) (command r)) (\<lambda>latency.
       (let r = r\<lparr>depart := ctrl_clk c + latency\<rparr> in
        andThen (is_reader info r) (\<lambda>reader.
          (let c = (if reader then c\<lparr>pending_reads := pending_reads c @ [r]\<rparr>
                    else c\<lparr>pending_writes := pending_writes c @ [r]\<rparr>);
               c = (if req_type r = AIM
                    then c\<lparr>s_num_AiM_cycles := increment (s_num_AiM_cycles c) (opcode r) (ctrl_clk c - issue r)\<rparr>
                    else c\<lparr>s_num_RW_cycles := increment (s_num_RW_cycles c) (req_type r) (ctrl_clk c - issue r)\<rparr>)
           in Ok (remove_from bid i c)))))"

text \<open>After another command: a conventional request whose row is being opened moves to the
  active buffer. The result of \<open>enqueue\<close> is not looked at.\<close>

definition continue_request ::
  "dram_spec \<Rightarrow> buffer_id \<Rightarrow> nat \<Rightarrow> request \<Rightarrow> AiMController \<Rightarrow> AiMController result" where
  "continue_request spec bid i r c =
     (if req_type r = AIM then Ok c
      else andThen (SpecLUT_id (m_commands spec) (m_command_meta spec) (command r)) (\<lambda>meta.
        Ok (if is_opening meta
            then remove_from bid i (c\<lparr>m_active_buffer := snd (enqueue r (m_active_buffer c))\<rparr>)
            else c)))"

definition serve_request ::
  "AiMISRInfo \<Rightarrow> buffer_id \<Rightarrow> nat \<Rightarrow> dram \<Rightarrow> AiMController \<Rightarrow> (dram \<times> AiMController) result" where
  "serve_request info bid i d c =
     (let spec = dram_spec d in
      andThen (switch_mode info spec (buffer (get_buf bid c) ! i) (is_reg_RW_mode c)) (\<lambda>(r, mode).
      andThen (map_result (CommandCounter_update True (Some r)) (m_plugins c)) (\<lambda>plugins.
        (let r = (if issue r = -1 then r\<lparr>issue := ctrl_clk c - 1\<rparr> else r) in
         andThen (issue_command (command r) (addr_vec r) d) (\<lambda>d.
           (let c = put_buf bid (buf_put i r (get_buf bid c))
                  (c\<lparr>is_reg_RW_mode := mode, m_plugins := plugins,
                     s_num_commands := increment (s_num_commands c) (command r) 1\<rparr>) in
            andThen (if command r = final_command r then complete_request info spec bid i r c
                     else continue_request spec bid i r c) (\<lambda>c.
              Ok (d, c))))))))"

definition count_idle :: "AiMController \<Rightarrow> AiMController" where
  "count_idle c =
     (if buf_size (m_read_buffer c) = 0 \<and> buf_size (m_write_buffer c) = 0 \<and> buf_size (m_aim_buffer c) = 0
         \<and> pending_reads c = [] \<and> pending_writes c = []
      then c\<lparr>s_num_idle_cycles := s_num_idle_cycles c + 1\<rparr> else c)"

definition count_open_rows :: "dram \<Rightarrow> AiMController \<Rightarrow> AiMController result" where
  "count_open_rows d c =
     andThen (vec_at (m_open_rows d) (m_channel_id c)) (\<lambda>w.
       Ok (if w = 0 then c\<lparr>s_num_precharged_cycles := s_num_precharged_cycles c + 1\<rparr>
           else c\<lparr>s_num_active_cycles := s_num_active_cycles c + 1\<rparr>))"

text \<open>Step 3 of \<open>tick\<close>: what is done with the outcome of the scheduling.\<close>

definition act_on ::
  "AiMISRInfo \<Rightarrow> selection \<Rightarrow> dram \<Rightarrow> AiMController \<Rightarrow> (dram \<times> AiMController) result" where
  "act_on info sel d c =
     andThen (case sel of
         None \<Rightarrow> Ok (d, count_idle c)
       | Some (bid, i) \<Rightarrow>
           if is_barrier (buffer (get_buf bid c) ! i)
           then andThen (serve_barrier bid i c) (\<lambda>c. Ok (d, c))
           else serve_request info bid i d c) (\<lambda>(d, c).
     andThen (count_open_rows d c) (\<lambda>c.
     andThen (if sel = None then map_result (CommandCounter_update False None) (m_plugins c)
              else Ok (m_plugins c)) (\<lambda>plugins.
       Ok (d, c\<lparr>m_plugins := plugins\<rparr>))))"

definition refresh_tick :: "dram_spec \<Rightarrow> AiMController \<Rightarrow> AiMController result" where
  "refresh_tick spec c =
     andThen (AllBankRefresh_tick (priority_send spec) (m_channel_id c) (m_refresh c) c) (\<lambda>(rf, c).
       Ok (c\<lparr>m_refresh := rf\<rparr>))"

definition AiM_tick ::
  "AiMISRInfo \<Rightarrow> (dram \<Rightarrow> ReqBuffer \<Rightarrow> (nat option \<times> ReqBuffer) result) \<Rightarrow> (request \<Rightarrow> 's \<Rightarrow> 's result)
    \<Rightarrow> dram \<Rightarrow> AiMController \<Rightarrow> 's \<Rightarrow> (dram \<times> AiMController \<times> 's) result" where
  "AiM_tick info best cb d c s =
     andThen (serve_completed_reqs cb (c\<lparr>ctrl_clk := ctrl_clk c + 1\<rparr>) s) (\<lambda>(c, s).
     andThen (refresh_tick (dram_spec d) c) (\<lambda>c.
     andThen (schedule_request best d c) (\<lambda>(sel, c).
     andThen (act_on info sel d c) (\<lambda>(d, c). Ok (d, c, s)))))"

end
