(* ===== verification/Memory_System.thy ===== *)
theory Memory_System
  imports AiM_Controller
begin

text \<open>
  The interface \<^verbatim>\<open>IMemorySystem\<close> of \<^verbatim>\<open>src/src/memory_system/memory_system.h\<close>, as the AiM front end
  and the main loop rely on it: instructions are accepted into a queue, leave it in order, and
  the callback of an instruction runs exactly when it leaves.
\<close>

text \<open>What the AiM front end sends: a callback sits on \<open>SYNC\<close> and \<open>EOC\<close> instructions only, and it
  is one of the host's.\<close>

definition plain :: "request \<Rightarrow> bool" where
  "plain r \<longleftrightarrow> req_callback r = No_callback
     \<or> req_type r = AIM \<and> opcode r \<in> {ISR_SYNC, ISR_EOC} \<and> req_callback r \<noteq> System_receive"

text \<open>The instruction a callback is given may differ from the one sent in its column only.\<close>

locale memory_system =
  fixes send :: "request \<Rightarrow> 'm \<Rightarrow> (bool \<times> 'm) result"
    and tick :: "(int \<Rightarrow> request \<Rightarrow> 'h \<Rightarrow> 'h result) \<Rightarrow> 'm \<times> 'h \<Rightarrow> ('m \<times> 'h) result"
    and queue :: "'m \<Rightarrow> request list"
    and cycle :: "'m \<Rightarrow> int"
    and ok :: "'m \<Rightarrow> bool"
  assumes send_law: "send r m = Ok (accepted, m') \<Longrightarrow> ok m \<Longrightarrow> plain r \<Longrightarrow>
      ok m' \<and> cycle m' = cycle m \<and> queue m' = (if accepted then queue m @ [r] else queue m)"
    and tick_law: "tick cb (m, h) = Ok (m', h') \<Longrightarrow> ok m \<Longrightarrow>
      ok m' \<and> cycle m' = cycle m + 1
      \<and> (queue m' = queue m \<and> h' = h
         \<or> (\<exists>r q col. queue m = r # q \<and> queue m' = q
              \<and> run_callback (cb (cycle m)) (r\<lparr>col_addr := col\<rparr>) h = Ok h'))"

end
