(* ===== verification/AiM_Trace_Props.thy ===== *)
theory AiM_Trace_Props
  imports AiM_Trace Memory_System
begin

text \<open>
  The front end of \<^verbatim>\<open>src/src/frontend/impl/memory_trace/aim_trace.cpp\<close>: what reading an instruction
  does to its state, and that a printed instruction is read back.
\<close>

subsection \<open>Reading\<close>

text \<open>The fields of a request that the decoding of a line sets before its operands.\<close>

definition frame :: "request \<Rightarrow> request \<Rightarrow> bool" where
  "frame r r' \<longleftrightarrow> host_req_id r' = host_req_id r \<and> req_type r' = req_type r \<and> opcode r' = opcode r
     \<and> req_callback r' = req_callback r"

lemma frame_refl [simp]: "frame r r"
  by (simp add: frame_def)

lemma frame_trans: "frame r s \<Longrightarrow> frame s t \<Longrightarrow> frame r t"
  by (simp add: frame_def)

lemma frame_set_field [simp]: "frame r (set_field f v r)"
  by (cases f) (simp_all add: frame_def)

lemma decode_and_set_frame:
  assumes "decode_and_set tokens w upd st = Ok st'" and "\<And>v r. frame r (upd v r)"
  shows "frame (snd st) (snd st')"
  using assms by (auto simp: decode_and_set_def andThen_Ok_iff split: prod.splits)

lemma decode_if_needed_frame:
  assumes "decode_if_needed isr tokens f st = Ok st'"
  shows "frame (snd st) (snd st')"
proof (cases "is_field_legal isr f")
  case True
  then obtain st1 where "decode_and_set tokens (field_width f) (set_field f) st = Ok st1" "snd st' = snd st1"
    using assms by (cases st) (auto simp: decode_if_needed_def andThen_Ok_iff)
  then show ?thesis using decode_and_set_frame [of tokens _ "set_field f" st st1] by simp
next
  case False
  then show ?thesis using assms by (cases st) (simp add: decode_if_needed_def)
qed

lemma decode_access_line_frame:
  assumes "decode_access_line info tokens r = Ok r'"
  shows "frame r r'"
proof -
  have upd: "frame q (q\<lparr>mem_access_region := g\<rparr>)" "frame q (q\<lparr>addr := v\<rparr>)" "frame q (q\<lparr>data := v\<rparr>)" for q g v
    by (simp_all add: frame_def)
  from assms obtain region st where st: "snd st = r'" and
    d: "(if region = CFR
        then andThen (decode_and_set tokens 64 (\<lambda>v r. r\<lparr>addr := v\<rparr>) (2, r\<lparr>mem_access_region := region\<rparr>))
               (decode_and_set tokens 32 (\<lambda>v r. r\<lparr>data := v\<rparr>))
        else if region = GPR
        then decode_and_set tokens 64 (\<lambda>v r. r\<lparr>addr := v\<rparr>) (2, r\<lparr>mem_access_region := region\<rparr>)
        else andThen (decode_and_set tokens 64 (set_field Field_channel_mask) (2, r\<lparr>mem_access_region := region\<rparr>)) (\<lambda>st.
             andThen (decode_and_set tokens 16 (set_field Field_bank_index) st)
               (decode_and_set tokens 32 (set_field Field_row_addr)))) = Ok st"
    by (auto simp: decode_access_line_def andThen_Ok_iff Let_def)
  let ?r = "r\<lparr>mem_access_region := region\<rparr>"
  have "frame ?r (snd st)"
  proof -
    consider (CFR) "region = CFR" | (GPR) "region = GPR" "region \<noteq> CFR" | (MEM) "region \<noteq> CFR" "region \<noteq> GPR" by blast
    then show ?thesis
    proof cases
      case CFR
      then obtain st1 where 1: "decode_and_set tokens 64 (\<lambda>v r. r\<lparr>addr := v\<rparr>) (2, ?r) = Ok st1"
        "decode_and_set tokens 32 (\<lambda>v r. r\<lparr>data := v\<rparr>) st1 = Ok st" using d by (auto simp: andThen_Ok_iff)
      have "frame ?r (snd st1)" "frame (snd st1) (snd st)"
        using decode_and_set_frame [OF 1(1) upd(2)] decode_and_set_frame [OF 1(2) upd(3)] by simp_all
      then show ?thesis by (rule frame_trans)
    next
      case GPR
      then have "decode_and_set tokens 64 (\<lambda>v r. r\<lparr>addr := v\<rparr>) (2, ?r) = Ok st" using d by simp
      from decode_and_set_frame [OF this upd(2)] show ?thesis by simp
    next
      case MEM
      then obtain st1 st2 where 1: "decode_and_set tokens 64 (set_field Field_channel_mask) (2, ?r) = Ok st1"
        "decode_and_set tokens 16 (set_field Field_bank_index) st1 = Ok st2"
        "decode_and_set tokens 32 (set_field Field_row_addr) st2 = Ok st" using d by (auto simp: andThen_Ok_iff)
      have "frame ?r (snd st1)" "frame (snd st1) (snd st2)" "frame (snd st2) (snd st)"
        using decode_and_set_frame [OF 1(1) frame_set_field] decode_and_set_frame [OF 1(2) frame_set_field]
          decode_and_set_frame [OF 1(3) frame_set_field] by simp_all
      then show ?thesis using frame_trans by blast
    qed
  qed
  then show ?thesis using st upd(1) frame_trans by metis
qed

definition read_effect :: "AiM_trace \<Rightarrow> request \<Rightarrow> AiM_trace \<Rightarrow> bool" where
  "read_effect h r h' \<longleftrightarrow> host_req_id r = next_host_req_id h \<and> next_host_req_id h' = next_host_req_id h + 1
     \<and> plain r \<and> (req_callback r = Trace_receive \<longleftrightarrow> m_trace_reached_EOC h')
     \<and> remaining_req h' = remaining_req h \<and> m_trace_reached_calledback h' = m_trace_reached_calledback h"

lemma decode_AiM_line_effect:
  assumes "decode_AiM_line info tokens r h = Ok (r', h')" and "req_type r = AIM" and "req_callback r = No_callback"
    and "\<not> m_trace_reached_EOC h"
  shows "host_req_id r' = host_req_id r \<and> plain r' \<and> (req_callback r' = Trace_receive \<longleftrightarrow> m_trace_reached_EOC h')
    \<and> trace_file h' = trace_file h \<and> next_host_req_id h' = next_host_req_id h
    \<and> remaining_req h' = remaining_req h \<and> m_trace_reached_calledback h' = m_trace_reached_calledback h"
proof -
  from assms(1) obtain isr where 1: "(if int (length (legal_fields isr)) \<noteq> int (length tokens) - 2
       then andThen (convert_AiM_opcode_to_str info (isr_opcode isr)) (\<lambda>_.
            Err (Configuration_error ''Trace: aim request requires another number of fields''))
       else andThen (fold_result (decode_if_needed isr tokens) trace_fields (2, r\<lparr>opcode := isr_opcode isr\<rparr>))
         (\<lambda>(idx, r).
            if opcode r = ISR_EOC
            then Ok (r\<lparr>req_callback := Trace_receive\<rparr>, h\<lparr>m_trace_reached_EOC := True\<rparr>)
            else Ok (r, h))) = Ok (r', h')"
    unfolding decode_AiM_line_def by (elim andThen_OkE)
  have n: "int (length (legal_fields isr)) = int (length tokens) - 2"
  proof (rule ccontr)
    assume "int (length (legal_fields isr)) \<noteq> int (length tokens) - 2"
    then show False using 1 by (simp add: andThen_Ok_iff)
  qed
  from 1 obtain i q where f: "fold_result (decode_if_needed isr tokens) trace_fields
        (2, r\<lparr>opcode := isr_opcode isr\<rparr>) = Ok (i, q)"
    and e: "(if opcode q = ISR_EOC then Ok (q\<lparr>req_callback := Trace_receive\<rparr>, h\<lparr>m_trace_reached_EOC := True\<rparr>)
            else Ok (q, h)) = Ok (r', h')"
    unfolding n by (auto simp only: simp_thms if_False andThen_Ok_iff split: prod.splits)
  let ?I = "\<lambda>st. frame (r\<lparr>opcode := isr_opcode isr\<rparr>) (snd st)"
  have "?I (i, q)"
  proof (rule fold_result_invariant [where I = ?I, OF f])
    fix x u v assume "?I u" "decode_if_needed isr tokens x u = Ok v"
    then show "?I v" using decode_if_needed_frame frame_trans by blast
  qed simp
  then have "host_req_id q = host_req_id r" "req_type q = AIM" "req_callback q = No_callback"
    using assms(2,3) by (simp_all add: frame_def)
  then show ?thesis using e assms(4) by (auto simp: plain_def split: if_splits)
qed

lemma decode_line_effect:
  assumes "decode_line info tokens h = Ok (r, h')" and "\<not> m_trace_reached_EOC h"
  shows "read_effect h r h'" "trace_file h' = trace_file h"
proof -
  let ?h = "h\<lparr>next_host_req_id := next_host_req_id h + 1\<rparr>"
  from assms(1) obtain t where
    d: "(let q = (Request_addr (-1) (-1))\<lparr>host_req_id := next_host_req_id h, req_type := t, type_id := id_of_type t\<rparr> in
         if t = AIM then decode_AiM_line info tokens q ?h
         else andThen (decode_access_line info tokens q) (\<lambda>r. Ok (r, ?h))) = Ok (r, h')"
    by (auto simp: decode_line_def andThen_Ok_iff Let_def)
  let ?q = "(Request_addr (-1) (-1))\<lparr>host_req_id := next_host_req_id h, req_type := t, type_id := id_of_type t\<rparr>"
  have q: "req_callback ?q = No_callback" by (simp add: Request_addr_def request_default_def)
  have "read_effect h r h' \<and> trace_file h' = trace_file h"
  proof (cases "t = AIM")
    case True
    then have "decode_AiM_line info tokens ?q ?h = Ok (r, h')" using d by (simp add: Let_def)
    from decode_AiM_line_effect [OF this _ q] True assms(2) show ?thesis by (simp add: read_effect_def)
  next
    case False
    then have "decode_access_line info tokens ?q = Ok r" "h' = ?h" using d by (auto simp: Let_def andThen_Ok_iff)
    then show ?thesis using decode_access_line_frame [of info tokens ?q r] q assms(2)
      by (simp add: read_effect_def frame_def plain_def)
  qed
  then show "read_effect h r h'" "trace_file h' = trace_file h" by simp_all
qed

text \<open>Reading returns, and each instruction costs at least one character of the file.\<close>

lemma get_host_request_effect:
  assumes "get_host_request info h = Ok (r, h')"
  shows "\<not> m_trace_reached_EOC h \<and> read_effect h r h' \<and> length (trace_file h') < length (trace_file h)"
  using assms
proof (induction info h rule: get_host_request.induct)
  case (1 info h)
  have eoc: "\<not> m_trace_reached_EOC h" using "1.prems" by (subst (asm) get_host_request.simps) (auto split: if_splits)
  obtain line rest eof where l: "get_line (trace_file h) = (line, rest, eof)" by (cases "get_line (trace_file h)")
  let ?h = "h\<lparr>trace_file := rest, m_curr_trace_idx := m_curr_trace_idx h + 1\<rparr>"
  let ?tokens = "tokenize (if delimiter_is_comma ?h then CHR '','' else CHR '' '') line"
  have neof: "\<not> eof" using "1.prems" eoc l by (subst (asm) get_host_request.simps) (auto split: if_splits)
  then have shorter: "length rest < length (trace_file h)" using get_line_shorter l by simp
  have again: "read_effect ?h r h' \<Longrightarrow> read_effect h r h'" by (simp add: read_effect_def)
  let ?skip = "line = [] \<or> ?tokens = [] \<or> hd ?tokens = ''#'' \<and>
     \<not> (length ?tokens = 3 \<and> ?tokens ! 1 = ''PHASE'' \<and> ?tokens ! 2 = ''attention_end'')"
  show ?case
  proof (cases ?skip)
    case True
    then have "get_host_request info h = get_host_request info ?h"
      using eoc l neof by (subst get_host_request.simps) (auto simp: Let_def)
    then have g: "get_host_request info ?h = Ok (r, h')" using "1.prems" by simp
    have "read_effect ?h r h' \<and> length (trace_file h') < length (trace_file ?h)"
      using "1.IH" eoc l neof True g by (metis (no_types, lifting))
    then show ?thesis using again shorter eoc by simp
  next
    case False
    then have e: "(if hd ?tokens = ''#''
        then (let h = ?h\<lparr>m_attention_checkpoints := m_attention_checkpoints ?h + 1\<rparr> in
              if m_attention_checkpoints h \<noteq> 1
              then Err (Configuration_error ''Trace has more than one Attention/FFN boundary'')
              else Ok (attention_request h, h\<lparr>next_host_req_id := next_host_req_id h + 1\<rparr>))
        else decode_line info ?tokens ?h) = Ok (r, h')"
      using "1.prems" eoc l neof by (subst (asm) get_host_request.simps) (auto simp: Let_def)
    show ?thesis
    proof (cases "hd ?tokens = ''#''")
      case True
      then show ?thesis using e eoc shorter
        by (auto simp: Let_def read_effect_def attention_request_def plain_def split: if_splits)
    next
      case False
      then have "decode_line info ?tokens ?h = Ok (r, h')" using e by simp
      from decode_line_effect [OF this] eoc shorter again show ?thesis by simp
    qed
  qed
qed

subsection \<open>Printing numbers\<close>

definition digit_char :: "nat \<Rightarrow> char" where
  "digit_char d = char_of (48 + d)"

fun decimal :: "nat \<Rightarrow> string" where
  "decimal n = (if n < 10 then [digit_char n] else decimal (n div 10) @ [digit_char (n mod 10)])"

declare decimal.simps [simp del]

definition print_int :: "int \<Rightarrow> string" where
  "print_int v = (if v < 0 then CHR ''-'' # decimal (nat (- v)) else decimal (nat v))"

lemma of_digit_char: "d < 10 \<Longrightarrow> of_char (digit_char d) = 48 + d"
  by (simp add: digit_char_def)

lemma digit_value_char: "d < 10 \<Longrightarrow> digit_value 10 (digit_char d) = Some d"
  by (simp add: digit_value_def of_digit_char Let_def)

definition digits_only :: "string \<Rightarrow> bool" where
  "digits_only s \<longleftrightarrow> s \<noteq> [] \<and> (\<forall>c\<in>set s. \<exists>d<10. c = digit_char d)"

lemma decimal_digits: "digits_only (decimal n)"
proof (induction n rule: decimal.induct)
  case (1 n)
  show ?case
  proof (cases "n < 10")
    case True
    then show ?thesis by (subst decimal.simps) (auto simp: digits_only_def)
  next
    case False
    then have "digits_only (decimal (n div 10))" using 1 by simp
    moreover have "\<exists>d<10. digit_char (n mod 10) = digit_char d" by (intro exI [of _ "n mod 10"]) simp
    ultimately show ?thesis using False by (subst decimal.simps) (auto simp: digits_only_def)
  qed
qed

lemma digit_char_differs:
  assumes "(of_char c :: nat) < 48 \<or> 57 < (of_char c :: nat)" and "d < 10"
  shows "digit_char d \<noteq> c"
  using assms of_digit_char [OF assms(2)] by auto

lemma some_digits: "char_of (51 :: nat) = CHR ''3''" "char_of (52 :: nat) = CHR ''4''" "char_of (53 :: nat) = CHR ''5''"
  "char_of (54 :: nat) = CHR ''6''"
  by code_simp+

lemma digits_only_chars:
  assumes "digits_only s" and "c \<in> set s"
  shows "\<not> isspace c" "c \<noteq> CHR ''-''" "c \<noteq> CHR ''+''" "c \<noteq> CHR ''x''" "c \<noteq> CHR ''X''" "c \<noteq> CHR '',''"
    "c \<noteq> CHR '' ''" "c \<noteq> CHR 0x0A" "digit_value 10 c \<noteq> None"
proof -
  obtain d where d: "d < 10" "c = digit_char d" using assms by (auto simp: digits_only_def)
  show "\<not> isspace c" "c \<noteq> CHR ''-''" "c \<noteq> CHR ''+''" "c \<noteq> CHR ''x''" "c \<noteq> CHR ''X''" "c \<noteq> CHR '',''"
    "c \<noteq> CHR '' ''" "c \<noteq> CHR 0x0A"
    using digit_char_differs [OF _ d(1)] d(2) by (auto simp: isspace_def)
  show "digit_value 10 c \<noteq> None" using digit_value_char d by simp
qed

lemma decimal_value: "digits_value 10 (decimal n) = int n"
proof (induction n rule: decimal.induct)
  case (1 n)
  show ?case
  proof (cases "n < 10")
    case True
    then show ?thesis by (subst decimal.simps) (simp add: digits_value_def digit_value_char)
  next
    case False
    then have "foldl (\<lambda>acc c. acc * int 10 + int (case digit_value 10 c of Some v \<Rightarrow> v | None \<Rightarrow> 0)) 0 (decimal (n div 10))
        = int (n div 10)"
      using 1 by (simp add: digits_value_def)
    moreover have "int (n div 10) * 10 + int (n mod 10) = int n"
      by (metis div_mult_mod_eq of_nat_add of_nat_mult of_nat_numeral)
    ultimately show ?thesis using False
      by (subst decimal.simps) (simp add: digits_value_def digit_value_char)
  qed
qed

lemma stoll_digits:
  assumes "digits_only s" and "digits_value 10 s \<le> 2 ^ 63" and "0 \<le> digits_value 10 s"
  shows "digits_value 10 s < 2 ^ 63 \<Longrightarrow> stoll 10 s = Ok (digits_value 10 s)" "stoll 10 (CHR ''-'' # s) = Ok (- digits_value 10 s)"
proof -
  have ne: "s \<noteq> []" using assms(1) by (simp add: digits_only_def)
  note c = digits_only_chars [OF assms(1) hd_in_set [OF ne]]
  have w: "dropWhile isspace s = s" using c(1) ne by (cases s) simp_all
  have t: "takeWhile (\<lambda>c. \<exists>y. digit_value 10 c = Some y) s = s"
    using digits_only_chars(9) [OF assms(1)] by (simp add: takeWhile_eq_all_conv)
  have h: "drop_hex_prefix 10 t = t" for t by (auto simp: drop_hex_prefix_def split: list.splits)
  have m: "\<not> isspace (CHR ''-'')" by (simp add: isspace_def)
  show "stoll 10 s = Ok (digits_value 10 s)" if "digits_value 10 s < 2 ^ 63"
    using c(2,3) ne w assms(3) that unfolding stoll_def by (simp add: Let_def h t)
  show "stoll 10 (CHR ''-'' # s) = Ok (- digits_value 10 s)"
    using ne m assms(2,3) unfolding stoll_def by (simp add: Let_def h t)
qed

text \<open>A printed number of the field's type is read back.\<close>

lemma token_decoder_print:
  assumes "0 < w" "w \<le> 64" "- (2 ^ (w - 1)) \<le> v" "v < 2 ^ (w - 1)"
  shows "token_decoder w (print_int v) = Ok v"
proof -
  have p: "(2::int) ^ (w - 1) \<le> 2 ^ 63" using assms(2) by (intro power_increasing) auto
  let ?s = "decimal (nat \<bar>v\<bar>)"
  note d = decimal_digits [of "nat \<bar>v\<bar>"]
  have val: "digits_value 10 ?s = \<bar>v\<bar>" by (simp add: decimal_value)
  have hex: "take 2 (print_int v) \<noteq> ''0x'' \<and> take 2 (print_int v) \<noteq> ''0X''"
  proof -
    have "\<forall>c\<in>set (print_int v). c \<noteq> CHR ''x'' \<and> c \<noteq> CHR ''X''"
      using digits_only_chars(4,5) [OF decimal_digits] by (auto simp: print_int_def)
    then have "\<forall>c\<in>set (take 2 (print_int v)). c \<noteq> CHR ''x'' \<and> c \<noteq> CHR ''X''" by (meson in_set_takeD)
    then show ?thesis by force
  qed
  have "stoll 10 (print_int v) = Ok v"
  proof (cases "v < 0")
    case True
    then have "digits_value 10 ?s \<le> 2 ^ 63" using val p assms(3) by linarith
    then show ?thesis using stoll_digits(2) [OF d] val True by (simp add: print_int_def)
  next
    case False
    then have "digits_value 10 ?s < 2 ^ 63" using val p assms(4) by linarith
    then show ?thesis using stoll_digits(1) [OF d] val False by (simp add: print_int_def)
  qed
  then show ?thesis using hex to_signed_id [OF assms(1,3,4)] by (simp add: token_decoder_def)
qed

subsection \<open>Printing instructions\<close>

definition print_instruction :: "string \<Rightarrow> AiMISR \<Rightarrow> request \<Rightarrow> string" where
  "print_instruction name isr r =
     join_words (CHR '' '') ([''AiM'', name] @ map (\<lambda>f. print_int (get_field f r)) (legal_fields isr))"

text \<open>A field can be written in a trace when it fits its type and is not the value -1, which stands
  for a missing field.\<close>

definition printable :: "request \<Rightarrow> Field \<Rightarrow> bool" where
  "printable r f \<longleftrightarrow> get_field f r \<noteq> -1
     \<and> - (2 ^ (field_width f - 1)) \<le> get_field f r \<and> get_field f r < 2 ^ (field_width f - 1)"

lemma field_width_bounds: "0 < field_width f" "field_width f \<le> 64"
  by (cases f; simp)+

lemma get_set_field: "get_field g (set_field f v q) = (if f = g then v else get_field g q)"
  by (cases f; cases g; simp)

lemma decode_fields:
  assumes "\<And>f. f \<in> set fs \<Longrightarrow> is_field_legal isr f \<Longrightarrow> printable r f" and "distinct fs"
    and "tokens = pre @ map (\<lambda>f. print_int (get_field f r)) (filter (is_field_legal isr) fs) @ post"
  shows "\<exists>q'. fold_result (decode_if_needed isr tokens) fs (int (length pre), q)
      = Ok (int (length pre + length (filter (is_field_legal isr) fs)), q') \<and> frame q q'
    \<and> (\<forall>g. get_field g q' = (if g \<in> set fs \<and> is_field_legal isr g then get_field g r else get_field g q))"
  using assms
proof (induction fs arbitrary: pre q)
  case Nil
  then show ?case by simp
next
  case (Cons f fs)
  show ?case
  proof (cases "is_field_legal isr f")
    case True
    let ?t = "print_int (get_field f r)" and ?q = "set_field f (get_field f r) q"
    have pr: "printable r f" using Cons.prems(1) True by simp
    have tok: "tokens = (pre @ [?t]) @ map (\<lambda>f. print_int (get_field f r)) (filter (is_field_legal isr) fs) @ post"
      using Cons.prems(3) True by simp
    have "vec_at tokens (int (length pre)) = Ok ?t" using tok by (simp add: vec_at_def nth_append)
    moreover have "token_decoder (field_width f) ?t = Ok (get_field f r)"
      using token_decoder_print field_width_bounds pr by (simp add: printable_def)
    ultimately have step: "decode_if_needed isr tokens f (int (length pre), q) = Ok (int (length (pre @ [?t])), ?q)"
      using pr True
      by (simp add: decode_if_needed_def decode_and_set_def get_set_field is_field_value_legal_def printable_def)
    obtain q' where q': "fold_result (decode_if_needed isr tokens) fs (int (length (pre @ [?t])), ?q)
        = Ok (int (length (pre @ [?t]) + length (filter (is_field_legal isr) fs)), q')" "frame ?q q'"
      "\<forall>g. get_field g q' = (if g \<in> set fs \<and> is_field_legal isr g then get_field g r else get_field g ?q)"
      using Cons.IH [OF _ _ tok, of ?q] Cons.prems(1,2) by auto
    have "frame q q'" using frame_trans [OF frame_set_field q'(2)] .
    then show ?thesis using step q'(1,3) True by (auto simp: get_set_field)
  next
    case False
    then have step: "decode_if_needed isr tokens f (int (length pre), q) = Ok (int (length pre), q)"
      by (simp add: decode_if_needed_def)
    obtain q' where "fold_result (decode_if_needed isr tokens) fs (int (length pre), q)
        = Ok (int (length pre + length (filter (is_field_legal isr) fs)), q') \<and> frame q q'
      \<and> (\<forall>g. get_field g q' = (if g \<in> set fs \<and> is_field_legal isr g then get_field g r else get_field g q))"
      using Cons.IH [of pre q] Cons.prems False by auto
    then show ?thesis using step False by auto
  qed
qed

text \<open>The table of instructions: its operands come in the order the trace reads them.\<close>

lemma isr_in_table:
  assumes "convert_opcode_str_to_AiM_ISR AiMISRInfo_init s = Ok isr"
  shows "(s, isr) \<in> set isr_table"
proof -
  have "\<exists>i. map_of isr_table s = Some i" and "table_get isr_table AiMISR_default s = isr"
    using assms by (auto simp: convert_opcode_str_to_AiM_ISR_def AiM_opcode_str_valid_def table_valid_def
        AiMISRInfo_init_def andThen_Ok_iff split: if_splits)
  then show ?thesis by (auto simp: table_get_def dest: map_of_SomeD)
qed

lemma table_operands:
  "list_all (\<lambda>(s, isr). legal_fields isr = filter (is_field_legal isr) trace_fields) isr_table"
  by code_simp

lemma isr_operands:
  assumes "convert_AiM_opcode_to_AiM_ISR AiMISRInfo_init op = Ok isr"
    and "convert_AiM_opcode_to_str AiMISRInfo_init op = Ok name"
  shows "legal_fields isr = filter (is_field_legal isr) trace_fields" "isr_opcode isr = op"
    "convert_opcode_str_to_AiM_ISR AiMISRInfo_init name = Ok isr"
proof -
  obtain s i where i: "convert_AiM_opcode_to_str AiMISRInfo_init op = Ok s"
    "convert_opcode_str_to_AiM_ISR AiMISRInfo_init s = Ok i"
    "convert_AiM_opcode_to_AiM_ISR AiMISRInfo_init op = Ok i" "isr_opcode i = op"
    using convert_AiM_opcode_to_str_init [OF convert_isr [OF assms(1)]] by blast
  then have e: "i = isr" "s = name" using assms by simp_all
  show "isr_opcode isr = op" "convert_opcode_str_to_AiM_ISR AiMISRInfo_init name = Ok isr" using i e by simp_all
  then show "legal_fields isr = filter (is_field_legal isr) trace_fields"
    using isr_in_table table_operands by (fastforce simp: list_all_iff)
qed

lemma isr_names:
  "convert_AiM_opcode_to_str AiMISRInfo_init op = Ok name \<Longrightarrow>
   ISR_name name = name \<and> name \<noteq> [] \<and> (\<forall>c\<in>set name. \<not> isspace c \<and> c \<noteq> CHR '' '')"
  by (cases op) (auto simp: convert_eqs ISR_name_def isspace_def)

lemma print_int_word: "print_int v \<noteq> [] \<and> (\<forall>c\<in>set (print_int v). \<not> isspace c \<and> c \<noteq> CHR '' '')"
proof -
  have "decimal n \<noteq> [] \<and> (\<forall>c\<in>set (decimal n). \<not> isspace c \<and> c \<noteq> CHR '' '')" for n
    using decimal_digits [of n] digits_only_chars(1,7) [OF decimal_digits [of n]] by (auto simp: digits_only_def)
  then show ?thesis by (auto simp: print_int_def isspace_def)
qed

lemma join_words_chars: "set (join_words d ws) \<subseteq> insert d (\<Union>w\<in>set ws. set w)"
  by (induction d ws rule: join_words.induct) auto

lemma get_line_cut: "CHR 0x0A \<notin> set line \<Longrightarrow> get_line (line @ CHR 0x0A # rest) = (line, rest, False)"
  by (auto simp: get_line_def takeWhile_append dropWhile_append)

text \<open>C31: an instruction printed as a line of a trace is read back: with the
  operands of its opcode in the order of the instruction table, each a value of its type other
  than -1, the front end returns a request of that opcode with exactly these operands, the next
  host id, and leaves the rest of the file.\<close>

theorem instruction_roundtrip:
  assumes "convert_AiM_opcode_to_AiM_ISR AiMISRInfo_init op = Ok isr"
    and "convert_AiM_opcode_to_str AiMISRInfo_init op = Ok name"
    and "\<forall>f\<in>set (legal_fields isr). printable r f"
    and "\<not> m_trace_reached_EOC h" and "\<not> delimiter_is_comma h"
    and "trace_file h = print_instruction name isr r @ CHR 0x0A # rest"
  shows "\<exists>r' h'. get_host_request AiMISRInfo_init h = Ok (r', h') \<and> req_type r' = AIM \<and> opcode r' = op
    \<and> (\<forall>f. get_field f r' = (if f \<in> set (legal_fields isr) then get_field f r else -1))
    \<and> host_req_id r' = next_host_req_id h \<and> trace_file h' = rest"
proof -
  note op = isr_operands [OF assms(1,2)] and nm = isr_names [OF assms(2)]
  let ?ops = "map (\<lambda>f. print_int (get_field f r)) (legal_fields isr)"
  let ?tokens = "[''AiM'', name] @ ?ops"
  have words: "\<forall>w\<in>set ?tokens. w \<noteq> [] \<and> (\<forall>c\<in>set w. \<not> isspace c \<and> c \<noteq> CHR '' '')"
    using nm print_int_word by (auto simp: isspace_def)
  have tk: "tokenize (CHR '' '') (print_instruction name isr r) = ?tokens"
    unfolding print_instruction_def by (rule tokenize_join) (use words in simp_all)
  have nl: "CHR 0x0A \<notin> set (print_instruction name isr r)"
  proof
    assume "CHR 0x0A \<in> set (print_instruction name isr r)"
    then have "\<exists>w\<in>set ?tokens. CHR 0x0A \<in> set w"
      using join_words_chars [of "CHR '' ''" ?tokens] unfolding print_instruction_def by auto
    then show False using words by (auto simp: isspace_def)
  qed
  have ne: "print_instruction name isr r \<noteq> []"
    by (cases ?ops) (simp_all add: print_instruction_def)
  let ?h = "h\<lparr>trace_file := rest, m_curr_trace_idx := m_curr_trace_idx h + 1\<rparr>"
  have g: "get_host_request AiMISRInfo_init h = decode_line AiMISRInfo_init ?tokens ?h"
    using assms(4-6) get_line_cut [OF nl, of rest] ne tk by (subst get_host_request.simps) (simp add: Let_def)
  let ?q = "(Request_addr (-1) (-1))\<lparr>host_req_id := next_host_req_id h, req_type := AIM, type_id := id_of_type AIM, opcode := op\<rparr>"
  have q: "get_field f ?q = -1" for f by (cases f) (simp_all add: Request_addr_def request_default_def)
  have "\<exists>q'. fold_result (decode_if_needed isr ?tokens) trace_fields (int (length [''AiM'', name]), ?q)
      = Ok (int (length [''AiM'', name] + length (filter (is_field_legal isr) trace_fields)), q') \<and> frame ?q q'
    \<and> (\<forall>g. get_field g q' = (if g \<in> set trace_fields \<and> is_field_legal isr g then get_field g r else get_field g ?q))"
  proof (rule decode_fields)
    show "printable r f" if "is_field_legal isr f" for f using assms(3) that by (simp add: is_field_legal_def)
    show "distinct trace_fields" by (simp add: trace_fields_def)
    show "?tokens = [''AiM'', name] @ map (\<lambda>f. print_int (get_field f r)) (filter (is_field_legal isr) trace_fields) @ []"
      using op(1) by simp
  qed
  then obtain i q' where f: "fold_result (decode_if_needed isr ?tokens) trace_fields (2, ?q) = Ok (i, q')"
    and fr: "frame ?q q'"
    and gf: "\<And>g. get_field g q' = (if g \<in> set trace_fields \<and> is_field_legal isr g then get_field g r else -1)"
    using q by auto
  have q': "req_type q' = AIM" "opcode q' = op" "host_req_id q' = next_host_req_id h"
    using fr by (simp_all add: frame_def)
  have all: "g \<in> set trace_fields" for g by (cases g) (simp_all add: trace_fields_def)
  have fields: "get_field g q' = (if g \<in> set (legal_fields isr) then get_field g r else -1)" for g
    using gf [of g] all [of g] by (simp add: is_field_legal_def)
  have AiM: "convert_str_to_type AiMISRInfo_init ''AiM'' = Ok AIM" by code_simp
  let ?h2 = "?h\<lparr>next_host_req_id := next_host_req_id h + 1\<rparr>"
  have "decode_line AiMISRInfo_init ?tokens ?h
      = (if op = ISR_EOC then Ok (q'\<lparr>req_callback := Trace_receive\<rparr>, ?h2\<lparr>m_trace_reached_EOC := True\<rparr>) else Ok (q', ?h2))"
    using AiM nm op(2,3) f q'(2)
    by (simp add: decode_line_def decode_AiM_line_def vec_at_def in_vec_def Let_def)
  moreover have "get_field g (q'\<lparr>req_callback := Trace_receive\<rparr>) = get_field g q'" for g by (cases g) simp_all
  ultimately show ?thesis using g q' fields by (cases "op = ISR_EOC") auto
qed

definition reading :: "string \<Rightarrow> AiM_trace" where
  "reading content =
     \<lparr>m_curr_trace_idx = 0, m_trace_reached_EOC = False, m_trace_reached_calledback = False,
      trace_file = content, remaining_req = False, next_host_req_id = 0, m_attention_checkpoints = 0,
      delimiter_is_comma = False, AiMTrace_request = Request_addr (-1) (-1), trace_clock_ratio = 1,
      attention_end_cycles = []\<rparr>"

text \<open>A printed \<open>MAC_ABK\<close> of 64 columns on 16 channels, row 3.\<close>

theorem instruction_roundtrip_witness:
  "\<exists>r' h'. get_host_request AiMISRInfo_init (reading (''AiM ISR_MAC_ABK 64 65535 3'' @ [CHR 0x0A])) = Ok (r', h')
     \<and> opcode r' = ISR_MAC_ABK \<and> opsize r' = 64 \<and> channel_mask r' = 65535 \<and> row_addr r' = 3
     \<and> bank_index r' = -1 \<and> trace_file h' = []"
proof -
  define r where "r = (Request_addr (-1) (-1))\<lparr>opsize := 64, channel_mask := 65535, row_addr := 3\<rparr>"
  define isr where "isr = mk_AiMISR ISR_MAC_ABK [Field_opsize, Field_channel_mask, Field_row_addr] False False False ''bank''"
  have isr: "convert_AiM_opcode_to_AiM_ISR AiMISRInfo_init ISR_MAC_ABK = Ok isr"
    "convert_AiM_opcode_to_str AiMISRInfo_init ISR_MAC_ABK = Ok ''ISR_MAC_ABK''"
    by (simp_all add: convert_eqs isr_def)
  have fields: "legal_fields isr = [Field_opsize, Field_channel_mask, Field_row_addr]" by (simp add: isr_def mk_AiMISR_def)
  have "\<forall>f\<in>set (legal_fields isr). printable r f" by (simp add: fields printable_def r_def)
  moreover have "print_instruction ''ISR_MAC_ABK'' isr r = ''AiM ISR_MAC_ABK 64 65535 3''"
    by (simp add: print_instruction_def fields r_def print_int_def decimal.simps digit_char_def some_digits)
  ultimately obtain r' h' where g: "get_host_request AiMISRInfo_init (reading (''AiM ISR_MAC_ABK 64 65535 3'' @ [CHR 0x0A])) = Ok (r', h')"
    "opcode r' = ISR_MAC_ABK" "trace_file h' = []"
    and f: "\<And>f. get_field f r' = (if f \<in> set (legal_fields isr) then get_field f r else -1)"
    using instruction_roundtrip [OF isr, of r "reading (''AiM ISR_MAC_ABK 64 65535 3'' @ [CHR 0x0A])" "[]"]
    by (auto simp: reading_def)
  have "opsize r' = 64" "channel_mask r' = 65535" "row_addr r' = 3" "bank_index r' = -1"
    using f [of Field_opsize] f [of Field_channel_mask] f [of Field_row_addr] f [of Field_bank_index]
    by (simp_all add: fields r_def)
  with g show ?thesis by blast
qed

subsection \<open>Evaluation\<close>

text \<open>One line at a time: the result, or the state from which the next line is read.\<close>

definition read_line :: "AiMISRInfo \<Rightarrow> AiM_trace \<Rightarrow> (request \<times> AiM_trace) result + AiM_trace" where
  "read_line info h =
     (if m_trace_reached_EOC h then Inl (Err (Configuration_error ''Trace: asking for host request while EOC reached!''))
      else
        (case get_line (trace_file h) of (line, rest, eof) \<Rightarrow>
          (let h = h\<lparr>trace_file := rest, m_curr_trace_idx := m_curr_trace_idx h + 1\<rparr> in
           if eof then Inl (Err (Configuration_error ''Trace: EOF reached while EOC not reached''))
           else
             (case tokenize (if delimiter_is_comma h then CHR '','' else CHR '' '') line of
                [] \<Rightarrow> Inr h
              | t # ts \<Rightarrow>
                  if line = [] then Inr h
                  else if t = ''#''
                  then (if ts = [''PHASE'', ''attention_end'']
                        then (let h = h\<lparr>m_attention_checkpoints := m_attention_checkpoints h + 1\<rparr> in
                              Inl (if m_attention_checkpoints h \<noteq> 1
                                   then Err (Configuration_error ''Trace has more than one Attention/FFN boundary'')
                                   else Ok (attention_request h, h\<lparr>next_host_req_id := next_host_req_id h + 1\<rparr>)))
                        else Inr h)
                  else Inl (decode_line info (t # ts) h)))))"

lemma two_tokens: "length ts = 2 \<and> ts ! 0 = a \<and> ts ! Suc 0 = b \<longleftrightarrow> ts = [a, b]"
  by (auto simp: length_Suc_conv numeral_2_eq_2)

lemma get_host_request_lines [code]:
  "get_host_request info h = (case read_line info h of Inl r \<Rightarrow> r | Inr h \<Rightarrow> get_host_request info h)"
proof -
  obtain line rest eof where l: "get_line (trace_file h) = (line, rest, eof)" by (cases "get_line (trace_file h)")
  let ?ts = "tokenize (if delimiter_is_comma h then CHR '','' else CHR '' '') line"
  show ?thesis
  proof (cases ?ts)
    case Nil
    then show ?thesis by (subst get_host_request.simps) (simp add: read_line_def l Let_def)
  next
    case (Cons t ts)
    show ?thesis unfolding read_line_def
      by (subst get_host_request.simps) (simp add: Let_def l Cons two_tokens)
  qed
qed

text \<open>With the state as an argument of its own, so that evaluation starts only once it is known.\<close>

lemma AiMTrace_tick_apply [code]:
  "AiMTrace_tick info send (h, m) =
     (case (if \<not> remaining_req h \<and> \<not> m_trace_reached_EOC h
            then (case get_host_request info h of
                    Inl e \<Rightarrow> Inl e
                  | Inr (r, h) \<Rightarrow> Inr (h\<lparr>AiMTrace_request := r, remaining_req := True\<rparr>))
            else Inr h) of
        Inl e \<Rightarrow> Inl e
      | Inr h \<Rightarrow> trace_send send (h, m))"
  by (simp add: AiMTrace_tick_def andThen_def case_prod_unfold cong: sum.case_cong)

subsection \<open>Reading a whole trace\<close>

text \<open>One \<open>get_host_request\<close> after another, as \<open>tick\<close> calls it, until \<open>EOC\<close>.\<close>

function read_trace :: "AiMISRInfo \<Rightarrow> AiM_trace \<Rightarrow> (request list \<times> AiM_trace) result" where
  "read_trace info h =
     (if m_trace_reached_EOC h then Ok ([], h)
      else (case get_host_request info h of
              Inl e \<Rightarrow> Err e
            | Inr (r, h) \<Rightarrow> (case read_trace info h of Inl e \<Rightarrow> Err e | Inr (rs, h) \<Rightarrow> Ok (r # rs, h))))"
  by pat_completeness auto
termination
  by (relation "measure (\<lambda>(info, h). length (trace_file h))") (auto dest: get_host_request_effect)

declare read_trace.simps [simp del]

lemma read_trace_Cons:
  assumes "read_trace info h = Ok (rs, h')" and "\<not> m_trace_reached_EOC h"
  obtains r h1 rs' where "get_host_request info h = Ok (r, h1)" "read_trace info h1 = Ok (rs', h')" "rs = r # rs'"
  using assms by (subst (asm) read_trace.simps) (auto split: sum.splits)

lemma read_trace_done: "read_trace info h = Ok (rs, h') \<Longrightarrow> m_trace_reached_EOC h \<Longrightarrow> rs = [] \<and> h' = h"
  by (subst (asm) read_trace.simps) simp

lemma read_trace_effect:
  "read_trace info h = Ok (rs, h') \<Longrightarrow> \<not> m_trace_reached_EOC h \<Longrightarrow>
   length rs + length (trace_file h') \<le> length (trace_file h) \<and> m_trace_reached_EOC h'
   \<and> map host_req_id rs = [next_host_req_id h..next_host_req_id h' - 1] \<and> next_host_req_id h \<le> next_host_req_id h'
   \<and> rs \<noteq> [] \<and> req_callback (last rs) = Trace_receive \<and> (\<forall>r\<in>set (butlast rs). req_callback r \<noteq> Trace_receive)"
proof (induction info h arbitrary: rs rule: read_trace.induct)
  case (1 info h)
  from "1.prems" obtain r h1 rs' where g: "get_host_request info h = Ok (r, h1)"
    and rest: "read_trace info h1 = Ok (rs', h')" and rs: "rs = r # rs'" by (rule read_trace_Cons)
  from get_host_request_effect [OF g] have e: "read_effect h r h1" "length (trace_file h1) < length (trace_file h)" by simp_all
  show ?case
  proof (cases "m_trace_reached_EOC h1")
    case True
    then have "rs' = []" "h' = h1" using read_trace_done [OF rest] by simp_all
    then show ?thesis using e True "1.prems"(2) by (auto simp: rs read_effect_def)
  next
    case False
    note ih = "1.IH" [OF "1.prems"(2) g refl rest False]
    have "next_host_req_id h1 = next_host_req_id h + 1" "host_req_id r = next_host_req_id h"
      "req_callback r \<noteq> Trace_receive" using e(1) False by (auto simp: read_effect_def)
    then show ?thesis using ih e(2) by (auto simp: rs upto_rec1)
  qed
qed

text \<open>C32: reading a trace ends, with an error or with \<open>EOC\<close>. Without an error it
  has read at most as many instructions as the file has characters, with consecutive host ids;
  the last and only the last carries the callback that ends the simulation.\<close>

theorem trace_reads_to_EOC:
  assumes "AiMTrace_init files cfg = Ok h" and "read_trace info h = Ok (rs, h')"
  shows "length rs \<le> length (trace_file h) \<and> m_trace_reached_EOC h'
    \<and> map host_req_id rs = [0..int (length rs) - 1]
    \<and> rs \<noteq> [] \<and> req_callback (last rs) = Trace_receive \<and> (\<forall>r\<in>set (butlast rs). req_callback r \<noteq> Trace_receive)"
proof -
  have h: "\<not> m_trace_reached_EOC h" "next_host_req_id h = 0"
    using assms(1) by (auto simp: AiMTrace_init_def Let_def andThen_Ok_iff split: option.splits)
  note e = read_trace_effect [OF assms(2) h(1)]
  then have ids: "map host_req_id rs = [0..next_host_req_id h' - 1]" "0 \<le> next_host_req_id h'" using h(2) by simp_all
  have "length rs = nat (next_host_req_id h')" using arg_cong [OF ids(1), of length] by simp
  then have "next_host_req_id h' = int (length rs)" using ids(2) by simp
  then show ?thesis using e h(2) by simp
qed

definition two_instructions :: "string \<Rightarrow> string option option" where
  "two_instructions path = Some (Some (''# start'' @ CHR 0x0A # ''AiM SYNC'' @ CHR 0x0A # ''AiM EOC'' @ [CHR 0x0A]))"

definition two_instructions_config :: trace_config where
  "two_instructions_config = \<lparr>cfg_path = Some ''t'', cfg_delimiter = None, cfg_trace_clock_ratio = Some 1,
     trace_file_path = [], use_trace_file_path = False\<rparr>"

theorem trace_reads_to_EOC_witness:
  "\<exists>h rs h'. AiMTrace_init two_instructions two_instructions_config = Ok h \<and> read_trace AiMISRInfo_init h = Ok (rs, h')
     \<and> map host_req_id rs = [0, 1] \<and> req_callback (last rs) = Trace_receive"
proof -
  have "case AiMTrace_init two_instructions two_instructions_config of Inl _ \<Rightarrow> False | Inr h \<Rightarrow>
      (case read_trace AiMISRInfo_init h of Inl _ \<Rightarrow> False | Inr (rs, h') \<Rightarrow> length rs = 2)"
    by code_simp
  then obtain h rs h' where i: "AiMTrace_init two_instructions two_instructions_config = Ok h"
    and r: "read_trace AiMISRInfo_init h = Ok (rs, h')" "length rs = 2"
    by (auto split: sum.splits)
  have "[0..int (length rs) - 1] = [0, 1]" using r(2) by (simp add: upto_rec1)
  with trace_reads_to_EOC [OF i r(1)] i r(1) show ?thesis by auto
qed

end
