(* ===== verification/AiM_Controller_Frame.thy ===== *)
theory AiM_Controller_Frame
  imports AiM_Controller
begin

text \<open>
  What each step of the AiM controller of \<^verbatim>\<open>src/src/dram_controller/impl/AiM_dram_controller.cpp\<close>
  may change: scheduling rewrites only the \<open>command\<close> fields of buffered requests and the
  write-mode flag; the request it selects satisfies \<open>selection_ok\<close>; serving it touches one
  entry of one buffer. The lemmas that depend on the scheduler are proved for any scheduler
  that keeps the contract \<open>request_scheduler\<close>.
\<close>

subsection \<open>Buffers\<close>

lemma get_put_buf [simp]: "get_buf x (put_buf y b c) = (if x = y then b else get_buf x c)"
  by (cases x; cases y) simp_all

lemma put_buf_fields [simp]:
  "m_channel_id (put_buf x b c) = m_channel_id c" "ctrl_clk (put_buf x b c) = ctrl_clk c"
  "ctrl_clock_ratio (put_buf x b c) = ctrl_clock_ratio c"
  "pending_reads (put_buf x b c) = pending_reads c" "pending_writes (put_buf x b c) = pending_writes c"
  "m_row_addr_idx (put_buf x b c) = m_row_addr_idx c" "m_is_write_mode (put_buf x b c) = m_is_write_mode c"
  "m_wr_low_watermark (put_buf x b c) = m_wr_low_watermark c"
  "m_wr_high_watermark (put_buf x b c) = m_wr_high_watermark c"
  "m_refresh (put_buf x b c) = m_refresh c" "m_plugins (put_buf x b c) = m_plugins c"
  "is_reg_RW_mode (put_buf x b c) = is_reg_RW_mode c" "s_num_commands (put_buf x b c) = s_num_commands c"
  by (cases x; simp)+

definition recommanded :: "request \<Rightarrow> request \<Rightarrow> bool" where
  "recommanded r r' \<longleftrightarrow> r' = r\<lparr>command := command r'\<rparr>"

lemma recommanded_refl [simp]: "recommanded r r"
  by (simp add: recommanded_def)

lemma recommanded_trans: "recommanded r s \<Longrightarrow> recommanded s t \<Longrightarrow> recommanded r t"
  unfolding recommanded_def by (metis request.surjective request.update_convs(21))

lemma recommanded_set: "rescheduled d r r' \<Longrightarrow> recommanded r r'"
  using rescheduled_fields(1) by (simp add: recommanded_def)

lemma recommanded_keeps:
  assumes "recommanded r r'" and "\<And>r c. f (r\<lparr>command := c\<rparr>) = f r"
  shows "f r' = f r"
  using assms unfolding recommanded_def by metis

definition requeued :: "ReqBuffer \<Rightarrow> ReqBuffer \<Rightarrow> bool" where
  "requeued b b' \<longleftrightarrow> max_size b' = max_size b \<and> list_all2 recommanded (buffer b) (buffer b')"

lemma requeued_refl [simp]: "requeued b b"
  by (simp add: requeued_def list_all2_refl)

lemma requeued_trans: "requeued b b' \<Longrightarrow> requeued b' b'' \<Longrightarrow> requeued b b''"
  unfolding requeued_def by (auto elim: list_all2_trans [rotated -2] intro: recommanded_trans)

lemma requeued_length: "requeued b b' \<Longrightarrow> length (buffer b') = length (buffer b)"
  by (auto simp: requeued_def dest: list_all2_lengthD)

lemma requeued_map:
  assumes "requeued b b'" and "\<And>r c. f (r\<lparr>command := c\<rparr>) = f r"
  shows "map f (buffer b') = map f (buffer b)"
proof -
  have "list_all2 (\<lambda>r r'. f r = f r') (buffer b) (buffer b')"
    using assms(1) unfolding requeued_def
    by (auto elim!: list_all2_mono dest: recommanded_keeps [where f = f, OF _ assms(2)])
  then show ?thesis by (simp add: list_all2_conv_all_nth list_eq_iff_nth_eq)
qed

lemma requeued_set:
  assumes "requeued b b'" and "r' \<in> set (buffer b')"
  obtains r where "r \<in> set (buffer b)" "recommanded r r'"
proof -
  obtain i where i: "i < length (buffer b')" "r' = buffer b' ! i" using assms(2) by (metis in_set_conv_nth)
  then have "recommanded (buffer b ! i) r'" "i < length (buffer b)"
    using assms(1) by (auto simp: requeued_def list_all2_conv_all_nth)
  then show thesis using that nth_mem by blast
qed

lemma requeued_put:
  assumes "i < length (buffer b)" and "recommanded (buffer b ! i) r"
  shows "requeued b (buf_put i r b)"
  using assms by (auto simp: requeued_def buf_put_def list_all2_conv_all_nth nth_list_update)

subsection \<open>Scheduling\<close>

definition strip_queues :: "AiMController \<Rightarrow> AiMController" where
  "strip_queues c = c\<lparr>m_active_buffer := ReqBuffer_new, m_priority_buffer := ReqBuffer_new,
     m_read_buffer := ReqBuffer_new, m_write_buffer := ReqBuffer_new, m_aim_buffer := ReqBuffer_new,
     m_is_write_mode := False\<rparr>"

definition scheduled :: "AiMController \<Rightarrow> AiMController \<Rightarrow> bool" where
  "scheduled c c' \<longleftrightarrow> strip_queues c' = strip_queues c \<and> (\<forall>x. requeued (get_buf x c) (get_buf x c'))"

lemma scheduled_refl [simp]: "scheduled c c"
  by (simp add: scheduled_def)

lemma scheduled_trans: "scheduled c c' \<Longrightarrow> scheduled c' c'' \<Longrightarrow> scheduled c c''"
  unfolding scheduled_def by (metis requeued_trans)

lemma strip_put_buf [simp]: "strip_queues (put_buf x b c) = strip_queues c"
  by (cases x) (simp_all add: strip_queues_def)

lemma scheduled_put: "requeued (get_buf x c) b \<Longrightarrow> scheduled c (put_buf x b c)"
  by (simp add: scheduled_def)

lemma get_buf_write_mode [simp]: "get_buf x (c\<lparr>m_is_write_mode := m\<rparr>) = get_buf x c"
  by (cases x) simp_all

lemma scheduled_write_mode: "scheduled c (set_write_mode c)"
  by (auto simp: set_write_mode_def Let_def scheduled_def strip_queues_def)

lemma scheduled_fields:
  assumes "scheduled c c'"
  shows "m_channel_id c' = m_channel_id c" "ctrl_clk c' = ctrl_clk c" "pending_reads c' = pending_reads c"
    "pending_writes c' = pending_writes c" "m_row_addr_idx c' = m_row_addr_idx c"
    "m_refresh c' = m_refresh c" "m_plugins c' = m_plugins c" "is_reg_RW_mode c' = is_reg_RW_mode c"
    "m_wr_low_watermark c' = m_wr_low_watermark c" "m_wr_high_watermark c' = m_wr_high_watermark c"
proof -
  have s: "strip_queues c' = strip_queues c" using assms by (simp add: scheduled_def)
  show "m_channel_id c' = m_channel_id c" using arg_cong [OF s, of m_channel_id] by (simp add: strip_queues_def)
  show "ctrl_clk c' = ctrl_clk c" using arg_cong [OF s, of ctrl_clk] by (simp add: strip_queues_def)
  show "pending_reads c' = pending_reads c" using arg_cong [OF s, of pending_reads] by (simp add: strip_queues_def)
  show "pending_writes c' = pending_writes c" using arg_cong [OF s, of pending_writes] by (simp add: strip_queues_def)
  show "m_row_addr_idx c' = m_row_addr_idx c" using arg_cong [OF s, of m_row_addr_idx] by (simp add: strip_queues_def)
  show "m_refresh c' = m_refresh c" using arg_cong [OF s, of m_refresh] by (simp add: strip_queues_def)
  show "m_plugins c' = m_plugins c" using arg_cong [OF s, of m_plugins] by (simp add: strip_queues_def)
  show "is_reg_RW_mode c' = is_reg_RW_mode c" using arg_cong [OF s, of is_reg_RW_mode] by (simp add: strip_queues_def)
  show "m_wr_low_watermark c' = m_wr_low_watermark c"
    using arg_cong [OF s, of m_wr_low_watermark] by (simp add: strip_queues_def)
  show "m_wr_high_watermark c' = m_wr_high_watermark c"
    using arg_cong [OF s, of m_wr_high_watermark] by (simp add: strip_queues_def)
qed

text \<open>What holds of the request that scheduling hands to the second half of \<open>tick\<close>.\<close>

definition may_issue :: "dram \<Rightarrow> AiMController \<Rightarrow> request \<Rightarrow> bool" where
  "may_issue d c r \<longleftrightarrow> request_ready d r = Ok True
     \<and> dram_get_preq d (final_command r) (addr_vec r) = Ok (command r)
     \<and> interrupts_active d c r = Ok False"

definition selection_ok :: "dram \<Rightarrow> AiMController \<Rightarrow> buffer_id \<Rightarrow> nat \<Rightarrow> bool" where
  "selection_ok d c x i \<longleftrightarrow> i < length (buffer (get_buf x c))
     \<and> (x \<in> {Priority_buffer, AiM_buffer} \<longrightarrow> i = 0)
     \<and> (x \<in> {Read_buffer, Write_buffer} \<longrightarrow> buffer (m_aim_buffer c) = [])
     \<and> (x \<in> {Read_buffer, Write_buffer, AiM_buffer} \<longrightarrow> buffer (m_priority_buffer c) = [])
     \<and> (x = AiM_buffer \<and> is_barrier (buffer (get_buf x c) ! i)
        \<or> may_issue d c (buffer (get_buf x c) ! i))"

lemma protect_active_spec:
  assumes "protect_active d (sel, c) = Ok (sel', c')"
  shows "c' = c" "sel' = None \<or> sel' = sel"
    "sel' = Some (x, i) \<Longrightarrow> interrupts_active d c (buffer (get_buf x c) ! i) = Ok False"
  using assms by (auto simp: protect_active_def andThen_Ok_iff split: option.splits if_splits)

lemma pick_head_spec:
  assumes "pick_head d x c = Ok (sel, c')" and "buf_size (get_buf x c) \<noteq> 0"
  shows "scheduled c c'" "\<And>y. y \<noteq> x \<Longrightarrow> get_buf y c' = get_buf y c"
    "sel = Some (y, i) \<Longrightarrow> y = x \<and> i = 0 \<and> 0 < length (buffer (get_buf x c'))
       \<and> request_ready d (buffer (get_buf x c') ! 0) = Ok True
       \<and> dram_get_preq d (final_command (buffer (get_buf x c') ! 0)) (addr_vec (buffer (get_buf x c') ! 0))
          = Ok (command (buffer (get_buf x c') ! 0))"
proof -
  from assms(1) obtain r f where r: "rescheduled d (buffer (get_buf x c) ! 0) r"
    "request_ready d r = Ok f" "sel = (if f then Some (x, 0) else None)"
    "c' = put_buf x (buf_put 0 r (get_buf x c)) c"
    by (auto simp: pick_head_def andThen_Ok_iff rescheduled_def)
  have pos: "0 < length (buffer (get_buf x c))" using assms(2) by (simp add: buf_size_def)
  have head: "buffer (buf_put 0 r (get_buf x c)) ! 0 = r" using pos by (simp add: buf_put_def)
  have keep: "final_command r = final_command (buffer (get_buf x c) ! 0)"
    "addr_vec r = addr_vec (buffer (get_buf x c) ! 0)"
    by (rule rescheduled_keeps [OF r(1)], simp)+
  show "scheduled c c'" unfolding r(4)
    by (rule scheduled_put, rule requeued_put [OF pos recommanded_set [OF r(1)]])
  show "\<And>y. y \<noteq> x \<Longrightarrow> get_buf y c' = get_buf y c" using r(4) by simp
  show "y = x \<and> i = 0 \<and> 0 < length (buffer (get_buf x c'))
       \<and> request_ready d (buffer (get_buf x c') ! 0) = Ok True
       \<and> dram_get_preq d (final_command (buffer (get_buf x c') ! 0)) (addr_vec (buffer (get_buf x c') ! 0))
          = Ok (command (buffer (get_buf x c') ! 0))" if "sel = Some (y, i)"
    using that r keep head pos rescheduled_fields(2) [OF r(1)] by (auto simp: buf_put_def split: if_splits)
qed

context request_scheduler begin

lemma best_requeued: "best d b = Ok (sel, b') \<Longrightarrow> requeued b b'"
  unfolding requeued_def
  by (auto simp: best_capacity intro: list_all2_mono [OF best_rescheduled] recommanded_set)

lemma best_selected:
  assumes "best d b = Ok (Some i, b')"
  shows "dram_get_preq d (final_command (buffer b' ! i)) (addr_vec (buffer b' ! i)) = Ok (command (buffer b' ! i))"
proof -
  have i: "i < length (buffer b')" by (rule best_index [OF assms])
  have r: "rescheduled d (buffer b ! i) (buffer b' ! i)"
    using best_rescheduled [OF assms] i by (simp add: list_all2_conv_all_nth)
  have "final_command (buffer b' ! i) = final_command (buffer b ! i)" "addr_vec (buffer b' ! i) = addr_vec (buffer b ! i)"
    by (rule rescheduled_keeps [OF r], simp)+
  then show ?thesis using rescheduled_fields(2) [OF r] by simp
qed

lemma pick_best_spec:
  assumes "pick_best best d x c = Ok (sel, c')"
  shows "scheduled c c'" "\<And>y. y \<noteq> x \<Longrightarrow> get_buf y c' = get_buf y c"
    "sel = Some (y, i) \<Longrightarrow> y = x \<and> i < length (buffer (get_buf x c'))
       \<and> request_ready d (buffer (get_buf x c') ! i) = Ok True
       \<and> dram_get_preq d (final_command (buffer (get_buf x c') ! i)) (addr_vec (buffer (get_buf x c') ! i))
          = Ok (command (buffer (get_buf x c') ! i))"
proof -
  from assms obtain it b where b: "best d (get_buf x c) = Ok (it, b)"
    by (auto simp: pick_best_def andThen_Ok_iff)
  then have c': "c' = put_buf x b c" using assms
    by (auto simp: pick_best_def andThen_Ok_iff split: option.splits)
  show "scheduled c c'" unfolding c' by (rule scheduled_put, rule best_requeued [OF b])
  show "\<And>y. y \<noteq> x \<Longrightarrow> get_buf y c' = get_buf y c" using c' by simp
  show "y = x \<and> i < length (buffer (get_buf x c'))
       \<and> request_ready d (buffer (get_buf x c') ! i) = Ok True
       \<and> dram_get_preq d (final_command (buffer (get_buf x c') ! i)) (addr_vec (buffer (get_buf x c') ! i))
          = Ok (command (buffer (get_buf x c') ! i))" if "sel = Some (y, i)"
    using assms that b c' best_index [of d "get_buf x c" i b] best_selected [of d "get_buf x c" i b]
    by (auto simp: pick_best_def split: option.splits if_splits) (auto simp: andThen_Ok_iff split: if_splits)
qed

end

lemma scheduled_empty: "scheduled c c' \<Longrightarrow> buffer (get_buf x c') = [] \<longleftrightarrow> buffer (get_buf x c) = []"
  using requeued_length [of "get_buf x c" "get_buf x c'"] by (auto simp: scheduled_def)

lemma get_buf_names:
  "get_buf Active_buffer c = m_active_buffer c" "get_buf Priority_buffer c = m_priority_buffer c"
  "get_buf Read_buffer c = m_read_buffer c" "get_buf Write_buffer c = m_write_buffer c"
  "get_buf AiM_buffer c = m_aim_buffer c"
  by simp_all

context request_scheduler begin

lemma schedule_queues_spec:
  assumes "schedule_queues best d c = Ok (sel, c')" and "buffer (m_priority_buffer c) = []"
  shows "scheduled c c' \<and> (\<forall>x i. sel = Some (x, i) \<longrightarrow> selection_ok d c' x i)"
proof (cases "buffer (m_aim_buffer c) = []")
  case False
  then have ne: "buf_size (get_buf AiM_buffer c) \<noteq> 0" by (simp add: buf_size_def)
  show ?thesis
  proof (cases "is_barrier (buffer (m_aim_buffer c) ! 0)")
    case True
    then show ?thesis using assms False by (auto simp: schedule_queues_def buf_size_def selection_ok_def)
  next
    case b: False
    from assms(1) False b obtain sel1 c1 where p: "pick_head d AiM_buffer c = Ok (sel1, c1)"
      and q: "protect_active d (sel1, c1) = Ok (sel, c')"
      by (auto simp: schedule_queues_def buf_size_def andThen_Ok_iff)
    note h = pick_head_spec [OF p ne] and k = protect_active_spec [OF q]
    have "buffer (m_priority_buffer c') = []" using h(2) [of Priority_buffer] k(1) assms(2) by simp
    then show ?thesis using h(1) h(3) k
      by (fastforce simp: selection_ok_def may_issue_def)
  qed
next
  case True
  let ?c = "set_write_mode c" and ?x = "if m_is_write_mode (set_write_mode c) then Write_buffer else Read_buffer"
  from assms(1) True obtain sel1 c1 where p: "pick_best best d ?x ?c = Ok (sel1, c1)"
    and q: "protect_active d (sel1, c1) = Ok (sel, c')"
    by (auto simp: schedule_queues_def buf_size_def andThen_Ok_iff Let_def)
  note h = pick_best_spec [OF p] and k = protect_active_spec [OF q]
  have s: "scheduled c c'" using scheduled_trans [OF scheduled_write_mode h(1)] k(1) by simp
  then have "buffer (m_priority_buffer c') = []" "buffer (m_aim_buffer c') = []"
    using scheduled_empty [OF s, of Priority_buffer] scheduled_empty [OF s, of AiM_buffer] assms(2) True by simp_all
  moreover have "?x \<notin> {Priority_buffer, AiM_buffer}" by simp
  ultimately show ?thesis using s h(3) k unfolding selection_ok_def may_issue_def by fastforce
qed

theorem schedule_request_spec:
  assumes "schedule_request best d c = Ok (sel, c')"
  shows "scheduled c c' \<and> (\<forall>x i. sel = Some (x, i) \<longrightarrow> selection_ok d c' x i)"
proof -
  from assms obtain sel1 c1 where p: "pick_best best d Active_buffer c = Ok (sel1, c1)"
    and rest: "(if sel1 \<noteq> None then protect_active d (sel1, c1)
       else if buf_size (m_priority_buffer c1) \<noteq> 0
       then andThen (pick_head d Priority_buffer c1) (protect_active d)
       else schedule_queues best d c1) = Ok (sel, c')"
    by (auto simp: schedule_request_def andThen_Ok_iff)
  note h = pick_best_spec [OF p]
  consider (active) "sel1 \<noteq> None" | (priority) "sel1 = None" "buf_size (m_priority_buffer c1) \<noteq> 0"
    | (queues) "sel1 = None" "buf_size (m_priority_buffer c1) = 0" by blast
  then show ?thesis
  proof cases
    case active
    with rest have q: "protect_active d (sel1, c1) = Ok (sel, c')" by simp
    show ?thesis using h(1,3) protect_active_spec [OF q]
      by (fastforce simp: selection_ok_def may_issue_def)
  next
    case priority
    with rest obtain sel2 c2 where p2: "pick_head d Priority_buffer c1 = Ok (sel2, c2)"
      and q: "protect_active d (sel2, c2) = Ok (sel, c')" by (auto simp: andThen_Ok_iff)
    have ne: "buf_size (get_buf Priority_buffer c1) \<noteq> 0" using priority by simp
    note k = pick_head_spec [OF p2 ne]
    show ?thesis using scheduled_trans [OF h(1) k(1)] k(3) protect_active_spec [OF q]
      by (fastforce simp: selection_ok_def may_issue_def)
  next
    case queues
    then have "schedule_queues best d c1 = Ok (sel, c')" "buffer (m_priority_buffer c1) = []"
      using rest by (auto simp: buf_size_def)
    from schedule_queues_spec [OF this] h(1) show ?thesis using scheduled_trans by blast
  qed
qed

end

end
