(* ===== verification/AiM_Controller_Inv.thy ===== *)
theory AiM_Controller_Inv
  imports AiM_Controller_Frame
begin

text \<open>
  The states the AiM controller of \<^verbatim>\<open>src/src/dram_controller/impl/AiM_dram_controller.cpp\<close> reaches
  by \<open>send\<close> and \<open>tick\<close>, the effect of each of them on its queues (\<open>effect\<close>), the
  conservation of requests, and the invariants of the queues.
\<close>

subsection \<open>The effect of serving a request\<close>

text \<open>The fields of a request that a controller never writes.\<close>

definition core :: "request \<Rightarrow> request" where
  "core r = r\<lparr>command := 0, final_command := 0, arrive := 0, issue := 0, depart := 0\<rparr>"

lemma core_updates [simp]:
  "core (r\<lparr>command := x\<rparr>) = core r" "core (r\<lparr>final_command := x\<rparr>) = core r"
  "core (r\<lparr>arrive := x\<rparr>) = core r" "core (r\<lparr>issue := x\<rparr>) = core r" "core (r\<lparr>depart := x\<rparr>) = core r"
  by (simp_all add: core_def)

lemma core_fields:
  assumes "core r = core q"
  shows "req_type r = req_type q" "opcode r = opcode q" "addr_vec r = addr_vec q"
    "req_callback r = req_callback q" "host_req_id r = host_req_id q" "AiM_req_id r = AiM_req_id q"
    "addr r = addr q"
  using arg_cong [OF assms, of req_type] arg_cong [OF assms, of opcode] arg_cong [OF assms, of addr_vec]
    arg_cong [OF assms, of req_callback] arg_cong [OF assms, of host_req_id] arg_cong [OF assms, of AiM_req_id]
    arg_cong [OF assms, of addr]
  by (simp_all add: core_def)

abbreviation bufs :: "AiMController \<Rightarrow> buffer_id \<Rightarrow> ReqBuffer" where
  "bufs c \<equiv> (\<lambda>x. get_buf x c)"

text \<open>The four ways in which serving the request at position \<open>i\<close> of buffer \<open>x\<close> moves it: \<open>q\<close>
  is the request as the step leaves it.\<close>

inductive effect :: "AiMISRInfo \<Rightarrow> buffer_id \<Rightarrow> nat \<Rightarrow> AiMController \<Rightarrow> request \<Rightarrow> AiMController \<Rightarrow> bool"
  for info x i c q c' where
    finish_read: "bufs c' = (bufs c)(x := remove_req i (get_buf x c)) \<Longrightarrow>
      pending_reads c' = pending_reads c @ [q] \<Longrightarrow> pending_writes c' = pending_writes c \<Longrightarrow>
      is_barrier q \<or> is_reader info q = Ok True \<Longrightarrow> effect info x i c q c'"
  | finish_write: "bufs c' = (bufs c)(x := remove_req i (get_buf x c)) \<Longrightarrow>
      pending_reads c' = pending_reads c \<Longrightarrow> pending_writes c' = pending_writes c @ [q] \<Longrightarrow>
      is_reader info q = Ok False \<Longrightarrow> effect info x i c q c'"
  | activate: "(let b = (bufs c)(x := buf_put i q (get_buf x c));
          b = b(Active_buffer := snd (enqueue q (b Active_buffer)))
        in bufs c' = b(x := remove_req i (b x))) \<Longrightarrow>
      pending_reads c' = pending_reads c \<Longrightarrow> pending_writes c' = pending_writes c \<Longrightarrow>
      req_type q \<noteq> AIM \<Longrightarrow> effect info x i c q c'"
  | keep: "bufs c' = (bufs c)(x := buf_put i q (get_buf x c)) \<Longrightarrow>
      pending_reads c' = pending_reads c \<Longrightarrow> pending_writes c' = pending_writes c \<Longrightarrow>
      effect info x i c q c'"

lemma remove_put [simp]: "remove_req i (buf_put i r b) = remove_req i b"
  by (simp add: remove_req_def buf_put_def remove_at_def)

lemma get_buf_updates [simp]:
  "get_buf x (c\<lparr>pending_reads := p\<rparr>) = get_buf x c" "get_buf x (c\<lparr>pending_writes := p\<rparr>) = get_buf x c"
  "get_buf x (c\<lparr>m_plugins := ps\<rparr>) = get_buf x c" "get_buf x (c\<lparr>ctrl_clk := k\<rparr>) = get_buf x c"
  "get_buf x (c\<lparr>is_reg_RW_mode := m\<rparr>) = get_buf x c" "get_buf x (c\<lparr>s_num_commands := n\<rparr>) = get_buf x c"
  "get_buf x (c\<lparr>s_num_AiM_cycles := sa\<rparr>) = get_buf x c" "get_buf x (c\<lparr>s_num_RW_cycles := sr\<rparr>) = get_buf x c"
  "get_buf x (c\<lparr>s_num_idle_cycles := j\<rparr>) = get_buf x c"
  "get_buf x (c\<lparr>s_num_active_cycles := j\<rparr>) = get_buf x c"
  "get_buf x (c\<lparr>s_num_precharged_cycles := j\<rparr>) = get_buf x c"
  "get_buf x (c\<lparr>m_refresh := rf\<rparr>) = get_buf x c"
  "get_buf x (c\<lparr>m_active_buffer := b\<rparr>) = (if x = Active_buffer then b else get_buf x c)"
  "get_buf x (c\<lparr>m_priority_buffer := b\<rparr>) = (if x = Priority_buffer then b else get_buf x c)"
  by (cases x; simp)+

lemma switch_mode_core:
  "switch_mode info spec r m = Ok (r', m') \<Longrightarrow>
   core r' = core r \<and> final_command r' = final_command r \<and> arrive r' = arrive r \<and> issue r' = issue r"
  by (auto simp: switch_mode_def andThen_Ok_iff split: if_splits)

lemma serve_request_effect:
  assumes "serve_request info x i d c = Ok (d', c')"
  obtains q where "effect info x i c q c'" "core q = core (buffer (get_buf x c) ! i)"
    "arrive q = arrive (buffer (get_buf x c) ! i)" "final_command q = final_command (buffer (get_buf x c) ! i)"
    "ctrl_clk c' = ctrl_clk c" "m_refresh c' = m_refresh c" "m_channel_id c' = m_channel_id c"
proof -
  let ?r = "buffer (get_buf x c) ! i" and ?spec = "dram_spec d"
  from assms obtain r mode ps where sw: "switch_mode info ?spec ?r (is_reg_RW_mode c) = Ok (r, mode)"
    and tail: "(let r = (if issue r = -1 then r\<lparr>issue := ctrl_clk c - 1\<rparr> else r) in
         andThen (issue_command (command r) (addr_vec r) d) (\<lambda>d.
           (let c = put_buf x (buf_put i r (get_buf x c))
                  (c\<lparr>is_reg_RW_mode := mode, m_plugins := ps,
                     s_num_commands := increment (s_num_commands c) (command r) 1\<rparr>) in
            andThen (if command r = final_command r then complete_request info ?spec x i r c
                     else continue_request ?spec x i r c) (\<lambda>c.
              Ok (d, c))))) = Ok (d', c')"
    by (auto simp: serve_request_def Let_def andThen_Ok_iff)
  define q where "q = (if issue r = -1 then r\<lparr>issue := ctrl_clk c - 1\<rparr> else r)"
  define c1 where "c1 = put_buf x (buf_put i q (get_buf x c))
      (c\<lparr>is_reg_RW_mode := mode, m_plugins := ps, s_num_commands := increment (s_num_commands c) (command q) 1\<rparr>)"
  have q: "core q = core ?r" "arrive q = arrive ?r" "final_command q = final_command ?r"
    using switch_mode_core [OF sw] by (auto simp: q_def)
  have c1: "bufs c1 = (bufs c)(x := buf_put i q (get_buf x c))" "pending_reads c1 = pending_reads c"
    "pending_writes c1 = pending_writes c" "ctrl_clk c1 = ctrl_clk c" "m_refresh c1 = m_refresh c"
    "m_channel_id c1 = m_channel_id c"
    by (auto simp: c1_def fun_eq_iff)
  have out: "(if command q = final_command q then complete_request info ?spec x i q c1
      else continue_request ?spec x i q c1) = Ok c'"
    using tail unfolding Let_def q_def [symmetric] c1_def [symmetric] by (auto simp: andThen_Ok_iff)
  show thesis
  proof (cases "command q = final_command q")
    case True
    with out obtain latency reader where l: "is_reader info (q\<lparr>depart := ctrl_clk c1 + latency\<rparr>) = Ok reader"
      and c': "c' = remove_from x i
        (let r = q\<lparr>depart := ctrl_clk c1 + latency\<rparr>;
             c = (if reader then c1\<lparr>pending_reads := pending_reads c1 @ [r]\<rparr>
                  else c1\<lparr>pending_writes := pending_writes c1 @ [r]\<rparr>)
         in if req_type r = AIM
            then c\<lparr>s_num_AiM_cycles := increment (s_num_AiM_cycles c) (opcode r) (ctrl_clk c - issue r)\<rparr>
            else c\<lparr>s_num_RW_cycles := increment (s_num_RW_cycles c) (req_type r) (ctrl_clk c - issue r)\<rparr>)"
      by (auto simp: complete_request_def andThen_Ok_iff Let_def)
    have b: "bufs c' = (bufs c)(x := remove_req i (get_buf x c))"
      unfolding c' by (auto simp: remove_from_def Let_def fun_eq_iff fun_cong [OF c1(1)])
    have p: "(pending_reads c' = pending_reads c @ [q\<lparr>depart := ctrl_clk c1 + latency\<rparr>] \<and> pending_writes c' = pending_writes c) \<and> reader
        \<or> (pending_reads c' = pending_reads c \<and> pending_writes c' = pending_writes c @ [q\<lparr>depart := ctrl_clk c1 + latency\<rparr>]) \<and> \<not> reader"
      unfolding c' by (auto simp: remove_from_def Let_def c1)
    have f: "ctrl_clk c' = ctrl_clk c" "m_refresh c' = m_refresh c" "m_channel_id c' = m_channel_id c"
      unfolding c' by (auto simp: remove_from_def Let_def c1)
    have "effect info x i c (q\<lparr>depart := ctrl_clk c1 + latency\<rparr>) c'"
      using p l finish_read [OF b] finish_write [OF b] by (cases reader) auto
    from that [OF this] q f show thesis by simp
  next
    case False
    with out have cont: "continue_request ?spec x i q c1 = Ok c'" by simp
    show thesis
    proof (cases "c' = c1")
      case True
      have "effect info x i c q c'" using c1 True by (intro keep) auto
      from that [OF this] q c1 True show thesis by simp
    next
      case False
      with cont have t: "req_type q \<noteq> AIM"
        and c': "c' = remove_from x i (c1\<lparr>m_active_buffer := snd (enqueue q (m_active_buffer c1))\<rparr>)"
        by (auto simp: continue_request_def andThen_Ok_iff split: if_splits)
      have a: "m_active_buffer c1 = ((bufs c)(x := buf_put i q (get_buf x c))) Active_buffer"
        using fun_cong [OF c1(1), of Active_buffer] by simp
      have "effect info x i c q c'"
      proof (rule activate)
        show "let b = (bufs c)(x := buf_put i q (get_buf x c)); b = b(Active_buffer := snd (enqueue q (b Active_buffer)))
          in bufs c' = b(x := remove_req i (b x))"
          unfolding c' Let_def a using fun_cong [OF c1(1)] by (auto simp: remove_from_def fun_eq_iff)
      qed (use t c1 c' in \<open>auto simp: remove_from_def\<close>)
      from that [OF this] q c1 c' show thesis by (simp add: remove_from_def)
    qed
  qed
qed

lemma serve_barrier_effect:
  assumes "serve_barrier x i c = Ok c'" and "is_barrier (buffer (get_buf x c) ! i)"
  shows "effect info x i c ((buffer (get_buf x c) ! i)\<lparr>depart := ctrl_clk c\<rparr>) c'"
    "ctrl_clk c' = ctrl_clk c" "m_refresh c' = m_refresh c" "m_channel_id c' = m_channel_id c"
proof -
  from assms(1) obtain ps where c': "c' = remove_from x i (c\<lparr>m_plugins := ps,
      pending_reads := pending_reads c @ [(buffer (get_buf x c) ! i)\<lparr>depart := ctrl_clk c\<rparr>]\<rparr>)"
    by (auto simp: serve_barrier_def Let_def andThen_Ok_iff)
  show "effect info x i c ((buffer (get_buf x c) ! i)\<lparr>depart := ctrl_clk c\<rparr>) c'"
    using assms(2) unfolding c'
    by (intro finish_read) (auto simp: remove_from_def fun_eq_iff is_barrier_def)
  show "ctrl_clk c' = ctrl_clk c" "m_refresh c' = m_refresh c" "m_channel_id c' = m_channel_id c"
    unfolding c' by (simp_all add: remove_from_def)
qed

lemma effect_cong:
  assumes "effect info x i c q c1" and "bufs c2 = bufs c1"
    and "pending_reads c2 = pending_reads c1" "pending_writes c2 = pending_writes c1"
  shows "effect info x i c q c2"
  using assms(1)
proof cases
  case finish_read
  then show ?thesis using assms(2-4) by (intro effect.finish_read) simp_all
next
  case finish_write
  then show ?thesis using assms(2-4) by (intro effect.finish_write) simp_all
next
  case activate
  then show ?thesis using assms(2-4) by (intro effect.activate) simp_all
next
  case keep
  then show ?thesis using assms(2-4) by (intro effect.keep) simp_all
qed

lemma act_on_cases:
  assumes "act_on info sel d c = Ok (d', c')"
  obtains (idle) "sel = None" "d' = d" "bufs c' = bufs c" "pending_reads c' = pending_reads c"
        "pending_writes c' = pending_writes c" "ctrl_clk c' = ctrl_clk c" "m_refresh c' = m_refresh c"
        "m_channel_id c' = m_channel_id c" "is_reg_RW_mode c' = is_reg_RW_mode c"
    | (act) x i q where "sel = Some (x, i)" "effect info x i c q c'"
        "core q = core (buffer (get_buf x c) ! i)" "arrive q = arrive (buffer (get_buf x c) ! i)"
        "final_command q = final_command (buffer (get_buf x c) ! i)"
        "ctrl_clk c' = ctrl_clk c" "m_refresh c' = m_refresh c" "m_channel_id c' = m_channel_id c"
proof -
  from assms obtain d1 c1 c2 ps where s: "(case sel of None \<Rightarrow> Ok (d, count_idle c)
       | Some (x, i) \<Rightarrow>
           if is_barrier (buffer (get_buf x c) ! i) then andThen (serve_barrier x i c) (\<lambda>c. Ok (d, c))
           else serve_request info x i d c) = Ok (d1, c1)" and d': "d' = d1"
    and w: "count_open_rows d1 c1 = Ok c2" and c': "c' = c2\<lparr>m_plugins := ps\<rparr>"
    by (auto simp: act_on_def andThen_Ok_iff)
  have same: "bufs c' = bufs c1" "pending_reads c' = pending_reads c1" "pending_writes c' = pending_writes c1"
    "ctrl_clk c' = ctrl_clk c1" "m_refresh c' = m_refresh c1" "m_channel_id c' = m_channel_id c1"
    "is_reg_RW_mode c' = is_reg_RW_mode c1"
    using w unfolding c' by (auto simp: count_open_rows_def andThen_Ok_iff fun_eq_iff split: if_splits)
  show thesis
  proof (cases sel)
    case None
    then have "d1 = d" "c1 = count_idle c" using s by auto
    then show thesis using that(1) None d' same by (simp add: count_idle_def)
  next
    case (Some xi)
    then obtain x i where sel: "sel = Some (x, i)" by (cases xi) auto
    let ?r = "buffer (get_buf x c) ! i"
    have "\<exists>q. effect info x i c q c1 \<and> core q = core ?r \<and> arrive q = arrive ?r \<and> final_command q = final_command ?r
        \<and> ctrl_clk c1 = ctrl_clk c \<and> m_refresh c1 = m_refresh c \<and> m_channel_id c1 = m_channel_id c"
    proof (cases "is_barrier ?r")
      case True
      then have "serve_barrier x i c = Ok c1" using s sel by (auto simp: andThen_Ok_iff)
      from serve_barrier_effect [OF this True] show ?thesis
        by (intro exI [of _ "?r\<lparr>depart := ctrl_clk c\<rparr>"]) simp
    next
      case False
      then have "serve_request info x i d c = Ok (d1, c1)" using s sel by simp
      then show ?thesis by (rule serve_request_effect) blast
    qed
    then obtain q where "effect info x i c q c1" "core q = core ?r" "arrive q = arrive ?r"
      "final_command q = final_command ?r" "ctrl_clk c1 = ctrl_clk c" "m_refresh c1 = m_refresh c"
      "m_channel_id c1 = m_channel_id c" by blast
    then show thesis using that(2) [OF sel effect_cong] same by simp
  qed
qed

subsection \<open>Refresh requests\<close>

text \<open>The refresh manager only appends its requests to the priority buffer.\<close>

definition posted :: "AiMController \<Rightarrow> request list \<Rightarrow> AiMController" where
  "posted c qs = c\<lparr>m_priority_buffer := (m_priority_buffer c)\<lparr>buffer := buffer (m_priority_buffer c) @ qs\<rparr>\<rparr>"

lemma posted_Nil [simp]: "posted c [] = c"
  by (simp add: posted_def)

lemma posted_posted [simp]: "posted (posted c qs) ps = posted c (qs @ ps)"
  by (simp add: posted_def)

lemma priority_send_cases:
  assumes "priority_send spec r c = Ok (ok, c')"
  obtains (sent) f where "ok" "request_final_command spec r = Ok f" "c' = posted c [r\<lparr>final_command := f\<rparr>]"
      "buf_size (m_priority_buffer c) \<le> max_size (m_priority_buffer c)"
    | (full) "\<not> ok" "c' = c" "max_size (m_priority_buffer c) < buf_size (m_priority_buffer c)"
proof -
  from assms obtain f where f: "request_final_command spec r = Ok f"
    and e: "(case enqueue (r\<lparr>final_command := f\<rparr>) (m_priority_buffer c) of
       (is_success, b) \<Rightarrow> Ok (is_success, c\<lparr>m_priority_buffer := b\<rparr>)) = (Ok (ok, c') :: (bool \<times> AiMController) result)"
    by (auto simp: priority_send_def andThen_Ok_iff)
  show thesis
  proof (cases "buf_size (m_priority_buffer c) \<le> max_size (m_priority_buffer c)")
    case True
    then show thesis using that(1) f e by (auto simp: enqueue_def posted_def)
  next
    case False
    then show thesis using that(2) e by (auto simp: enqueue_def)
  qed
qed

definition posted_ok :: "dram_spec \<Rightarrow> AiMController \<Rightarrow> AiMController \<Rightarrow> bool" where
  "posted_ok spec c c' \<longleftrightarrow> (\<exists>qs. c' = posted c qs
     \<and> (\<forall>q\<in>set qs. request_final_command spec q = Ok (final_command q))
     \<and> (qs \<noteq> [] \<longrightarrow> buf_bounded (m_priority_buffer c')))"

lemma request_final_command_update [simp]:
  "request_final_command spec (r\<lparr>final_command := x\<rparr>) = request_final_command spec r"
  "request_final_command spec (r\<lparr>command := x\<rparr>) = request_final_command spec r"
  "request_final_command spec (r\<lparr>arrive := x\<rparr>) = request_final_command spec r"
  "request_final_command spec (r\<lparr>issue := x\<rparr>) = request_final_command spec r"
  "request_final_command spec (r\<lparr>depart := x\<rparr>) = request_final_command spec r"
  by (simp_all add: request_final_command_def cong: if_cong)

lemma refresh_tick_posts:
  assumes "refresh_tick spec c = Ok c'"
  shows "\<exists>c1. posted_ok spec c c1 \<and> c' = c1\<lparr>m_refresh := m_refresh c'\<rparr>"
proof -
  from assms obtain rf c1 where t: "AllBankRefresh_tick (priority_send spec) (m_channel_id c) (m_refresh c) c = Ok (rf, c1)"
    and c': "c' = c1\<lparr>m_refresh := rf\<rparr>"
    by (auto simp: refresh_tick_def andThen_Ok_iff)
  have "posted_ok spec c c1"
  proof (rule all_bank.tick_sends [OF t])
    show "posted_ok spec c c" unfolding posted_ok_def by (rule exI [of _ "[]"]) simp
    show "posted_ok spec c v" if u: "posted_ok spec c u" and s: "priority_send spec q u = Ok (True, v)" for q u v
    proof -
      from u obtain qs where qs: "u = posted c qs" "\<forall>q\<in>set qs. request_final_command spec q = Ok (final_command q)"
        by (auto simp: posted_ok_def)
      from s show ?thesis
      proof (cases rule: priority_send_cases)
        case (sent f)
        then have "v = posted c (qs @ [q\<lparr>final_command := f\<rparr>])" using qs(1) by simp
        then show ?thesis using qs sent unfolding posted_ok_def
          by (intro exI [of _ "qs @ [q\<lparr>final_command := f\<rparr>]"])
            (auto simp: buf_bounded_def buf_size_def posted_def)
      qed simp
    qed
  qed
  with c' show ?thesis by auto
qed

lemma refresh_tick_none:
  assumes "refresh_tick spec c = Ok c'" and "m_num_ranks (m_refresh c) \<le> 0"
  shows "c' = c\<lparr>m_refresh := m_refresh c'\<rparr>" "m_num_ranks (m_refresh c') = m_num_ranks (m_refresh c)"
  using assms by (auto simp: refresh_tick_def AllBankRefresh_tick_def Let_def andThen_Ok_iff split: if_splits)

end
