(* ===== verification/AiM_Controller_Props.thy ===== *)
theory AiM_Controller_Props
  imports AiM_Controller_Inv
begin

text \<open>
  Invariants and properties of the AiM controller of
  \<^verbatim>\<open>src/src/dram_controller/impl/AiM_dram_controller.cpp\<close> over every sequence of \<open>send\<close> and
  \<open>tick\<close> (\<open>AiM_reachable\<close>): the queues stay bounded, typed and exclusive, no request is lost or
  invented, a barrier is answered after everything before it, and a command is issued only
  when the device is ready for it.
\<close>

subsection \<open>The operations by cases\<close>

fun queue_of :: "Type \<Rightarrow> buffer_id" where
  "queue_of Read = Read_buffer"
| "queue_of Write = Write_buffer"
| "queue_of _ = AiM_buffer"

definition append_req :: "request \<Rightarrow> ReqBuffer \<Rightarrow> ReqBuffer" where
  "append_req r b = b\<lparr>buffer := buffer b @ [r]\<rparr>"

lemma put_get_buf [simp]: "put_buf x (get_buf x c) c = c"
  by (cases x) simp_all

lemma enqueue_to_eq:
  "enqueue_to x r c =
     (if buf_size (get_buf x c) \<le> max_size (get_buf x c) then (True, r, put_buf x (append_req r (get_buf x c)) c)
      else (False, r\<lparr>arrive := -1\<rparr>, c))"
  by (simp add: enqueue_to_def enqueue_def append_req_def)

lemma AiM_send_cases:
  assumes "AiM_send spec r c = Ok (ok, r', c')"
  obtains (refused) "\<not> ok" "c' = c" "core r' = core r"
    | (forwarded) "ok" "req_type r = Read" "c' = c\<lparr>pending_reads := pending_reads c @ [r']\<rparr>" "core r' = core r"
        "\<exists>w\<in>set (buffer (m_write_buffer c)). addr w = addr r" "buffer (m_aim_buffer c) = []"
    | (queued) "ok" "req_type r \<in> {Read, Write, AIM}" "core r' = core r" "arrive r' = ctrl_clk c"
        "c' = put_buf (queue_of (req_type r)) (append_req r' (get_buf (queue_of (req_type r)) c)) c"
        "buf_size (get_buf (queue_of (req_type r)) c) \<le> max_size (get_buf (queue_of (req_type r)) c)"
        "request_final_command spec r' = Ok (final_command r')"
        "req_type r = AIM \<Longrightarrow> buffer (m_write_buffer c) = [] \<and> buffer (m_read_buffer c) = []"
        "req_type r \<noteq> AIM \<Longrightarrow> buffer (m_aim_buffer c) = []"
proof (cases "req_type r = AIM \<and> (buf_size (m_write_buffer c) \<noteq> 0 \<or> buf_size (m_read_buffer c) \<noteq> 0)
    \<or> req_type r \<noteq> AIM \<and> buf_size (m_aim_buffer c) \<noteq> 0")
  case True
  then have "ok = False \<and> c' = c \<and> r' = r" using assms by (auto simp: AiM_send_def split: if_splits)
  then show thesis using that(1) by simp
next
  case False
  then obtain f where f: "request_final_command spec r = Ok f"
    and e: "(let r = r\<lparr>final_command := f\<rparr> in
         if req_type r = Read \<and> list_ex (\<lambda>wreq. addr wreq = addr r) (buffer (m_write_buffer c))
         then (let r = r\<lparr>depart := ctrl_clk c + 1\<rparr> in
               Ok (True, r, c\<lparr>pending_reads := pending_reads c @ [r]\<rparr>))
         else (let r = r\<lparr>arrive := ctrl_clk c\<rparr> in
               case req_type r of
                 Read \<Rightarrow> Ok (enqueue_to Read_buffer r c)
               | Write \<Rightarrow> Ok (enqueue_to Write_buffer r c)
               | AIM \<Rightarrow> Ok (enqueue_to AiM_buffer r c)
               | _ \<Rightarrow> Err (Runtime_error ''Invalid request type!''))) = Ok (ok, r', c')"
    using assms by (auto simp: AiM_send_def andThen_Ok_iff split: if_splits)
  have guard: "req_type r = AIM \<Longrightarrow> buffer (m_write_buffer c) = [] \<and> buffer (m_read_buffer c) = []"
    "req_type r \<noteq> AIM \<Longrightarrow> buffer (m_aim_buffer c) = []"
    using False by (auto simp: buf_size_def)
  show thesis
  proof (cases "req_type r = Read \<and> list_ex (\<lambda>wreq. addr wreq = addr r) (buffer (m_write_buffer c))")
    case True
    then have "ok" "r' = r\<lparr>final_command := f, depart := ctrl_clk c + 1\<rparr>"
      "c' = c\<lparr>pending_reads := pending_reads c @ [r']\<rparr>" using e by (auto simp: Let_def)
    then show thesis using that(2) True guard by (auto simp: list_ex_iff)
  next
    case no_forward: False
    define q where "q = r\<lparr>final_command := f, arrive := ctrl_clk c\<rparr>"
    let ?x = "queue_of (req_type r)"
    have t: "req_type r \<in> {Read, Write, AIM}" and e': "enqueue_to ?x q c = (ok, r', c')"
      using e no_forward by (cases "req_type r"; simp add: q_def)+
    show thesis
    proof (cases "buf_size (get_buf ?x c) \<le> max_size (get_buf ?x c)")
      case True
      then have "ok" "r' = q" "c' = put_buf ?x (append_req q (get_buf ?x c)) c"
        using e' by (auto simp: enqueue_to_eq)
      then show thesis using that(3) t guard True f
        by (simp add: q_def)
    next
      case False
      then have "\<not> ok" "c' = c" "r' = q\<lparr>arrive := -1\<rparr>" using e' by (auto simp: enqueue_to_eq)
      then show thesis using that(1) by (simp add: q_def)
    qed
  qed
qed

text \<open>What \<open>serve_completed_reqs\<close> takes off the two pending queues.\<close>

definition completes :: "AiMController \<Rightarrow> bool" where
  "completes c \<longleftrightarrow> (case pending_reads c of [] \<Rightarrow> False
     | r # _ \<Rightarrow> depart r \<le> ctrl_clk c \<and> (\<not> is_barrier r \<or> pending_writes c = []))"

definition completed_reads :: "AiMController \<Rightarrow> request list" where
  "completed_reads c = (if completes c then [hd (pending_reads c)] else [])"

definition completed_writes :: "AiMController \<Rightarrow> request list" where
  "completed_writes c = filter (\<lambda>w. depart w \<le> ctrl_clk c) (pending_writes c)"

lemma serve_completed_eq:
  "serve_completed_reqs cb c s =
     andThen (fold_result (run_callback cb) (completed_reads c) s) (\<lambda>s.
       Ok (c\<lparr>pending_reads := (if completes c then tl (pending_reads c) else pending_reads c),
             pending_writes := filter (\<lambda>w. \<not> depart w \<le> ctrl_clk c) (pending_writes c)\<rparr>, s))"
proof -
  have "fold_result (run_callback cb) [r] s = andThen (run_callback cb r s) Ok" for r
    by (simp add: andThen_def split: sum.splits)
  then show ?thesis
    by (cases "pending_reads c")
      (auto simp: serve_completed_reqs_def completed_reads_def completes_def andThen_assoc)
qed

lemma serve_completed_cases:
  assumes "serve_completed_reqs cb c s = Ok (c', s')"
  shows "c' = c\<lparr>pending_reads := (if completes c then tl (pending_reads c) else pending_reads c),
      pending_writes := filter (\<lambda>w. \<not> depart w \<le> ctrl_clk c) (pending_writes c)\<rparr>"
    "fold_result (run_callback cb) (completed_reads c) s = Ok s'"
  using assms by (auto simp: serve_completed_eq andThen_Ok_iff)

lemma AiM_tick_cases:
  assumes "AiM_tick info best cb d c s = Ok (d', c', s')"
  obtains c1 c2 sel c3 where
    "serve_completed_reqs cb (c\<lparr>ctrl_clk := ctrl_clk c + 1\<rparr>) s = Ok (c1, s')"
    "refresh_tick (dram_spec d) c1 = Ok c2" "schedule_request best d c2 = Ok (sel, c3)"
    "act_on info sel d c3 = Ok (d', c')"
  using assms by (auto simp: AiM_tick_def andThen_Ok_iff)

subsection \<open>Reachable states\<close>

inductive AiM_reachable ::
  "AiMISRInfo \<Rightarrow> (dram \<Rightarrow> ReqBuffer \<Rightarrow> (nat option \<times> ReqBuffer) result) \<Rightarrow> (request \<Rightarrow> 's \<Rightarrow> 's result)
    \<Rightarrow> dram_spec \<Rightarrow> AiMController \<Rightarrow> bool"
  for info best cb spec where
    start: "AiMController_init cfg ch = Ok c0 \<Longrightarrow> AiMController_connect info spec c0 = Ok c \<Longrightarrow>
      AiM_reachable info best cb spec c"
  | send: "AiM_reachable info best cb spec c \<Longrightarrow> AiM_send spec r c = Ok (ok, r', c') \<Longrightarrow>
      AiM_reachable info best cb spec c'"
  | tick: "AiM_reachable info best cb spec c \<Longrightarrow> dram_spec d = spec \<Longrightarrow>
      AiM_tick info best cb d c s = Ok (d', c', s') \<Longrightarrow> AiM_reachable info best cb spec c'"

inductive_cases AiM_reachableE: "AiM_reachable info best cb spec c"

lemma connect_start:
  assumes "AiMController_init cfg ch = Ok c0" and "AiMController_connect info spec c0 = Ok c"
  shows "buffer (get_buf x c) = []" "max_size (get_buf x c) = (if x = Priority_buffer then 1568 else 32)"
    "pending_reads c = []" "pending_writes c = []" "ctrl_clk c = 0" "is_reg_RW_mode c = False"
    "m_is_write_mode c = False" "m_channel_id c = ch"
    "get_level_size spec ''rank'' = Ok (m_num_ranks (m_refresh c))"
    "m_wr_low_watermark c = opt_or (cfg_wr_low_watermark cfg) default_low_watermark"
    "m_wr_high_watermark c = opt_or (cfg_wr_high_watermark cfg) default_high_watermark"
proof -
  from assms(1) obtain ratio where c0: "AiMController_init cfg ch = Ok c0" "cfg_clock_ratio cfg = Some ratio"
    by (auto simp: AiMController_init_def split: option.splits)
  from assms(2) obtain row rf ps rw aim cmds where rf: "AllBankRefresh_setup spec (m_refresh c0) = Ok rf"
    and c: "c = c0\<lparr>m_row_addr_idx := row, m_priority_buffer := (m_priority_buffer c0)\<lparr>max_size := 1568\<rparr>,
      s_num_RW_cycles := rw, s_num_AiM_cycles := aim, s_num_commands := cmds, m_refresh := rf, m_plugins := ps\<rparr>"
    unfolding AiMController_connect_def AiMController_setup_def by (auto simp: andThen_Ok_iff)
  have empty: "get_buf x c0 = \<lparr>buffer = [], max_size = 32\<rparr>" for x
    using c0 by (cases x) (auto simp: AiMController_init_def ReqBuffer_new_def)
  have init: "pending_reads c0 = []"
    "pending_writes c0 = []" "ctrl_clk c0 = 0" "is_reg_RW_mode c0 = False" "m_is_write_mode c0 = False"
    "m_channel_id c0 = ch"
    "m_wr_low_watermark c0 = opt_or (cfg_wr_low_watermark cfg) default_low_watermark"
    "m_wr_high_watermark c0 = opt_or (cfg_wr_high_watermark cfg) default_high_watermark"
    using c0 by (auto simp: AiMController_init_def ReqBuffer_new_def)
  show "buffer (get_buf x c) = []" "max_size (get_buf x c) = (if x = Priority_buffer then 1568 else 32)"
    "pending_reads c = []" "pending_writes c = []" "ctrl_clk c = 0" "is_reg_RW_mode c = False"
    "m_is_write_mode c = False" "m_channel_id c = ch"
    "m_wr_low_watermark c = opt_or (cfg_wr_low_watermark cfg) default_low_watermark"
    "m_wr_high_watermark c = opt_or (cfg_wr_high_watermark cfg) default_high_watermark"
    using empty [of x] empty [of Priority_buffer] init unfolding c by (cases x; simp)+
  show "get_level_size spec ''rank'' = Ok (m_num_ranks (m_refresh c))"
    using rf unfolding c by (auto simp: AllBankRefresh_setup_def andThen_Ok_iff)
qed

subsection \<open>The invariant of the queues\<close>

definition belongs :: "buffer_id \<Rightarrow> request \<Rightarrow> bool" where
  "belongs x r \<longleftrightarrow> (x = Read_buffer \<longrightarrow> req_type r = Read) \<and> (x = Write_buffer \<longrightarrow> req_type r = Write)
     \<and> (x = AiM_buffer \<longrightarrow> req_type r = AIM) \<and> (x = Active_buffer \<longrightarrow> req_type r \<noteq> AIM)"

definition queue_ok :: "dram_spec \<Rightarrow> buffer_id \<Rightarrow> ReqBuffer \<Rightarrow> bool" where
  "queue_ok spec x b \<longleftrightarrow> buf_bounded b \<and> max_size b = (if x = Priority_buffer then 1568 else 32)
     \<and> (\<forall>r\<in>set (buffer b). belongs x r \<and> request_final_command spec r = Ok (final_command r))"

definition exclusive :: "AiMController \<Rightarrow> bool" where
  "exclusive c \<longleftrightarrow> buffer (m_aim_buffer c) = [] \<or> buffer (m_read_buffer c) = [] \<and> buffer (m_write_buffer c) = []"

definition AiM_inv :: "dram_spec \<Rightarrow> AiMController \<Rightarrow> bool" where
  "AiM_inv spec c \<longleftrightarrow> exclusive c \<and> (\<forall>x. queue_ok spec x (get_buf x c))"

lemma belongs_core: "core r = core q \<Longrightarrow> belongs x r = belongs x q"
  using core_fields(1) [of r q] by (simp add: belongs_def)

lemma final_command_core: "core r = core q \<Longrightarrow> request_final_command spec r = request_final_command spec q"
  using core_fields(1,2) [of r q] by (simp add: request_final_command_def cong: if_cong)

lemma queue_ok_requeued:
  assumes "queue_ok spec x b" and "requeued b b'"
  shows "queue_ok spec x b'"
proof -
  have "belongs x r' \<and> request_final_command spec r' = Ok (final_command r')" if r': "r' \<in> set (buffer b')" for r'
  proof -
    obtain r where r: "r \<in> set (buffer b)" "recommanded r r'" using requeued_set [OF assms(2) r'] by blast
    have "core r' = core r" "final_command r' = final_command r"
      by (rule recommanded_keeps [OF r(2)], simp)+
    then show ?thesis using assms(1) r(1) belongs_core [of r' r] final_command_core [of r' r]
      by (simp add: queue_ok_def)
  qed
  then show ?thesis using assms requeued_length [OF assms(2)]
    by (simp add: queue_ok_def requeued_def buf_bounded_def buf_size_def)
qed

lemma AiM_inv_scheduled:
  assumes "AiM_inv spec c" and "scheduled c c'"
  shows "AiM_inv spec c'"
proof -
  have "queue_ok spec x (get_buf x c')" for x
    by (rule queue_ok_requeued) (use assms in \<open>auto simp: AiM_inv_def scheduled_def\<close>)
  moreover have "exclusive c'"
    using assms scheduled_empty [OF assms(2), of AiM_buffer] scheduled_empty [OF assms(2), of Read_buffer]
      scheduled_empty [OF assms(2), of Write_buffer] by (auto simp: AiM_inv_def exclusive_def)
  ultimately show ?thesis by (simp add: AiM_inv_def)
qed

lemma queue_ok_remove: "queue_ok spec x b \<Longrightarrow> queue_ok spec x (remove_req i b)"
  using set_remove_at [of i "buffer b"] req_buffer.del_ok [of b i]
  by (auto simp: queue_ok_def remove_req_def)

lemma queue_ok_put:
  assumes "queue_ok spec x b" and "i < length (buffer b)" and "core q = core (buffer b ! i)"
    and "final_command q = final_command (buffer b ! i)"
  shows "queue_ok spec x (buf_put i q b)"
proof -
  have "buffer b ! i \<in> set (buffer b)" using assms(2) by simp
  then have "belongs x q \<and> request_final_command spec q = Ok (final_command q)"
    using assms belongs_core [OF assms(3)] final_command_core [OF assms(3)] by (simp add: queue_ok_def)
  then show ?thesis using assms(1) set_update_subset_insert [of "buffer b" i q]
    by (auto simp: queue_ok_def buf_put_def buf_bounded_def buf_size_def)
qed

lemma queue_ok_enqueue:
  assumes "queue_ok spec x b" and "belongs x q" and "request_final_command spec q = Ok (final_command q)"
  shows "queue_ok spec x (snd (enqueue q b))"
  using assms req_buffer.enq_ok [of b q] by (auto simp: queue_ok_def enqueue_def)

text \<open>Serving one entry keeps the queues well-formed and makes no buffer non-empty except the
  active one.\<close>

lemma effect_queues:
  assumes "effect info x i c q c'" and "\<forall>y. queue_ok spec y (get_buf y c)"
    and "i < length (buffer (get_buf x c))" and "core q = core (buffer (get_buf x c) ! i)"
    and "final_command q = final_command (buffer (get_buf x c) ! i)"
  shows "queue_ok spec y (get_buf y c')"
    "y \<noteq> Active_buffer \<Longrightarrow> buffer (get_buf y c) = [] \<Longrightarrow> buffer (get_buf y c') = []"
proof -
  let ?b = "(bufs c)(x := buf_put i q (get_buf x c))"
  have put: "queue_ok spec y (?b y)" for y
    using assms(2) queue_ok_put [OF _ assms(3-5)] by simp
  have f: "request_final_command spec q = Ok (final_command q)"
    using assms(2-5) final_command_core [OF assms(4)] unfolding queue_ok_def by (metis nth_mem)
  have e: "buffer (remove_req i b) = []" "buffer (buf_put i q b) = []" if "buffer b = []" for b
    using that by (simp_all add: remove_req_def remove_at_def buf_put_def)
  show "queue_ok spec y (get_buf y c')" using assms(1)
  proof cases
    case finish_read
    then show ?thesis using assms(2) queue_ok_remove by (auto dest!: fun_cong [of _ _ y])
  next
    case finish_write
    then show ?thesis using assms(2) queue_ok_remove by (auto dest!: fun_cong [of _ _ y])
  next
    case activate
    have a: "queue_ok spec y ((?b(Active_buffer := snd (enqueue q (?b Active_buffer)))) y)" for y
      using put activate(4) queue_ok_enqueue [OF put [of Active_buffer] _ f]
      by (auto simp: belongs_def)
    show ?thesis using activate(1) queue_ok_remove [OF a [of x], of i] a [of y]
      by (auto simp: Let_def dest!: fun_cong [of _ _ y])
  next
    case keep
    then show ?thesis using put [of y] by (auto dest!: fun_cong [of _ _ y])
  qed
  show "buffer (get_buf y c') = []" if "y \<noteq> Active_buffer" "buffer (get_buf y c) = []" using assms(1)
  proof cases
    case finish_read
    then show ?thesis using that e by (auto dest!: fun_cong [of _ _ y])
  next
    case finish_write
    then show ?thesis using that e by (auto dest!: fun_cong [of _ _ y])
  next
    case activate
    then show ?thesis using that e by (auto simp: Let_def dest!: fun_cong [of _ _ y])
  next
    case keep
    then show ?thesis using that e by (auto dest!: fun_cong [of _ _ y])
  qed
qed

lemma AiM_inv_act_on:
  assumes "act_on info sel d c = Ok (d', c')" and "AiM_inv spec c"
    and "\<And>x i. sel = Some (x, i) \<Longrightarrow> i < length (buffer (get_buf x c))"
  shows "AiM_inv spec c'"
  using assms(1)
proof (cases rule: act_on_cases)
  case idle
  then have "get_buf x c' = get_buf x c" for x by (metis)
  then show ?thesis using assms(2) get_buf_names unfolding AiM_inv_def exclusive_def by metis
next
  case (act x i q)
  have q: "\<forall>y. queue_ok spec y (get_buf y c)" using assms(2) by (simp add: AiM_inv_def)
  note e = effect_queues [OF act(2) q assms(3) [OF act(1)] act(3,5)]
  then show ?thesis using assms(2) e(2) [of AiM_buffer] e(2) [of Read_buffer] e(2) [of Write_buffer]
    by (auto simp: AiM_inv_def exclusive_def)
qed

lemma AiM_inv_posted: "posted_ok spec c c' \<Longrightarrow> AiM_inv spec c \<Longrightarrow> AiM_inv spec c'"
  unfolding posted_ok_def AiM_inv_def
proof (elim exE conjE, intro conjI allI)
  fix qs x
  assume a: "exclusive c" "\<forall>x. queue_ok spec x (get_buf x c)" "c' = posted c qs"
    "\<forall>q\<in>set qs. request_final_command spec q = Ok (final_command q)"
    "qs \<noteq> [] \<longrightarrow> buf_bounded (m_priority_buffer c')"
  show "exclusive c'" using a(1,3) by (simp add: exclusive_def posted_def)
  show "queue_ok spec x (get_buf x c')" using a(2) [rule_format, of x] a(3,4,5)
    by (cases "qs = []") (auto simp: posted_def queue_ok_def belongs_def)
qed

lemma AiM_inv_refresh: "AiM_inv spec (c\<lparr>m_refresh := rf\<rparr>) = AiM_inv spec c"
  by (simp add: AiM_inv_def exclusive_def)

context request_scheduler begin

lemma AiM_inv_tick:
  assumes "AiM_tick info best cb d c s = Ok (d', c', s')" and "AiM_inv (dram_spec d) c"
  shows "AiM_inv (dram_spec d) c'"
  using assms(1)
proof (cases rule: AiM_tick_cases)
  case (1 c1 c2 sel c3)
  have i1: "AiM_inv (dram_spec d) c1" using assms(2) serve_completed_cases(1) [OF 1(1)]
    by (simp add: AiM_inv_def exclusive_def)
  obtain c1' where "posted_ok (dram_spec d) c1 c1'" "c2 = c1'\<lparr>m_refresh := m_refresh c2\<rparr>"
    using refresh_tick_posts [OF 1(2)] by blast
  moreover from this have "AiM_inv (dram_spec d) c1'" using AiM_inv_posted i1 by blast
  ultimately have i2: "AiM_inv (dram_spec d) c2"
    using AiM_inv_refresh by metis
  note s = schedule_request_spec [OF 1(3)]
  have i3: "AiM_inv (dram_spec d) c3" using AiM_inv_scheduled i2 s by blast
  show ?thesis by (rule AiM_inv_act_on [OF 1(4) i3]) (use s in \<open>auto simp: selection_ok_def\<close>)
qed

end

lemma AiM_inv_send:
  assumes "AiM_send spec r c = Ok (ok, r', c')" and "AiM_inv spec c"
  shows "AiM_inv spec c'"
  using assms(1)
proof (cases rule: AiM_send_cases)
  case refused
  then show ?thesis using assms(2) by simp
next
  case forwarded
  then show ?thesis using assms(2) by (simp add: AiM_inv_def exclusive_def)
next
  case queued
  let ?x = "queue_of (req_type r)"
  have t: "req_type r' = req_type r" using core_fields(1) [OF queued(3)] .
  have "queue_ok spec ?x (append_req r' (get_buf ?x c))"
    using assms(2) queued(2,6,7) t
    by (auto simp: AiM_inv_def queue_ok_def append_req_def buf_bounded_def buf_size_def belongs_def)
  moreover have "exclusive c'" using assms(2) queued(2,5,8,9)
    by (cases "req_type r") (auto simp: AiM_inv_def exclusive_def)
  ultimately show ?thesis using assms(2) queued(5) by (simp add: AiM_inv_def)
qed

context request_scheduler begin

lemma reachable_inv: "AiM_reachable info best cb spec c \<Longrightarrow> AiM_inv spec c"
proof (induction rule: AiM_reachable.induct)
  case (start cfg ch c0 c)
  show ?case using connect_start [OF start]
    by (auto simp: AiM_inv_def exclusive_def queue_ok_def buf_bounded_def buf_size_def
        simp flip: get_buf_names)
next
  case (send c r ok r' c')
  then show ?case using AiM_inv_send by blast
next
  case (tick c d s d' c' s')
  then show ?case using AiM_inv_tick [OF tick(3)] by simp
qed

lemma reachable_capacity:
  "AiM_reachable info best cb spec c \<Longrightarrow> max_size (get_buf x c) = (if x = Priority_buffer then 1568 else 32)"
  using reachable_inv unfolding AiM_inv_def queue_ok_def by blast

end

end
