(* ===== verification/AiM_Controller_Flow.thy ===== *)
theory AiM_Controller_Flow
  imports AiM_Controller_Props
begin

text \<open>
  The flow of requests through the AiM controller of
  \<^verbatim>\<open>src/src/dram_controller/impl/AiM_dram_controller.cpp\<close>: every request that \<open>send\<close> accepts
  stays in exactly one queue until \<open>tick\<close> completes it, and a barrier is answered only after
  every AiM request accepted before it.
\<close>

subsection \<open>Requests in flight\<close>

definition cores :: "ReqBuffer \<Rightarrow> request multiset" where
  "cores b = mset (map core (buffer b))"

definition held :: "(buffer_id \<Rightarrow> ReqBuffer) \<Rightarrow> request multiset" where
  "held b = cores (b Active_buffer) + cores (b Priority_buffer) + cores (b Read_buffer)
     + cores (b Write_buffer) + cores (b AiM_buffer)"

definition flight :: "AiMController \<Rightarrow> request multiset" where
  "flight c = mset (map core (pending_reads c)) + mset (map core (pending_writes c)) + held (bufs c)"

lemma held_upd: "held (b(x := y)) + cores (b x) = held b + cores y"
  by (cases x) (simp_all add: held_def)

lemma cores_remove: "i < length (buffer b) \<Longrightarrow> cores (remove_req i b) + {#core (buffer b ! i)#} = cores b"
  using mset_remove_at [of i "map core (buffer b)"]
  by (simp add: cores_def remove_req_def remove_at_def take_map drop_map)

lemma cores_put: "i < length (buffer b) \<Longrightarrow> core q = core (buffer b ! i) \<Longrightarrow> cores (buf_put i q b) = cores b"
  using list_update_id [of "map core (buffer b)" i] by (simp add: cores_def buf_put_def map_update)

lemma cores_append: "cores (append_req r b) = cores b + {#core r#}"
  by (simp add: cores_def append_req_def)

lemma cores_requeued: "requeued b b' \<Longrightarrow> cores b' = cores b"
  unfolding cores_def by (rule arg_cong [of _ _ mset], erule requeued_map, simp)

lemma held_remove:
  assumes "i < length (buffer (b x))" and "core (buffer (b x) ! i) = k"
  shows "held (b(x := remove_req i (b x))) + {#k#} = held b"
proof -
  have "held (b(x := remove_req i (b x))) + (cores (remove_req i (b x)) + {#k#}) = held b + cores (remove_req i (b x))"
    using held_upd [of b x "remove_req i (b x)"] cores_remove [OF assms(1)] assms(2) by simp
  then show ?thesis by (simp add: add.commute)
qed

lemma effect_flight:
  assumes "effect info x i c q c'" and "i < length (buffer (get_buf x c))"
    and "core q = core (buffer (get_buf x c) ! i)"
    and "buf_size (m_active_buffer c) \<le> max_size (m_active_buffer c)"
  shows "flight c' = flight c"
  using assms(1)
proof cases
  case finish_read
  have "held (bufs c') + {#core q#} = held (bufs c)"
    unfolding finish_read(1) by (rule held_remove) (use assms in auto)
  then show ?thesis using finish_read by (simp add: flight_def)
next
  case finish_write
  have "held (bufs c') + {#core q#} = held (bufs c)"
    unfolding finish_write(1) by (rule held_remove) (use assms in auto)
  then show ?thesis using finish_write by (simp add: flight_def)
next
  case keep
  have "held (bufs c') + cores (get_buf x c) = held (bufs c) + cores (get_buf x c)"
    unfolding keep(1) using held_upd [of "bufs c" x "buf_put i q (get_buf x c)"] cores_put [OF assms(2,3)] by simp
  then show ?thesis using keep by (simp add: flight_def)
next
  case activate
  let ?b1 = "(bufs c)(x := buf_put i q (get_buf x c))"
  let ?b2 = "?b1(Active_buffer := append_req q (?b1 Active_buffer))"
  have len: "length (buffer (buf_put i q b)) = length (buffer b)" for b by (simp add: buf_put_def)
  have "snd (enqueue q (?b1 Active_buffer)) = append_req q (?b1 Active_buffer)"
    using assms(4) len by (auto simp: enqueue_def append_req_def buf_size_def buf_put_def)
  then have b: "bufs c' = ?b2(x := remove_req i (?b2 x))" using activate(1) unfolding Let_def by (simp only:)
  have h1: "held ?b1 = held (bufs c)"
    using held_upd [of "bufs c" x "buf_put i q (get_buf x c)"] cores_put [OF assms(2,3)] by simp
  have h2: "held ?b2 = held ?b1 + {#core q#}"
    using held_upd [of ?b1 Active_buffer "append_req q (?b1 Active_buffer)"] by (simp add: cores_append)
  have "held (bufs c') + {#core q#} = held ?b2"
    unfolding b by (rule held_remove)
      (use assms(2) in \<open>auto simp: append_req_def buf_put_def nth_append\<close>)
  then show ?thesis using h1 h2 activate by (simp add: flight_def)
qed

lemma scheduled_flight:
  assumes "scheduled c c'"
  shows "flight c' = flight c"
proof -
  have "cores (get_buf x c') = cores (get_buf x c)" for x
    by (rule cores_requeued) (use assms in \<open>simp add: scheduled_def\<close>)
  then show ?thesis unfolding flight_def held_def using scheduled_fields(3,4) [OF assms] by (simp only:)
qed

lemma completed_flight:
  assumes "serve_completed_reqs cb c s = Ok (c', s')"
  shows "flight c = flight c' + mset (map core (completed_reads c)) + mset (map core (completed_writes c))"
proof -
  note s = serve_completed_cases [OF assms]
  have w: "mset (pending_writes c) = mset (completed_writes c) + mset (pending_writes c')"
    using s(1) by (simp add: completed_writes_def)
  have r: "mset (pending_reads c) = mset (completed_reads c) + mset (pending_reads c')"
    using s(1) by (cases "pending_reads c") (auto simp: completed_reads_def completes_def)
  have h: "held (bufs c') = held (bufs c)" using s(1) by simp
  show ?thesis unfolding flight_def mset_map w r h by (simp add: ac_simps)
qed

lemma act_on_flight:
  assumes "act_on info sel d c = Ok (d', c')"
    and "\<And>x i. sel = Some (x, i) \<Longrightarrow> i < length (buffer (get_buf x c))"
    and "buf_size (m_active_buffer c) \<le> max_size (m_active_buffer c)"
  shows "flight c' = flight c"
  using assms(1)
proof (cases rule: act_on_cases)
  case idle
  then show ?thesis by (simp add: flight_def)
next
  case (act x i q)
  then show ?thesis using effect_flight [OF act(2) assms(2) [OF act(1)] _ assms(3)] by simp
qed

context request_scheduler begin

lemma tick_flight:
  assumes "AiM_tick info best cb d c s = Ok (d', c', s')" and "m_num_ranks (m_refresh c) \<le> 0"
    and "buf_size (m_active_buffer c) \<le> max_size (m_active_buffer c)"
  defines "c0 \<equiv> c\<lparr>ctrl_clk := ctrl_clk c + 1\<rparr>"
  shows "flight c = flight c' + mset (map core (completed_reads c0)) + mset (map core (completed_writes c0))"
    "fold_result (run_callback cb) (completed_reads c0) s = Ok s'"
proof -
  obtain c1 c2 sel c3 where 1: "serve_completed_reqs cb (c\<lparr>ctrl_clk := ctrl_clk c + 1\<rparr>) s = Ok (c1, s')"
    "refresh_tick (dram_spec d) c1 = Ok c2" "schedule_request best d c2 = Ok (sel, c3)"
    "act_on info sel d c3 = Ok (d', c')" by (rule AiM_tick_cases [OF assms(1)])
  note sc = serve_completed_cases [OF 1(1) [folded c0_def]]
  show "fold_result (run_callback cb) (completed_reads c0) s = Ok s'" by (rule sc(2))
  have r: "m_num_ranks (m_refresh c1) \<le> 0" and a: "m_active_buffer c1 = m_active_buffer c"
    using assms(2) sc(1) by (simp_all add: c0_def)
  note f = refresh_tick_none(1) [OF 1(2) r]
  have f2: "flight c2 = flight c1" by (subst f) (simp add: flight_def)
  note s = schedule_request_spec [OF 1(3)]
  have "buf_size (m_active_buffer c2) \<le> max_size (m_active_buffer c2)" using arg_cong [OF f, of m_active_buffer] a assms(3) by simp
  moreover have "requeued (get_buf Active_buffer c2) (get_buf Active_buffer c3)" using s unfolding scheduled_def by blast
  ultimately have a3: "buf_size (m_active_buffer c3) \<le> max_size (m_active_buffer c3)"
    using requeued_length by (fastforce simp: requeued_def buf_size_def)
  have "flight c' = flight c3"
    by (rule act_on_flight [OF 1(4) _ a3]) (use s in \<open>auto simp: selection_ok_def\<close>)
  moreover have "flight c3 = flight c2" using s scheduled_flight by blast
  moreover have "flight c0 = flight c" by (simp add: c0_def flight_def)
  ultimately show "flight c = flight c' + mset (map core (completed_reads c0)) + mset (map core (completed_writes c0))"
    using completed_flight [OF 1(1) [folded c0_def]] f2 by simp
qed

end

lemma send_flight:
  assumes "AiM_send spec r c = Ok (ok, r', c')"
  shows "flight c' = (if ok then add_mset (core r) (flight c) else flight c)"
  using assms
proof (cases rule: AiM_send_cases)
  case refused
  then show ?thesis by simp
next
  case forwarded
  then show ?thesis by (simp add: flight_def)
next
  case queued
  let ?x = "queue_of (req_type r)"
  have "held (bufs c') = held (bufs c) + {#core r#}"
    using held_upd [of "bufs c" ?x "append_req r' (get_buf ?x c)"] queued(3,5)
    by (simp add: cores_append fun_upd_def)
  then show ?thesis using queued(1,5) by (simp add: flight_def)
qed

end
