(* ===== verification/AiM_Controller_Order.thy ===== *)
theory AiM_Controller_Order
  imports AiM_Controller_Flow "HOL-Library.Sublist"
begin

text \<open>
  The order in which the AiM controller of \<^verbatim>\<open>src/src/dram_controller/impl/AiM_dram_controller.cpp\<close>
  answers AiM requests, the register mode of the channel, and the readiness of the commands it
  issues.
\<close>

subsection \<open>The line of AiM requests\<close>

text \<open>The arrival times of the AiM requests that wait for their data or for their turn.\<close>

definition aim_line :: "AiMController \<Rightarrow> int list" where
  "aim_line c = map arrive (filter (\<lambda>r. req_type r = AIM) (pending_reads c) @ buffer (m_aim_buffer c))"

definition order_inv :: "AiMController \<Rightarrow> bool" where
  "order_inv c \<longleftrightarrow> sorted (aim_line c) \<and> (\<forall>t\<in>set (aim_line c). t \<le> ctrl_clk c) \<and> buffer (m_priority_buffer c) = []"

lemma subseq_subset: "subseq xs ys \<Longrightarrow> set xs \<subseteq> set ys"
  by (auto elim!: list_emb_set)

lemma sorted_subseq: "subseq xs ys \<Longrightarrow> sorted ys \<Longrightarrow> sorted (xs :: int list)"
proof (induction rule: list_emb.induct)
  case (list_emb_Nil ys)
  then show ?case by simp
next
  case (list_emb_Cons xs ys y)
  then show ?case by simp
next
  case (list_emb_Cons2 x y xs ys)
  then show ?case using subseq_subset [of xs ys] by auto
qed

lemma order_inv_shrink:
  assumes "order_inv c" and "subseq (aim_line c') (aim_line c)" and "ctrl_clk c \<le> ctrl_clk c'"
    and "buffer (m_priority_buffer c') = []"
  shows "order_inv c'"
  using assms sorted_subseq [OF assms(2)] subseq_subset [OF assms(2)]
  unfolding order_inv_def by (meson order_trans subsetD)

lemma line_remove_head:
  "xs \<noteq> [] \<Longrightarrow> map f (remove_at 0 xs) = tl (map f xs)"
  by (cases xs) simp_all

lemma effect_line:
  assumes "effect info x i c q c'" and "AiM_inv spec c" and "i < length (buffer (get_buf x c))"
    and "core q = core (buffer (get_buf x c) ! i)" and "arrive q = arrive (buffer (get_buf x c) ! i)"
    and "x = AiM_buffer \<longrightarrow> i = 0" and "x \<noteq> Priority_buffer"
  shows "subseq (aim_line c') (aim_line c)"
proof -
  have "belongs x (buffer (get_buf x c) ! i)"
    using assms(2,3) unfolding AiM_inv_def queue_ok_def by (meson nth_mem)
  then have bel: "belongs x q" using belongs_core [OF assms(4)] by simp
  have b: "m_aim_buffer c' = y" if "bufs c' = (bufs c)(x := y)" "x = AiM_buffer" for y
    using fun_cong [OF that(1), of AiM_buffer] that(2) by simp
  have o: "m_aim_buffer c' = m_aim_buffer c" if "bufs c' = (bufs c)(x := y)" "x \<noteq> AiM_buffer" for y
    using fun_cong [OF that(1), of AiM_buffer] that(2) by simp
  show ?thesis
  proof (cases "x = AiM_buffer")
    case True
    then have t: "req_type q = AIM" and i: "i = 0" and ne: "buffer (m_aim_buffer c) \<noteq> []"
      using bel assms(3,6) by (auto simp: belongs_def)
    then obtain a as where as: "buffer (m_aim_buffer c) = a # as" by (cases "buffer (m_aim_buffer c)") auto
    have aq: "arrive q = arrive a" using assms(5) True i as by simp
    show ?thesis using assms(1)
    proof cases
      case finish_read
      then show ?thesis using b [OF finish_read(1) True] True as t i aq
        by (simp add: aim_line_def remove_req_def)
    next
      case finish_write
      then show ?thesis using b [OF finish_write(1) True] True as i
        by (auto simp: aim_line_def remove_req_def intro!: list_emb_append_mono)
    next
      case activate
      then show ?thesis using t by simp
    next
      case keep
      then show ?thesis using b [OF keep(1) True] True as i aq
        by (simp add: aim_line_def buf_put_def)
    qed
  next
    case False
    then have t: "req_type q \<noteq> AIM" using bel assms(7) by (cases x) (auto simp: belongs_def)
    show ?thesis using assms(1)
    proof cases
      case finish_read
      then show ?thesis using o [OF finish_read(1) False] t by (simp add: aim_line_def)
    next
      case finish_write
      then show ?thesis using o [OF finish_write(1) False] by (simp add: aim_line_def)
    next
      case activate
      then have "m_aim_buffer c' = m_aim_buffer c" using False
        by (auto simp: Let_def dest!: fun_cong [of _ _ AiM_buffer])
      then show ?thesis using activate by (simp add: aim_line_def)
    next
      case keep
      then show ?thesis using o [OF keep(1) False] by (simp add: aim_line_def)
    qed
  qed
qed

lemma effect_priority:
  assumes "effect info x i c q c'" and "AiM_inv spec c" and "i < length (buffer (get_buf x c))"
    and "core q = core (buffer (get_buf x c) ! i)" and "final_command q = final_command (buffer (get_buf x c) ! i)"
    and "buffer (m_priority_buffer c) = []"
  shows "buffer (m_priority_buffer c') = []"
  using effect_queues(2) [OF assms(1) _ assms(3-5), of spec Priority_buffer] assms(2,6)
  by (simp add: AiM_inv_def)

lemma scheduled_line:
  assumes "scheduled c c'"
  shows "aim_line c' = aim_line c"
proof -
  have "requeued (get_buf AiM_buffer c) (get_buf AiM_buffer c')" using assms unfolding scheduled_def by blast
  then have "map arrive (buffer (get_buf AiM_buffer c')) = map arrive (buffer (get_buf AiM_buffer c))"
    by (rule requeued_map) simp
  then show ?thesis using scheduled_fields(3) [OF assms] by (simp add: aim_line_def)
qed

lemma aim_line_cong:
  "pending_reads c' = pending_reads c \<Longrightarrow> m_aim_buffer c' = m_aim_buffer c \<Longrightarrow> aim_line c' = aim_line c"
  by (simp add: aim_line_def)

lemma order_inv_act_on:
  assumes "act_on info sel d c = Ok (d', c')" and "AiM_inv spec c" and "order_inv c"
    and "\<And>x i. sel = Some (x, i) \<Longrightarrow> selection_ok d c x i"
  shows "order_inv c'"
  using assms(1)
proof (cases rule: act_on_cases)
  case idle
  then have "m_aim_buffer c' = m_aim_buffer c" "m_priority_buffer c' = m_priority_buffer c"
    using fun_cong [OF idle(3), of AiM_buffer] fun_cong [OF idle(3), of Priority_buffer] by simp_all
  then show ?thesis using idle(4,6) assms(3) aim_line_cong [of c' c] by (simp add: order_inv_def)
next
  case (act x i q)
  have s: "selection_ok d c x i" by (rule assms(4) [OF act(1)])
  then have i: "i < length (buffer (get_buf x c))" "x = AiM_buffer \<longrightarrow> i = 0" "x \<noteq> Priority_buffer"
    using assms(3) by (auto simp: selection_ok_def order_inv_def)
  have p: "buffer (m_priority_buffer c') = []"
    using effect_priority [OF act(2) assms(2) i(1) act(3,5)] assms(3) by (simp add: order_inv_def)
  show ?thesis
    by (rule order_inv_shrink [OF assms(3) effect_line [OF act(2) assms(2) i(1) act(3,4) i(2,3)] _ p])
      (simp add: act(6))
qed

lemma completed_line:
  assumes "serve_completed_reqs cb c s = Ok (c', s')"
  shows "subseq (aim_line c') (aim_line c)"
proof -
  note s = serve_completed_cases(1) [OF assms]
  show ?thesis by (subst s) (cases "pending_reads c"; auto simp: aim_line_def completes_def subseq_Cons')
qed

context request_scheduler begin

lemma order_inv_tick:
  assumes "AiM_tick info best cb d c s = Ok (d', c', s')" and "AiM_inv (dram_spec d) c" and "order_inv c"
    and "m_num_ranks (m_refresh c) \<le> 0"
  shows "order_inv c' \<and> m_num_ranks (m_refresh c') \<le> 0"
proof -
  obtain c1 c2 sel c3 where 1: "serve_completed_reqs cb (c\<lparr>ctrl_clk := ctrl_clk c + 1\<rparr>) s = Ok (c1, s')"
    "refresh_tick (dram_spec d) c1 = Ok c2" "schedule_request best d c2 = Ok (sel, c3)"
    "act_on info sel d c3 = Ok (d', c')" by (rule AiM_tick_cases [OF assms(1)])
  note sc = serve_completed_cases(1) [OF 1(1)]
  have l1: "subseq (aim_line c1) (aim_line c)" using completed_line [OF 1(1)] by (simp add: aim_line_def)
  have o1: "order_inv c1" by (rule order_inv_shrink [OF assms(3) l1])
    (use sc assms(3) in \<open>simp_all add: order_inv_def\<close>)
  have i1: "AiM_inv (dram_spec d) c1" using sc assms(2) by (simp add: AiM_inv_def exclusive_def)
  have r: "m_num_ranks (m_refresh c1) \<le> 0" using sc assms(4) by simp
  note f = refresh_tick_none [OF 1(2) r]
  have "order_inv c2" by (subst f(1)) (use o1 in \<open>simp add: order_inv_def aim_line_def\<close>)
  moreover have "AiM_inv (dram_spec d) c2" by (subst f(1)) (use i1 in \<open>simp add: AiM_inv_refresh\<close>)
  moreover note s = schedule_request_spec [OF 1(3)]
  moreover have "buffer (m_priority_buffer c3) = [] \<longleftrightarrow> buffer (m_priority_buffer c2) = []"
    using scheduled_empty [of c2 c3 Priority_buffer] s by simp
  ultimately have "order_inv c3" "AiM_inv (dram_spec d) c3"
    using scheduled_line [of c2 c3] scheduled_fields(2) [of c2 c3] AiM_inv_scheduled
    by (auto simp: order_inv_def)
  then have "order_inv c'" by (intro order_inv_act_on [OF 1(4)]) (use s in auto)
  moreover have "m_refresh c' = m_refresh c2"
    using 1(4) scheduled_fields(6) [of c2 c3] s by (cases rule: act_on_cases) auto
  ultimately show ?thesis using f(2) r by simp
qed

end

lemma order_inv_send:
  assumes "AiM_send spec r c = Ok (ok, r', c')" and "order_inv c"
  shows "order_inv c'"
  using assms(1)
proof (cases rule: AiM_send_cases)
  case refused
  then show ?thesis using assms(2) by simp
next
  case forwarded
  then have "req_type r' \<noteq> AIM" using core_fields(1) [OF forwarded(4)] by simp
  then show ?thesis using assms(2) forwarded by (simp add: order_inv_def aim_line_def)
next
  case queued
  then show ?thesis using assms(2)
    by (cases "req_type r") (auto simp: order_inv_def aim_line_def append_req_def sorted_append)
qed

context request_scheduler begin

lemma reachable_order:
  assumes "AiM_reachable info best cb spec c" and "get_level_size spec ''rank'' = Ok n" and "n \<le> 0"
  shows "order_inv c \<and> m_num_ranks (m_refresh c) \<le> 0"
  using assms(1)
proof (induction rule: AiM_reachable.induct)
  case (start cfg ch c0 c)
  note s = connect_start [OF start]
  show ?case using s(1) [of AiM_buffer] s(1) [of Priority_buffer] s(3,9) assms(2,3)
    by (simp add: order_inv_def aim_line_def)
next
  case (send c r ok r' c')
  then have "m_refresh c' = m_refresh c" by (auto elim!: AiM_send_cases)
  then show ?case using order_inv_send send by simp
next
  case (tick c d s d' c' s')
  then show ?case using order_inv_tick [OF tick(3)] reachable_inv by blast
qed

end

end
