(* ===== verification/AiM_System.thy ===== *)
theory AiM_System
  imports AiM_Controller_Order
begin

text \<open>
  \<^verbatim>\<open>src/src/memory_system/impl/aim_DRAM_system.cpp\<close>: the memory system that decodes the host's
  instructions, splits each of them into requests for the channels its mask names, and drives
  the device and one AiM controller per channel.

  The address mapper is created but never called, and is left out. The array of 32 queues
  \<open>remaining_AiM_requests\<close> is a list. A request sent by reference comes back as the controller
  has written it, and the decoding goes on with that copy, as the code does.

  The host's callbacks act on the front end, whose state is threaded as \<open>'h\<close>; the parameter
  \<open>host_cb\<close> steps it, given the memory system's clock (\<open>get_cycle\<close>) and the request.
\<close>

subsection \<open>State\<close>

datatype CFR_register = BROADCAST | EWMUL_BG | AFM

record aim_system =
  sys_clk :: int
  sys_dram :: dram
  m_num_levels :: int
  m_has_rank :: bool
  m_controllers :: "AiMController list"
  request_queue :: "request list"
  remaining_AiM_requests :: "request list list"
  next_AiM_req_id :: int
  stalled_AiM_requests :: int
  CFR_values :: "CFR_register \<rightharpoonup> int"
  address_to_CFR :: "int \<rightharpoonup> CFR_register"
  s_num_RW_requests :: "Type \<times> MemAccessRegion \<rightharpoonup> int"
  s_num_AiM_requests :: "Opcode \<rightharpoonup> int"
  s_ISR_queue_full :: int
  s_wait_RD_stall :: int
  sys_clock_ratio :: int

definition ISR_SIZE :: int where
  "ISR_SIZE = 2 ^ 21"

text \<open>The numeral, for evaluation.\<close>

lemma ISR_SIZE_code [code]: "ISR_SIZE = 2097152"
  by (simp add: ISR_SIZE_def)

definition MAX_CHANNEL_COUNT :: nat where
  "MAX_CHANNEL_COUNT = 32"

subsection \<open>Initialisation\<close>

definition has_rank :: "dram_spec \<Rightarrow> bool result" where
  "has_rank spec =
     andThen (SpecDef_id (m_levels spec) ''bankgroup'') (\<lambda>bg.
     andThen (SpecDef_id (m_levels spec) ''channel'') (\<lambda>ch.
       if bg - ch = 1 then Ok False else if bg - ch = 2 then Ok True
       else Err (Configuration_error ''AiMDRAMSystem: Invalid number of levels in DRAM'')))"

definition AiMSystem_init ::
  "AiMISRInfo \<Rightarrow> dram \<Rightarrow> controller_config \<Rightarrow> int option \<Rightarrow> aim_system result" where
  "AiMSystem_init info d ccfg ratio =
     (let spec = dram_spec d in
      andThen (has_rank spec) (\<lambda>rank.
      andThen (get_level_size spec ''channel'') (\<lambda>num_channels.
      andThen (map_result (\<lambda>i. AiMController_init ccfg (int i)) [0..<nat num_channels]) (\<lambda>controllers.
      case ratio of
        None \<Rightarrow> Err (Configuration_error ''Param is required but not given'')
      | Some ratio \<Rightarrow>
          andThen (map_result (convert_type_to_str info) [Read, Write]) (\<lambda>_.
          andThen (map_result (convert_mem_access_region_to_str info) [GPR, CFR, MEM]) (\<lambda>_.
          andThen (map_result (convert_AiM_opcode_to_str info) isr_opcodes) (\<lambda>_.
            Ok \<lparr>sys_clk = 0, sys_dram = d, m_num_levels = int (length (m_levels spec)), m_has_rank = rank,
                m_controllers = controllers, request_queue = [],
                remaining_AiM_requests = replicate MAX_CHANNEL_COUNT [], next_AiM_req_id = 0,
                stalled_AiM_requests = 0,
                CFR_values = [BROADCAST \<mapsto> 0, EWMUL_BG \<mapsto> 1, AFM \<mapsto> 0],
                address_to_CFR = [0 \<mapsto> BROADCAST, 1 \<mapsto> EWMUL_BG, 2 \<mapsto> AFM],
                s_num_RW_requests = (\<lambda>(t, r). if t \<in> {Read, Write} \<and> r \<in> {GPR, CFR, MEM} then Some 0 else None),
                s_num_AiM_requests = fold (\<lambda>op m. m(op \<mapsto> 0)) isr_opcodes Map.empty,
                s_ISR_queue_full = 0, s_wait_RD_stall = 0, sys_clock_ratio = ratio\<rparr>)))))))"

text \<open>\<open>connect_frontend\<close>: the setup of the system is empty, that of its controllers is not.\<close>

definition AiMSystem_connect :: "AiMISRInfo \<Rightarrow> aim_system \<Rightarrow> aim_system result" where
  "AiMSystem_connect info s =
     andThen (map_result (AiMController_connect info (dram_spec (sys_dram s))) (m_controllers s)) (\<lambda>controllers.
       Ok (s\<lparr>m_controllers := controllers\<rparr>))"

subsection \<open>Channel masks and addresses\<close>

text \<open>\<open>0x1 << i\<close> is an \<open>int\<close>: for \<open>i = 31\<close> it is the sign bit, which widens to all ones above.\<close>

definition int_bit :: "nat \<Rightarrow> int" where
  "int_bit i = (if i = 31 then - (2 ^ 31) else 2 ^ i)"

definition CountSetBit :: "int \<Rightarrow> nat" where
  "CountSetBit ch_mask = length (filter (\<lambda>i. and ch_mask (int_bit i) \<noteq> 0) [0..<MAX_CHANNEL_COUNT])"

text \<open>The reference argument comes back as the second component. When no bit of the low 32 is
  set the \<open>assert\<close> at the end is compiled out: the function returns 0 and leaves the mask.\<close>

definition FindFirstChannelIndex :: "int \<Rightarrow> int \<times> int" where
  "FindFirstChannelIndex ch_mask =
     (let u = to_unsigned 32 ch_mask in
      case filter (\<lambda>i. bit u i) [0..<MAX_CHANNEL_COUNT] of
        [] \<Rightarrow> (0, ch_mask)
      | i # _ \<Rightarrow> (int MAX_CHANNEL_COUNT - 1 - int i, unset_bit i u))"

text \<open>\<open>req.addr_vec[m_dram->m_levels(name)] = v\<close>\<close>

definition set_addr :: "dram_spec \<Rightarrow> string \<Rightarrow> int \<Rightarrow> request \<Rightarrow> request result" where
  "set_addr spec name v r =
     andThen (SpecDef_id (m_levels spec) name) (\<lambda>l.
     andThen (vec_put (addr_vec r) l v) (\<lambda>av. Ok (r\<lparr>addr_vec := av\<rparr>)))"

definition bank_address :: "dram_spec \<Rightarrow> request \<Rightarrow> (int \<times> int) result" where
  "bank_address spec r =
     (if bank_index r = -1 then Ok (-1, -1)
      else andThen (get_level_size spec ''bankgroup'') (\<lambda>num_bankgroups.
           andThen (get_level_size spec ''bank'') (\<lambda>banks_per_bankgroup.
             if num_bankgroups \<le> 0 \<or> banks_per_bankgroup \<le> 0 then Err (Exit_failure ''invalid bank organization'')
             else if bank_index r < 0 \<or> bank_index r \<ge> num_bankgroups * banks_per_bankgroup
             then Err (Exit_failure ''BA out of range'')
             else Ok (bank_index r div banks_per_bankgroup, bank_index r mod banks_per_bankgroup))))"

definition apply_addr_mapp :: "aim_system \<Rightarrow> request \<Rightarrow> int \<Rightarrow> request result" where
  "apply_addr_mapp s r channel_id =
     (let spec = dram_spec (sys_dram s); r = r\<lparr>addr_vec := resize (nat (m_num_levels s)) (addr_vec r)\<rparr> in
      if channel_id < 0 \<or> channel_id \<ge> int MAX_CHANNEL_COUNT then Err (Exit_failure ''CH out of range'')
      else andThen (set_addr spec ''channel'' channel_id r) (\<lambda>r.
           andThen (if m_has_rank s then set_addr spec ''rank'' 0 r else Ok r) (\<lambda>r.
           andThen (bank_address spec r) (\<lambda>(bankgroup, bank).
           andThen (set_addr spec ''bankgroup'' bankgroup r) (\<lambda>r.
           andThen (set_addr spec ''bank'' bank r) (\<lambda>r.
           andThen (set_addr spec ''row'' (row_addr r) r) (\<lambda>r.
             set_addr spec ''column'' (col_addr r) r)))))))"

subsection \<open>Receiving instructions\<close>

definition AiMSystem_send :: "request \<Rightarrow> aim_system \<Rightarrow> (bool \<times> aim_system) result" where
  "AiMSystem_send r s =
     (if int (length (request_queue s)) = ISR_SIZE
      then Ok (False, s\<lparr>s_ISR_queue_full := s_ISR_queue_full s + 1\<rparr>)
      else (let s = s\<lparr>request_queue := request_queue s @ [r]\<rparr> in
            if req_type r = AIM
            then Ok (True, s\<lparr>s_num_AiM_requests := increment (s_num_AiM_requests s) (opcode r) 1\<rparr>)
            else if req_type r \<in> {Read, Write}
            then Ok (True, s\<lparr>s_num_RW_requests :=
                     increment (s_num_RW_requests s) (req_type r, mem_access_region r) 1\<rparr>)
            else Err (Configuration_error ''AiMDRAMSystem: unknown request type'')))"

subsection \<open>Sending to the controllers\<close>

text \<open>One \<open>send\<close> of a decoded request; a refused one is queued for the next cycles.\<close>

definition deliver :: "int \<Rightarrow> request \<Rightarrow> aim_system \<Rightarrow> (bool \<times> request \<times> aim_system) result" where
  "deliver channel_id r s =
     andThen (vec_at (m_controllers s) channel_id) (\<lambda>c.
     andThen (AiM_send (dram_spec (sys_dram s)) r c) (\<lambda>(sent, r, c).
     andThen (vec_put (m_controllers s) channel_id c) (\<lambda>cs.
       (let s = s\<lparr>m_controllers := cs\<rparr> in
        if sent then Ok (True, r, s)
        else andThen (vec_at (remaining_AiM_requests s) channel_id) (\<lambda>q.
             andThen (vec_put (remaining_AiM_requests s) channel_id (q @ [r])) (\<lambda>qs.
               Ok (False, r, s\<lparr>remaining_AiM_requests := qs\<rparr>)))))))"

fun drain_channel :: "dram_spec \<Rightarrow> request list \<Rightarrow> AiMController \<Rightarrow> (request list \<times> AiMController) result" where
  "drain_channel spec [] c = Ok ([], c)"
| "drain_channel spec (r # rs) c =
     andThen (AiM_send spec r c) (\<lambda>(sent, r, c).
       if sent then drain_channel spec rs c else Ok (r # rs, c))"

text \<open>The first loop of \<open>tick\<close>; the flags tell whether a queue held a request before and after.\<close>

definition deliver_remaining :: "aim_system \<Rightarrow> (bool \<times> bool \<times> aim_system) result" where
  "deliver_remaining s =
     fold_result (\<lambda>channel_id (was, is_left, s).
         andThen (vec_at (remaining_AiM_requests s) (int channel_id)) (\<lambda>q.
           if q = [] then Ok (was, is_left, s)
           else andThen (vec_at (m_controllers s) (int channel_id)) (\<lambda>c.
                andThen (drain_channel (dram_spec (sys_dram s)) q c) (\<lambda>(q, c).
                  Ok (True, is_left \<or> q \<noteq> [],
                      s\<lparr>remaining_AiM_requests := (remaining_AiM_requests s)[channel_id := q],
                        m_controllers := (m_controllers s)[channel_id := c]\<rparr>)))))
       [0..<MAX_CHANNEL_COUNT] (False, False, s)"

subsection \<open>Callbacks\<close>

text \<open>\<open>if (host_req.callback) host_req.callback(host_req)\<close>\<close>

definition call_host ::
  "(int \<Rightarrow> request \<Rightarrow> 'h \<Rightarrow> 'h result) \<Rightarrow> request \<Rightarrow> aim_system \<Rightarrow> 'h \<Rightarrow> 'h result" where
  "call_host host_cb r s h = run_callback (host_cb (sys_clk s)) r h"

definition pop_request :: "aim_system \<Rightarrow> aim_system" where
  "pop_request s = s\<lparr>request_queue := tl (request_queue s)\<rparr>"

definition queue_front :: "aim_system \<Rightarrow> request result" where
  "queue_front s =
     (case request_queue s of [] \<Rightarrow> Err (Undefined ''front of an empty queue'') | r # _ \<Rightarrow> Ok r)"

definition receive ::
  "(int \<Rightarrow> request \<Rightarrow> 'h \<Rightarrow> 'h result) \<Rightarrow> request \<Rightarrow> aim_system \<times> 'h \<Rightarrow> (aim_system \<times> 'h) result" where
  "receive host_cb r = (\<lambda>(s, h).
     andThen (queue_front s) (\<lambda>host_req.
       if host_req_id r \<noteq> host_req_id host_req
       then Err (Configuration_error ''AiMDRAMSystem: received request id is not the id of the head'')
       else (let s = s\<lparr>stalled_AiM_requests := stalled_AiM_requests s - 1\<rparr> in
             if stalled_AiM_requests s = 0
             then andThen (call_host host_cb host_req s h) (\<lambda>h. Ok (pop_request s, h))
             else Ok (s, h))))"

text \<open>The callback a controller finds in a request: \<open>receive\<close>, or one the host has put there.\<close>

definition request_callback ::
  "(int \<Rightarrow> request \<Rightarrow> 'h \<Rightarrow> 'h result) \<Rightarrow> request \<Rightarrow> aim_system \<times> 'h \<Rightarrow> (aim_system \<times> 'h) result" where
  "request_callback host_cb r = (\<lambda>(s, h).
     if req_callback r = System_receive then receive host_cb r (s, h)
     else andThen (host_cb (sys_clk s) r h) (\<lambda>h. Ok (s, h)))"

end
