(* ===== verification/AiM_System_Tick.thy ===== *)
theory AiM_System_Tick
  imports AiM_System
begin

text \<open>
  \<open>AiMDRAMSystem::tick\<close> of \<^verbatim>\<open>src/src/memory_system/impl/aim_DRAM_system.cpp\<close>: the decoding of
  the instruction at the head of the queue, and one cycle of the memory system.
\<close>

subsection \<open>Decoding\<close>

text \<open>\<open>CFR_values[k]\<close>, stored into a 16-bit field.\<close>

definition CFR_value :: "aim_system \<Rightarrow> CFR_register \<Rightarrow> int" where
  "CFR_value s k = to_signed 16 (case CFR_values s k of Some v \<Rightarrow> v | None \<Rightarrow> 0)"

definition convert_single_bank :: "request \<Rightarrow> request" where
  "convert_single_bank r =
     (if opcode r = ISR_RD_SBK
      then r\<lparr>req_type := Read, mem_access_region := MEM, opcode := Opcode_MIN\<rparr>
      else if opcode r = ISR_WR_SBK
      then r\<lparr>req_type := Write, mem_access_region := MEM, opcode := Opcode_MIN\<rparr>
      else r)"

definition prepare_request :: "aim_system \<Rightarrow> AiMISR \<Rightarrow> request \<Rightarrow> request" where
  "prepare_request s isr host =
     (let r = convert_single_bank host;
          r = (if AiM_DMA_blocking isr then r\<lparr>req_callback := System_receive\<rparr> else r);
          r = (if opcode host = ISR_AF
               then r\<lparr>afm := CFR_value s AFM, row_addr := 2 ^ 29 + CFR_value s AFM\<rparr> else r);
          r = (if opcode host = ISR_MAC_ABK \<or> opcode host = ISR_MAC_SBK
               then r\<lparr>broadcast := CFR_value s BROADCAST\<rparr> else r);
          r = (if opcode host = ISR_MAC_ABK then r\<lparr>ewmul_bg := CFR_value s EWMUL_BG\<rparr> else r);
          r = (if is_field_legal isr Field_bank_index then r\<lparr>bank_index := bank_index host\<rparr> else r);
          r = (if is_field_legal isr Field_row_addr then r\<lparr>row_addr := row_addr host\<rparr> else r)
      in r)"

text \<open>One decoded request for one channel: the state of the loop is the flag
  \<open>all_AiM_requests_sent\<close>, the request and the system.\<close>

definition send_part ::
  "bool \<Rightarrow> bool \<Rightarrow> int \<Rightarrow> int \<Rightarrow> bool \<times> request \<times> aim_system \<Rightarrow> (bool \<times> request \<times> aim_system) result" where
  "send_part mapped blocking host_id channel_id = (\<lambda>(all_sent, r, s).
     (let r = r\<lparr>AiM_req_id := next_AiM_req_id s, host_req_id := host_id\<rparr>;
          s = s\<lparr>next_AiM_req_id := next_AiM_req_id s + 1\<rparr> in
      andThen (if mapped then apply_addr_mapp s r channel_id else Ok r) (\<lambda>r.
      andThen (deliver channel_id r s) (\<lambda>(sent, r, s).
        Ok (all_sent \<and> sent, r,
            if blocking then s\<lparr>stalled_AiM_requests := stalled_AiM_requests s + 1\<rparr> else s)))))"

text \<open>The channels of one repetition: \<open>FindFirstChannelIndex\<close> takes them off the mask.\<close>

definition send_to_mask ::
  "bool \<Rightarrow> int \<Rightarrow> int \<Rightarrow> bool \<times> request \<times> aim_system \<Rightarrow> (bool \<times> request \<times> aim_system) result" where
  "send_to_mask blocking host_id ch_mask st =
     andThen (fold_result (\<lambda>cnt (channel_mask, st).
         (let (channel_id, channel_mask) = FindFirstChannelIndex channel_mask in
          andThen (send_part True blocking host_id channel_id st) (\<lambda>st. Ok (channel_mask, st))))
       [0..<CountSetBit ch_mask] (ch_mask, st)) (\<lambda>(channel_mask, st). Ok st)"

definition decode_ISR :: "AiMISRInfo \<Rightarrow> request \<Rightarrow> aim_system \<Rightarrow> (bool \<times> aim_system) result" where
  "decode_ISR info host s =
     andThen (convert_AiM_opcode_to_AiM_ISR info (opcode host)) (\<lambda>isr.
       if channel_count_eq_one isr \<and> CountSetBit (channel_mask host) \<noteq> 1
       then Err (Configuration_error ''AiMDRAMSystem: channel mask must specify only 1 channel!'')
       else
         (let repeats = (if opsize host = -1 then 1 else opsize host);
              col = (if col_addr host = -1 then 0 else col_addr host) in
          andThen (fold_result (\<lambda>i (all_sent, r, s).
              send_to_mask (AiM_DMA_blocking isr) (host_req_id host) (channel_mask host)
                (all_sent, r\<lparr>col_addr := col + int i\<rparr>, s))
            [0..<nat repeats] (True, prepare_request s isr host, s)) (\<lambda>(all_sent, r, s).
          Ok (all_sent, s))))"

text \<open>\<open>SYNC\<close> and \<open>EOC\<close> go to every controller, without an address.\<close>

definition decode_barrier :: "request \<Rightarrow> aim_system \<Rightarrow> (bool \<times> aim_system) result" where
  "decode_barrier host s =
     andThen (fold_result (\<lambda>channel_id st. send_part False True (host_req_id host) (int channel_id) st)
       [0..<length (m_controllers s)] (True, host\<lparr>req_callback := System_receive\<rparr>, s)) (\<lambda>(all_sent, r, s).
     Ok (all_sent, s))"

definition decode_AiM :: "AiMISRInfo \<Rightarrow> request \<Rightarrow> aim_system \<Rightarrow> (bool \<times> aim_system) result" where
  "decode_AiM info host s =
     (if opcode host = ISR_WR_AFLUT
      then Err (Configuration_error ''AiMDRAMSystem: ISR_WR_AFLUT not supported by now!'')
      else if opcode host \<in> {ISR_EWADD, Opcode_MIN, Opcode_MAX} then Ok (True, s)
      else if opcode host \<in> {ISR_SYNC, ISR_EOC} then decode_barrier host s
      else decode_ISR info host s)"

text \<open>A conventional access to a bank: \<open>channel_mask\<close> holds the number of the channel.\<close>

definition decode_MEM :: "request \<Rightarrow> aim_system \<Rightarrow> (bool \<times> aim_system) result" where
  "decode_MEM host s =
     (let r = host\<lparr>AiM_req_id := next_AiM_req_id s\<rparr>;
          s = s\<lparr>next_AiM_req_id := next_AiM_req_id s + 1\<rparr> in
      andThen (apply_addr_mapp s r (to_signed 32 (channel_mask r))) (\<lambda>r.
      andThen (SpecDef_id (m_levels (dram_spec (sys_dram s))) ''channel'') (\<lambda>l.
      andThen (vec_at (addr_vec r) l) (\<lambda>channel_id.
      andThen (deliver channel_id r s) (\<lambda>(sent, r, s). Ok (sent, s))))))"

definition decode_CFR_write :: "request \<Rightarrow> aim_system \<Rightarrow> (bool \<times> aim_system) result" where
  "decode_CFR_write host s =
     (case address_to_CFR s (addr host) of
        None \<Rightarrow> Err (Configuration_error ''AiMDRAMSystem: unknown CFR'')
      | Some k \<Rightarrow> Ok (True, s\<lparr>CFR_values := (CFR_values s)(k \<mapsto> data host)\<rparr>))"

definition decode_access :: "request \<Rightarrow> aim_system \<Rightarrow> (bool \<times> aim_system) result" where
  "decode_access host s =
     (case mem_access_region host of
        CFR \<Rightarrow> (if req_type host = Write then decode_CFR_write host s else Ok (True, s))
      | GPR \<Rightarrow> Ok (True, s)
      | MEM \<Rightarrow> decode_MEM host s
      | _ \<Rightarrow> Err (Configuration_error ''AiMDRAMSystem: memory access region''))"

definition decode :: "AiMISRInfo \<Rightarrow> request \<Rightarrow> aim_system \<Rightarrow> (bool \<times> aim_system) result" where
  "decode info host s =
     (case req_type host of
        AIM \<Rightarrow> decode_AiM info host s
      | Read \<Rightarrow> decode_access host s
      | Write \<Rightarrow> decode_access host s
      | _ \<Rightarrow> Err (Configuration_error ''AiMDRAMSystem: unknown request type''))"

text \<open>The decoding writes \<open>host_req.col_addr\<close> of its copy, which the host's callback sees.\<close>

definition decoded_host :: "request \<Rightarrow> request" where
  "decoded_host host =
     (if req_type host = AIM \<and> opcode host \<notin> {ISR_WR_AFLUT, ISR_EWADD, Opcode_MIN, Opcode_MAX, ISR_SYNC, ISR_EOC}
         \<and> col_addr host = -1
      then host\<lparr>col_addr := 0\<rparr> else host)"

subsection \<open>One cycle\<close>

definition finish_request ::
  "(int \<Rightarrow> request \<Rightarrow> 'h \<Rightarrow> 'h result) \<Rightarrow> request \<Rightarrow> aim_system \<times> 'h \<Rightarrow> (aim_system \<times> 'h) result" where
  "finish_request host_cb host = (\<lambda>(s, h).
     andThen (call_host host_cb host s h) (\<lambda>h. Ok (pop_request s, h)))"

definition process_queue ::
  "AiMISRInfo \<Rightarrow> (int \<Rightarrow> request \<Rightarrow> 'h \<Rightarrow> 'h result) \<Rightarrow> bool \<Rightarrow> bool \<Rightarrow> aim_system \<times> 'h
    \<Rightarrow> (aim_system \<times> 'h) result" where
  "process_queue info host_cb was is_left = (\<lambda>(s, h).
     if stalled_AiM_requests s \<noteq> 0 then Ok (s, h)
     else if was
     then (if is_left then Ok (s, h)
           else andThen (queue_front s) (\<lambda>host. finish_request host_cb host (s, h)))
     else (case request_queue s of
             [] \<Rightarrow> Ok (s, h)
           | host # _ \<Rightarrow> andThen (decode info host s) (\<lambda>(all_sent, s).
               if stalled_AiM_requests s = 0 \<and> all_sent
               then finish_request host_cb (decoded_host host) (s, h) else Ok (s, h))))"

definition tick_controller ::
  "AiMISRInfo \<Rightarrow> (dram \<Rightarrow> ReqBuffer \<Rightarrow> (nat option \<times> ReqBuffer) result)
    \<Rightarrow> (int \<Rightarrow> request \<Rightarrow> 'h \<Rightarrow> 'h result) \<Rightarrow> nat \<Rightarrow> aim_system \<times> 'h \<Rightarrow> (aim_system \<times> 'h) result" where
  "tick_controller info best host_cb i = (\<lambda>(s, h).
     andThen (vec_at (m_controllers s) (int i)) (\<lambda>c.
     andThen (AiM_tick info best (request_callback host_cb) (sys_dram s) c (s, h)) (\<lambda>(d, c, s, h).
       Ok (s\<lparr>sys_dram := d, m_controllers := (m_controllers s)[i := c]\<rparr>, h))))"

definition tick_channels ::
  "AiMISRInfo \<Rightarrow> (dram \<Rightarrow> ReqBuffer \<Rightarrow> (nat option \<times> ReqBuffer) result)
    \<Rightarrow> (int \<Rightarrow> request \<Rightarrow> 'h \<Rightarrow> 'h result) \<Rightarrow> aim_system \<times> 'h \<Rightarrow> (aim_system \<times> 'h) result" where
  "tick_channels info best host_cb = (\<lambda>(s, h).
     fold_result (tick_controller info best host_cb) [0..<length (m_controllers s)]
       (s\<lparr>sys_dram := dram_tick (sys_dram s)\<rparr>, h))"

definition AiMSystem_tick ::
  "AiMISRInfo \<Rightarrow> (dram \<Rightarrow> ReqBuffer \<Rightarrow> (nat option \<times> ReqBuffer) result)
    \<Rightarrow> (int \<Rightarrow> request \<Rightarrow> 'h \<Rightarrow> 'h result) \<Rightarrow> aim_system \<times> 'h \<Rightarrow> (aim_system \<times> 'h) result" where
  "AiMSystem_tick info best host_cb = (\<lambda>(s, h).
     andThen (deliver_remaining s) (\<lambda>(was, is_left, s).
     andThen (process_queue info host_cb was is_left (s, h)) (\<lambda>(s, h).
     andThen (vec_at (m_controllers s) 0) (\<lambda>c0.
       if ctrl_clock_ratio c0 = 0 then Err (Undefined ''division by zero'')
       else andThen (if sys_clk s mod ctrl_clock_ratio c0 = 0
                     then tick_channels info best host_cb (s, h) else Ok (s, h)) (\<lambda>(s, h).
         Ok (s\<lparr>sys_clk := sys_clk s + 1\<rparr>, h))))))"

text \<open>\<open>get_tCK\<close>, in nanoseconds.\<close>

definition get_tCK :: "aim_system \<Rightarrow> rat result" where
  "get_tCK s =
     (let spec = dram_spec (sys_dram s) in
      andThen (SpecLUT_named (m_timings spec) (m_timing_vals spec) ''tCK_ps'') (\<lambda>t. Ok (of_int t / 1000)))"

end
