(* ===== verification/AiM_System_Inv.thy ===== *)
theory AiM_System_Inv
  imports AiM_System_Tick
begin

text \<open>
  The accounting of the AiM memory system of \<^verbatim>\<open>src/src/memory_system/impl/aim_DRAM_system.cpp\<close>:
  \<open>stalled_AiM_requests\<close> counts the requests whose callback is \<open>receive\<close>, wherever they are (in
  a controller or waiting to be sent to one), and all of them belong to the instruction at the
  head of the queue.
\<close>

subsection \<open>Requests that call back into the memory system\<close>

definition blocked :: "request \<Rightarrow> bool" where
  "blocked r \<longleftrightarrow> req_callback r = System_receive"

definition answers :: "request \<Rightarrow> bool" where
  "answers r \<longleftrightarrow> req_type r = AIM \<and> opcode r \<in> {ISR_RD_MAC, ISR_RD_AF, ISR_SYNC, ISR_EOC}"

lemma core_same [simp]:
  "blocked (core r) = blocked r" "answers (core r) = answers r" "host_req_id (core r) = host_req_id r"
  "req_type (core r) = req_type r"
  by (simp_all add: blocked_def answers_def core_def)

lemma filter_mset_none: "(\<And>x. x \<in># M \<Longrightarrow> \<not> P x) \<Longrightarrow> filter_mset P M = {#}"
  by (induction M) auto

lemma answers_reader: "answers r \<Longrightarrow> is_reader AiMISRInfo_init r \<noteq> Ok False"
proof -
  assume a: "answers r"
  then have "is_isr (opcode r)" by (auto simp: answers_def is_isr_def)
  then obtain isr where isr: "convert_AiM_opcode_to_AiM_ISR AiMISRInfo_init (opcode r) = Ok isr" by (auto dest: isr_total)
  then show ?thesis using a isr_blocking [OF isr] by (auto simp: is_reader_def answers_def)
qed

text \<open>A full active buffer may lose a conventional request, never an AiM one.\<close>

lemma effect_flight_lost:
  assumes "effect info x i c q c'" and "i < length (buffer (get_buf x c))"
    and "core q = core (buffer (get_buf x c) ! i)"
  shows "\<exists>lost. flight c = flight c' + lost \<and> (\<forall>k\<in>#lost. req_type k \<noteq> AIM)"
proof (cases "buf_size (m_active_buffer c) \<le> max_size (m_active_buffer c)")
  case True
  then show ?thesis using effect_flight [OF assms] by (intro exI [of _ "{#}"]) simp
next
  case False
  from assms(1) show ?thesis
  proof cases
    case activate
    let ?b1 = "(bufs c)(x := buf_put i q (get_buf x c))"
    have "snd (enqueue q (?b1 Active_buffer)) = ?b1 Active_buffer"
      using False by (auto simp: enqueue_def buf_size_def buf_put_def)
    then have "?b1(Active_buffer := snd (enqueue q (?b1 Active_buffer))) = ?b1" by (simp only: fun_upd_triv)
    then have b: "bufs c' = ?b1(x := remove_req i (?b1 x))" using activate(1) unfolding Let_def by (simp only:)
    have "held ?b1 = held (bufs c)"
      using held_upd [of "bufs c" x "buf_put i q (get_buf x c)"] cores_put [OF assms(2,3)] by simp
    moreover have "held (bufs c') + {#core q#} = held ?b1"
      unfolding b by (rule held_remove) (use assms(2) in \<open>auto simp: buf_put_def\<close>)
    ultimately have "flight c = flight c' + {#core q#}" using activate by (simp add: flight_def)
    moreover have "req_type (core q) \<noteq> AIM" using activate(4) by simp
    ultimately show ?thesis by (intro exI [of _ "{#core q#}"]) simp
  next
    case finish_read
    have "held (bufs c') + {#core q#} = held (bufs c)"
      unfolding finish_read(1) by (rule held_remove) (use assms in auto)
    then show ?thesis using finish_read by (intro exI [of _ "{#}"]) (simp add: flight_def)
  next
    case finish_write
    have "held (bufs c') + {#core q#} = held (bufs c)"
      unfolding finish_write(1) by (rule held_remove) (use assms in auto)
    then show ?thesis using finish_write by (intro exI [of _ "{#}"]) (simp add: flight_def)
  next
    case keep
    have "held (bufs c') = held (bufs c)"
      unfolding keep(1) using held_upd [of "bufs c" x "buf_put i q (get_buf x c)"] cores_put [OF assms(2,3)] by simp
    then show ?thesis using keep by (intro exI [of _ "{#}"]) (simp add: flight_def)
  qed
qed

subsection \<open>A controller\<close>

text \<open>What the memory system relies on in each of its controllers.\<close>

definition answering :: "AiMController \<Rightarrow> request multiset" where
  "answering c = filter_mset blocked (flight c)"

definition controller_ok :: "AiMController \<Rightarrow> bool" where
  "controller_ok c \<longleftrightarrow> (\<forall>r\<in>#answering c. answers r) \<and> (\<forall>w\<in>set (pending_writes c). \<not> blocked w)
     \<and> m_num_ranks (m_refresh c) \<le> 0"

lemma flight_members:
  "r \<in> set (pending_reads c) \<Longrightarrow> core r \<in># flight c"
  "r \<in> set (buffer (get_buf x c)) \<Longrightarrow> core r \<in># flight c"
  by (cases x; auto simp: flight_def held_def cores_def)+

lemma effect_answering:
  assumes "effect AiMISRInfo_init x i c q c'" and "i < length (buffer (get_buf x c))"
    and "core q = core (buffer (get_buf x c) ! i)" and "\<forall>r\<in>#answering c. answers r"
    and "\<forall>w\<in>set (pending_writes c). \<not> blocked w"
  shows "answering c' = answering c \<and> (\<forall>w\<in>set (pending_writes c'). \<not> blocked w)"
proof -
  have "core q \<in># flight c" using assms(2,3) flight_members(2) nth_mem by metis
  then have a: "blocked q \<Longrightarrow> answers q" using assms(4) by (auto simp: answering_def)
  obtain lost where lost: "flight c = flight c' + lost" "\<forall>k\<in>#lost. req_type k \<noteq> AIM"
    using effect_flight_lost [OF assms(1-3)] by blast
  have "filter_mset blocked lost = {#}"
  proof (rule filter_mset_none)
    fix k assume k: "k \<in># lost"
    then have "blocked k \<Longrightarrow> k \<in># answering c" using lost(1) by (simp add: answering_def)
    then show "\<not> blocked k" using assms(4) k lost(2) by (auto simp: answers_def)
  qed
  then have e: "answering c' = answering c" using lost(1) by (simp add: answering_def)
  have "\<forall>w\<in>set (pending_writes c'). \<not> blocked w" using assms(1)
  proof cases
    case finish_write
    then have "\<not> blocked q" using a answers_reader by blast
    then show ?thesis using finish_write assms(5) by auto
  qed (use assms(5) in simp_all)
  with e show ?thesis by simp
qed

lemma send_core: "AiM_send spec r c = Ok (ok, r', c') \<Longrightarrow> core r' = core r"
  by (auto elim: AiM_send_cases)

lemma send_controller_ok:
  assumes "AiM_send spec r c = Ok (sent, r', c')" and "controller_ok c" and "blocked r \<longrightarrow> answers r"
  shows "controller_ok c'"
proof -
  have "pending_writes c' = pending_writes c \<and> m_refresh c' = m_refresh c"
    using assms(1) by (cases rule: AiM_send_cases) auto
  moreover have "\<forall>r\<in>#answering c'. answers r"
    using send_flight [OF assms(1)] assms(2,3) by (auto simp: controller_ok_def answering_def)
  ultimately show ?thesis using assms(2) by (simp add: controller_ok_def)
qed

context request_scheduler begin

lemma tick_flight_subset:
  assumes "AiM_tick info best cb d c s = Ok (d', c', s')" and "m_num_ranks (m_refresh c) \<le> 0"
  shows "flight c' \<subseteq># flight c"
proof -
  let ?c0 = "c\<lparr>ctrl_clk := ctrl_clk c + 1\<rparr>"
  obtain c1 c2 sel c3 where 1: "serve_completed_reqs cb ?c0 s = Ok (c1, s')"
    "refresh_tick (dram_spec d) c1 = Ok c2" "schedule_request best d c2 = Ok (sel, c3)"
    "act_on info sel d c3 = Ok (d', c')" by (rule AiM_tick_cases [OF assms(1)])
  have "flight ?c0 = flight c" by (simp add: flight_def)
  with completed_flight [OF 1(1)] have f1: "flight c1 \<subseteq># flight c" by (metis mset_subset_eq_add_left add.assoc)
  have "m_num_ranks (m_refresh c1) \<le> 0" using serve_completed_cases(1) [OF 1(1)] assms(2) by simp
  from arg_cong [OF refresh_tick_none(1) [OF 1(2) this], of flight] have f2: "flight c2 = flight c1"
    by (simp add: flight_def)
  note s = schedule_request_spec [OF 1(3)]
  have f3: "flight c3 = flight c2" using s scheduled_flight [of c2 c3] by simp
  have "flight c' \<subseteq># flight c3" using 1(4)
  proof (cases rule: act_on_cases)
    case idle
    then show ?thesis by (simp add: flight_def)
  next
    case (act x i q)
    have "i < length (buffer (get_buf x c3))" using s act(1) by (auto simp: selection_ok_def)
    from effect_flight_lost [OF act(2) this act(3)] show ?thesis by auto
  qed
  then show ?thesis using f1 f2 f3 by simp
qed

lemma tick_answering:
  assumes "AiM_tick AiMISRInfo_init best cb d c s = Ok (d', c', s')" and "controller_ok c"
  shows "controller_ok c' \<and> (\<exists>done. answering c = answering c' + filter_mset blocked (mset (map core done))
     \<and> length done \<le> 1 \<and> fold_result (run_callback cb) done s = Ok s')"
proof -
  let ?c0 = "c\<lparr>ctrl_clk := ctrl_clk c + 1\<rparr>"
  obtain c1 c2 sel c3 where 1: "serve_completed_reqs cb ?c0 s = Ok (c1, s')"
    "refresh_tick (dram_spec d) c1 = Ok c2" "schedule_request best d c2 = Ok (sel, c3)"
    "act_on AiMISRInfo_init sel d c3 = Ok (d', c')" by (rule AiM_tick_cases [OF assms(1)])
  note sc = serve_completed_cases [OF 1(1)]
  have f0: "flight ?c0 = flight c" by (simp add: flight_def)
  have w: "filter_mset blocked (mset (map core (completed_writes ?c0))) = {#}"
    by (rule filter_mset_none) (use assms(2) in \<open>auto simp: controller_ok_def completed_writes_def\<close>)
  have a1: "answering c = answering c1 + filter_mset blocked (mset (map core (completed_reads ?c0)))"
    unfolding answering_def using completed_flight [OF 1(1)] w f0 by simp
  have p1: "\<forall>w\<in>set (pending_writes c1). \<not> blocked w" and r1: "m_num_ranks (m_refresh c1) \<le> 0"
    using sc(1) assms(2) by (auto simp: controller_ok_def)
  note f = refresh_tick_none [OF 1(2) r1]
  note s = schedule_request_spec [OF 1(3)]
  have c3: "flight c3 = flight c1" "pending_writes c3 = pending_writes c1" "m_refresh c3 = m_refresh c2"
    using s scheduled_flight [of c2 c3] scheduled_fields(4,6) [of c2 c3] arg_cong [OF f(1), of flight]
      arg_cong [OF f(1), of pending_writes] by (simp_all add: flight_def)
  have a3: "\<forall>r\<in>#answering c3. answers r"
    using a1 c3(1) assms(2) by (auto simp: controller_ok_def answering_def)
  have p3: "\<forall>w\<in>set (pending_writes c3). \<not> blocked w" using p1 c3(2) by simp
  have "answering c' = answering c3 \<and> (\<forall>w\<in>set (pending_writes c'). \<not> blocked w) \<and> m_refresh c' = m_refresh c3"
    using 1(4)
  proof (cases rule: act_on_cases)
    case idle
    then show ?thesis using p3 by (simp add: answering_def flight_def)
  next
    case (act x i q)
    have "i < length (buffer (get_buf x c3))" using s act(1) by (auto simp: selection_ok_def)
    from effect_answering [OF act(2) this act(3) a3 p3] act(7) show ?thesis by simp
  qed
  moreover have "answering c3 = answering c1" using c3(1) by (simp add: answering_def)
  moreover have "length (completed_reads ?c0) \<le> 1" by (simp add: completed_reads_def)
  ultimately show ?thesis using a1 a3 sc(2) f(2) r1 c3(3) unfolding controller_ok_def by auto
qed

end

subsection \<open>The system\<close>

definition all_requests :: "aim_system \<Rightarrow> request multiset" where
  "all_requests s = sum_list (map flight (m_controllers s))
     + sum_list (map (\<lambda>q. mset (map core q)) (remaining_AiM_requests s))"

definition outstanding :: "aim_system \<Rightarrow> request multiset" where
  "outstanding s = filter_mset blocked (all_requests s)"

definition accounts :: "int \<Rightarrow> aim_system \<Rightarrow> bool" where
  "accounts host_id s \<longleftrightarrow> stalled_AiM_requests s = int (size (outstanding s))
     \<and> (\<forall>r\<in>#outstanding s. answers r \<and> host_req_id r = host_id)
     \<and> (\<forall>c\<in>set (m_controllers s). controller_ok c)"

definition sys_inv :: "aim_system \<Rightarrow> bool" where
  "sys_inv s \<longleftrightarrow> (\<forall>r\<in>set (request_queue s). \<not> blocked r)
     \<and> (\<exists>host_id. accounts host_id s
          \<and> (stalled_AiM_requests s \<noteq> 0 \<longrightarrow> request_queue s \<noteq> [] \<and> host_req_id (hd (request_queue s)) = host_id))"

lemma sum_list_update_mset: "i < length xs \<Longrightarrow> sum_list (xs[i := y]) + xs ! i = sum_list xs + (y :: 'a multiset)"
proof (induction xs arbitrary: i)
  case Nil
  then show ?case by simp
next
  case (Cons x xs)
  then show ?case by (cases i) (simp_all add: ac_simps)
qed

lemma sum_list_map_update:
  "i < length xs \<Longrightarrow> f y = f (xs ! i) + k \<Longrightarrow> sum_list (map f (xs[i := y])) = sum_list (map f xs) + (k :: 'a multiset)"
  using sum_list_update_mset [of i "map f xs" "f y"] by (simp add: map_update ac_simps)

lemma accounts_zero: "accounts host_id s \<Longrightarrow> stalled_AiM_requests s = 0 \<Longrightarrow> accounts other s"
  by (auto simp: accounts_def)

lemma accounts_cong:
  "m_controllers s' = m_controllers s \<Longrightarrow> remaining_AiM_requests s' = remaining_AiM_requests s \<Longrightarrow>
   stalled_AiM_requests s' = stalled_AiM_requests s \<Longrightarrow> accounts host_id s' = accounts host_id s"
  by (simp add: accounts_def outstanding_def all_requests_def)

lemma deliver_cases:
  assumes "deliver ch r s = Ok (sent, r', s')"
  obtains c' where "in_vec (m_controllers s) ch"
    "AiM_send (dram_spec (sys_dram s)) r (m_controllers s ! nat ch) = Ok (sent, r', c')"
    "if sent then s' = s\<lparr>m_controllers := (m_controllers s)[nat ch := c']\<rparr>
     else in_vec (remaining_AiM_requests s) ch \<and> s' = s\<lparr>m_controllers := (m_controllers s)[nat ch := c'],
       remaining_AiM_requests := (remaining_AiM_requests s)[nat ch := remaining_AiM_requests s ! nat ch @ [r']]\<rparr>"
  using assms unfolding deliver_def
  by (auto simp: andThen_Ok_iff vec_at_Ok_iff vec_put_Ok_iff Let_def split: if_splits)

lemma deliver_requests:
  assumes "deliver ch r s = Ok (sent, r', s')"
  shows "all_requests s' = add_mset (core r) (all_requests s)" "core r' = core r"
    "request_queue s' = request_queue s" "stalled_AiM_requests s' = stalled_AiM_requests s"
    "next_AiM_req_id s' = next_AiM_req_id s"
proof -
  obtain c' where c: "in_vec (m_controllers s) ch"
    and send: "AiM_send (dram_spec (sys_dram s)) r (m_controllers s ! nat ch) = Ok (sent, r', c')"
    and s': "if sent then s' = s\<lparr>m_controllers := (m_controllers s)[nat ch := c']\<rparr>
     else in_vec (remaining_AiM_requests s) ch \<and> s' = s\<lparr>m_controllers := (m_controllers s)[nat ch := c'],
       remaining_AiM_requests := (remaining_AiM_requests s)[nat ch := remaining_AiM_requests s ! nat ch @ [r']]\<rparr>"
    by (rule deliver_cases [OF assms])
  show r': "core r' = core r" using send_core [OF send] by simp
  show "request_queue s' = request_queue s" "stalled_AiM_requests s' = stalled_AiM_requests s"
    "next_AiM_req_id s' = next_AiM_req_id s"
    using s' by (cases sent; simp)+
  have flight: "sum_list (map flight ((m_controllers s)[nat ch := c']))
      = sum_list (map flight (m_controllers s)) + (if sent then {#core r#} else {#})"
    by (rule sum_list_map_update [OF in_vec_nat [OF c]]) (use send_flight [OF send] in simp)
  show "all_requests s' = add_mset (core r) (all_requests s)"
  proof (cases sent)
    case True
    then show ?thesis using s' flight by (simp add: all_requests_def)
  next
    case False
    let ?q = "remaining_AiM_requests s ! nat ch @ [r']"
    have q: "in_vec (remaining_AiM_requests s) ch" using False s' by simp
    have "sum_list (map (\<lambda>q. mset (map core q)) ((remaining_AiM_requests s)[nat ch := ?q]))
        = sum_list (map (\<lambda>q. mset (map core q)) (remaining_AiM_requests s)) + {#core r#}"
      by (rule sum_list_map_update [OF in_vec_nat [OF q]]) (simp add: r')
    then show ?thesis using False s' flight by (simp add: all_requests_def)
  qed
qed

lemma deliver_controllers_ok:
  assumes "deliver ch r s = Ok (sent, r', s')" and "\<forall>c\<in>set (m_controllers s). controller_ok c"
    and "blocked r \<longrightarrow> answers r"
  shows "\<forall>c\<in>set (m_controllers s'). controller_ok c"
proof -
  obtain c' where c: "in_vec (m_controllers s) ch"
    and send: "AiM_send (dram_spec (sys_dram s)) r (m_controllers s ! nat ch) = Ok (sent, r', c')"
    and s': "if sent then s' = s\<lparr>m_controllers := (m_controllers s)[nat ch := c']\<rparr>
     else in_vec (remaining_AiM_requests s) ch \<and> s' = s\<lparr>m_controllers := (m_controllers s)[nat ch := c'],
       remaining_AiM_requests := (remaining_AiM_requests s)[nat ch := remaining_AiM_requests s ! nat ch @ [r']]\<rparr>"
    by (rule deliver_cases [OF assms(1)])
  have "controller_ok c'" using send_controller_ok [OF send] assms(2,3) in_vec_nat [OF c] by simp
  moreover have "m_controllers s' = (m_controllers s)[nat ch := c']" using s' by (cases sent) simp_all
  ultimately show ?thesis using assms(2) set_update_subset_insert [of "m_controllers s" "nat ch" c'] by auto
qed

lemma accounts_deliver:
  assumes "deliver ch r s = Ok (sent, r', s')" and "accounts host_id s" and "blocked r \<longrightarrow> answers r"
    and "host_req_id r = host_id"
  shows "accounts host_id (s'\<lparr>stalled_AiM_requests := stalled_AiM_requests s' + (if blocked r then 1 else 0)\<rparr>)"
    "request_queue s' = request_queue s" "core r' = core r"
proof -
  have ok: "\<forall>c\<in>set (m_controllers s). controller_ok c" using assms(2) by (simp add: accounts_def)
  note d = deliver_requests [OF assms(1)]
  have ok': "\<forall>c\<in>set (m_controllers s'). controller_ok c" by (rule deliver_controllers_ok [OF assms(1) ok assms(3)])
  have "outstanding s' = (if blocked r then add_mset (core r) (outstanding s) else outstanding s)"
    using d(1) by (simp add: outstanding_def)
  then show "accounts host_id (s'\<lparr>stalled_AiM_requests := stalled_AiM_requests s' + (if blocked r then 1 else 0)\<rparr>)"
    using assms(2-4) ok' d(4) by (auto simp: accounts_def outstanding_def all_requests_def)
  show "request_queue s' = request_queue s" "core r' = core r" by (rule d)+
qed

lemma set_addr_form: "set_addr spec name v r = Ok r' \<Longrightarrow> \<exists>av. r' = r\<lparr>addr_vec := av\<rparr>"
  by (auto simp: set_addr_def andThen_Ok_iff)

lemma addr_vec_twice: "\<exists>bv. r\<lparr>addr_vec := av\<rparr>\<lparr>addr_vec := cv\<rparr> = r\<lparr>addr_vec := bv\<rparr>"
  by (rule exI [of _ cv]) simp

lemma apply_addr_mapp_form:
  assumes "apply_addr_mapp s r ch = Ok r'"
  shows "\<exists>av. r' = r\<lparr>addr_vec := av\<rparr>"
  using assms
  by (auto simp: apply_addr_mapp_def Let_def andThen_Ok_iff split: if_splits dest!: set_addr_form)

subsection \<open>Loops of the decoding\<close>

text \<open>The fields that the loops write into the request before they send it.\<close>

definition touched :: "request \<Rightarrow> request \<Rightarrow> bool" where
  "touched r r' \<longleftrightarrow> (\<exists>i h av col. r' = r\<lparr>AiM_req_id := i, host_req_id := h, addr_vec := av, col_addr := col\<rparr>)"

lemma touchedI: "touched r (r\<lparr>AiM_req_id := i, host_req_id := h, addr_vec := av, col_addr := col\<rparr>)"
  by (auto simp: touched_def)

lemma touched_fields:
  assumes "touched r r'"
  shows "req_callback r' = req_callback r" "req_type r' = req_type r" "opcode r' = opcode r"
    "blocked r' = blocked r" "answers r' = answers r"
  using assms by (auto simp: touched_def blocked_def answers_def)

text \<open>What an invariant of the decoding must satisfy. It speaks of the flag of the loop, the
  request and the system, and knows whether the instruction blocks.\<close>

definition decode_invariant :: "int \<Rightarrow> (bool \<Rightarrow> bool \<times> request \<times> aim_system \<Rightarrow> bool) \<Rightarrow> bool" where
  "decode_invariant host_id I \<longleftrightarrow>
     (\<forall>b a r r' u. I b (a, r, u) \<longrightarrow> touched r r' \<longrightarrow> I b (a, r', u))
     \<and> (\<forall>b a r u i f. I b (a, r, u) \<longrightarrow> I b (a, r, u\<lparr>next_AiM_req_id := i, CFR_values := f\<rparr>))
     \<and> (\<forall>b a r u ch sent r' u'. I b (a, r, u) \<longrightarrow> host_req_id r = host_id \<longrightarrow> deliver ch r u = Ok (sent, r', u')
          \<longrightarrow> I b (a \<and> sent, r', u'\<lparr>stalled_AiM_requests := stalled_AiM_requests u' + (if b then 1 else 0)\<rparr>))"

lemma decode_invariantD:
  assumes "decode_invariant host_id I" and "I b (a, r, u)"
  shows "touched r r' \<Longrightarrow> I b (a, r', u)" "I b (a, r, u\<lparr>next_AiM_req_id := i, CFR_values := f\<rparr>)"
    "I b (a, r, u\<lparr>next_AiM_req_id := i\<rparr>)" "I b (a, r, u\<lparr>CFR_values := f\<rparr>)"
    "host_req_id r = host_id \<Longrightarrow> deliver ch r u = Ok (sent, r', u')
       \<Longrightarrow> I b (a \<and> sent, r', u'\<lparr>stalled_AiM_requests := stalled_AiM_requests u' + (if b then 1 else 0)\<rparr>)"
proof -
  show "touched r r' \<Longrightarrow> I b (a, r', u)" and "host_req_id r = host_id \<Longrightarrow> deliver ch r u = Ok (sent, r', u')
       \<Longrightarrow> I b (a \<and> sent, r', u'\<lparr>stalled_AiM_requests := stalled_AiM_requests u' + (if b then 1 else 0)\<rparr>)"
    using assms unfolding decode_invariant_def by blast+
  have 1: "I b (a, r, u\<lparr>next_AiM_req_id := i, CFR_values := f\<rparr>)" for i f
    using assms unfolding decode_invariant_def by blast
  then show "I b (a, r, u\<lparr>next_AiM_req_id := i, CFR_values := f\<rparr>)" .
  show "I b (a, r, u\<lparr>next_AiM_req_id := i\<rparr>)" using 1 [where i = i and f = "CFR_values u"] by simp
  show "I b (a, r, u\<lparr>CFR_values := f\<rparr>)" using 1 [where i = "next_AiM_req_id u" and f = f] by simp
qed

lemma send_part_rule:
  assumes I: "decode_invariant host_id I"
    and "send_part mapped b host_id ch st = Ok st'" and "I b st"
  shows "I b st'"
proof -
  obtain all_sent r s where st: "st = (all_sent, r, s)" by (cases st)
  define r0 where "r0 = r\<lparr>AiM_req_id := next_AiM_req_id s, host_req_id := host_id\<rparr>"
  define s0 where "s0 = s\<lparr>next_AiM_req_id := next_AiM_req_id s + 1\<rparr>"
  from assms(2) obtain r1 sent r2 s2 where m: "(if mapped then apply_addr_mapp s0 r0 ch else Ok r0) = Ok r1"
    and d: "deliver ch r1 s0 = Ok (sent, r2, s2)"
    and st': "st' = (all_sent \<and> sent, r2, if b then s2\<lparr>stalled_AiM_requests := stalled_AiM_requests s2 + 1\<rparr> else s2)"
    unfolding st send_part_def r0_def s0_def by (auto simp: Let_def andThen_Ok_iff)
  obtain av where r1: "r1 = r0 \<or> r1 = r0\<lparr>addr_vec := av\<rparr>"
    using m apply_addr_mapp_form [of s0 r0 ch r1] by (cases mapped) auto
  have "touched r r1" "host_req_id r1 = host_id"
    using r1 touchedI [where r = r and i = "next_AiM_req_id s" and h = host_id and av = "addr_vec r" and col = "col_addr r"]
      touchedI [where r = r and i = "next_AiM_req_id s" and h = host_id and av = av and col = "col_addr r"] by (auto simp: r0_def)
  moreover have "I b (all_sent, r, s0)" using decode_invariantD(3) [OF I] assms(3) by (simp add: st s0_def)
  ultimately have "I b (all_sent \<and> sent, r2, s2\<lparr>stalled_AiM_requests := stalled_AiM_requests s2 + (if b then 1 else 0)\<rparr>)"
    using decode_invariantD(1,5) [OF I] d by blast
  then show ?thesis by (cases b) (simp_all add: st')
qed

lemma send_to_mask_rule:
  assumes I: "decode_invariant host_id I"
    and "send_to_mask b host_id ch_mask st = Ok st'" and "I b st"
  shows "I b st'"
proof -
  from assms(2) obtain mask where f: "fold_result (\<lambda>cnt (channel_mask, st).
         (let (channel_id, channel_mask) = FindFirstChannelIndex channel_mask in
          andThen (send_part True b host_id channel_id st) (\<lambda>st. Ok (channel_mask, st))))
       [0..<CountSetBit ch_mask] (ch_mask, st) = Ok (mask, st')"
    by (auto simp: send_to_mask_def andThen_Ok_iff)
  have "(\<lambda>(mask, st). I b st) (mask, st')"
    by (rule fold_result_invariant [OF f])
      (use assms(3) in \<open>auto simp: andThen_Ok_iff split: prod.splits intro: send_part_rule [OF I]\<close>)
  then show ?thesis by simp
qed

lemma decode_ISR_rule:
  assumes I: "decode_invariant host_id I"
    and "decode_ISR info host s = Ok (sent, s')" and "host_id = host_req_id host"
    and "\<And>isr. convert_AiM_opcode_to_AiM_ISR info (opcode host) = Ok isr \<Longrightarrow>
      I (AiM_DMA_blocking isr) (True, prepare_request s isr host, s)"
  shows "\<exists>b r. I b (sent, r, s')"
proof -
  from assms(2) obtain isr where isr: "convert_AiM_opcode_to_AiM_ISR info (opcode host) = Ok isr"
    unfolding decode_ISR_def by (rule andThen_OkE)
  define repeats where "repeats = nat (if opsize host = -1 then 1 else opsize host)"
  define col where "col = (if col_addr host = -1 then 0 else col_addr host)"
  from assms(2,3) isr obtain r where f: "fold_result (\<lambda>i (all_sent, r, s).
        send_to_mask (AiM_DMA_blocking isr) host_id (channel_mask host)
          (all_sent, r\<lparr>col_addr := col + int i\<rparr>, s))
      [0..<repeats] (True, prepare_request s isr host, s) = Ok (sent, r, s')"
    unfolding decode_ISR_def repeats_def col_def
    by (simp add: Let_def if_result_Ok_iff) (auto simp: andThen_Ok_iff)
  let ?I = "I (AiM_DMA_blocking isr)"
  have "?I (sent, r, s')"
  proof (rule fold_result_invariant [where I = ?I, OF f assms(4) [OF isr]])
    fix i st st'
    assume st: "?I st" and step: "(\<lambda>(all_sent, r, s).
        send_to_mask (AiM_DMA_blocking isr) host_id (channel_mask host)
          (all_sent, r\<lparr>col_addr := col + int i\<rparr>, s)) st = Ok st'"
    obtain a r1 s1 where e: "st = (a, r1, s1)" by (cases st)
    have "touched r1 (r1\<lparr>col_addr := col + int i\<rparr>)"
      using touchedI [where r = r1 and i = "AiM_req_id r1" and h = "host_req_id r1" and av = "addr_vec r1" and col = "col_addr r1 - col_addr r1 + col + int i"] by simp
    then have "?I (a, r1\<lparr>col_addr := col + int i\<rparr>, s1)" using st decode_invariantD(1) [OF I] unfolding e by blast
    with step show "?I st'" unfolding e by (auto intro: send_to_mask_rule [OF I])
  qed
  then show ?thesis by blast
qed

text \<open>The rule for the decoding of any instruction.\<close>

lemma decode_rule:
  assumes I: "decode_invariant host_id I"
    and "decode info host s = Ok (sent, s')" and "host_id = host_req_id host"
    and "I False (True, host, s)"
    and "\<And>isr. req_type host = AIM \<Longrightarrow> opcode host \<notin> {ISR_SYNC, ISR_EOC} \<Longrightarrow>
      convert_AiM_opcode_to_AiM_ISR info (opcode host) = Ok isr \<Longrightarrow>
      I (AiM_DMA_blocking isr) (True, prepare_request s isr host, s)"
    and "req_type host = AIM \<Longrightarrow> opcode host \<in> {ISR_SYNC, ISR_EOC} \<Longrightarrow>
      I True (True, host\<lparr>req_callback := System_receive\<rparr>, s)"
  shows "\<exists>b r. I b (sent, r, s')"
proof (cases "req_type host = AIM")
  case True
  then have d: "decode_AiM info host s = Ok (sent, s')" using assms(2) by (simp add: decode_def)
  show ?thesis
  proof (cases "opcode host \<in> {ISR_SYNC, ISR_EOC}")
    case bar: True
    then obtain r where f: "fold_result (\<lambda>channel_id st. send_part False True host_id (int channel_id) st)
       [0..<length (m_controllers s)] (True, host\<lparr>req_callback := System_receive\<rparr>, s) = Ok (sent, r, s')"
      using d assms(3) by (auto simp: decode_AiM_def decode_barrier_def andThen_Ok_iff)
    have "I True (sent, r, s')"
      by (rule fold_result_invariant [where I = "I True", OF f assms(6) [OF True bar]]) (rule send_part_rule [OF I])
    then show ?thesis by blast
  next
    case False
    then have "sent \<and> s' = s \<or> decode_ISR info host s = Ok (sent, s')"
      using d by (auto simp: decode_AiM_def split: if_splits)
    then show ?thesis
    proof
      assume "sent \<and> s' = s"
      then show ?thesis using assms(4) by (intro exI [of _ False] exI [of _ host]) simp
    next
      assume "decode_ISR info host s = Ok (sent, s')"
      then show ?thesis using assms(3) assms(5) [OF True False] by (rule decode_ISR_rule [OF I])
    qed
  qed
next
  case False
  then have d: "decode_access host s = Ok (sent, s')" using assms(2) by (cases "req_type host") (auto simp: decode_def)
  show ?thesis
  proof (cases "mem_access_region host = MEM")
    case True
    let ?s = "s\<lparr>next_AiM_req_id := next_AiM_req_id s + 1\<rparr>"
    from d True obtain r ch r' where m: "apply_addr_mapp ?s (host\<lparr>AiM_req_id := next_AiM_req_id s\<rparr>)
          (to_signed 32 (channel_mask host)) = Ok r" and dl: "deliver ch r ?s = Ok (sent, r', s')"
      by (auto simp: decode_access_def decode_MEM_def Let_def andThen_Ok_iff)
    obtain av where r: "r = host\<lparr>AiM_req_id := next_AiM_req_id s\<rparr>\<lparr>addr_vec := av\<rparr>"
      using apply_addr_mapp_form [OF m] by blast
    have "touched host r"
      using touchedI [where r = host and i = "next_AiM_req_id s" and h = "host_req_id host" and av = av and col = "col_addr host"] by (simp add: r)
    moreover have "I False (True, host, ?s)" by (rule decode_invariantD(3) [OF I assms(4)])
    ultimately have "I False (True, r, ?s)" using decode_invariantD(1) [OF I] by blast
    from decode_invariantD(5) [OF I this _ dl] assms(3) show ?thesis by (auto simp: r)
  next
    case False
    then obtain f where "sent" "s' = s\<lparr>CFR_values := f\<rparr> \<or> s' = s"
      using d by (auto simp: decode_access_def decode_CFR_write_def
          split: MemAccessRegion.splits if_splits option.splits)
    then show ?thesis using assms(4) decode_invariantD(4) [OF I assms(4)]
      by (intro exI [of _ False] exI [of _ host]) auto
  qed
qed

text \<open>Decoding keeps the accounts.\<close>

definition decoding :: "int \<Rightarrow> request list \<Rightarrow> bool \<Rightarrow> bool \<times> request \<times> aim_system \<Rightarrow> bool" where
  "decoding host_id Q blocking = (\<lambda>(all_sent, r, s).
     accounts host_id s \<and> request_queue s = Q \<and> blocked r = blocking \<and> (blocking \<longrightarrow> answers r))"

lemma decoding_invariant: "decode_invariant host_id (decoding host_id Q)"
  unfolding decode_invariant_def
proof (intro conjI allI impI)
  fix b a r r' u assume "decoding host_id Q b (a, r, u)" "touched r r'"
  then show "decoding host_id Q b (a, r', u)" using touched_fields [of r r'] by (simp add: decoding_def)
next
  fix b a r u i f assume "decoding host_id Q b (a, r, u)"
  then show "decoding host_id Q b (a, r, u\<lparr>next_AiM_req_id := i, CFR_values := f\<rparr>)"
    using accounts_cong [of "u\<lparr>next_AiM_req_id := i, CFR_values := f\<rparr>" u host_id] by (simp add: decoding_def)
next
  fix b a r u ch sent r' u'
  assume D: "decoding host_id Q b (a, r, u)" and h: "host_req_id r = host_id" and d: "deliver ch r u = Ok (sent, r', u')"
  have r: "accounts host_id u" "request_queue u = Q" "blocked r = b" "b \<longrightarrow> answers r" using D by (simp_all add: decoding_def)
  note k = accounts_deliver [OF d r(1) _ h]
  have "blocked r' = blocked r" "answers r' = answers r"
    using arg_cong [OF deliver_requests(2) [OF d], of blocked] arg_cong [OF deliver_requests(2) [OF d], of answers] by simp_all
  then show "decoding host_id Q b (a \<and> sent, r',
      u'\<lparr>stalled_AiM_requests := stalled_AiM_requests u' + (if b then 1 else 0)\<rparr>)"
    using k r by (simp add: decoding_def)
qed

end
