(* ===== verification/AiM_System_Reach.thy ===== *)
theory AiM_System_Reach
  imports AiM_System_Inv
begin

text \<open>
  Every step of the AiM memory system of \<^verbatim>\<open>src/src/memory_system/impl/aim_DRAM_system.cpp\<close>
  keeps the accounts of \<open>AiM_System_Inv\<close>, and the instructions leave the queue in order.
\<close>

subsection \<open>Decoding\<close>

lemma blocked_prepare:
  "\<not> blocked host \<Longrightarrow> blocked (prepare_request s isr host) = AiM_DMA_blocking isr"
  by (auto simp: prepare_request_def convert_single_bank_def blocked_def Let_def)

lemma decode_accounts:
  assumes "decode AiMISRInfo_init host s = Ok (sent, s')" and "accounts (host_req_id host) s" and "\<not> blocked host"
  shows "accounts (host_req_id host) s' \<and> request_queue s' = request_queue s"
proof -
  have "\<exists>b r. decoding (host_req_id host) (request_queue s) b (sent, r, s')"
  proof (rule decode_rule [OF decoding_invariant assms(1) refl])
    show "decoding (host_req_id host) (request_queue s) False (True, host, s)" using assms(2,3) by (simp add: decoding_def)
  next
    fix isr assume AIM: "req_type host = AIM" "opcode host \<notin> {ISR_SYNC, ISR_EOC}"
      and isr: "convert_AiM_opcode_to_AiM_ISR AiMISRInfo_init (opcode host) = Ok isr"
    have "AiM_DMA_blocking isr \<longrightarrow> answers (prepare_request s isr host)"
      using isr_blocking [OF isr] AIM
      by (auto simp: prepare_request_def convert_single_bank_def answers_def Let_def)
    then show "decoding (host_req_id host) (request_queue s) (AiM_DMA_blocking isr) (True, prepare_request s isr host, s)"
      using assms(2) blocked_prepare [OF assms(3)] by (simp add: decoding_def)
  next
    assume "req_type host = AIM" "opcode host \<in> {ISR_SYNC, ISR_EOC}"
    then show "decoding (host_req_id host) (request_queue s) True (True, host\<lparr>req_callback := System_receive\<rparr>, s)"
      using assms(2) by (auto simp: decoding_def blocked_def answers_def)
  qed
  then show ?thesis by (auto simp: decoding_def)
qed

subsection \<open>The queue\<close>

text \<open>What a step may do to the instruction queue: leave it, or take its head off.\<close>

definition advances :: "request list \<Rightarrow> request list \<Rightarrow> bool" where
  "advances Q Q' \<longleftrightarrow> Q' = Q \<or> Q \<noteq> [] \<and> Q' = tl Q"

lemma sys_invI:
  "\<forall>r\<in>set (request_queue s). \<not> blocked r \<Longrightarrow> accounts host_id s \<Longrightarrow>
   (stalled_AiM_requests s \<noteq> 0 \<Longrightarrow> request_queue s \<noteq> [] \<and> host_req_id (hd (request_queue s)) = host_id) \<Longrightarrow> sys_inv s"
  unfolding sys_inv_def by blast

lemma finish_request_inv:
  assumes "finish_request host_cb host (s, h) = Ok (s', h')" and "sys_inv s" and "stalled_AiM_requests s = 0"
  shows "sys_inv s' \<and> request_queue s' = tl (request_queue s) \<and> stalled_AiM_requests s' = 0"
proof -
  have s': "s' = pop_request s" using assms(1) by (auto simp: finish_request_def andThen_Ok_iff)
  obtain i where "accounts i s" using assms(2) by (auto simp: sys_inv_def)
  then have "accounts i s'" using accounts_cong [of s' s i] s' by (simp add: pop_request_def)
  moreover have "\<forall>r\<in>set (request_queue s'). \<not> blocked r"
    using assms(2) s' by (cases "request_queue s") (auto simp: sys_inv_def pop_request_def)
  ultimately show ?thesis using assms(3) s' by (auto simp: pop_request_def intro: sys_invI)
qed

lemma process_queue_inv:
  assumes "process_queue AiMISRInfo_init host_cb was is_left (s, h) = Ok (s', h')" and "sys_inv s"
  shows "sys_inv s' \<and> (request_queue s' = request_queue s
     \<or> request_queue s \<noteq> [] \<and> request_queue s' = tl (request_queue s) \<and> stalled_AiM_requests s' = 0)"
proof (cases "stalled_AiM_requests s = 0")
  case False
  then show ?thesis using assms by (simp add: process_queue_def)
next
  case zero: True
  show ?thesis
  proof (cases was)
    case True
    show ?thesis
    proof (cases is_left)
      case True
      then show ?thesis using assms zero \<open>was\<close> by (simp add: process_queue_def)
    next
      case False
      then obtain host where q: "queue_front s = Ok host" and f: "finish_request host_cb host (s, h) = Ok (s', h')"
        using assms(1) zero True by (auto simp: process_queue_def andThen_Ok_iff)
      then have "request_queue s \<noteq> []" by (auto simp: queue_front_def)
      with finish_request_inv [OF f assms(2) zero] show ?thesis by simp
    qed
  next
    case False
    show ?thesis
    proof (cases "request_queue s")
      case Nil
      then show ?thesis using assms zero False by (simp add: process_queue_def)
    next
      case (Cons host Q)
      with assms(1) zero False obtain sent s1 where d: "decode AiMISRInfo_init host s = Ok (sent, s1)"
        and f: "(if stalled_AiM_requests s1 = 0 \<and> sent then finish_request host_cb (decoded_host host) (s1, h)
            else Ok (s1, h)) = Ok (s', h')"
        by (auto simp: process_queue_def andThen_Ok_iff)
      obtain i where "accounts i s" using assms(2) by (auto simp: sys_inv_def)
      then have a: "accounts (host_req_id host) s" using zero by (rule accounts_zero)
      have nb: "\<not> blocked host" using assms(2) Cons by (simp add: sys_inv_def)
      note s1 = decode_accounts [OF d a nb]
      have inv: "sys_inv s1"
        by (rule sys_invI [of _ "host_req_id host"]) (use s1 assms(2) Cons in \<open>auto simp: sys_inv_def\<close>)
      show ?thesis
      proof (cases "stalled_AiM_requests s1 = 0 \<and> sent")
        case True
        then have "finish_request host_cb (decoded_host host) (s1, h) = Ok (s', h')" using f by simp
        from finish_request_inv [OF this inv] True s1 Cons show ?thesis by auto
      next
        case False
        then show ?thesis using f inv s1 by auto
      qed
    qed
  qed
qed

lemma cancel_pairs:
  fixes a :: "'a multiset"
  assumes "a' + f = a + f'" and "b' + q = b + q'" and "f' + q' = f + q"
  shows "a' + b' = a + b"
proof -
  have "a' + b' + (f + q) = (a' + f) + (b' + q)" by (simp add: ac_simps)
  also have "\<dots> = a + b + (f' + q')" using assms(1,2) by (simp add: ac_simps)
  also have "\<dots> = a + b + (f + q)" using assms(3) by simp
  finally show ?thesis by simp
qed

lemma drain_channel_spec:
  "drain_channel spec q c = Ok (q', c') \<Longrightarrow> controller_ok c \<Longrightarrow> (\<forall>r\<in>set q. blocked r \<longrightarrow> answers r) \<Longrightarrow>
   flight c' + mset (map core q') = flight c + mset (map core q) \<and> controller_ok c'"
proof (induction spec q c rule: drain_channel.induct)
  case (1 spec c)
  then show ?case by simp
next
  case (2 spec r rs c)
  then obtain sent r1 c1 where send: "AiM_send spec r c = Ok (sent, r1, c1)"
    and rest: "(if sent then drain_channel spec rs c1 else Ok (r1 # rs, c1)) = Ok (q', c')"
    by (auto simp: andThen_Ok_iff)
  have ok: "controller_ok c1" using send_controller_ok [OF send 2(3)] 2(4) by simp
  note f = send_flight [OF send] and k = send_core [OF send]
  show ?case
  proof (cases sent)
    case True
    then have "flight c' + mset (map core q') = flight c1 + mset (map core rs) \<and> controller_ok c'"
      using 2(1) [OF send refl refl] rest ok 2(4) by simp
    then show ?thesis using f True by simp
  next
    case False
    then show ?thesis using rest f k ok by auto
  qed
qed

lemma in_sum_list_mset: "x \<in># sum_list Ms \<longleftrightarrow> (\<exists>M\<in>set Ms. x \<in># M)"
  by (induction Ms) auto

lemma accounts_remaining:
  assumes "accounts i s" and "q \<in> set (remaining_AiM_requests s)" and "r \<in> set q" and "blocked r"
  shows "answers r"
proof -
  have "core r \<in># sum_list (map (\<lambda>q. mset (map core q)) (remaining_AiM_requests s))"
    using assms(2,3) by (auto simp: in_sum_list_mset intro!: bexI [of _ q])
  then have "core r \<in># outstanding s" using assms(4) by (simp add: outstanding_def all_requests_def)
  then show ?thesis using assms(1) by (auto simp: accounts_def)
qed

lemma deliver_remaining_inv:
  assumes "deliver_remaining s = Ok (was, is_left, s')" and "accounts i s"
  shows "accounts i s' \<and> request_queue s' = request_queue s \<and> stalled_AiM_requests s' = stalled_AiM_requests s
     \<and> all_requests s' = all_requests s"
proof -
  let ?I = "\<lambda>(was, is_left, u). accounts i u \<and> request_queue u = request_queue s
      \<and> stalled_AiM_requests u = stalled_AiM_requests s \<and> all_requests u = all_requests s"
  have "?I (was, is_left, s')" unfolding deliver_remaining_def
  proof (rule fold_result_invariant [OF assms(1) [unfolded deliver_remaining_def]])
    show "?I (False, False, s)" using assms(2) by simp
    fix ch st st'
    assume I: "?I st" and step: "(\<lambda>(was, is_left, s).
         andThen (vec_at (remaining_AiM_requests s) (int ch)) (\<lambda>q.
           if q = [] then Ok (was, is_left, s)
           else andThen (vec_at (m_controllers s) (int ch)) (\<lambda>c.
                andThen (drain_channel (dram_spec (sys_dram s)) q c) (\<lambda>(q, c).
                  Ok (True, is_left \<or> q \<noteq> [],
                      s\<lparr>remaining_AiM_requests := (remaining_AiM_requests s)[ch := q],
                        m_controllers := (m_controllers s)[ch := c]\<rparr>))))) st = Ok st'"
    obtain w l u where st: "st = (w, l, u)" by (cases st)
    let ?q = "remaining_AiM_requests u ! ch" and ?c = "m_controllers u ! ch"
    have I': "accounts i u" "request_queue u = request_queue s" "stalled_AiM_requests u = stalled_AiM_requests s"
      "all_requests u = all_requests s" using I by (simp_all add: st)
    have lq: "ch < length (remaining_AiM_requests u)" using step by (auto simp: st andThen_Ok_iff vec_at_Ok_iff)
    show "?I st'"
    proof (cases "?q = []")
      case True
      then show ?thesis using step I by (auto simp: st andThen_Ok_iff vec_at_Ok_iff)
    next
      case False
      with step obtain q c where lc: "ch < length (m_controllers u)"
        and dr: "drain_channel (dram_spec (sys_dram u)) ?q ?c = Ok (q, c)"
        and st': "st' = (True, l \<or> q \<noteq> [], u\<lparr>remaining_AiM_requests := (remaining_AiM_requests u)[ch := q],
             m_controllers := (m_controllers u)[ch := c]\<rparr>)"
        by (auto simp: st andThen_Ok_iff vec_at_Ok_iff)
      have "controller_ok ?c" using I'(1) lc by (simp add: accounts_def)
      moreover have "\<forall>r\<in>set ?q. blocked r \<longrightarrow> answers r" using accounts_remaining [OF I'(1) nth_mem [OF lq]] by blast
      ultimately have d: "flight c + mset (map core q) = flight ?c + mset (map core ?q)" "controller_ok c"
        using drain_channel_spec [OF dr] by blast+
      let ?u = "u\<lparr>remaining_AiM_requests := (remaining_AiM_requests u)[ch := q], m_controllers := (m_controllers u)[ch := c]\<rparr>"
      have all: "all_requests ?u = all_requests u" unfolding all_requests_def
      proof (rule cancel_pairs [where f = "flight ?c" and f' = "flight c"
            and q = "mset (map core ?q)" and q' = "mset (map core q)"])
        show "sum_list (map flight (m_controllers ?u)) + flight ?c = sum_list (map flight (m_controllers u)) + flight c"
          using sum_list_update_mset [of ch "map flight (m_controllers u)" "flight c"] lc by (simp add: map_update)
        show "(\<Sum>q\<leftarrow>remaining_AiM_requests ?u. mset (map core q)) + mset (map core ?q)
            = (\<Sum>q\<leftarrow>remaining_AiM_requests u. mset (map core q)) + mset (map core q)"
          using sum_list_update_mset [of ch "map (\<lambda>q. mset (map core q)) (remaining_AiM_requests u)" "mset (map core q)"] lq
          by (simp add: map_update)
      qed (rule d)
      then have "accounts i ?u" using I'(1) d(2) set_update_subset_insert [of "m_controllers u" ch c]
        by (auto simp: accounts_def outstanding_def)
      then show ?thesis using I' all by (simp add: st')
    qed
  qed
  then show ?thesis by simp
qed

subsection \<open>A cycle\<close>

lemma filter_sum_list: "filter_mset P (sum_list Ms) = sum_list (map (filter_mset P) Ms)"
  by (induction Ms) simp_all

lemma outstanding_eq:
  "outstanding s = sum_list (map answering (m_controllers s))
     + filter_mset blocked (sum_list (map (\<lambda>q. mset (map core q)) (remaining_AiM_requests s)))"
  by (simp add: outstanding_def all_requests_def filter_sum_list answering_def [abs_def] comp_def)

lemma receive_cases:
  assumes "receive host_cb r (s, h) = Ok (s', h')"
  obtains (last) "stalled_AiM_requests s = 1" "s' = pop_request (s\<lparr>stalled_AiM_requests := 0\<rparr>)" "request_queue s \<noteq> []"
    | (more) "stalled_AiM_requests s \<noteq> 1" "s' = s\<lparr>stalled_AiM_requests := stalled_AiM_requests s - 1\<rparr>"
proof -
  from assms obtain host where q: "queue_front s = Ok host"
    and e: "(let s = s\<lparr>stalled_AiM_requests := stalled_AiM_requests s - 1\<rparr> in
             if stalled_AiM_requests s = 0
             then andThen (call_host host_cb host s h) (\<lambda>h. Ok (pop_request s, h)) else Ok (s, h)) = Ok (s', h')"
    by (auto simp: receive_def andThen_Ok_iff split: if_splits)
  have "request_queue s \<noteq> []" using q by (auto simp: queue_front_def)
  then show thesis using e that by (auto simp: Let_def andThen_Ok_iff split: if_splits)
qed

lemma sys_inv_cong:
  assumes "m_controllers s' = m_controllers s" "remaining_AiM_requests s' = remaining_AiM_requests s"
    "stalled_AiM_requests s' = stalled_AiM_requests s" "request_queue s' = request_queue s"
  shows "sys_inv s' = sys_inv s"
  unfolding sys_inv_def using accounts_cong [OF assms(1-3)] assms(3,4) by simp

definition step_ok :: "aim_system \<Rightarrow> aim_system \<Rightarrow> bool" where
  "step_ok s s' \<longleftrightarrow> sys_inv s' \<and> stalled_AiM_requests s' \<le> stalled_AiM_requests s
     \<and> (request_queue s' = request_queue s
        \<or> stalled_AiM_requests s \<noteq> 0 \<and> request_queue s \<noteq> [] \<and> request_queue s' = tl (request_queue s)
          \<and> stalled_AiM_requests s' = 0)"

lemma step_ok_trans:
  assumes "step_ok s t" and "step_ok t u" and "sys_inv s"
  shows "step_ok s u"
proof -
  have "0 \<le> stalled_AiM_requests t" "0 \<le> stalled_AiM_requests u"
    using assms(1,2) by (auto simp: step_ok_def sys_inv_def accounts_def)
  then show ?thesis using assms(1,2) by (auto simp: step_ok_def)
qed

lemma callback_step:
  assumes "fold_result (run_callback (request_callback host_cb)) completed (s, h) = Ok (s1, h1)"
    and "length completed \<le> 1"
  shows "s1 = s \<and> filter blocked completed = []
    \<or> (\<exists>r. filter blocked completed = [r] \<and> receive host_cb r (s, h) = Ok (s1, h1))"
proof (cases completed)
  case Nil
  then show ?thesis using assms(1) by simp
next
  case (Cons r rs)
  then have c: "completed = [r]" using assms(2) by simp
  then have "run_callback (request_callback host_cb) r (s, h) = Ok (s1, h1)"
    using assms(1) by (auto simp: andThen_Ok_iff)
  then show ?thesis unfolding c
    by (auto simp: run_callback_def request_callback_def blocked_def andThen_Ok_iff split: if_splits)
qed

context request_scheduler begin

lemma tick_controller_inv:
  assumes "tick_controller AiMISRInfo_init best host_cb i (s, h) = Ok (s', h')" and "sys_inv s"
  shows "step_ok s s'"
proof -
  from assms(1) obtain c d c' s1 where i: "i < length (m_controllers s)" and c: "c = m_controllers s ! i"
    and t: "AiM_tick AiMISRInfo_init best (request_callback host_cb) (sys_dram s) c (s, h) = Ok (d, c', s1, h')"
    and s': "s' = s1\<lparr>sys_dram := d, m_controllers := (m_controllers s1)[i := c']\<rparr>"
    by (auto simp: tick_controller_def andThen_Ok_iff vec_at_Ok_iff)
  obtain id where acc: "accounts id s"
    and head: "stalled_AiM_requests s \<noteq> 0 \<Longrightarrow> request_queue s \<noteq> [] \<and> host_req_id (hd (request_queue s)) = id"
    and nb: "\<forall>r\<in>set (request_queue s). \<not> blocked r"
    using assms(2) by (auto simp: sys_inv_def)
  have ok: "controller_ok c" using acc i c by (simp add: accounts_def)
  from tick_answering [OF t ok] obtain completed where ok': "controller_ok c'"
    and a: "answering c = answering c' + filter_mset blocked (mset (map core completed))"
    and l: "length completed \<le> 1"
    and cb: "fold_result (run_callback (request_callback host_cb)) completed (s, h) = Ok (s1, h')" by blast
  note step = callback_step [OF cb l]
  have same: "m_controllers s1 = m_controllers s" "remaining_AiM_requests s1 = remaining_AiM_requests s"
    using step by (auto elim!: receive_cases simp: pop_request_def)
  have "sum_list (map answering ((m_controllers s)[i := c'])) + answering c
      = sum_list (map answering (m_controllers s)) + answering c'"
    using sum_list_update_mset [of i "map answering (m_controllers s)" "answering c'"] i c by (simp add: map_update)
  then have "sum_list (map answering ((m_controllers s)[i := c'])) + filter_mset blocked (mset (map core completed))
      = sum_list (map answering (m_controllers s))"
    unfolding a by (simp add: ac_simps)
  then have out: "outstanding s = outstanding s' + filter_mset blocked (mset (map core completed))"
    using same by (simp add: outstanding_eq s' ac_simps)
  have oks: "\<forall>c\<in>set (m_controllers s'). controller_ok c"
    using acc ok' same set_update_subset_insert [of "m_controllers s" i c'] by (auto simp: accounts_def s')
  have size: "size (filter_mset blocked (mset (map core completed))) = length (filter blocked completed)"
  proof -
    have "filter blocked (map core xs) = map core (filter blocked xs)" for xs by (induction xs) simp_all
    then show ?thesis by (simp flip: mset_filter mset_map)
  qed
  have acc': "accounts id s'" if "stalled_AiM_requests s' = stalled_AiM_requests s - int (length (filter blocked completed))"
    using acc out oks size that by (simp add: accounts_def)
  from step show ?thesis
  proof (elim disjE conjE exE)
    assume "s1 = s" "filter blocked completed = []"
    then have "accounts id s'" "request_queue s' = request_queue s" "stalled_AiM_requests s' = stalled_AiM_requests s"
      using acc' by (simp_all add: s')
    then show ?thesis using head nb by (auto simp: step_ok_def intro: sys_invI)
  next
    fix r assume f: "filter blocked completed = [r]" and "receive host_cb r (s, h) = Ok (s1, h')"
    then have rec: "receive host_cb r (s, h) = Ok (s1, h')" by simp
    have "0 < int (size (outstanding s))" using out size f by simp
    then have nz: "stalled_AiM_requests s \<noteq> 0" "0 < stalled_AiM_requests s" using acc unfolding accounts_def by linarith+
    from rec show ?thesis
    proof (cases rule: receive_cases)
      case last
      then have "accounts id s'" "stalled_AiM_requests s' = 0" "request_queue s' = tl (request_queue s)"
        using acc' f by (simp_all add: s' pop_request_def)
      moreover have "\<forall>r\<in>set (tl (request_queue s)). \<not> blocked r" using nb by (cases "request_queue s") auto
      ultimately show ?thesis using nz last(3) by (auto simp: step_ok_def intro: sys_invI)
    next
      case more
      then have "accounts id s'" "stalled_AiM_requests s' = stalled_AiM_requests s - 1" "request_queue s' = request_queue s"
        using acc' f by (simp_all add: s')
      then show ?thesis using nz head nb by (auto simp: step_ok_def intro: sys_invI)
    qed
  qed
qed

lemma tick_channels_inv:
  assumes "tick_channels AiMISRInfo_init best host_cb (s, h) = Ok (s', h')" and "sys_inv s"
  shows "step_ok s s'"
proof -
  let ?s = "s\<lparr>sys_dram := dram_tick (sys_dram s)\<rparr>"
  have inv: "sys_inv ?s" using assms(2) sys_inv_cong [of ?s s] by simp
  let ?I = "\<lambda>st. step_ok ?s (fst st)"
  have f: "fold_result (tick_controller AiMISRInfo_init best host_cb) [0..<length (m_controllers s)] (?s, h) = Ok (s', h')"
    using assms(1) by (simp add: tick_channels_def)
  have "?I (s', h')"
  proof (rule fold_result_invariant [where I = ?I, OF f])
    show "?I (?s, h)" using inv by (simp add: step_ok_def)
    fix i st st' assume "?I st" "tick_controller AiMISRInfo_init best host_cb i st = Ok st'"
    moreover obtain u k u' k' where "st = (u, k)" "st' = (u', k')" by (cases st, cases st')
    ultimately show "?I st'" using tick_controller_inv [of host_cb i u k u' k'] step_ok_trans [of ?s u u'] inv
      by (auto simp: step_ok_def)
  qed
  then show ?thesis by (simp add: step_ok_def)
qed

lemma AiMSystem_tick_inv:
  assumes "AiMSystem_tick AiMISRInfo_init best host_cb (s, h) = Ok (s', h')" and "sys_inv s"
  shows "sys_inv s' \<and> (request_queue s' = request_queue s
     \<or> request_queue s \<noteq> [] \<and> request_queue s' = tl (request_queue s))"
proof -
  from assms(1) obtain was is_left s1 s2 h2 s3 where 1: "deliver_remaining s = Ok (was, is_left, s1)"
    "process_queue AiMISRInfo_init host_cb was is_left (s1, h) = Ok (s2, h2)"
    and 3: "tick_channels AiMISRInfo_init best host_cb (s2, h2) = Ok (s3, h') \<or> s3 = s2"
    and s': "s' = s3\<lparr>sys_clk := sys_clk s3 + 1\<rparr>"
    by (auto simp: AiMSystem_tick_def andThen_Ok_iff split: if_splits)
  obtain id where id: "accounts id s" "\<forall>r\<in>set (request_queue s). \<not> blocked r"
    "stalled_AiM_requests s \<noteq> 0 \<Longrightarrow> request_queue s \<noteq> [] \<and> host_req_id (hd (request_queue s)) = id"
    using assms(2) by (auto simp: sys_inv_def)
  from deliver_remaining_inv [OF 1(1) id(1)] have d: "accounts id s1" "request_queue s1 = request_queue s"
    "stalled_AiM_requests s1 = stalled_AiM_requests s" by blast+
  have "sys_inv s1" by (rule sys_invI [of _ id]) (use id d in auto)
  from process_queue_inv [OF 1(2) this] have p: "sys_inv s2" "request_queue s2 = request_queue s1
     \<or> request_queue s1 \<noteq> [] \<and> request_queue s2 = tl (request_queue s1) \<and> stalled_AiM_requests s2 = 0" by blast+
  have "step_ok s2 s2" using p(1) by (simp add: step_ok_def)
  with 3 have "step_ok s2 s3" by (elim disjE) (auto intro: tick_channels_inv [OF _ p(1)])
  moreover from this have "sys_inv s'" using sys_inv_cong [of s' s3] by (simp add: s' step_ok_def)
  ultimately show ?thesis using p(2) d(2) by (auto simp: step_ok_def s')
qed

end

lemma AiMSystem_send_inv:
  assumes "AiMSystem_send r s = Ok (accepted, s')" and "sys_inv s" and "\<not> blocked r"
  shows "sys_inv s' \<and> request_queue s' = (if accepted then request_queue s @ [r] else request_queue s)"
proof -
  have q: "request_queue s' = (if accepted then request_queue s @ [r] else request_queue s)"
    and f: "stalled_AiM_requests s' = stalled_AiM_requests s" "m_controllers s' = m_controllers s"
      "remaining_AiM_requests s' = remaining_AiM_requests s"
    using assms(1) by (auto simp: AiMSystem_send_def Let_def split: if_splits)
  obtain id where id: "accounts id s" "stalled_AiM_requests s \<noteq> 0 \<Longrightarrow> request_queue s \<noteq> [] \<and> host_req_id (hd (request_queue s)) = id"
    using assms(2) by (auto simp: sys_inv_def)
  have "accounts id s'" using id(1) accounts_cong [of s' s id] f by simp
  then have "sys_inv s'"
    by (rule sys_invI [rotated]) (use q f id(2) assms(2,3) in \<open>auto simp: sys_inv_def hd_append\<close>)
  with q show ?thesis by simp
qed

end
