(* ===== verification/AiM_System_Head.thy ===== *)
theory AiM_System_Head
  imports AiM_System_Reach
begin

text \<open>
  The instruction at the head of the queue of \<^verbatim>\<open>src/src/memory_system/impl/aim_DRAM_system.cpp\<close>:
  the decoded requests that wait to be sent belong to it, and it leaves the queue only when all
  of them have been sent.
\<close>

definition waiting :: "aim_system \<Rightarrow> request set" where
  "waiting s = (\<Union>q\<in>set (remaining_AiM_requests s). set q)"

definition head_inv :: "aim_system \<Rightarrow> bool" where
  "head_inv s \<longleftrightarrow> length (remaining_AiM_requests s) = MAX_CHANNEL_COUNT
     \<and> (\<forall>r\<in>waiting s. request_queue s \<noteq> [] \<and> host_req_id r = host_req_id (hd (request_queue s))
          \<and> (stalled_AiM_requests s \<noteq> 0 \<longrightarrow> blocked r))"

lemma waiting_empty: "waiting s = {} \<longleftrightarrow> (\<forall>q\<in>set (remaining_AiM_requests s). q = [])"
  by (auto simp: waiting_def)

lemma waiting_outstanding:
  assumes "r \<in> waiting s" and "blocked r"
  shows "core r \<in># outstanding s"
proof -
  from assms(1) obtain q where "q \<in> set (remaining_AiM_requests s)" "r \<in> set q" by (auto simp: waiting_def)
  then have "core r \<in># sum_list (map (\<lambda>q. mset (map core q)) (remaining_AiM_requests s))"
    by (auto simp: in_sum_list_mset intro!: bexI [of _ q])
  then show ?thesis using assms(2) by (simp add: outstanding_def all_requests_def)
qed

lemma waiting_stalled: "accounts i s \<Longrightarrow> stalled_AiM_requests s = 0 \<Longrightarrow> r \<in> waiting s \<Longrightarrow> \<not> blocked r"
  using waiting_outstanding [of r s] by (auto simp: accounts_def)

subsection \<open>Sending what waits\<close>

lemma drain_channel_waiting:
  "drain_channel spec q c = Ok (q', c') \<Longrightarrow> core ` set q' \<subseteq> core ` set q"
proof (induction spec q c rule: drain_channel.induct)
  case (1 spec c)
  then show ?case by simp
next
  case (2 spec r rs c)
  then obtain sent r1 c1 where send: "AiM_send spec r c = Ok (sent, r1, c1)"
    and rest: "(if sent then drain_channel spec rs c1 else Ok (r1 # rs, c1)) = Ok (q', c')"
    by (auto simp: andThen_Ok_iff)
  have k: "core r1 = core r" by (rule send_core [OF send])
  show ?case
  proof (cases sent)
    case True
    then have "core ` set q' \<subseteq> core ` set rs" using 2(1) [OF send refl refl] rest by simp
    then show ?thesis by auto
  next
    case False
    then show ?thesis using rest k by auto
  qed
qed

lemma deliver_remaining_waiting:
  assumes "deliver_remaining s = Ok (was, is_left, s')" and "length (remaining_AiM_requests s) = MAX_CHANNEL_COUNT"
  shows "core ` waiting s' \<subseteq> core ` waiting s" "length (remaining_AiM_requests s') = MAX_CHANNEL_COUNT"
    "\<not> was \<Longrightarrow> waiting s' = {}" "\<not> is_left \<Longrightarrow> waiting s' = {}"
proof -
  let ?body = "\<lambda>ch (was, is_left, s).
         andThen (vec_at (remaining_AiM_requests s) (int ch)) (\<lambda>q.
           if q = [] then Ok (was, is_left, s)
           else andThen (vec_at (m_controllers s) (int ch)) (\<lambda>c.
                andThen (drain_channel (dram_spec (sys_dram s)) q c) (\<lambda>(q, c).
                  Ok (True, is_left \<or> q \<noteq> [],
                      s\<lparr>remaining_AiM_requests := (remaining_AiM_requests s)[ch := q],
                        m_controllers := (m_controllers s)[ch := c]\<rparr>))))"
  let ?I = "\<lambda>k (was, is_left, u). core ` waiting u \<subseteq> core ` waiting s
      \<and> length (remaining_AiM_requests u) = MAX_CHANNEL_COUNT
      \<and> (\<forall>ch<k. (\<not> was \<or> \<not> is_left) \<longrightarrow> remaining_AiM_requests u ! ch = [])"
  have f: "fold_result ?body [0..<MAX_CHANNEL_COUNT] (False, False, s) = Ok (was, is_left, s')"
    using assms(1) by (simp add: deliver_remaining_def)
  have "?I (length [0..<MAX_CHANNEL_COUNT]) (was, is_left, s')"
  proof (rule fold_result_indexed [where I = ?I, OF f])
    show "?I 0 (False, False, s)" using assms(2) by simp
  next
    fix k st st'
    assume k: "k < length [0..<MAX_CHANNEL_COUNT]" and I: "?I k st" and step: "?body ([0..<MAX_CHANNEL_COUNT] ! k) st = Ok st'"
    obtain w l u where st: "st = (w, l, u)" by (cases st)
    have nth: "[0..<MAX_CHANNEL_COUNT] ! k = k" using k by simp
    have kl: "k < length (remaining_AiM_requests u)" using I k by (simp add: st)
    show "?I (Suc k) st'"
    proof (cases "remaining_AiM_requests u ! k = []")
      case True
      then have "st' = st" using step kl unfolding st nth by (simp add: vec_at_def)
      then show ?thesis using I True unfolding st by (auto simp: less_Suc_eq)
    next
      case False
      then obtain q c where dr: "drain_channel (dram_spec (sys_dram u)) (remaining_AiM_requests u ! k) (m_controllers u ! k) = Ok (q, c)"
        and st': "st' = (True, l \<or> q \<noteq> [], u\<lparr>remaining_AiM_requests := (remaining_AiM_requests u)[k := q],
             m_controllers := (m_controllers u)[k := c]\<rparr>)"
        using step kl unfolding st nth by (auto simp: andThen_Ok_iff vec_at_Ok_iff)
      have w: "waiting (snd (snd st')) \<subseteq> waiting u \<union> set q"
        using set_update_subset_insert [of "remaining_AiM_requests u" k q] by (auto simp: st' waiting_def)
      have "core ` set q \<subseteq> core ` waiting u"
      proof -
        have "set (remaining_AiM_requests u ! k) \<subseteq> waiting u" using nth_mem [OF kl] by (auto simp: waiting_def)
        then show ?thesis using drain_channel_waiting [OF dr] by blast
      qed
      moreover have "core ` waiting u \<subseteq> core ` waiting s" using I unfolding st by simp
      ultimately have 1: "core ` waiting (snd (snd st')) \<subseteq> core ` waiting s"
        using image_mono [OF w, of core] unfolding image_Un by (meson Un_least order_trans)
      have 2: "remaining_AiM_requests (snd (snd st')) = (remaining_AiM_requests u)[k := q]"
        "length (remaining_AiM_requests u) = MAX_CHANNEL_COUNT" using I by (simp_all add: st st')
      have 3: "(remaining_AiM_requests u)[k := q] ! ch = []" if "\<not> (l \<or> q \<noteq> [])" "ch < Suc k" for ch
        using I that kl unfolding st by (cases "ch = k") auto
      show ?thesis using 1 2 3 unfolding st' by simp
    qed
  qed
  then show "core ` waiting s' \<subseteq> core ` waiting s" "length (remaining_AiM_requests s') = MAX_CHANNEL_COUNT"
    "\<not> was \<Longrightarrow> waiting s' = {}" "\<not> is_left \<Longrightarrow> waiting s' = {}"
    by (auto simp: waiting_empty in_set_conv_nth)
qed

subsection \<open>Decoding\<close>

lemma deliver_waiting:
  assumes "deliver ch r u = Ok (sent, r', u')"
  shows "waiting u' \<subseteq> (if sent then waiting u else insert r' (waiting u))"
    "length (remaining_AiM_requests u') = length (remaining_AiM_requests u)"
proof -
  obtain c' where s': "if sent then u' = u\<lparr>m_controllers := (m_controllers u)[nat ch := c']\<rparr>
     else in_vec (remaining_AiM_requests u) ch \<and> u' = u\<lparr>m_controllers := (m_controllers u)[nat ch := c'],
       remaining_AiM_requests := (remaining_AiM_requests u)[nat ch := remaining_AiM_requests u ! nat ch @ [r']]\<rparr>"
    by (rule deliver_cases [OF assms])
  show "length (remaining_AiM_requests u') = length (remaining_AiM_requests u)" using s' by (cases sent) simp_all
  show "waiting u' \<subseteq> (if sent then waiting u else insert r' (waiting u))"
  proof (cases sent)
    case True
    then show ?thesis using s' by (simp add: waiting_def)
  next
    case False
    then have l: "nat ch < length (remaining_AiM_requests u)" using s' by (auto intro: in_vec_nat)
    let ?q = "remaining_AiM_requests u ! nat ch @ [r']"
    have "set ?q \<subseteq> insert r' (waiting u)" using nth_mem [OF l] by (auto simp: waiting_def)
    moreover have "set (remaining_AiM_requests u') \<subseteq> insert ?q (set (remaining_AiM_requests u))"
      using s' False by (simp add: set_update_subset_insert)
    ultimately have "w \<in> insert r' (waiting u)" if "q \<in> set (remaining_AiM_requests u')" "w \<in> set q" for q w
    proof (cases "q = ?q")
      case True
      then show ?thesis using \<open>set ?q \<subseteq> _\<close> that(2) by blast
    next
      case False
      then have "q \<in> set (remaining_AiM_requests u)" using \<open>_ \<subseteq> insert ?q _\<close> that(1) by blast
      then show ?thesis using that(2) by (auto simp: waiting_def)
    qed
    then show ?thesis using False by (auto simp: waiting_def)
  qed
qed

text \<open>What the loops of the decoding keep about the waiting requests, none of which was there
  before: they carry the id of the instruction and block exactly when it does.\<close>

definition fresh :: "int \<Rightarrow> bool \<Rightarrow> bool \<times> request \<times> aim_system \<Rightarrow> bool" where
  "fresh host_id blocking = (\<lambda>(sent, r, u). length (remaining_AiM_requests u) = MAX_CHANNEL_COUNT
     \<and> (\<forall>w\<in>waiting u. host_req_id w = host_id \<and> blocked w = blocking)
     \<and> (sent \<longrightarrow> waiting u = {}) \<and> blocked r = blocking \<and> (\<not> blocking \<longrightarrow> stalled_AiM_requests u = 0))"

lemma fresh_True:
  "fresh host_id blocking (True, r, s) \<longleftrightarrow> length (remaining_AiM_requests s) = MAX_CHANNEL_COUNT
     \<and> waiting s = {} \<and> blocked r = blocking \<and> (\<not> blocking \<longrightarrow> stalled_AiM_requests s = 0)"
  unfolding fresh_def by blast

lemma deliver_fresh:
  assumes "deliver ch r u = Ok (sent, r', u')" and "fresh host_id blocking (all_sent, r, u)"
    and "host_req_id r = host_id"
  shows "fresh host_id blocking (all_sent \<and> sent, r', u')"
proof -
  note w = deliver_waiting [OF assms(1)]
  note q = deliver_requests [OF assms(1)]
  have "blocked r' = blocked r" "host_req_id r' = host_req_id r"
    using arg_cong [OF q(2), of blocked] arg_cong [OF q(2), of host_req_id] by simp_all
  then show ?thesis using assms(2,3) w q(4) by (cases sent) (auto simp: fresh_def)
qed

lemma fresh_invariant: "decode_invariant host_id (fresh host_id)"
  unfolding decode_invariant_def
proof (intro conjI allI impI)
  fix b a r r' u assume "fresh host_id b (a, r, u)" "touched r r'"
  then show "fresh host_id b (a, r', u)" using touched_fields [of r r'] by (simp add: fresh_def)
next
  fix b a r u i f assume "fresh host_id b (a, r, u)"
  then show "fresh host_id b (a, r, u\<lparr>next_AiM_req_id := i, CFR_values := f\<rparr>)" by (simp add: fresh_def waiting_def)
next
  fix b a r u ch sent r' u'
  assume "fresh host_id b (a, r, u)" "host_req_id r = host_id" "deliver ch r u = Ok (sent, r', u')"
  then have "fresh host_id b (a \<and> sent, r', u')" using deliver_fresh by blast
  then show "fresh host_id b (a \<and> sent, r', u'\<lparr>stalled_AiM_requests := stalled_AiM_requests u' + (if b then 1 else 0)\<rparr>)"
    by (simp add: fresh_def waiting_def)
qed

lemma decode_fresh:
  assumes "decode info host s = Ok (sent, s')" and "fresh (host_req_id host) False (True, host, s)"
  shows "\<exists>blocking r. fresh (host_req_id host) blocking (sent, r, s')"
proof (rule decode_rule [OF fresh_invariant assms(1) refl assms(2)])
  have "\<not> blocked host" using assms(2) by (simp add: fresh_True)
  then show "fresh (host_req_id host) (AiM_DMA_blocking isr) (True, prepare_request s isr host, s)" for isr
    using assms(2) blocked_prepare by (simp add: fresh_True)
  show "fresh (host_req_id host) True (True, host\<lparr>req_callback := System_receive\<rparr>, s)"
    using assms(2) by (simp add: fresh_True blocked_def)
qed

subsection \<open>A cycle\<close>

text \<open>What a step does to the queue: it keeps its head, or takes it off when nothing of it waits.\<close>

definition keeps_head :: "aim_system \<Rightarrow> aim_system \<Rightarrow> bool" where
  "keeps_head s s' \<longleftrightarrow> request_queue s' = request_queue s
     \<or> request_queue s \<noteq> [] \<and> request_queue s' = tl (request_queue s) \<and> waiting s' = {}
       \<and> stalled_AiM_requests s' = 0"

lemma pop_head:
  assumes "head_inv s" and "waiting s = {}" and "stalled_AiM_requests s = 0" and "request_queue s \<noteq> []"
  shows "head_inv (pop_request s) \<and> keeps_head s (pop_request s)"
proof -
  have "waiting (pop_request s) = {}" using assms(2) by (simp add: waiting_def pop_request_def)
  then show ?thesis using assms by (simp add: head_inv_def keeps_head_def) (simp add: pop_request_def)
qed

lemma deliver_remaining_head:
  assumes "deliver_remaining s = Ok (was, is_left, s')" and "head_inv s" and "accounts i s"
  shows "head_inv s'"
proof -
  have l: "length (remaining_AiM_requests s) = MAX_CHANNEL_COUNT" using assms(2) by (simp add: head_inv_def)
  note w = deliver_remaining_waiting [OF assms(1) l]
  note d = deliver_remaining_inv [OF assms(1,3)]
  show ?thesis unfolding head_inv_def
  proof (intro conjI ballI)
    fix r assume "r \<in> waiting s'"
    then obtain q where q: "q \<in> waiting s" "core r = core q" using w(1) by blast
    have "blocked r = blocked q" "host_req_id r = host_req_id q"
      using arg_cong [OF q(2), of blocked] arg_cong [OF q(2), of host_req_id] by simp_all
    then show "request_queue s' \<noteq> []" "host_req_id r = host_req_id (hd (request_queue s'))"
      "stalled_AiM_requests s' \<noteq> 0 \<longrightarrow> blocked r"
      using q(1) assms(2) d by (auto simp: head_inv_def)
  qed (rule w(2))
qed

lemma process_queue_head:
  assumes "process_queue info host_cb was is_left (s, h) = Ok (s', h')" and "head_inv s"
    and "\<forall>r\<in>set (request_queue s). \<not> blocked r"
    and "\<not> was \<Longrightarrow> waiting s = {}" and "\<not> is_left \<Longrightarrow> waiting s = {}"
    and "\<And>host sent u. decode info host s = Ok (sent, u) \<Longrightarrow> host \<in> set (request_queue s) \<Longrightarrow>
      stalled_AiM_requests s = 0 \<Longrightarrow> request_queue u = request_queue s"
  shows "head_inv s' \<and> keeps_head s s'"
proof (cases "stalled_AiM_requests s = 0")
  case False
  then show ?thesis using assms(1,2) by (simp add: process_queue_def keeps_head_def)
next
  case zero: True
  show ?thesis
  proof (cases was)
    case True
    show ?thesis
    proof (cases is_left)
      case True
      then show ?thesis using assms(1,2) zero \<open>was\<close> by (simp add: process_queue_def keeps_head_def)
    next
      case False
      then obtain host where "request_queue s \<noteq> []" "finish_request host_cb host (s, h) = Ok (s', h')"
        using assms(1) zero True by (auto simp: process_queue_def andThen_Ok_iff queue_front_def split: list.splits)
      then have "request_queue s \<noteq> []" "s' = pop_request s" by (auto simp: finish_request_def andThen_Ok_iff)
      then show ?thesis using pop_head [OF assms(2) assms(5) [OF False] zero] by simp
    qed
  next
    case False
    show ?thesis
    proof (cases "request_queue s")
      case Nil
      then show ?thesis using assms zero False by (simp add: process_queue_def keeps_head_def)
    next
      case (Cons host Q)
      with assms(1) zero False obtain sent s1 where d: "decode info host s = Ok (sent, s1)"
        and f: "(if stalled_AiM_requests s1 = 0 \<and> sent then finish_request host_cb (decoded_host host) (s1, h)
            else Ok (s1, h)) = Ok (s', h')"
        by (auto simp: process_queue_def andThen_Ok_iff)
      have "fresh (host_req_id host) False (True, host, s)"
        using assms(2-4) zero False Cons by (simp add: fresh_True head_inv_def)
      then obtain blocking r where fr: "fresh (host_req_id host) blocking (sent, r, s1)"
        using decode_fresh [OF d] by blast
      have q: "request_queue s1 = request_queue s" using assms(6) [OF d] Cons zero by simp
      have w: "host_req_id r1 = host_req_id host" "stalled_AiM_requests s1 \<noteq> 0 \<longrightarrow> blocked r1" if "r1 \<in> waiting s1" for r1
        using fr that unfolding fresh_def by auto
      have "length (remaining_AiM_requests s1) = MAX_CHANNEL_COUNT" using fr by (simp add: fresh_def)
      then have inv: "head_inv s1" using w q Cons by (simp add: head_inv_def)
      show ?thesis
      proof (cases "stalled_AiM_requests s1 = 0 \<and> sent")
        case True
        then have "s' = pop_request s1" using f by (auto simp: finish_request_def andThen_Ok_iff)
        moreover have "waiting s1 = {}" using fr True by (simp add: fresh_def)
        ultimately show ?thesis using pop_head [OF inv] True q Cons by (simp add: keeps_head_def)
      next
        case False
        then show ?thesis using f inv q by (auto simp: keeps_head_def)
      qed
    qed
  qed
qed

lemma step_ok_idle:
  assumes "step_ok s s'" and "stalled_AiM_requests s = 0"
  shows "stalled_AiM_requests s' = 0 \<and> request_queue s' = request_queue s"
proof -
  have "sys_inv s'" "stalled_AiM_requests s' \<le> 0" using assms by (simp_all add: step_ok_def)
  then have "stalled_AiM_requests s' = 0" by (auto simp: sys_inv_def accounts_def)
  moreover have "request_queue s' = request_queue s" using assms unfolding step_ok_def by blast
  ultimately show ?thesis by simp
qed

lemma keeps_head_trans:
  assumes "keeps_head s t" and "keeps_head t u" and "waiting t = {} \<Longrightarrow> waiting u = {}"
    and "stalled_AiM_requests t = 0 \<Longrightarrow> stalled_AiM_requests u = 0 \<and> request_queue u = request_queue t"
  shows "keeps_head s u"
  using assms unfolding keeps_head_def by metis

context request_scheduler begin

lemma tick_controller_head:
  assumes "tick_controller AiMISRInfo_init best host_cb i (s, h) = Ok (s', h')" and "sys_inv s" and "head_inv s"
  shows "head_inv s' \<and> keeps_head s s' \<and> remaining_AiM_requests s' = remaining_AiM_requests s
    \<and> all_requests s' \<subseteq># all_requests s"
proof -
  note step = tick_controller_inv [OF assms(1,2)]
  from assms(1) obtain c d c' s1 where i: "i < length (m_controllers s)" and c: "c = m_controllers s ! i"
    and t: "AiM_tick AiMISRInfo_init best (request_callback host_cb) (sys_dram s) c (s, h) = Ok (d, c', s1, h')"
    and s': "s' = s1\<lparr>sys_dram := d, m_controllers := (m_controllers s1)[i := c']\<rparr>"
    by (auto simp: tick_controller_def andThen_Ok_iff vec_at_Ok_iff)
  have ok: "controller_ok c" using assms(2) i c by (auto simp: sys_inv_def accounts_def)
  from tick_answering [OF t ok] obtain completed where l: "length completed \<le> 1"
    and cb: "fold_result (run_callback (request_callback host_cb)) completed (s, h) = Ok (s1, h')" by blast
  have same: "m_controllers s1 = m_controllers s" "remaining_AiM_requests s1 = remaining_AiM_requests s"
    using callback_step [OF cb l] by (auto elim!: receive_cases simp: pop_request_def)
  have rem: "remaining_AiM_requests s' = remaining_AiM_requests s" by (simp add: s' same)
  then have w: "waiting s' = waiting s" by (simp add: waiting_def)
  have "flight c' \<subseteq># flight c"
    by (rule tick_flight_subset [OF t]) (use ok in \<open>simp add: controller_ok_def\<close>)
  then obtain lost where lost: "flight c = flight c' + lost" by (auto simp: mset_subset_eq_exists_conv)
  have "sum_list (map flight (m_controllers s)) = sum_list (map flight (m_controllers s')) + lost"
    using sum_list_update_mset [of i "map flight (m_controllers s)" "flight c'"] i c lost
    by (simp add: s' same map_update ac_simps)
  then have all: "all_requests s' \<subseteq># all_requests s" by (simp add: all_requests_def rem)
  have st: "stalled_AiM_requests s' \<le> stalled_AiM_requests s" "sys_inv s'" using step by (simp_all add: step_ok_def)
  have pos: "0 \<le> stalled_AiM_requests s'" using st(2) by (auto simp: sys_inv_def accounts_def)
  show ?thesis
  proof (cases "request_queue s' = request_queue s")
    case True
    then have "head_inv s'" using assms(3) st(1) pos by (auto simp: head_inv_def w rem)
    then show ?thesis using True all rem by (simp add: keeps_head_def)
  next
    case False
    then have z: "stalled_AiM_requests s \<noteq> 0" "request_queue s \<noteq> []" "request_queue s' = tl (request_queue s)"
      "stalled_AiM_requests s' = 0" using step by (auto simp: step_ok_def)
    have "waiting s' = {}"
    proof (rule ccontr)
      assume "waiting s' \<noteq> {}"
      then obtain r where r: "r \<in> waiting s'" by blast
      then have "blocked r" using assms(3) z(1) by (auto simp: head_inv_def w)
      moreover obtain id where "accounts id s'" using st(2) by (auto simp: sys_inv_def)
      ultimately show False using waiting_stalled [OF _ z(4) r] by blast
    qed
    then show ?thesis using z rem all assms(3) by (simp add: keeps_head_def head_inv_def)
  qed
qed

lemma tick_channels_head:
  assumes "tick_channels AiMISRInfo_init best host_cb (s, h) = Ok (s', h')" and "sys_inv s" and "head_inv s"
  shows "sys_inv s' \<and> head_inv s' \<and> keeps_head s s' \<and> remaining_AiM_requests s' = remaining_AiM_requests s
    \<and> all_requests s' \<subseteq># all_requests s"
proof -
  let ?s = "s\<lparr>sys_dram := dram_tick (sys_dram s)\<rparr>"
  have same: "sys_inv ?s" "head_inv ?s" "all_requests ?s = all_requests s" "waiting ?s = waiting s"
    using assms(2,3) sys_inv_cong [of ?s s] by (simp_all add: head_inv_def all_requests_def waiting_def)
  let ?I = "\<lambda>st. sys_inv (fst st) \<and> head_inv (fst st) \<and> keeps_head ?s (fst st)
      \<and> remaining_AiM_requests (fst st) = remaining_AiM_requests ?s \<and> all_requests (fst st) \<subseteq># all_requests s"
  have f: "fold_result (tick_controller AiMISRInfo_init best host_cb) [0..<length (m_controllers s)] (?s, h) = Ok (s', h')"
    using assms(1) by (simp add: tick_channels_def)
  have "?I (s', h')"
  proof (rule fold_result_invariant [where I = ?I, OF f])
    show "?I (?s, h)" using same by (simp add: keeps_head_def)
    fix i st st' assume I: "?I st" and t: "tick_controller AiMISRInfo_init best host_cb i st = Ok st'"
    obtain u k u' k' where e: "st = (u, k)" "st' = (u', k')" by (cases st, cases st')
    have I': "sys_inv u" "head_inv u" "keeps_head ?s u" "remaining_AiM_requests u = remaining_AiM_requests ?s"
      "all_requests u \<subseteq># all_requests s" using I by (simp_all add: e)
    note n = tick_controller_head [OF t [unfolded e] I'(1,2)]
    note o = tick_controller_inv [OF t [unfolded e] I'(1)]
    have "waiting u' = waiting u" using n by (simp add: waiting_def)
    moreover have "stalled_AiM_requests u = 0 \<Longrightarrow> stalled_AiM_requests u' = 0 \<and> request_queue u' = request_queue u"
    proof -
      assume "stalled_AiM_requests u = 0"
      moreover have "0 \<le> stalled_AiM_requests u'" using o by (auto simp: step_ok_def sys_inv_def accounts_def)
      ultimately show ?thesis using o by (auto simp: step_ok_def)
    qed
    ultimately have "keeps_head ?s u'" using keeps_head_trans [OF I'(3), of u'] n by simp
    then show "?I st'" using n o I' by (auto simp: e step_ok_def)
  qed
  then show ?thesis by (simp add: keeps_head_def)
qed

text \<open>The three phases of a cycle, with what each of them keeps.\<close>

lemma AiMSystem_tick_phases:
  assumes "AiMSystem_tick AiMISRInfo_init best host_cb (s, h) = Ok (s', h')" and "sys_inv s" and "head_inv s"
  obtains was is_left s1 s2 h2 s3 where "deliver_remaining s = Ok (was, is_left, s1)"
    "sys_inv s1" "head_inv s1" "request_queue s1 = request_queue s" "all_requests s1 = all_requests s"
    "stalled_AiM_requests s1 = stalled_AiM_requests s"
    "process_queue AiMISRInfo_init host_cb was is_left (s1, h) = Ok (s2, h2)"
    "sys_inv s2" "head_inv s2" "keeps_head s1 s2"
    "tick_channels AiMISRInfo_init best host_cb (s2, h2) = Ok (s3, h') \<or> s3 = s2 \<and> h' = h2"
    "head_inv s3" "keeps_head s2 s3" "waiting s3 = waiting s2" "all_requests s3 \<subseteq># all_requests s2" "step_ok s2 s3"
    "s' = s3\<lparr>sys_clk := sys_clk s3 + 1\<rparr>"
proof -
  from assms(1) obtain was is_left s1 s2 h2 s3 where 1: "deliver_remaining s = Ok (was, is_left, s1)"
    "process_queue AiMISRInfo_init host_cb was is_left (s1, h) = Ok (s2, h2)"
    and 3: "tick_channels AiMISRInfo_init best host_cb (s2, h2) = Ok (s3, h') \<or> s3 = s2 \<and> h' = h2"
    and s': "s' = s3\<lparr>sys_clk := sys_clk s3 + 1\<rparr>"
    by (auto simp: AiMSystem_tick_def andThen_Ok_iff split: if_splits)
  obtain id where id: "accounts id s" "\<forall>r\<in>set (request_queue s). \<not> blocked r"
    "stalled_AiM_requests s \<noteq> 0 \<Longrightarrow> request_queue s \<noteq> [] \<and> host_req_id (hd (request_queue s)) = id"
    using assms(2) by (auto simp: sys_inv_def)
  from deliver_remaining_inv [OF 1(1) id(1)] have d: "accounts id s1" "request_queue s1 = request_queue s"
    "stalled_AiM_requests s1 = stalled_AiM_requests s" "all_requests s1 = all_requests s" by blast+
  have i1: "sys_inv s1" by (rule sys_invI [of _ id]) (use id d in auto)
  have h1: "head_inv s1" by (rule deliver_remaining_head [OF 1(1) assms(3) id(1)])
  have l: "length (remaining_AiM_requests s) = MAX_CHANNEL_COUNT" using assms(3) by (simp add: head_inv_def)
  have i2: "sys_inv s2" using process_queue_inv [OF 1(2) i1] by simp
  have "head_inv s2 \<and> keeps_head s1 s2"
  proof (rule process_queue_head [OF 1(2) h1])
    fix host sent u
    assume dc: "decode AiMISRInfo_init host s1 = Ok (sent, u)" "host \<in> set (request_queue s1)" "stalled_AiM_requests s1 = 0"
    have "accounts (host_req_id host) s1" using d(1) dc(3) by (rule accounts_zero)
    with decode_accounts [OF dc(1)] dc(2) id(2) d(2) show "request_queue u = request_queue s1" by auto
  qed (use deliver_remaining_waiting(3,4) [OF 1(1) l] id(2) d(2) in auto)
  then have h2: "head_inv s2" "keeps_head s1 s2" by simp_all
  have c: "head_inv s3 \<and> keeps_head s2 s3 \<and> remaining_AiM_requests s3 = remaining_AiM_requests s2
      \<and> all_requests s3 \<subseteq># all_requests s2 \<and> step_ok s2 s3"
    using 3
  proof
    assume t: "tick_channels AiMISRInfo_init best host_cb (s2, h2) = Ok (s3, h')"
    show ?thesis using tick_channels_head [OF t i2 h2(1)] tick_channels_inv [OF t i2] by simp
  next
    assume "s3 = s2 \<and> h' = h2"
    then show ?thesis using i2 h2(1) by (simp add: keeps_head_def step_ok_def)
  qed
  have "waiting s3 = waiting s2" using c by (simp add: waiting_def)
  with c show thesis
    using that [OF 1(1) i1 h1 d(2) d(4) d(3) 1(2) i2 h2 3 _ _ _ _ _ s'] by blast
qed

lemma AiMSystem_tick_head:
  assumes "AiMSystem_tick AiMISRInfo_init best host_cb (s, h) = Ok (s', h')" and "sys_inv s" and "head_inv s"
  shows "head_inv s' \<and> keeps_head s s' \<and> (stalled_AiM_requests s \<noteq> 0 \<longrightarrow> all_requests s' \<subseteq># all_requests s)"
proof -
  obtain was is_left s1 s2 h2 s3 where d: "request_queue s1 = request_queue s" "all_requests s1 = all_requests s"
      "stalled_AiM_requests s1 = stalled_AiM_requests s"
    and p: "process_queue AiMISRInfo_init host_cb was is_left (s1, h) = Ok (s2, h2)" "keeps_head s1 s2"
    and c: "head_inv s3" "keeps_head s2 s3" "waiting s3 = waiting s2" "all_requests s3 \<subseteq># all_requests s2" "step_ok s2 s3"
    and s': "s' = s3\<lparr>sys_clk := sys_clk s3 + 1\<rparr>"
    by (rule AiMSystem_tick_phases [OF assms])
  have stall: "s2 = s1" if "stalled_AiM_requests s \<noteq> 0" using p(1) that d(3) by (simp add: process_queue_def)
  have k: "keeps_head s1 s3" using keeps_head_trans [OF p(2) c(2)] c(3) step_ok_idle [OF c(5)] by blast
  have w': "waiting s' = waiting s3" by (simp add: s' waiting_def)
  have "head_inv s'" using c(1) unfolding head_inv_def w' by (simp add: s')
  moreover have "keeps_head s1 s'" using k unfolding keeps_head_def w' by (simp add: s')
  moreover have "all_requests s' = all_requests s3" by (simp add: s' all_requests_def)
  moreover have "keeps_head s s'" using \<open>keeps_head s1 s'\<close> d(1) by (simp add: keeps_head_def)
  ultimately show ?thesis using c(4) stall d(2) by (metis (no_types))
qed

end

lemma AiMSystem_send_head:
  assumes "AiMSystem_send r s = Ok (accepted, s')" and "head_inv s"
  shows "head_inv s'"
proof -
  have "waiting s' = waiting s" "length (remaining_AiM_requests s') = length (remaining_AiM_requests s)"
    "stalled_AiM_requests s' = stalled_AiM_requests s" "request_queue s' = request_queue s \<or> request_queue s' = request_queue s @ [r]"
    using assms(1) by (auto simp: AiMSystem_send_def Let_def waiting_def split: if_splits)
  then show ?thesis using assms(2) by (auto simp: head_inv_def)
qed

end
