(* ===== verification/AiM_System_Host.thy ===== *)
theory AiM_System_Host
  imports AiM_System_Head Memory_System
begin

text \<open>
  The host's view of \<^verbatim>\<open>src/src/memory_system/impl/aim_DRAM_system.cpp\<close>: the callback of an
  instruction runs exactly when the instruction leaves the queue. It rests on the discipline of
  the AiM front end, which puts callbacks on \<open>SYNC\<close> and \<open>EOC\<close> instructions only.
\<close>

subsection \<open>Instructions and the requests they become\<close>

definition internal :: "request \<Rightarrow> bool" where
  "internal r \<longleftrightarrow> req_callback r \<in> {No_callback, System_receive}"

definition quiet :: "aim_system \<Rightarrow> bool" where
  "quiet s \<longleftrightarrow> (\<forall>r\<in>#all_requests s. internal r) \<and> (\<forall>r\<in>set (request_queue s). plain r)"

lemma internal_core [simp]: "internal (core r) = internal r"
  by (simp add: internal_def core_def)

lemma plain_not_blocked: "plain r \<Longrightarrow> \<not> blocked r"
  by (auto simp: plain_def blocked_def)

text \<open>Decoding adds internal requests only.\<close>

definition sends_internal :: "bool \<Rightarrow> bool \<times> request \<times> aim_system \<Rightarrow> bool" where
  "sends_internal b = (\<lambda>(a, r, u). (\<forall>q\<in>#all_requests u. internal q) \<and> internal r)"

lemma sends_internal_invariant: "decode_invariant host_id sends_internal"
  unfolding decode_invariant_def
proof (intro conjI allI impI)
  fix b a r r' u assume "sends_internal b (a, r, u)" "touched r r'"
  then show "sends_internal b (a, r', u)" using touched_fields(1) [of r r'] by (simp add: sends_internal_def internal_def)
next
  fix b a r u i f assume "sends_internal b (a, r, u)"
  then show "sends_internal b (a, r, u\<lparr>next_AiM_req_id := i, CFR_values := f\<rparr>)"
    by (simp add: sends_internal_def all_requests_def)
next
  fix b a r u ch sent r' u'
  assume S: "sends_internal b (a, r, u)" and d: "deliver ch r u = Ok (sent, r', u')"
  note k = deliver_requests [OF d]
  have "internal r' = internal r" using arg_cong [OF k(2), of internal] by simp
  moreover have "all_requests (u'\<lparr>stalled_AiM_requests := stalled_AiM_requests u' + (if b then 1 else 0)\<rparr>) = all_requests u'"
    by (simp add: all_requests_def)
  ultimately show "sends_internal b (a \<and> sent, r', u'\<lparr>stalled_AiM_requests := stalled_AiM_requests u' + (if b then 1 else 0)\<rparr>)"
    using S k(1) by (simp add: sends_internal_def)
qed

text \<open>Only \<open>SYNC\<close> and \<open>EOC\<close> carry a callback of the host, and their requests get another one.
  The rule asks for the instruction itself to be internal, so it is applied without its callback.\<close>

lemma decode_callback:
  assumes "opcode host \<in> {ISR_SYNC, ISR_EOC}" and "req_type host = AIM"
  shows "decode info (host\<lparr>req_callback := cb\<rparr>) s = decode info host s"
  using assms by (auto simp: decode_def decode_AiM_def decode_barrier_def)

lemma decode_internal:
  assumes "decode info host s = Ok (sent, s')" and "plain host" and "\<forall>r\<in>#all_requests s. internal r"
  shows "\<forall>r\<in>#all_requests s'. internal r"
proof -
  have main: "\<forall>r\<in>#all_requests s'. internal r" if "decode info host s = Ok (sent, s')" "internal host" for host
  proof -
    have "\<exists>b r. sends_internal b (sent, r, s')"
    proof (rule decode_rule [OF sends_internal_invariant that(1) refl])
      show "sends_internal False (True, host, s)" using assms(3) that(2) by (simp add: sends_internal_def)
      show "sends_internal (AiM_DMA_blocking isr) (True, prepare_request s isr host, s)" for isr
        using assms(3) that(2)
        by (auto simp: sends_internal_def internal_def prepare_request_def convert_single_bank_def Let_def)
      show "sends_internal True (True, host\<lparr>req_callback := System_receive\<rparr>, s)"
        using assms(3) by (simp add: sends_internal_def internal_def)
    qed
    then show ?thesis by (auto simp: sends_internal_def)
  qed
  show ?thesis
  proof (cases "req_callback host = No_callback")
    case True
    then show ?thesis using main assms(1) by (simp add: internal_def)
  next
    case False
    then have "decode info (host\<lparr>req_callback := No_callback\<rparr>) s = Ok (sent, s')"
      using assms(1,2) decode_callback [of host info No_callback s] by (auto simp: plain_def)
    then show ?thesis by (rule main) (simp add: internal_def)
  qed
qed

subsection \<open>Steps and the host\<close>

text \<open>A step either leaves queue and host alone, or takes the head off the queue and runs its
  callback. The request the callback gets may differ from the head in its column address only.\<close>

definition retires ::
  "(int \<Rightarrow> request \<Rightarrow> 'h \<Rightarrow> 'h result) \<Rightarrow> aim_system \<Rightarrow> 'h \<Rightarrow> aim_system \<Rightarrow> 'h \<Rightarrow> bool" where
  "retires host_cb s h s' h' \<longleftrightarrow> (\<exists>r q col. request_queue s = r # q \<and> request_queue s' = q
     \<and> run_callback (host_cb (sys_clk s)) (r\<lparr>col_addr := col\<rparr>) h = Ok h')"

definition host_step ::
  "(int \<Rightarrow> request \<Rightarrow> 'h \<Rightarrow> 'h result) \<Rightarrow> aim_system \<Rightarrow> 'h \<Rightarrow> aim_system \<Rightarrow> 'h \<Rightarrow> bool" where
  "host_step host_cb s h s' h' \<longleftrightarrow> sys_clk s' = sys_clk s
     \<and> (request_queue s' = request_queue s \<and> h' = h \<or> retires host_cb s h s' h' \<and> stalled_AiM_requests s' = 0)"

lemma same_col: "r\<lparr>col_addr := col_addr r\<rparr> = r"
  by simp

lemma receive_hosted:
  assumes "receive host_cb r (s, h) = Ok (s', h')"
  shows "host_step host_cb s h s' h'"
proof -
  from assms obtain q where q: "queue_front s = Ok q"
    and e: "(let s = s\<lparr>stalled_AiM_requests := stalled_AiM_requests s - 1\<rparr> in
             if stalled_AiM_requests s = 0
             then andThen (call_host host_cb q s h) (\<lambda>h. Ok (pop_request s, h)) else Ok (s, h)) = Ok (s', h')"
    by (auto simp: receive_def andThen_Ok_iff split: if_splits)
  obtain Q where Q: "request_queue s = q # Q" using q by (auto simp: queue_front_def split: list.splits)
  show ?thesis
  proof (cases "stalled_AiM_requests s = 1")
    case True
    then have c: "run_callback (host_cb (sys_clk s)) (q\<lparr>col_addr := col_addr q\<rparr>) h = Ok h'"
      and s': "s' = pop_request (s\<lparr>stalled_AiM_requests := 0\<rparr>)"
      using e by (auto simp: Let_def andThen_Ok_iff call_host_def)
    have "retires host_cb s h s' h'"
      unfolding retires_def using Q c s' by (intro exI [of _ q] exI [of _ Q] exI [of _ "col_addr q"]) (simp add: pop_request_def)
    then show ?thesis using s' by (simp add: host_step_def pop_request_def)
  next
    case False
    then show ?thesis using e by (auto simp: Let_def host_step_def)
  qed
qed

lemma callback_hosted:
  assumes "fold_result (run_callback (request_callback host_cb)) completed (s, h) = Ok (s1, h1)"
    and "length completed \<le> 1" and "\<forall>r\<in>set completed. internal r"
  shows "host_step host_cb s h s1 h1"
proof (cases completed)
  case Nil
  then show ?thesis using assms(1) by (simp add: host_step_def)
next
  case (Cons r rs)
  then have c: "completed = [r]" using assms(2) by simp
  then have "run_callback (request_callback host_cb) r (s, h) = Ok (s1, h1)"
    using assms(1) by (auto simp: andThen_Ok_iff)
  moreover have "internal r" using assms(3) c by simp
  ultimately have "s1 = s \<and> h1 = h \<or> receive host_cb r (s, h) = Ok (s1, h1)"
    by (auto simp: run_callback_def request_callback_def internal_def split: if_splits)
  then show ?thesis
  proof
    assume "s1 = s \<and> h1 = h"
    then show ?thesis by (simp add: host_step_def)
  next
    assume "receive host_cb r (s, h) = Ok (s1, h1)"
    then show ?thesis by (rule receive_hosted)
  qed
qed

lemma host_step_same: "host_step host_cb s h t i \<Longrightarrow> request_queue t = request_queue s \<Longrightarrow> i = h"
  by (auto simp: host_step_def retires_def)

lemma host_step_trans:
  assumes "host_step host_cb s h t i" and "host_step host_cb t i u k"
    and "stalled_AiM_requests t = 0 \<Longrightarrow> request_queue u = request_queue t \<and> stalled_AiM_requests u = 0"
  shows "host_step host_cb s h u k"
proof -
  have clk: "sys_clk t = sys_clk s" "sys_clk u = sys_clk s" using assms(1,2) by (simp_all add: host_step_def)
  from assms(1) consider "request_queue t = request_queue s" "i = h"
    | "retires host_cb s h t i" "stalled_AiM_requests t = 0" unfolding host_step_def by blast
  then show ?thesis
  proof cases
    case 1
    then show ?thesis using assms(2) clk by (simp add: host_step_def retires_def)
  next
    case 2
    then have "request_queue u = request_queue t" "stalled_AiM_requests u = 0" using assms(3) by simp_all
    then show ?thesis using 2 clk host_step_same [OF assms(2)] by (simp add: host_step_def retires_def)
  qed
qed

lemma quiet_subset:
  assumes "quiet s" and "all_requests s' \<subseteq># all_requests s" and "set (request_queue s') \<subseteq> set (request_queue s)"
  shows "quiet s'"
proof -
  have "r \<in># all_requests s" if "r \<in># all_requests s'" for r using assms(2) that by (rule mset_subset_eqD)
  then show ?thesis using assms(1,3) unfolding quiet_def by blast
qed

lemma step_queue_subset: "step_ok s s' \<Longrightarrow> set (request_queue s') \<subseteq> set (request_queue s)"
  by (cases "request_queue s") (auto simp: step_ok_def)

context request_scheduler begin

lemma tick_controller_host:
  assumes "tick_controller AiMISRInfo_init best host_cb i (s, h) = Ok (s', h')" and "sys_inv s" and "head_inv s"
    and "quiet s"
  shows "quiet s' \<and> host_step host_cb s h s' h'"
proof -
  note t = tick_controller_head [OF assms(1-3)]
  note st = tick_controller_inv [OF assms(1,2)]
  from assms(1) obtain c d c' s1 where i: "i < length (m_controllers s)" and c: "c = m_controllers s ! i"
    and tk: "AiM_tick AiMISRInfo_init best (request_callback host_cb) (sys_dram s) c (s, h) = Ok (d, c', s1, h')"
    and s': "s' = s1\<lparr>sys_dram := d, m_controllers := (m_controllers s1)[i := c']\<rparr>"
    by (auto simp: tick_controller_def andThen_Ok_iff vec_at_Ok_iff)
  obtain c1 where sc: "serve_completed_reqs (request_callback host_cb) (c\<lparr>ctrl_clk := ctrl_clk c + 1\<rparr>) (s, h) = Ok (c1, s1, h')"
    by (rule AiM_tick_cases [OF tk])
  let ?done = "completed_reads (c\<lparr>ctrl_clk := ctrl_clk c + 1\<rparr>)"
  have cb: "fold_result (run_callback (request_callback host_cb)) ?done (s, h) = Ok (s1, h')"
    using serve_completed_cases(2) [OF sc] .
  have "internal r" if "r \<in> set ?done" for r
  proof -
    have "r \<in> set (pending_reads c)" using that by (cases "pending_reads c") (auto simp: completed_reads_def completes_def split: if_splits)
    then have "core r \<in># flight c" by (rule flight_members)
    then have "core r \<in># all_requests s" using i c by (auto simp: all_requests_def in_sum_list_mset)
    then show ?thesis using assms(4) by (auto simp: quiet_def)
  qed
  moreover have "length ?done \<le> 1" by (simp add: completed_reads_def)
  ultimately have "host_step host_cb s h s1 h'" using callback_hosted [OF cb] by simp
  then have "host_step host_cb s h s' h'" by (simp add: host_step_def retires_def s')
  then show ?thesis using quiet_subset [OF assms(4)] t step_queue_subset [OF st] by simp
qed

lemma tick_channels_host:
  assumes "tick_channels AiMISRInfo_init best host_cb (s, h) = Ok (s', h')" and "sys_inv s" and "head_inv s"
    and "quiet s"
  shows "quiet s' \<and> host_step host_cb s h s' h'"
proof -
  let ?s = "s\<lparr>sys_dram := dram_tick (sys_dram s)\<rparr>"
  have same: "sys_inv ?s" "head_inv ?s" "quiet ?s"
    using assms(2-4) sys_inv_cong [of ?s s] by (simp_all add: head_inv_def all_requests_def waiting_def quiet_def)
  let ?I = "\<lambda>st. sys_inv (fst st) \<and> head_inv (fst st) \<and> quiet (fst st) \<and> host_step host_cb ?s h (fst st) (snd st)"
  have f: "fold_result (tick_controller AiMISRInfo_init best host_cb) [0..<length (m_controllers s)] (?s, h) = Ok (s', h')"
    using assms(1) by (simp add: tick_channels_def)
  have "?I (s', h')"
  proof (rule fold_result_invariant [where I = ?I, OF f])
    show "?I (?s, h)" using same by (simp add: host_step_def)
    fix i st st' assume I: "?I st" and t: "tick_controller AiMISRInfo_init best host_cb i st = Ok st'"
    obtain u k u' k' where e: "st = (u, k)" "st' = (u', k')" by (cases st, cases st')
    have I': "sys_inv u" "head_inv u" "quiet u" "host_step host_cb ?s h u k" using I by (simp_all add: e)
    note n = tick_controller_host [OF t [unfolded e] I'(1-3)]
    note o = tick_controller_inv [OF t [unfolded e] I'(1)]
    note p = tick_controller_head [OF t [unfolded e] I'(1,2)]
    have "host_step host_cb ?s h u' k'"
      using host_step_trans [OF I'(4) conjunct2 [OF n]] step_ok_idle [OF o] by blast
    then show "?I st'" using n o p by (simp add: e step_ok_def)
  qed
  then show ?thesis by (simp add: host_step_def retires_def)
qed

end

lemma finish_request_host:
  assumes "finish_request host_cb (host\<lparr>col_addr := col\<rparr>) (s, h) = Ok (s', h')" and "request_queue s = host # Q"
    and "stalled_AiM_requests s = 0"
  shows "s' = pop_request s \<and> host_step host_cb s h s' h'"
proof -
  have s': "s' = pop_request s" and c: "run_callback (host_cb (sys_clk s)) (host\<lparr>col_addr := col\<rparr>) h = Ok h'"
    using assms(1) by (auto simp: finish_request_def andThen_Ok_iff call_host_def)
  have "retires host_cb s h s' h'" unfolding retires_def
    using c assms(2) s' by (intro exI [of _ host] exI [of _ Q] exI [of _ col]) (simp add: pop_request_def)
  then show ?thesis using s' assms(3) by (simp add: host_step_def pop_request_def)
qed

lemma decoded_host_form: "\<exists>col. decoded_host host = host\<lparr>col_addr := col\<rparr>"
proof (cases "decoded_host host = host")
  case True
  then show ?thesis using same_col [of host] by metis
next
  case False
  then show ?thesis unfolding decoded_host_def by (intro exI [of _ 0]) (simp split: if_splits)
qed

lemma decode_clk:
  assumes "decode info host s = Ok (sent, s')"
  shows "sys_clk s' = sys_clk s"
proof -
  let ?I = "\<lambda>b (a, r, u). sys_clk u = sys_clk s"
  have "decode_invariant (host_req_id host) ?I"
    unfolding decode_invariant_def by (auto elim!: deliver_cases split: if_splits)
  from decode_rule [where I = ?I, OF this assms refl] show ?thesis by simp
qed

lemma quiet_pop: "quiet s \<Longrightarrow> quiet (pop_request s)"
  by (cases "request_queue s") (auto simp: quiet_def pop_request_def all_requests_def)

lemma process_queue_host:
  assumes "process_queue AiMISRInfo_init host_cb was is_left (s, h) = Ok (s', h')" and "sys_inv s" and "quiet s"
  shows "quiet s' \<and> host_step host_cb s h s' h'"
proof (cases "stalled_AiM_requests s = 0")
  case False
  then show ?thesis using assms by (simp add: process_queue_def host_step_def)
next
  case zero: True
  show ?thesis
  proof (cases "request_queue s")
    case Nil
    then show ?thesis using assms zero
      by (auto simp: process_queue_def host_step_def queue_front_def split: if_splits)
  next
    case (Cons host Q)
    show ?thesis
    proof (cases was)
      case True
      show ?thesis
      proof (cases is_left)
        case True
        then show ?thesis using assms zero \<open>was\<close> by (simp add: process_queue_def host_step_def)
      next
        case False
        then have "finish_request host_cb (host\<lparr>col_addr := col_addr host\<rparr>) (s, h) = Ok (s', h')"
          using assms(1) zero True Cons by (simp add: process_queue_def queue_front_def)
        from finish_request_host [OF this Cons zero] quiet_pop [OF assms(3)] show ?thesis by blast
      qed
    next
      case False
      with assms(1) zero Cons obtain sent s1 where d: "decode AiMISRInfo_init host s = Ok (sent, s1)"
        and f: "(if stalled_AiM_requests s1 = 0 \<and> sent then finish_request host_cb (decoded_host host) (s1, h)
            else Ok (s1, h)) = Ok (s', h')"
        by (auto simp: process_queue_def andThen_Ok_iff)
      obtain i where "accounts i s" using assms(2) by (auto simp: sys_inv_def)
      then have a: "accounts (host_req_id host) s" using zero by (rule accounts_zero)
      have pl: "plain host" using assms(3) Cons by (simp add: quiet_def)
      have q1: "request_queue s1 = host # Q" using decode_accounts [OF d a plain_not_blocked [OF pl]] Cons by simp
      have "quiet s1" using decode_internal [OF d pl] assms(3) q1 Cons by (simp add: quiet_def)
      moreover have c1: "sys_clk s1 = sys_clk s" by (rule decode_clk [OF d])
      obtain col where col: "decoded_host host = host\<lparr>col_addr := col\<rparr>" using decoded_host_form by blast
      show ?thesis
      proof (cases "stalled_AiM_requests s1 = 0 \<and> sent")
        case True
        then have "finish_request host_cb (host\<lparr>col_addr := col\<rparr>) (s1, h) = Ok (s', h')" using f col by simp
        from finish_request_host [OF this q1] True have fin: "s' = pop_request s1 \<and> host_step host_cb s1 h s' h'" by blast
        then have "quiet s'" using quiet_pop [OF \<open>quiet s1\<close>] by simp
        moreover have "host_step host_cb s1 h s' h'" by (rule conjunct2 [OF fin])
        ultimately show ?thesis using c1 q1 Cons by (simp add: host_step_def retires_def)
      next
        case False
        then show ?thesis using f \<open>quiet s1\<close> c1 q1 Cons by (auto simp: host_step_def)
      qed
    qed
  qed
qed

lemma deliver_remaining_clk:
  assumes "deliver_remaining s = Ok (was, is_left, s')"
  shows "sys_clk s' = sys_clk s"
proof -
  let ?I = "\<lambda>(was, is_left, u). sys_clk u = sys_clk s"
  have "?I (was, is_left, s')"
    by (rule fold_result_invariant [OF assms [unfolded deliver_remaining_def], where I = ?I])
      (auto simp: andThen_Ok_iff split: if_splits)
  then show ?thesis by simp
qed

context request_scheduler begin

lemma AiMSystem_tick_host:
  assumes "AiMSystem_tick AiMISRInfo_init best host_cb (s, h) = Ok (s', h')" and "sys_inv s" and "head_inv s"
    and "quiet s"
  shows "quiet s' \<and> sys_clk s' = sys_clk s + 1
    \<and> (request_queue s' = request_queue s \<and> h' = h \<or> retires host_cb s h s' h')"
proof -
  obtain was is_left s1 s2 h2 s3 where 1: "deliver_remaining s = Ok (was, is_left, s1)"
    and i1: "sys_inv s1" and d: "request_queue s1 = request_queue s" "all_requests s1 = all_requests s"
    and p: "process_queue AiMISRInfo_init host_cb was is_left (s1, h) = Ok (s2, h2)"
    and i2: "sys_inv s2" "head_inv s2"
    and 3: "tick_channels AiMISRInfo_init best host_cb (s2, h2) = Ok (s3, h') \<or> s3 = s2 \<and> h' = h2"
    and o: "step_ok s2 s3" and s': "s' = s3\<lparr>sys_clk := sys_clk s3 + 1\<rparr>"
    by (rule AiMSystem_tick_phases [OF assms(1-3)])
  have "quiet s1" using assms(4) d by (simp add: quiet_def)
  note p = process_queue_host [OF p i1 this]
  have c: "quiet s3 \<and> host_step host_cb s2 h2 s3 h'" using 3
  proof
    assume t: "tick_channels AiMISRInfo_init best host_cb (s2, h2) = Ok (s3, h')"
    show ?thesis by (rule tick_channels_host [OF t i2 conjunct1 [OF p]])
  next
    assume "s3 = s2 \<and> h' = h2"
    then show ?thesis using p by (simp add: host_step_def)
  qed
  have "host_step host_cb s1 h s3 h'"
    using host_step_trans [OF conjunct2 [OF p] conjunct2 [OF c]] step_ok_idle [OF o] by blast
  moreover have "quiet s'" using c by (simp add: quiet_def s' all_requests_def)
  ultimately show ?thesis using deliver_remaining_clk [OF 1] d(1) by (auto simp: host_step_def retires_def s')
qed

end

lemma AiMSystem_send_quiet:
  assumes "AiMSystem_send r s = Ok (accepted, s')" and "quiet s" and "plain r"
  shows "quiet s'"
proof -
  have "all_requests s' = all_requests s" "request_queue s' = request_queue s \<or> request_queue s' = request_queue s @ [r]"
    using assms(1) by (auto simp: AiMSystem_send_def Let_def all_requests_def split: if_splits)
  then show ?thesis using assms(2,3) by (auto simp: quiet_def)
qed

subsection \<open>The contract\<close>

definition system_ok :: "aim_system \<Rightarrow> bool" where
  "system_ok s \<longleftrightarrow> sys_inv s \<and> head_inv s \<and> quiet s"

lemma system_ok_empty:
  assumes "system_ok s" and "request_queue s = []"
  shows "outstanding s = {#}" "\<forall>q\<in>set (remaining_AiM_requests s). q = []" "stalled_AiM_requests s = 0"
proof -
  show z: "stalled_AiM_requests s = 0" using assms by (auto simp: system_ok_def sys_inv_def)
  then show "outstanding s = {#}" using assms(1) by (auto simp: system_ok_def sys_inv_def accounts_def)
  have "waiting s = {}" using assms by (auto simp: system_ok_def head_inv_def)
  then show "\<forall>q\<in>set (remaining_AiM_requests s). q = []" by (simp add: waiting_empty)
qed

interpretation aim_system: memory_system AiMSystem_send
  "AiMSystem_tick AiMISRInfo_init FRFCFS_get_best_request" request_queue sys_clk system_ok
proof (unfold_locales, goal_cases)
  case (1 r m accepted m')
  then show ?case
    using AiMSystem_send_inv [OF 1(1) _ plain_not_blocked] AiMSystem_send_head [OF 1(1)] AiMSystem_send_quiet [OF 1(1)]
    by (auto simp: system_ok_def AiMSystem_send_def Let_def split: if_splits)
next
  case (2 cb m h m' h')
  then have i: "sys_inv m" "head_inv m" "quiet m" by (simp_all add: system_ok_def)
  show ?case
    using frfcfs.AiMSystem_tick_inv [OF 2(1) i(1)] frfcfs.AiMSystem_tick_head [OF 2(1) i(1,2)]
      frfcfs.AiMSystem_tick_host [OF 2(1) i] unfolding system_ok_def retires_def by blast
qed

end
