(* ===== verification/Simulator.thy ===== *)
theory Simulator
  imports AiM_Trace_Props AiM_System_Host
begin

text \<open>
  The main loop of \<^verbatim>\<open>src/src/main.cpp\<close>: front end and memory system tick at their clock ratios until
  the front end is finished. The loop may run for ever, so it takes fuel, and \<open>None\<close> says that
  the fuel ran out.
\<close>

subsection \<open>The loop\<close>

definition front_now :: "int \<Rightarrow> int \<Rightarrow> int \<Rightarrow> bool" where
  "front_now frontend_tick mem_tick i \<longleftrightarrow> i mod (frontend_tick * mem_tick) mod mem_tick = 0"

definition memory_now :: "int \<Rightarrow> int \<Rightarrow> int \<Rightarrow> bool" where
  "memory_now frontend_tick mem_tick i \<longleftrightarrow> i mod (frontend_tick * mem_tick) mod frontend_tick = 0"

fun sim_loop ::
  "('f \<times> 'm \<Rightarrow> ('f \<times> 'm) result) \<Rightarrow> ('f \<Rightarrow> bool) \<Rightarrow> ('m \<times> 'f \<Rightarrow> ('m \<times> 'f) result) \<Rightarrow> int \<Rightarrow> int
    \<Rightarrow> nat \<Rightarrow> int \<Rightarrow> 'f \<times> 'm \<Rightarrow> ('f \<times> 'm) result option" where
  "sim_loop front finished memory frontend_tick mem_tick 0 i st = None"
| "sim_loop front finished memory frontend_tick mem_tick (Suc fuel) i st =
     (if frontend_tick * mem_tick = 0 then Some (Err (Undefined ''division by zero''))
      else
       (case (if front_now frontend_tick mem_tick i then front st else Ok st) of
          Inl e \<Rightarrow> Some (Err e)
        | Inr (h, m) \<Rightarrow>
            if finished h then Some (Ok (h, m))
            else (case (if memory_now frontend_tick mem_tick i then memory (m, h) else Ok (m, h)) of
                    Inl e \<Rightarrow> Some (Err e)
                  | Inr (m, h) \<Rightarrow> sim_loop front finished memory frontend_tick mem_tick fuel (i + 1) (h, m))))"

text \<open>The program on the AiM front end and memory system.\<close>

abbreviation AiM_front :: "AiM_trace \<times> aim_system \<Rightarrow> (AiM_trace \<times> aim_system) result" where
  "AiM_front \<equiv> AiMTrace_tick AiMISRInfo_init AiMSystem_send"

abbreviation AiM_memory :: "aim_system \<times> AiM_trace \<Rightarrow> (aim_system \<times> AiM_trace) result" where
  "AiM_memory \<equiv> AiMSystem_tick AiMISRInfo_init FRFCFS_get_best_request trace_callback"

definition AiM_start ::
  "(string \<Rightarrow> string option option) \<Rightarrow> trace_config \<Rightarrow> dram \<Rightarrow> controller_config \<Rightarrow> int option
    \<Rightarrow> (AiM_trace \<times> aim_system) result" where
  "AiM_start files tcfg d ccfg ratio =
     andThen (AiMTrace_init files tcfg) (\<lambda>h.
     andThen (AiMSystem_init AiMISRInfo_init d ccfg ratio) (\<lambda>s.
     andThen (AiMSystem_connect AiMISRInfo_init s) (\<lambda>s. Ok (h, s))))"

definition simulate ::
  "(string \<Rightarrow> string option option) \<Rightarrow> trace_config \<Rightarrow> dram \<Rightarrow> controller_config \<Rightarrow> int option \<Rightarrow> nat
    \<Rightarrow> (AiM_trace \<times> aim_system) result option" where
  "simulate files tcfg d ccfg ratio fuel =
     (case AiM_start files tcfg d ccfg ratio of
        Inl e \<Rightarrow> Some (Err e)
      | Inr (h, s) \<Rightarrow> sim_loop AiM_front trace_is_finished AiM_memory (trace_clock_ratio h) (sys_clock_ratio s) fuel 0 (h, s))"

text \<open>More fuel does not change a result.\<close>

lemma sim_loop_fuel:
  "sim_loop front finished memory f m fuel i st = Some r \<Longrightarrow>
   sim_loop front finished memory f m (fuel + k) i st = Some r"
proof (induction front finished memory f m fuel i st rule: sim_loop.induct)
  case (1 front finished memory f m i st)
  then show ?case by simp
next
  case (2 front finished memory f m fuel i st)
  show ?case
  proof (cases "f * m = 0")
    case True
    then show ?thesis using "2.prems" by simp
  next
    case nz: False
    show ?thesis
    proof (cases "if front_now f m i then front st else Ok st")
      case e: (Inl e)
      then have "r = Err e" using "2.prems" nz by auto
      then show ?thesis using nz e by simp
    next
      case (Inr hm)
      then obtain h s where hs: "(if front_now f m i then front st else Ok st) = Ok (h, s)" by (cases hm) simp
      show ?thesis
      proof (cases "finished h")
        case True
        then have "r = Ok (h, s)" using "2.prems" nz hs by auto
        then show ?thesis using nz hs True by simp
      next
        case nf: False
        show ?thesis
        proof (cases "if memory_now f m i then memory (s, h) else Ok (s, h)")
          case e: (Inl e)
          then have "r = Err e" using "2.prems" nz hs nf by auto
          then show ?thesis using nz hs nf e by simp
        next
          case (Inr sh)
          then obtain s' h' where sh: "(if memory_now f m i then memory (s, h) else Ok (s, h)) = Ok (s', h')" by (cases sh) simp
          have rec: "sim_loop front finished memory f m fuel (i + 1) (h', s') = Some r"
            using "2.prems" nz hs nf sh by simp
          have "sim_loop front finished memory f m (fuel + k) (i + 1) (h', s') = Some r"
            by (rule "2.IH" [OF nz hs refl nf sh refl rec])
          then show ?thesis using nz hs nf sh by simp
        qed
      qed
    qed
  qed
qed

subsection \<open>Clock ratios\<close>




subsection \<open>Front end and memory system together\<close>

text \<open>Instructions read and not yet retired: those in the memory system's queue, then the one the
  front end still has to send.\<close>

definition pending :: "AiM_trace \<Rightarrow> request list" where
  "pending h = (if remaining_req h then [AiMTrace_request h] else [])"

definition in_progress :: "AiM_trace \<Rightarrow> request list \<Rightarrow> bool" where
  "in_progress h Q \<longleftrightarrow> (\<forall>r\<in>set Q. plain r)
     \<and> map host_req_id Q = [next_host_req_id h - int (length Q)..next_host_req_id h - 1]
     \<and> (if m_trace_reached_calledback h then m_trace_reached_EOC h \<and> Q = []
        else if m_trace_reached_EOC h
        then \<exists>p r. Q = p @ [r] \<and> req_callback r = Trace_receive \<and> (\<forall>x\<in>set p. req_callback x \<noteq> Trace_receive)
        else \<forall>x\<in>set Q. req_callback x \<noteq> Trace_receive)"

lemma in_progress_cong:
  "next_host_req_id h' = next_host_req_id h \<Longrightarrow> m_trace_reached_calledback h' = m_trace_reached_calledback h \<Longrightarrow>
   m_trace_reached_EOC h' = m_trace_reached_EOC h \<Longrightarrow> in_progress h' Q = in_progress h Q"
  by (simp add: in_progress_def)

lemma in_progress_read:
  assumes "in_progress h Q" and "read_effect h r h'" and "\<not> m_trace_reached_EOC h"
  shows "in_progress h' (Q @ [r])"
proof -
  have nc: "\<not> m_trace_reached_calledback h" using assms(1,3) by (auto simp: in_progress_def split: if_splits)
  have "[next_host_req_id h - int (length Q)..next_host_req_id h - 1] @ [next_host_req_id h]
      = [next_host_req_id h' - int (length (Q @ [r]))..next_host_req_id h' - 1]"
    using assms(2) upto_rec2 [of "next_host_req_id h - int (length Q)" "next_host_req_id h"]
    by (simp add: read_effect_def)
  then have "map host_req_id (Q @ [r]) = [next_host_req_id h' - int (length (Q @ [r]))..next_host_req_id h' - 1]"
    using assms(1,2) by (simp add: in_progress_def read_effect_def)
  then show ?thesis using assms nc by (auto simp: in_progress_def read_effect_def)
qed

lemma in_progress_tl:
  assumes "in_progress h (r # Q)" and "run_callback (trace_callback clk) (r\<lparr>col_addr := col\<rparr>) h = Ok h'"
  shows "in_progress h' Q" "remaining_req h' = remaining_req h" "AiMTrace_request h' = AiMTrace_request h"
    "m_trace_reached_EOC h' = m_trace_reached_EOC h"
proof -
  have f: "next_host_req_id h' = next_host_req_id h \<and> remaining_req h' = remaining_req h
      \<and> AiMTrace_request h' = AiMTrace_request h \<and> m_trace_reached_EOC h' = m_trace_reached_EOC h"
    and cb: "m_trace_reached_calledback h' \<longleftrightarrow> m_trace_reached_calledback h \<or> req_callback r = Trace_receive"
    using assms(2) by (auto simp: run_callback_def trace_callback_def split: callback.splits if_splits)
  then show "remaining_req h' = remaining_req h" "AiMTrace_request h' = AiMTrace_request h"
    "m_trace_reached_EOC h' = m_trace_reached_EOC h" by simp_all
  let ?n = "next_host_req_id h"
  have nc: "\<not> m_trace_reached_calledback h" using assms(1) by (auto simp: in_progress_def split: if_splits)
  have "?n - int (length (r # Q)) \<le> ?n - 1" by simp
  then have "[?n - int (length (r # Q))..?n - 1] = (?n - int (length (r # Q))) # [?n - int (length (r # Q)) + 1..?n - 1]"
    by (rule upto_rec1)
  moreover have "?n - int (length (r # Q)) + 1 = ?n - int (length Q)" by simp
  ultimately have ids: "map host_req_id Q = [?n - int (length Q)..?n - 1]"
    using assms(1) by (simp add: in_progress_def)
  have pl: "\<forall>x\<in>set Q. plain x" using assms(1) by (simp add: in_progress_def)
  show "in_progress h' Q"
  proof (cases "m_trace_reached_EOC h")
    case False
    then show ?thesis using assms(1) nc ids pl f cb by (simp add: in_progress_def)
  next
    case True
    then obtain p l where l: "r # Q = p @ [l]" "req_callback l = Trace_receive" "\<forall>x\<in>set p. req_callback x \<noteq> Trace_receive"
      using assms(1) nc by (auto simp: in_progress_def)
    show ?thesis
    proof (cases p)
      case Nil
      then show ?thesis using l True ids pl f cb by (simp add: in_progress_def)
    next
      case (Cons x p')
      then have "Q = p' @ [l]" "req_callback r \<noteq> Trace_receive" "\<forall>x\<in>set p'. req_callback x \<noteq> Trace_receive"
        using l by auto
      then show ?thesis using l True ids pl f cb nc by (auto simp: in_progress_def)
    qed
  qed
qed

text \<open>The loop relies on the memory system through its contract only.\<close>

locale aim_simulation = memory_system send tick queue cycle ok
  for send :: "request \<Rightarrow> 'm \<Rightarrow> (bool \<times> 'm) result"
    and tick :: "(int \<Rightarrow> request \<Rightarrow> AiM_trace \<Rightarrow> AiM_trace result) \<Rightarrow> 'm \<times> AiM_trace \<Rightarrow> ('m \<times> AiM_trace) result"
    and queue :: "'m \<Rightarrow> request list"
    and cycle :: "'m \<Rightarrow> int"
    and ok :: "'m \<Rightarrow> bool"
begin

definition sim_inv :: "AiM_trace \<Rightarrow> 'm \<Rightarrow> bool" where
  "sim_inv h m \<longleftrightarrow> ok m \<and> in_progress h (queue m @ pending h)"

lemma front_inv:
  assumes "AiMTrace_tick info send (h, m) = Ok (h', m')" and "sim_inv h m"
  shows "sim_inv h' m'"
proof -
  from assms(1) obtain h1 where 1: "(if \<not> remaining_req h \<and> \<not> m_trace_reached_EOC h
        then andThen (get_host_request info h) (\<lambda>(r, h). Ok (h\<lparr>AiMTrace_request := r, remaining_req := True\<rparr>))
        else Ok h) = Ok h1" and 2: "trace_send send (h1, m) = Ok (h', m')"
    by (auto simp: AiMTrace_tick_def andThen_Ok_iff)
  have i1: "sim_inv h1 m"
  proof (cases "\<not> remaining_req h \<and> \<not> m_trace_reached_EOC h")
    case True
    then obtain r h2 where r: "get_host_request info h = Ok (r, h2)" and h1: "h1 = h2\<lparr>AiMTrace_request := r, remaining_req := True\<rparr>"
      using 1 by (auto simp: andThen_Ok_iff)
    have "in_progress h (queue m)" using assms(2) True by (simp add: sim_inv_def pending_def)
    then have "in_progress h2 (queue m @ [r])"
      using in_progress_read get_host_request_effect [OF r] by blast
    then have "in_progress h1 (queue m @ [r])" by (subst in_progress_cong [of h2 h1, symmetric]) (simp_all add: h1)
    then show ?thesis using assms(2) by (simp add: sim_inv_def pending_def h1)
  next
    case False
    then show ?thesis using 1 assms(2) by (simp split: if_splits)
  qed
  show ?thesis
  proof (cases "remaining_req h1")
    case True
    then obtain sent where s: "send (AiMTrace_request h1) m = Ok (sent, m')"
      and h': "h' = (if sent then h1\<lparr>remaining_req := False\<rparr> else h1)"
      using 2 by (auto simp: trace_send_def andThen_Ok_iff)
    have I: "ok m" "in_progress h1 (queue m @ [AiMTrace_request h1])" using i1 True by (simp_all add: sim_inv_def pending_def)
    then have "plain (AiMTrace_request h1)" by (simp add: in_progress_def)
    from send_law [OF s I(1) this] have "ok m'" "queue m' @ pending h' = queue m @ [AiMTrace_request h1]"
      using h' True by (auto simp: pending_def)
    moreover have "in_progress h' Q = in_progress h1 Q" for Q by (rule in_progress_cong) (simp_all add: h')
    ultimately show ?thesis using I(2) by (simp add: sim_inv_def)
  next
    case False
    then show ?thesis using 2 i1 by (simp add: trace_send_def)
  qed
qed

lemma memory_inv:
  assumes "tick trace_callback (m, h) = Ok (m', h')" and "sim_inv h m"
  shows "sim_inv h' m'"
proof -
  have I: "ok m" "in_progress h (queue m @ pending h)" using assms(2) by (simp_all add: sim_inv_def)
  note t = tick_law [OF assms(1) I(1)]
  from t consider "queue m' = queue m" "h' = h"
    | r q col where "queue m = r # q" "queue m' = q" "run_callback (trace_callback (cycle m)) (r\<lparr>col_addr := col\<rparr>) h = Ok h'"
    by blast
  then show ?thesis
  proof cases
    case 1
    then show ?thesis using t I(2) by (simp add: sim_inv_def)
  next
    case 2
    have "in_progress h (r # q @ pending h)" using I(2) 2(1) by simp
    note n = in_progress_tl [OF this 2(3)]
    have "pending h' = pending h" using n(2,3) by (simp add: pending_def)
    then show ?thesis using n(1) t 2(2) by (simp add: sim_inv_def)
  qed
qed

lemma loop_inv:
  "sim_loop (AiMTrace_tick info send) trace_is_finished (tick trace_callback) f k fuel i (h, m) = Some (Ok (h', m'))
   \<Longrightarrow> sim_inv h m \<Longrightarrow> sim_inv h' m' \<and> m_trace_reached_calledback h'"
proof (induction fuel arbitrary: i h m)
  case 0
  then show ?case by simp
next
  case (Suc fuel)
  have nz: "f * k \<noteq> 0" using Suc.prems(1) by (auto split: if_splits)
  from Suc.prems(1) nz obtain h1 m1 where 1: "(if front_now f k i then AiMTrace_tick info send (h, m) else Ok (h, m)) = Ok (h1, m1)"
    and r1: "(if trace_is_finished h1 then Some (Ok (h1, m1))
            else (case (if memory_now f k i then tick trace_callback (m1, h1) else Ok (m1, h1)) of
                    Inl e \<Rightarrow> Some (Err e)
                  | Inr (m, h) \<Rightarrow> sim_loop (AiMTrace_tick info send) trace_is_finished (tick trace_callback) f k fuel (i + 1) (h, m)))
        = Some (Ok (h', m'))"
    by (simp only: sim_loop.simps if_False split: sum.splits prod.splits) blast
  have i1: "sim_inv h1 m1" using 1 front_inv Suc.prems(2) by (auto split: if_splits)
  show ?case
  proof (cases "trace_is_finished h1")
    case True
    then show ?thesis using r1 i1 by (simp add: trace_is_finished_def)
  next
    case False
    with r1 obtain m2 h2 where 2: "(if memory_now f k i then tick trace_callback (m1, h1) else Ok (m1, h1)) = Ok (m2, h2)"
      and rest: "sim_loop (AiMTrace_tick info send) trace_is_finished (tick trace_callback) f k fuel (i + 1) (h2, m2) = Some (Ok (h', m'))"
      by (simp only: if_False split: sum.splits prod.splits) blast
    have "sim_inv h2 m2" using 2 memory_inv i1 by (auto split: if_splits)
    then show ?thesis by (rule Suc.IH [OF rest])
  qed
qed

end

interpretation aim: aim_simulation AiMSystem_send
  "AiMSystem_tick AiMISRInfo_init FRFCFS_get_best_request" request_queue sys_clk system_ok
  by unfold_locales

end
