(* ===== verification/AiM_System_Decode.thy ===== *)
theory AiM_System_Decode
  imports AiM_System_Reach
begin

text \<open>
  The decoding of instructions in \<^verbatim>\<open>src/src/memory_system/impl/aim_DRAM_system.cpp\<close>: the channels
  a mask names, the address of a bank, and the requests an instruction is split into.
\<close>

subsection \<open>Channel masks\<close>












subsection \<open>Bank addresses\<close>

text \<open>The organization of a device without ranks: channel, bank group, bank, row, column.\<close>

definition flat_device :: "aim_system \<Rightarrow> int \<Rightarrow> int \<Rightarrow> bool" where
  "flat_device s groups banks \<longleftrightarrow> m_levels (dram_spec (sys_dram s)) = GDDR6_levels \<and> m_num_levels s = 5
     \<and> \<not> m_has_rank s \<and> get_level_size (dram_spec (sys_dram s)) ''bankgroup'' = Ok groups
     \<and> get_level_size (dram_spec (sys_dram s)) ''bank'' = Ok banks \<and> 0 < groups \<and> 0 < banks"

definition mapped_address :: "int \<Rightarrow> int \<Rightarrow> request \<Rightarrow> int list" where
  "mapped_address banks ch r =
     [ch, if bank_index r = -1 then -1 else bank_index r div banks,
      if bank_index r = -1 then -1 else bank_index r mod banks, row_addr r, col_addr r]"

lemma length_5: "length xs = 5 \<Longrightarrow> \<exists>a b c d e. xs = [a, b, c, d, e]"
  by (cases xs; cases "tl xs"; cases "tl (tl xs)"; cases "tl (tl (tl xs))"; cases "tl (tl (tl (tl xs)))") auto

lemma level_ids:
  "SpecDef_id GDDR6_levels ''channel'' = Ok 0" "SpecDef_id GDDR6_levels ''bankgroup'' = Ok 1"
  "SpecDef_id GDDR6_levels ''bank'' = Ok 2" "SpecDef_id GDDR6_levels ''row'' = Ok 3"
  "SpecDef_id GDDR6_levels ''column'' = Ok 4"
  by code_simp+

lemma apply_addr_mapp_flat:
  assumes "flat_device s groups banks"
  shows "apply_addr_mapp s r ch =
    (if ch < 0 \<or> 32 \<le> ch then Err (Exit_failure ''CH out of range'')
     else if bank_index r \<noteq> -1 \<and> (bank_index r < 0 \<or> groups * banks \<le> bank_index r)
     then Err (Exit_failure ''BA out of range'')
     else Ok (r\<lparr>addr_vec := mapped_address banks ch r\<rparr>))"
proof -
  note d = assms [unfolded flat_device_def]
  have "length (resize 5 (addr_vec r)) = 5" by (simp add: resize_def)
  then obtain a b c e f where av: "resize 5 (addr_vec r) = [a, b, c, e, f]"
    using length_5 by blast
  show ?thesis
    using d by (simp add: apply_addr_mapp_def Let_def av set_addr_def level_ids vec_put_def in_vec_def
        bank_address_def MAX_CHANNEL_COUNT_def mapped_address_def cong: if_cong)
qed

text \<open>C29: on a device without ranks the mapping of a bank index to an address
  succeeds exactly when the channel is below 32 and the index is -1 (all banks) or below the
  number of banks; it then writes channel, bank group, bank, row and column and nothing else, and
  the bank index can be read back from the address.\<close>

theorem bank_address_mapped:
  assumes "flat_device s groups banks"
  shows "apply_addr_mapp s r ch =
    (if ch < 0 \<or> 32 \<le> ch then Err (Exit_failure ''CH out of range'')
     else if bank_index r \<noteq> -1 \<and> (bank_index r < 0 \<or> groups * banks \<le> bank_index r)
     then Err (Exit_failure ''BA out of range'')
     else Ok (r\<lparr>addr_vec := [ch, if bank_index r = -1 then -1 else bank_index r div banks,
            if bank_index r = -1 then -1 else bank_index r mod banks, row_addr r, col_addr r]\<rparr>))
    \<and> (0 \<le> bank_index r \<and> bank_index r < groups * banks \<longrightarrow>
        bank_index r div banks * banks + bank_index r mod banks = bank_index r
        \<and> 0 \<le> bank_index r div banks \<and> bank_index r div banks < groups
        \<and> 0 \<le> bank_index r mod banks \<and> bank_index r mod banks < banks)"
proof -
  note d = assms [unfolded flat_device_def]
  have "bank_index r div banks < groups" if "bank_index r < groups * banks"
  proof (rule ccontr)
    assume "\<not> bank_index r div banks < groups"
    then have "groups * banks \<le> bank_index r div banks * banks" using d by (intro mult_right_mono) auto
    moreover have "bank_index r div banks * banks \<le> bank_index r"
      using div_mult_mod_eq [of "bank_index r" banks] pos_mod_sign [of banks "bank_index r"] d by linarith
    ultimately show False using that by simp
  qed
  moreover have "0 \<le> bank_index r div banks" if "0 \<le> bank_index r"
    using that d by (simp add: pos_imp_zdiv_nonneg_iff)
  ultimately show ?thesis using d apply_addr_mapp_flat [OF assms, of r ch] by (simp add: mapped_address_def)
qed

subsection \<open>The requests of an instruction\<close>














end
