(* ===== verification/AiM_Controller_Theorems.thy ===== *)
theory AiM_Controller_Theorems
  imports AiM_Controller_Order
begin

text \<open>
  The properties of the AiM controller of \<^verbatim>\<open>src/src/dram_controller/impl/AiM_dram_controller.cpp\<close>
  with the FRFCFS scheduler, over every sequence of \<open>send\<close> and \<open>tick\<close>, and their witnesses on
  the small device.
\<close>

subsection \<open>What a tick issues\<close>

lemma serve_request_issue:
  assumes "serve_request info x i d c = Ok (d', c')"
  shows "\<exists>r mode. switch_mode info (dram_spec d) (buffer (get_buf x c) ! i) (is_reg_RW_mode c) = Ok (r, mode)
     \<and> issue_command (command r) (addr_vec r) d = Ok d' \<and> is_reg_RW_mode c' = mode"
proof -
  have mode: "complete_request info spec x i q c1 = Ok c2 \<Longrightarrow> is_reg_RW_mode c2 = is_reg_RW_mode c1"
    "continue_request spec x i q c1 = Ok c2 \<Longrightarrow> is_reg_RW_mode c2 = is_reg_RW_mode c1" for q c1 c2 spec
    by (auto simp: complete_request_def continue_request_def andThen_Ok_iff Let_def remove_from_def
        split: if_splits)
  from assms obtain r m ps where "switch_mode info (dram_spec d) (buffer (get_buf x c) ! i) (is_reg_RW_mode c) = Ok (r, m)"
    and "(let r = (if issue r = -1 then r\<lparr>issue := ctrl_clk c - 1\<rparr> else r) in
         andThen (issue_command (command r) (addr_vec r) d) (\<lambda>d1.
           (let c = put_buf x (buf_put i r (get_buf x c))
                  (c\<lparr>is_reg_RW_mode := m, m_plugins := ps,
                     s_num_commands := increment (s_num_commands c) (command r) 1\<rparr>) in
            andThen (if command r = final_command r then complete_request info (dram_spec d) x i r c
                     else continue_request (dram_spec d) x i r c) (\<lambda>c.
              Ok (d1, c))))) = Ok (d', c')"
    by (auto simp: serve_request_def Let_def andThen_Ok_iff)
  then show ?thesis
    by (intro exI [of _ r] exI [of _ m]) (auto simp: Let_def andThen_Ok_iff dest: mode split: if_splits)
qed

lemma act_on_issue:
  assumes "act_on info sel d c = Ok (d', c')"
  shows "d' = d \<or> (\<exists>x i r mode. sel = Some (x, i) \<and> \<not> is_barrier (buffer (get_buf x c) ! i)
     \<and> switch_mode info (dram_spec d) (buffer (get_buf x c) ! i) (is_reg_RW_mode c) = Ok (r, mode)
     \<and> issue_command (command r) (addr_vec r) d = Ok d')"
proof (cases sel)
  case None
  then show ?thesis using assms by (auto simp: act_on_def andThen_Ok_iff)
next
  case (Some xi)
  then obtain x i where sel: "sel = Some (x, i)" by (cases xi) auto
  show ?thesis
  proof (cases "is_barrier (buffer (get_buf x c) ! i)")
    case True
    then show ?thesis using assms sel by (auto simp: act_on_def andThen_Ok_iff)
  next
    case False
    then obtain c1 where "serve_request info x i d c = Ok (d', c1)"
      using assms sel by (auto simp: act_on_def andThen_Ok_iff)
    from serve_request_issue [OF this] sel False show ?thesis by blast
  qed
qed



subsection \<open>Queues\<close>


text \<open>C16: in every reachable state the active, read, write and AiM buffers hold at
  most 33 requests and the priority buffer at most 1569, one more than their \<open>max_size\<close>.\<close>

theorem AiM_queues_bounded:
  assumes "AiM_reachable info FRFCFS_get_best_request cb spec c"
  shows "length (buffer (get_buf x c)) \<le> (if x = Priority_buffer then 1569 else 33)"
proof -
  have "queue_ok spec x (get_buf x c)" using frfcfs.reachable_inv [OF assms] by (simp add: AiM_inv_def)
  then show ?thesis using req_buffer.ok_bound [of "get_buf x c"] by (auto simp: queue_ok_def)
qed

subsection \<open>Conservation and order\<close>

text \<open>C14: a request that \<open>send\<close> accepts is in exactly one queue of the
  controller afterwards, with every field but the controller's own (final command, arrival,
  departure) as it was sent, and nothing else changes queue; a refused request is in none.\<close>

theorem send_conserves_requests:
  assumes "AiM_send spec r c = Ok (accepted, r', c')"
  shows "flight c' = (if accepted then add_mset (core r) (flight c) else flight c) \<and> core r' = core r"
  using send_flight [OF assms] assms by (auto elim: AiM_send_cases)


text \<open>C12: when the AiM controller answers a \<open>SYNC\<close> or \<open>EOC\<close> (takes it off the head of
  \<open>pending_reads\<close>), no write is pending, and every AiM request still in any of its queues has
  arrived no earlier than the barrier: all AiM requests accepted before it have completed. (On a
  device without ranks. Conventional requests in the active buffer may be older.)\<close>

theorem barrier_order:
  assumes "AiM_reachable info FRFCFS_get_best_request cb spec c" and "get_level_size spec ''rank'' = Ok (-1)"
    and "serve_completed_reqs cb (c\<lparr>ctrl_clk := ctrl_clk c + 1\<rparr>) s = Ok (c', s')"
    and "pending_reads c = r # rest" and "pending_reads c' = rest" and "is_barrier r" and "req_type r = AIM"
  shows "pending_writes c = [] \<and> pending_writes c' = []
    \<and> (\<forall>q \<in> set (pending_reads c') \<union> (\<Union>x. set (buffer (get_buf x c'))). req_type q = AIM \<longrightarrow> arrive r \<le> arrive q)"
proof -
  let ?c = "c\<lparr>ctrl_clk := ctrl_clk c + 1\<rparr>"
  note sc = serve_completed_cases(1) [OF assms(3)]
  have "completes ?c" using sc assms(4,5) by (auto split: if_splits)
  then have w: "pending_writes c = []" using assms(4,6) by (simp add: completes_def)
  have o: "order_inv c" using frfcfs.reachable_order [OF assms(1,2)] by simp
  have line: "arrive r \<le> arrive q" if "q \<in> set rest \<union> set (buffer (m_aim_buffer c))" "req_type q = AIM" for q
    using o that assms(4,7) by (auto simp: order_inv_def aim_line_def)
  have "arrive r \<le> arrive q" if "q \<in> set (buffer (get_buf x c'))" "req_type q = AIM" for q x
  proof -
    have q: "q \<in> set (buffer (get_buf x c))" using that(1) sc by simp
    have "belongs x q" using frfcfs.reachable_inv [OF assms(1)] q by (auto simp: AiM_inv_def queue_ok_def)
    moreover have "x \<noteq> Priority_buffer" using q o by (auto simp: order_inv_def)
    ultimately have "x = AiM_buffer" using that(2) by (cases x) (auto simp: belongs_def)
    then show ?thesis using line q that(2) by simp
  qed
  then show ?thesis using w sc assms(5) line by auto
qed

subsection \<open>Modes\<close>

text \<open>With the default watermarks (\<open>0.2f\<close> and \<open>0.8f\<close> of 32 entries) the
  controller enters write mode when at least 26 writes wait or no read waits, and leaves it when
  at most 6 writes and at least one read wait; between the two it keeps its mode.\<close>

theorem write_mode_thresholds:
  assumes "AiM_reachable info FRFCFS_get_best_request cb spec c"
    and "m_wr_low_watermark c = default_low_watermark" "m_wr_high_watermark c = default_high_watermark"
  shows "m_is_write_mode (set_write_mode c) =
    (let writes = length (buffer (m_write_buffer c)); reads = length (buffer (m_read_buffer c)) in
     if m_is_write_mode c then \<not> (writes \<le> 6 \<and> 0 < reads) else 26 \<le> writes \<or> reads = 0)"
proof -
  have m: "max_size (m_write_buffer c) = 32" using frfcfs.reachable_capacity [OF assms(1), of Write_buffer] by simp
  have hi: "default_high_watermark * of_nat 32 < of_nat n \<longleftrightarrow> 26 \<le> n" for n :: nat
  proof
    assume "default_high_watermark * of_nat 32 < of_nat n"
    then have "(25::rat) < of_nat n" by (simp add: default_high_watermark_def)
    then have "25 < n" by (metis of_nat_less_iff of_nat_numeral)
    then show "26 \<le> n" by simp
  next
    assume "26 \<le> n"
    then have "(26::rat) \<le> of_nat n" by (metis of_nat_le_iff of_nat_numeral)
    then show "default_high_watermark * of_nat 32 < of_nat n" by (simp add: default_high_watermark_def)
  qed
  have lo: "of_nat n < default_low_watermark * of_nat 32 \<longleftrightarrow> n \<le> 6" for n :: nat
  proof
    assume "of_nat n < default_low_watermark * of_nat 32"
    then have "of_nat n < (7::rat)" by (simp add: default_low_watermark_def)
    then have "n < 7" by (metis of_nat_less_iff of_nat_numeral)
    then show "n \<le> 6" by simp
  next
    assume "n \<le> 6"
    then have "of_nat n \<le> (6::rat)" by (metis of_nat_le_iff of_nat_numeral)
    then show "of_nat n < default_low_watermark * of_nat 32" by (simp add: default_low_watermark_def)
  qed
  show ?thesis using hi [of "buf_size (m_write_buffer c)"] lo [of "buf_size (m_write_buffer c)"] m assms(2,3)
    by (auto simp: set_write_mode_def Let_def buf_size_def)
qed


subsection \<open>Witnesses\<close>

datatype controller_event = Ctrl_send request | Ctrl_tick

definition note_callback :: "request \<Rightarrow> request list \<Rightarrow> request list result" where
  "note_callback r answered = Ok (answered @ [r])"

text \<open>A controller and its device driven the way the memory system drives them: the device's
  clock ticks before the controller. The third component collects the requests called back.\<close>

fun controller_run :: "controller_event list \<Rightarrow> dram \<times> AiMController \<times> request list
    \<Rightarrow> (dram \<times> AiMController \<times> request list) result" where
  "controller_run [] st = Ok st"
| "controller_run (Ctrl_send r # es) (d, c, answered) =
     andThen (AiM_send (dram_spec d) r c) (\<lambda>(_, _, c). controller_run es (d, c, answered))"
| "controller_run (Ctrl_tick # es) (d, c, answered) =
     andThen (AiM_tick AiMISRInfo_init FRFCFS_get_best_request note_callback (dram_tick d) c answered)
       (controller_run es)"

lemma AiM_tick_spec:
  assumes "AiM_tick info best cb d c s = Ok (d', c', s')"
  shows "dram_spec d' = dram_spec d"
proof -
  obtain sel c3 where "act_on info sel d c3 = Ok (d', c')" by (rule AiM_tick_cases [OF assms])
  from act_on_issue [OF this] show ?thesis by (auto simp: issue_command_def andThen_Ok_iff Let_def)
qed

lemma controller_run_reachable:
  "controller_run es (d, c, answered) = Ok (d', c', answered') \<Longrightarrow>
   AiM_reachable AiMISRInfo_init FRFCFS_get_best_request note_callback (dram_spec d) c \<Longrightarrow>
   AiM_reachable AiMISRInfo_init FRFCFS_get_best_request note_callback (dram_spec d) c' \<and> dram_spec d' = dram_spec d"
proof (induction es arbitrary: d c answered)
  case Nil
  then show ?case by simp
next
  case (Cons e es)
  show ?case
  proof (cases e)
    case (Ctrl_send r)
    with Cons.prems(1) obtain ok r1 c1 where "AiM_send (dram_spec d) r c = Ok (ok, r1, c1)"
      and rest: "controller_run es (d, c1, answered) = Ok (d', c', answered')"
      by (auto simp: andThen_Ok_iff)
    with AiM_reachable.send [OF Cons.prems(2)] Cons.IH [OF rest] show ?thesis by blast
  next
    case Ctrl_tick
    with Cons.prems(1) obtain d1 c1 a1 where
      t: "AiM_tick AiMISRInfo_init FRFCFS_get_best_request note_callback (dram_tick d) c answered = Ok (d1, c1, a1)"
      and rest: "controller_run es (d1, c1, a1) = Ok (d', c', answered')"
      by (auto simp: andThen_Ok_iff)
    have "dram_spec d1 = dram_spec d" using AiM_tick_spec [OF t] by (simp add: dram_tick_def)
    moreover have "AiM_reachable AiMISRInfo_init FRFCFS_get_best_request note_callback (dram_spec d) c1"
      by (rule AiM_reachable.tick [OF Cons.prems(2) _ t]) (simp add: dram_tick_def)
    ultimately show ?thesis using Cons.IH [OF rest] by simp
  qed
qed

definition small_controller_config :: controller_config where
  "small_controller_config = \<lparr>cfg_wr_low_watermark = None, cfg_wr_high_watermark = None,
     cfg_clock_ratio = Some 1, cfg_plugins = [[''ACT'']]\<rparr>"

definition small_start :: "AiMController result" where
  "small_start = andThen (AiMController_init small_controller_config 0) (AiMController_connect AiMISRInfo_init small_spec)"

definition small_read :: request where
  "small_read = (Request_addr_vec [0, 0, 1, 3, 0] 0)\<lparr>req_callback := System_receive\<rparr>"

definition small_sync :: request where
  "small_sync = (Request_addr_vec [] 4)\<lparr>opcode := ISR_SYNC, req_callback := System_receive\<rparr>"

text \<open>The run of the witnesses: a read activates its row in the first cycle; the \<open>SYNC\<close> sent
  behind it is taken up in the second and answered in the third.\<close>

definition small_states_ok :: "AiMController \<Rightarrow> bool" where
  "small_states_ok c0 =
     (case controller_run [Ctrl_send small_read] (small_device, c0, []) of Inl _ \<Rightarrow> False | Inr (d1, c1, _) \<Rightarrow>
      map req_type (buffer (m_read_buffer c1)) = [Read] \<and> m_open_rows d1 = [0]
      \<and> (case controller_run [Ctrl_tick] (d1, c1, []) of Inl _ \<Rightarrow> False | Inr (d2, c2, _) \<Rightarrow>
         map req_type (buffer (m_active_buffer c2)) = [Read] \<and> m_open_rows d2 = [2]
         \<and> (case controller_run [Ctrl_send small_sync, Ctrl_tick] (d2, c2, []) of Inl _ \<Rightarrow> False | Inr (d3, c3, a3) \<Rightarrow>
            map opcode (pending_reads c3) = [ISR_SYNC] \<and> map req_type (pending_reads c3) = [AIM] \<and> a3 = []
            \<and> length (buffer (m_active_buffer c3)) = 1
            \<and> (case controller_run [Ctrl_tick] (d3, c3, []) of Inl _ \<Rightarrow> False | Inr (d4, c4, a4) \<Rightarrow>
               map opcode a4 = [ISR_SYNC] \<and> pending_reads c4 = [] \<and> pending_writes c4 = []
               \<and> map req_type (buffer (m_active_buffer c4)) = [Read]))))"

lemma small_run:
  obtains c0 d1 c1 a1 d2 c2 a2 d3 c3 d4 c4 a4
  where "small_start = Ok c0" "m_wr_low_watermark c0 = default_low_watermark"
    "m_wr_high_watermark c0 = default_high_watermark" "m_is_write_mode c0 = False"
    "buffer (m_read_buffer c0) = []"
    "controller_run [Ctrl_send small_read] (small_device, c0, []) = Ok (d1, c1, a1)"
    "map req_type (buffer (m_read_buffer c1)) = [Read]" "m_open_rows d1 = [0]"
    "controller_run [Ctrl_tick] (d1, c1, []) = Ok (d2, c2, a2)"
    "map req_type (buffer (m_active_buffer c2)) = [Read]" "m_open_rows d2 = [2]"
    "controller_run [Ctrl_send small_sync, Ctrl_tick] (d2, c2, []) = Ok (d3, c3, [])"
    "map opcode (pending_reads c3) = [ISR_SYNC]" "map req_type (pending_reads c3) = [AIM]"
    "length (buffer (m_active_buffer c3)) = 1"
    "controller_run [Ctrl_tick] (d3, c3, []) = Ok (d4, c4, a4)"
    "map opcode a4 = [ISR_SYNC]" "pending_reads c4 = []" "pending_writes c4 = []"
    "map req_type (buffer (m_active_buffer c4)) = [Read]"
proof -
  have e: "(case small_start of Inl _ \<Rightarrow> False | Inr c0 \<Rightarrow> small_states_ok c0)" by code_simp
  then obtain c0 where c0: "small_start = Ok c0" "small_states_ok c0" by (auto split: sum.splits)
  have "buffer (m_read_buffer c0) = []" "m_is_write_mode c0 = False"
    "m_wr_low_watermark c0 = default_low_watermark" "m_wr_high_watermark c0 = default_high_watermark"
    using c0(1) connect_start(1) [of small_controller_config 0 _ AiMISRInfo_init small_spec c0 Read_buffer]
      connect_start(7,10,11) [of small_controller_config 0 _ AiMISRInfo_init small_spec c0]
    by (auto simp: small_start_def andThen_Ok_iff small_controller_config_def opt_or_def)
  with c0 that show thesis unfolding small_states_ok_def by (fastforce split: sum.splits prod.splits)
qed

abbreviation small_reachable :: "AiMController \<Rightarrow> bool" where
  "small_reachable \<equiv> AiM_reachable AiMISRInfo_init FRFCFS_get_best_request note_callback small_spec"

lemma small_start_reachable: "small_start = Ok c0 \<Longrightarrow> small_reachable c0"
  by (auto simp: small_start_def andThen_Ok_iff intro: AiM_reachable.start)

lemma small_device_spec: "dram_spec small_device = small_spec"
  by (simp add: small_device_def)

lemma small_run_reachable:
  assumes "small_start = Ok c0" and "controller_run es (small_device, c0, a) = Ok (d, c, a')"
  shows "small_reachable c" "dram_spec d = small_spec"
  using controller_run_reachable [OF assms(2)] small_start_reachable [OF assms(1)] by (simp_all add: small_device_spec)

lemma small_step_reachable:
  assumes "small_reachable c" "dram_spec d = small_spec" and "controller_run es (d, c, a) = Ok (d', c', a')"
  shows "small_reachable c'" "dram_spec d' = small_spec"
  using controller_run_reachable [OF assms(3)] assms(1,2) by simp_all

lemma run_tick:
  "controller_run [Ctrl_tick] (d, c, a) = Ok st \<longleftrightarrow>
   AiM_tick AiMISRInfo_init FRFCFS_get_best_request note_callback (dram_tick d) c a = Ok st"
  by (cases st) (auto simp: andThen_Ok_iff)

lemma small_spec_rank: "get_level_size small_spec ''rank'' = Ok (-1)"
  by code_simp




theorem AiM_queues_bounded_witness:
  "\<exists>c. small_reachable c \<and> length (buffer (get_buf Read_buffer c)) = 1 \<and> length (buffer (get_buf Read_buffer c)) \<le> 33"
proof (rule small_run)
  fix c0 d1 c1 a1
  assume c0: "small_start = Ok c0" and r: "controller_run [Ctrl_send small_read] (small_device, c0, []) = Ok (d1, c1, a1)"
    and q: "map req_type (buffer (m_read_buffer c1)) = [Read]"
  have "small_reachable c1" by (rule small_run_reachable [OF c0 r])
  then show ?thesis using AiM_queues_bounded [of AiMISRInfo_init note_callback small_spec c1 Read_buffer] q
    by (intro exI [of _ c1]) auto
qed

theorem send_conserves_requests_witness:
  "\<exists>c r' c'. small_start = Ok c \<and> AiM_send small_spec small_read c = Ok (True, r', c')
     \<and> flight c' = add_mset (core small_read) (flight c)"
proof -
  have "case small_start of Inl _ \<Rightarrow> False | Inr c \<Rightarrow>
      (case AiM_send small_spec small_read c of Inl _ \<Rightarrow> False | Inr (ok, _) \<Rightarrow> ok)" by code_simp
  then obtain c r' c' where s: "small_start = Ok c" "AiM_send small_spec small_read c = Ok (True, r', c')"
    by (auto split: sum.splits prod.splits)
  from send_conserves_requests [OF s(2)] s show ?thesis by auto
qed


theorem barrier_order_witness:
  "\<exists>c c' s'. small_reachable c \<and> map opcode (pending_reads c) = [ISR_SYNC]
     \<and> serve_completed_reqs note_callback (c\<lparr>ctrl_clk := ctrl_clk c + 1\<rparr>) [] = Ok (c', s') \<and> pending_reads c' = []
     \<and> pending_writes c = []"
proof (rule small_run)
  fix c0 d1 c1 a1 d2 c2 a2 d3 c3 d4 c4 a4
  assume c0: "small_start = Ok c0"
    and r1: "controller_run [Ctrl_send small_read] (small_device, c0, []) = Ok (d1, c1, a1)"
    and r2: "controller_run [Ctrl_tick] (d1, c1, []) = Ok (d2, c2, a2)"
    and r3: "controller_run [Ctrl_send small_sync, Ctrl_tick] (d2, c2, []) = Ok (d3, c3, [])"
    and q: "map opcode (pending_reads c3) = [ISR_SYNC]" "map req_type (pending_reads c3) = [AIM]"
    and r4: "controller_run [Ctrl_tick] (d3, c3, []) = Ok (d4, c4, a4)" and a4: "map opcode a4 = [ISR_SYNC]"
  note s1 = small_run_reachable [OF c0 r1]
  note s2 = small_step_reachable [OF s1 r2]
  note s3 = small_step_reachable [OF s2 r3]
  have "AiM_tick AiMISRInfo_init FRFCFS_get_best_request note_callback (dram_tick d3) c3 [] = Ok (d4, c4, a4)"
    using r4 by (simp only: run_tick)
  then obtain c5 where sv: "serve_completed_reqs note_callback (c3\<lparr>ctrl_clk := ctrl_clk c3 + 1\<rparr>) [] = Ok (c5, a4)"
    by (rule AiM_tick_cases)
  obtain r where r: "pending_reads c3 = r # []" "opcode r = ISR_SYNC" "req_type r = AIM"
    using q by (cases "pending_reads c3") auto
  have "completes (c3\<lparr>ctrl_clk := ctrl_clk c3 + 1\<rparr>)"
    using serve_completed_cases(2) [OF sv] a4 by (auto simp: completed_reads_def split: if_splits)
  then have p: "pending_reads c5 = []" using serve_completed_cases(1) [OF sv] r(1) by simp
  from barrier_order [OF s3(1) small_spec_rank sv r(1) p] r s3(1) q(1) sv p show ?thesis
    by (auto simp: is_barrier_def)
qed


theorem write_mode_thresholds_witness:
  "\<exists>c. small_reachable c \<and> \<not> m_is_write_mode c \<and> m_is_write_mode (set_write_mode c)"
proof (rule small_run)
  fix c0
  assume c0: "small_start = Ok c0" "m_wr_low_watermark c0 = default_low_watermark"
    "m_wr_high_watermark c0 = default_high_watermark" "m_is_write_mode c0 = False" "buffer (m_read_buffer c0) = []"
  have r: "small_reachable c0" by (rule small_start_reachable [OF c0(1)])
  from write_mode_thresholds [OF r c0(2,3)] c0(4,5) r show ?thesis by (intro exI [of _ c0]) (simp add: Let_def)
qed

end
