(* ===== verification/AiM_System_Theorems.thy ===== *)
theory AiM_System_Theorems
  imports AiM_System_Decode AiM_System_Head AiM_Controller_Theorems
begin

text \<open>
  The properties of the AiM memory system of \<^verbatim>\<open>src/src/memory_system/impl/aim_DRAM_system.cpp\<close>
  on a GDDR6 device with FRFCFS scheduling, over every sequence of \<open>send\<close> and \<open>tick\<close>, and their
  witnesses.
\<close>

subsection \<open>Reachable states\<close>

text \<open>The device has no rank level, as GDDR6. The state of the front end changes in any way between
  the calls.\<close>

inductive system_reachable :: "(int \<Rightarrow> request \<Rightarrow> 'h \<Rightarrow> 'h result) \<Rightarrow> aim_system \<Rightarrow> bool"
  for host_cb where
    start: "get_level_size (dram_spec d) ''rank'' = Ok (-1) \<Longrightarrow>
      AiMSystem_init AiMISRInfo_init d ccfg ratio = Ok s0 \<Longrightarrow>
      AiMSystem_connect AiMISRInfo_init s0 = Ok s \<Longrightarrow> system_reachable host_cb s"
  | send: "system_reachable host_cb s \<Longrightarrow> req_callback r \<noteq> System_receive \<Longrightarrow>
      AiMSystem_send r s = Ok (accepted, s') \<Longrightarrow> system_reachable host_cb s'"
  | tick: "system_reachable host_cb s \<Longrightarrow>
      AiMSystem_tick AiMISRInfo_init FRFCFS_get_best_request host_cb (s, h) = Ok (s', h') \<Longrightarrow>
      system_reachable host_cb s'"

lemma start_inv:
  assumes "get_level_size (dram_spec d) ''rank'' = Ok (-1)" and "AiMSystem_init AiMISRInfo_init d ccfg ratio = Ok s0"
    and "AiMSystem_connect AiMISRInfo_init s0 = Ok s"
  shows "sys_inv s \<and> head_inv s \<and> all_requests s = {#} \<and> request_queue s = [] \<and> stalled_AiM_requests s = 0 \<and> sys_dram s = d"
proof -
  from assms(2) obtain n cs where cs: "map_result (\<lambda>i. AiMController_init ccfg (int i)) [0..<n] = Ok cs"
    and s0: "m_controllers s0 = cs" "request_queue s0 = []" "stalled_AiM_requests s0 = 0" "sys_dram s0 = d"
      "remaining_AiM_requests s0 = replicate MAX_CHANNEL_COUNT []"
    by (auto simp: AiMSystem_init_def Let_def andThen_Ok_iff split: option.splits)
  from assms(3) obtain cs' where cs': "map_result (AiMController_connect AiMISRInfo_init (dram_spec d)) cs = Ok cs'"
    and s: "s = s0\<lparr>m_controllers := cs'\<rparr>"
    by (auto simp: AiMSystem_connect_def s0 andThen_Ok_iff)
  have c: "flight c = {#} \<and> controller_ok c" if "c \<in> set cs'" for c
  proof -
    obtain i where i: "i < length cs'" "c = cs' ! i" using \<open>c \<in> set cs'\<close> by (metis in_set_conv_nth)
    have l: "length cs' = length cs" "length cs = n" using map_result_length [OF cs'] map_result_length [OF cs] by simp_all
    have 1: "AiMController_init ccfg (int i) = Ok (cs ! i)" using map_result_nth [OF cs, of i] i l by simp
    have 2: "AiMController_connect AiMISRInfo_init (dram_spec d) (cs ! i) = Ok c"
      using map_result_nth [OF cs', of i] i l by simp
    note st = connect_start [OF 1 2]
    have "m_num_ranks (m_refresh c) = -1" using st(9) assms(1) by simp
    moreover have "flight c = {#}"
      using st(1) [of Active_buffer] st(1) [of Priority_buffer] st(1) [of Read_buffer] st(1) [of Write_buffer]
        st(1) [of AiM_buffer] st(3,4) by (simp add: flight_def held_def cores_def)
    ultimately show ?thesis using st(4) by (simp add: controller_ok_def answering_def)
  qed
  have "sum_list (map flight cs') = {#}" using c by (induction cs') auto
  moreover have "sum_list (map (\<lambda>q. mset (map core q)) (replicate k [])) = {#}" for k by (induction k) auto
  ultimately have all: "all_requests s = {#}" by (simp add: all_requests_def s s0)
  then have "accounts 0 s" using c by (simp add: accounts_def outstanding_def s s0)
  moreover have "head_inv s" by (simp add: head_inv_def waiting_def s s0)
  ultimately show ?thesis using all s s0 by (auto intro: sys_invI)
qed

lemma system_reachable_inv: "system_reachable host_cb s \<Longrightarrow> sys_inv s \<and> head_inv s"
proof (induction rule: system_reachable.induct)
  case (start d ccfg ratio s0 s)
  then show ?case using start_inv [OF start] by simp
next
  case (send s r accepted s')
  then show ?case using AiMSystem_send_inv [OF send(3)] AiMSystem_send_head [OF send(3)] by (simp add: blocked_def)
next
  case (tick s h s' h')
  then show ?case using frfcfs.AiMSystem_tick_inv [OF tick(2)] frfcfs.AiMSystem_tick_head [OF tick(2)] by simp
qed

lemmas reachable_sys_inv = conjunct1 [OF system_reachable_inv]
lemmas reachable_head_inv = conjunct2 [OF system_reachable_inv]

subsection \<open>Accounting and order\<close>

lemma sys_inv_outstanding:
  assumes "sys_inv s"
  shows "stalled_AiM_requests s = int (size (outstanding s))
    \<and> (\<forall>r\<in>#outstanding s. req_type r = AIM \<and> opcode r \<in> {ISR_RD_MAC, ISR_RD_AF, ISR_SYNC, ISR_EOC}
         \<and> request_queue s \<noteq> [] \<and> host_req_id r = host_req_id (hd (request_queue s)))"
proof -
  from assms obtain id where a: "accounts id s"
    and h: "stalled_AiM_requests s \<noteq> 0 \<Longrightarrow> request_queue s \<noteq> [] \<and> host_req_id (hd (request_queue s)) = id"
    by (auto simp: sys_inv_def)
  have "stalled_AiM_requests s \<noteq> 0" if "r \<in># outstanding s" for r
    using a that by (auto simp: accounts_def)
  then show ?thesis using a h by (auto simp: accounts_def answers_def)
qed

text \<open>C23: in every reachable state \<open>stalled_AiM_requests\<close> is exactly the number of
  requests that will call \<open>receive\<close>, whether they are in a controller's queues or still wait to be
  sent to one; while it is positive the instruction queue is not empty, and each of these requests
  is an AiM request of a blocking opcode that carries the host id of the instruction at its head.\<close>

theorem stalled_counts:
  assumes "system_reachable host_cb s"
  shows "stalled_AiM_requests s = int (size (outstanding s))
    \<and> (\<forall>r\<in>#outstanding s. req_type r = AIM \<and> opcode r \<in> {ISR_RD_MAC, ISR_RD_AF, ISR_SYNC, ISR_EOC}
         \<and> request_queue s \<noteq> [] \<and> host_req_id r = host_req_id (hd (request_queue s)))"
  by (rule sys_inv_outstanding [OF reachable_sys_inv [OF assms]])


text \<open>C25: in every cycle the instruction queue keeps its head or loses exactly
  that one; it loses it only when none of its requests waits to be sent and none is still to
  answer. While an instruction blocks, a cycle adds no request to those in the controllers and
  those that wait. Whatever waits belongs to the instruction at the head.\<close>

theorem head_leaves_delivered:
  assumes "system_reachable host_cb s"
    and "AiMSystem_tick AiMISRInfo_init FRFCFS_get_best_request host_cb (s, h) = Ok (s', h')"
  shows "(request_queue s' = request_queue s
     \<or> request_queue s \<noteq> [] \<and> request_queue s' = tl (request_queue s)
       \<and> (\<forall>q\<in>set (remaining_AiM_requests s'). q = []) \<and> outstanding s' = {#})
    \<and> (stalled_AiM_requests s \<noteq> 0 \<longrightarrow> all_requests s' \<subseteq># all_requests s)
    \<and> (\<forall>q\<in>set (remaining_AiM_requests s'). \<forall>r\<in>set q.
         request_queue s' \<noteq> [] \<and> host_req_id r = host_req_id (hd (request_queue s')))"
proof -
  note t = frfcfs.AiMSystem_tick_head [OF assms(2) reachable_sys_inv [OF assms(1)] reachable_head_inv [OF assms(1)]]
  have "sys_inv s'" using frfcfs.AiMSystem_tick_inv [OF assms(2) reachable_sys_inv [OF assms(1)]] by simp
  then have "stalled_AiM_requests s' = 0 \<Longrightarrow> outstanding s' = {#}" by (auto simp: sys_inv_def accounts_def)
  then show ?thesis using t unfolding keeps_head_def waiting_empty [symmetric]
    by (auto simp: head_inv_def waiting_def)
qed

subsection \<open>Configuration registers\<close>


subsection \<open>Witnesses\<close>

datatype system_event = Sys_send request | Sys_tick

definition note_host :: "int \<Rightarrow> request \<Rightarrow> request list \<Rightarrow> request list result" where
  "note_host clk r answered = Ok (answered @ [r])"

text \<open>The memory system driven by a list of events; the second component collects the
  instructions called back.\<close>

fun system_run :: "system_event list \<Rightarrow> aim_system \<times> request list \<Rightarrow> (aim_system \<times> request list) result" where
  "system_run [] st = Ok st"
| "system_run (Sys_send r # es) (s, answered) =
     andThen (AiMSystem_send r s) (\<lambda>(_, s). system_run es (s, answered))"
| "system_run (Sys_tick # es) (s, answered) =
     andThen (AiMSystem_tick AiMISRInfo_init FRFCFS_get_best_request note_host (s, answered)) (system_run es)"

definition small_system :: "aim_system result" where
  "small_system = andThen (AiMSystem_init AiMISRInfo_init small_device small_controller_config (Some 1))
     (AiMSystem_connect AiMISRInfo_init)"

definition host_sync :: request where
  "host_sync = (Request_addr 0 4)\<lparr>opcode := ISR_SYNC, req_callback := Trace_receive, host_req_id := 7\<rparr>"

lemma system_run_reachable:
  "system_run es (s, answered) = Ok (s', answered') \<Longrightarrow> system_reachable note_host s \<Longrightarrow>
   (\<And>r. Sys_send r \<in> set es \<Longrightarrow> req_callback r \<noteq> System_receive) \<Longrightarrow> system_reachable note_host s'"
proof (induction es arbitrary: s answered)
  case Nil
  then show ?case by simp
next
  case (Cons e es)
  show ?case
  proof (cases e)
    case (Sys_send r)
    with Cons.prems(1) obtain ok s1 where s1: "AiMSystem_send r s = Ok (ok, s1)"
      and rest: "system_run es (s1, answered) = Ok (s', answered')" by (auto simp: andThen_Ok_iff)
    have "req_callback r \<noteq> System_receive" using Cons.prems(3) Sys_send by simp
    then have "system_reachable note_host s1" by (rule system_reachable.send [OF Cons.prems(2) _ s1])
    then show ?thesis using Cons.IH [OF rest] Cons.prems(3) by simp
  next
    case Sys_tick
    with Cons.prems(1) obtain s1 a1 where
      t: "AiMSystem_tick AiMISRInfo_init FRFCFS_get_best_request note_host (s, answered) = Ok (s1, a1)"
      and rest: "system_run es (s1, a1) = Ok (s', answered')" by (auto simp: andThen_Ok_iff)
    have "system_reachable note_host s1" by (rule system_reachable.tick [OF Cons.prems(2) t])
    then show ?thesis using Cons.IH [OF rest] Cons.prems(3) by simp
  qed
qed

lemma small_system_start:
  assumes "small_system = Ok s"
  shows "system_reachable note_host s" "request_queue s = []" "stalled_AiM_requests s = 0"
proof -
  from assms obtain s0 where s0: "AiMSystem_init AiMISRInfo_init small_device small_controller_config (Some 1) = Ok s0"
    "AiMSystem_connect AiMISRInfo_init s0 = Ok s" by (auto simp: small_system_def andThen_Ok_iff)
  have r: "get_level_size (dram_spec small_device) ''rank'' = Ok (-1)"
    using small_spec_rank by (simp add: small_device_spec)
  show "system_reachable note_host s" by (rule system_reachable.start [OF r s0])
  show "request_queue s = []" "stalled_AiM_requests s = 0" using start_inv [OF r s0] by simp_all
qed

definition with_sync :: "aim_system \<Rightarrow> aim_system" where
  "with_sync s = s\<lparr>request_queue := [host_sync], s_num_AiM_requests := increment (s_num_AiM_requests s) ISR_SYNC 1\<rparr>"

lemma send_host_sync: "request_queue s = [] \<Longrightarrow> AiMSystem_send host_sync s = Ok (True, with_sync s)"
  by (simp add: AiMSystem_send_def host_sync_def with_sync_def ISR_SIZE_def Request_addr_def request_default_def
      type_of_id_def)

lemma case_Ok_iff: "(case x of Inl _ \<Rightarrow> False | Inr y \<Rightarrow> P y) \<longleftrightarrow> (\<exists>y. x = Ok y \<and> P y)"
  by (cases x) simp_all

lemma map_singleton: "map f xs = [y] \<longleftrightarrow> (\<exists>x. xs = [x] \<and> f x = y)"
  by (auto simp: map_eq_Cons_conv)

lemma case_Ok_pair_iff:
  "(case x of Inl _ \<Rightarrow> False | Inr (y, z) \<Rightarrow> P y z) \<longleftrightarrow> (\<exists>y z. x = Ok (y, z) \<and> P y z)"
  by (cases x) (auto split: prod.splits)

text \<open>The run of the witnesses: a \<open>SYNC\<close> is decoded and taken up by the controller in the first
  cycle, and answered in the second.\<close>

lemma small_system_run:
  obtains s0 s1 s2 c p where "small_system = Ok s0" "system_reachable note_host (with_sync s0)"
    "request_queue s0 = []"
    "system_run [Sys_tick] (with_sync s0, []) = Ok (s1, [])"
    "stalled_AiM_requests s1 = 1" "request_queue s1 = [host_sync]"
    "m_controllers s1 = [c]" "pending_reads c = [p]" "req_callback p = System_receive"
    "AiMSystem_tick AiMISRInfo_init FRFCFS_get_best_request note_host (s1, []) = Ok (s2, [host_sync])"
    "stalled_AiM_requests s2 = 0" "request_queue s2 = []"
proof -
  have e: "(case small_system of Inl _ \<Rightarrow> False | Inr s0 \<Rightarrow>
      (case system_run [Sys_tick] (with_sync s0, []) of Inl _ \<Rightarrow> False | Inr (s1, a1) \<Rightarrow>
         a1 = [] \<and> stalled_AiM_requests s1 = 1 \<and> request_queue s1 = [host_sync]
         \<and> map (\<lambda>c. map req_callback (pending_reads c)) (m_controllers s1) = [[System_receive]]
         \<and> (case AiMSystem_tick AiMISRInfo_init FRFCFS_get_best_request note_host (s1, []) of
              Inl _ \<Rightarrow> False
            | Inr (s2, a2) \<Rightarrow> a2 = [host_sync] \<and> stalled_AiM_requests s2 = 0 \<and> request_queue s2 = [])))"
    by code_simp
  then obtain s0 s1 s2 c p where s0: "small_system = Ok s0"
    and 1: "system_run [Sys_tick] (with_sync s0, []) = Ok (s1, [])" "stalled_AiM_requests s1 = 1"
      "request_queue s1 = [host_sync]" "m_controllers s1 = [c]" "pending_reads c = [p]" "req_callback p = System_receive"
      "AiMSystem_tick AiMISRInfo_init FRFCFS_get_best_request note_host (s1, []) = Ok (s2, [host_sync])"
      "stalled_AiM_requests s2 = 0" "request_queue s2 = []"
    unfolding case_Ok_pair_iff unfolding case_Ok_iff map_singleton by blast
  note q = small_system_start [OF s0]
  have "system_reachable note_host (with_sync s0)"
    by (rule system_reachable.send [OF q(1) _ send_host_sync [OF q(2)]]) (simp add: host_sync_def)
  then show thesis by (rule that [OF s0 _ q(2) 1])
qed

theorem stalled_counts_witness:
  "\<exists>s. system_reachable note_host s \<and> stalled_AiM_requests s = 1 \<and> size (outstanding s) = 1"
proof (rule small_system_run)
  fix s0 s1
  assume r: "system_reachable note_host (with_sync s0)" "system_run [Sys_tick] (with_sync s0, []) = Ok (s1, [])"
    and st: "stalled_AiM_requests s1 = 1"
  have "system_reachable note_host s1" by (rule system_run_reachable [OF r(2,1)]) simp
  then show ?thesis using stalled_counts [of note_host s1] st by auto
qed


theorem head_leaves_delivered_witness:
  "\<exists>s s' a. system_reachable note_host s \<and> request_queue s = [host_sync] \<and> stalled_AiM_requests s = 1
     \<and> AiMSystem_tick AiMISRInfo_init FRFCFS_get_best_request note_host (s, []) = Ok (s', a)
     \<and> request_queue s' = [] \<and> outstanding s' = {#} \<and> a = [host_sync]"
proof (rule small_system_run)
  fix s0 s1 s2
  assume r: "system_reachable note_host (with_sync s0)" "system_run [Sys_tick] (with_sync s0, []) = Ok (s1, [])"
    and st: "stalled_AiM_requests s1 = 1" "request_queue s1 = [host_sync]" and q2: "request_queue s2 = []"
    and t: "AiMSystem_tick AiMISRInfo_init FRFCFS_get_best_request note_host (s1, []) = Ok (s2, [host_sync])"
  have s1: "system_reachable note_host s1" by (rule system_run_reachable [OF r(2,1)]) simp
  from head_leaves_delivered [OF s1 t] st(2) q2 have "outstanding s2 = {#}" by simp
  with s1 st t q2 show ?thesis by blast
qed

definition host_mac :: request where
  "host_mac = (Request_addr 0 4)\<lparr>opcode := ISR_MAC_ABK, opsize := 3, channel_mask := 2 ^ 31, row_addr := 5\<rparr>"

lemma small_system_decode:
  obtains s s' where "small_system = Ok s" "flat_device s 1 2"
    "decode_ISR AiMISRInfo_init host_mac s = Ok (True, s')"
proof -
  have "(case small_system of Inl _ \<Rightarrow> False | Inr s \<Rightarrow> flat_device s 1 2
      \<and> (case decode_ISR AiMISRInfo_init host_mac s of Inl _ \<Rightarrow> False | Inr (sent, s') \<Rightarrow> sent = True))"
    by code_simp
  then show thesis using that unfolding case_Ok_pair_iff unfolding case_Ok_iff by blast
qed

theorem bank_address_mapped_witness:
  "\<exists>s. flat_device s 1 2 \<and> apply_addr_mapp s (small_read\<lparr>bank_index := 1\<rparr>) 0
     = Ok (small_read\<lparr>bank_index := 1, addr_vec := [0, 0, 1, -1, -1]\<rparr>)"
proof (rule small_system_decode)
  fix s assume f: "flat_device s 1 2"
  from conjunct1 [OF bank_address_mapped [OF f, of "small_read\<lparr>bank_index := 1\<rparr>" 0]] f show ?thesis
    by (intro exI [of _ s]) (simp add: small_read_def Request_addr_vec_def request_default_def)
qed



end
