(* ===== verification/Simulator_Theorems.thy ===== *)
theory Simulator_Theorems
  imports Simulator AiM_System_Theorems
begin

text \<open>
  The properties of the whole simulator of \<^verbatim>\<open>src/src/main.cpp\<close>: AiM front end, memory system and
  controllers on a device without ranks, over every interleaving of their cycles, and their
  witnesses.
\<close>

subsection \<open>Reachable states\<close>

text \<open>Front end and memory system cycle in any order, whatever the clock ratios make of it.\<close>

inductive sim_reachable :: "AiM_trace \<Rightarrow> aim_system \<Rightarrow> bool" where
  start: "get_level_size (dram_spec d) ''rank'' = Ok (-1) \<Longrightarrow> AiM_start files tcfg d ccfg ratio = Ok (h, s)
    \<Longrightarrow> sim_reachable h s"
| front: "sim_reachable h s \<Longrightarrow> AiM_front (h, s) = Ok (h', s') \<Longrightarrow> sim_reachable h' s'"
| memory: "sim_reachable h s \<Longrightarrow> AiM_memory (s, h) = Ok (s', h') \<Longrightarrow> sim_reachable h' s'"

lemma start_sim_inv:
  assumes "get_level_size (dram_spec d) ''rank'' = Ok (-1)" and "AiM_start files tcfg d ccfg ratio = Ok (h, s)"
  shows "aim.sim_inv h s"
proof -
  from assms(2) obtain s0 where h: "AiMTrace_init files tcfg = Ok h"
    and s0: "AiMSystem_init AiMISRInfo_init d ccfg ratio = Ok s0" "AiMSystem_connect AiMISRInfo_init s0 = Ok s"
    by (auto simp: AiM_start_def andThen_Ok_iff)
  note i = start_inv [OF assms(1) s0]
  have h': "\<not> m_trace_reached_EOC h" "\<not> m_trace_reached_calledback h" "\<not> remaining_req h" "next_host_req_id h = 0"
    using h by (auto simp: AiMTrace_init_def Let_def andThen_Ok_iff split: option.splits)
  show ?thesis using i h'
    by (simp add: aim.sim_inv_def system_ok_def quiet_def in_progress_def pending_def)
qed

lemma reachable_sim_inv: "sim_reachable h s \<Longrightarrow> aim.sim_inv h s"
proof (induction rule: sim_reachable.induct)
  case (start d files tcfg ccfg ratio h s)
  then show ?case by (rule start_sim_inv)
next
  case (front h s h' s')
  then show ?case using aim.front_inv by blast
next
  case (memory h s s' h')
  then show ?case using aim.memory_inv by blast
qed

text \<open>C34: in every reachable state of the simulator the instructions in the
  memory system's queue, followed by the one the front end still has to send, carry consecutive
  host ids up to the last one given out, so an id identifies its instruction. Only the last of
  them can be the one whose callback ends the simulation, and it is there as soon as \<open>EOC\<close> has
  been read and until its callback has run.\<close>

theorem host_ids_consecutive:
  assumes "sim_reachable h s"
  shows "map host_req_id (request_queue s @ (if remaining_req h then [AiMTrace_request h] else []))
      = [next_host_req_id h - (int (length (request_queue s)) + (if remaining_req h then 1 else 0))
         ..next_host_req_id h - 1]
    \<and> (m_trace_reached_EOC h \<and> \<not> m_trace_reached_calledback h \<longleftrightarrow>
        (\<exists>p r. request_queue s @ (if remaining_req h then [AiMTrace_request h] else []) = p @ [r]
           \<and> req_callback r = Trace_receive \<and> (\<forall>x\<in>set p. req_callback x \<noteq> Trace_receive)))"
proof -
  have "in_progress h (request_queue s @ pending h)" using reachable_sim_inv [OF assms] by (simp add: aim.sim_inv_def)
  then show ?thesis unfolding in_progress_def pending_def by (auto split: if_splits)
qed


subsection \<open>Witnesses\<close>

text \<open>A trace of the final \<open>EOC\<close> alone, for the device with one channel: it is read and sent in
  the first iteration, and answered in the second.\<close>

definition small_trace :: "string \<Rightarrow> string option option" where
  "small_trace path = (if path = ''t'' then Some (Some (''AiM EOC'' @ [CHR 0x0A])) else None)"

definition small_trace_config :: trace_config where
  "small_trace_config = \<lparr>cfg_path = None, cfg_delimiter = None, cfg_trace_clock_ratio = Some 1,
     trace_file_path = ''t'', use_trace_file_path = True\<rparr>"

definition host_eoc :: request where
  "host_eoc = (Request_addr (-1) (-1))\<lparr>host_req_id := 0, req_type := AIM, type_id := id_of_type AIM,
     opcode := ISR_EOC, req_callback := Trace_receive\<rparr>"

definition small_host :: AiM_trace where
  "small_host = \<lparr>m_curr_trace_idx = 0, m_trace_reached_EOC = False, m_trace_reached_calledback = False,
     trace_file = ''AiM EOC'' @ [CHR 0x0A], remaining_req = False, next_host_req_id = 0,
     m_attention_checkpoints = 0, delimiter_is_comma = False, AiMTrace_request = Request_addr (-1) (-1),
     trace_clock_ratio = 1, attention_end_cycles = []\<rparr>"

definition small_host_sent :: AiM_trace where
  "small_host_sent = small_host\<lparr>m_curr_trace_idx := 1, m_trace_reached_EOC := True, trace_file := [],
     next_host_req_id := 1, AiMTrace_request := host_eoc\<rparr>"

definition with_eoc :: "aim_system \<Rightarrow> aim_system" where
  "with_eoc s = s\<lparr>request_queue := [host_eoc], s_num_AiM_requests := increment (s_num_AiM_requests s) ISR_EOC 1\<rparr>"

lemma small_rank: "get_level_size (dram_spec small_device) ''rank'' = Ok (-1)"
  using small_spec_rank by (simp add: small_device_spec)

lemma small_trace_init: "AiMTrace_init small_trace small_trace_config = Ok small_host"
  by code_simp

lemma small_read: "get_host_request AiMISRInfo_init small_host = Ok (host_eoc, small_host_sent\<lparr>AiMTrace_request := Request_addr (-1) (-1)\<rparr>)"
  by code_simp

lemma small_front:
  assumes "request_queue s = []"
  shows "AiM_front (small_host, s) = Ok (small_host_sent, with_eoc s)"
proof -
  have "AiMSystem_send host_eoc s = Ok (True, with_eoc s)"
    using assms by (simp add: AiMSystem_send_def ISR_SIZE_def host_eoc_def with_eoc_def)
  then show ?thesis
    by (simp add: AiMTrace_tick_apply small_read trace_send_def) (simp add: small_host_def small_host_sent_def)
qed


lemma small_cycles:
  obtains s0 s1 h1 s2 h2 where "AiM_start small_trace small_trace_config small_device small_controller_config (Some 1) = Ok (small_host, s0)"
    "request_queue s0 = []" "sys_clock_ratio s0 = 1" "AiM_memory (with_eoc s0, small_host_sent) = Ok (s1, h1)"
    "\<not> remaining_req h1" "m_trace_reached_EOC h1" "\<not> m_trace_reached_calledback h1"
    "AiM_memory (s1, h1) = Ok (s2, h2)" "\<not> remaining_req h2" "m_trace_reached_EOC h2" "m_trace_reached_calledback h2"
    "next_host_req_id h2 = 1"
proof -
  have "(case small_system of Inl _ \<Rightarrow> False | Inr s0 \<Rightarrow> sys_clock_ratio s0 = 1 \<and>
      (case AiM_memory (with_eoc s0, small_host_sent) of Inl _ \<Rightarrow> False | Inr (s1, h1) \<Rightarrow>
         \<not> remaining_req h1 \<and> m_trace_reached_EOC h1 \<and> \<not> m_trace_reached_calledback h1
         \<and> (case AiM_memory (s1, h1) of Inl _ \<Rightarrow> False
            | Inr (s2, h2) \<Rightarrow> \<not> remaining_req h2 \<and> m_trace_reached_EOC h2 \<and> m_trace_reached_calledback h2
                \<and> next_host_req_id h2 = 1)))"
    by code_simp
  then obtain s0 s1 h1 s2 h2 where s0: "small_system = Ok s0"
    and r: "sys_clock_ratio s0 = 1" "AiM_memory (with_eoc s0, small_host_sent) = Ok (s1, h1)"
    "\<not> remaining_req h1" "m_trace_reached_EOC h1" "\<not> m_trace_reached_calledback h1"
    "AiM_memory (s1, h1) = Ok (s2, h2)" "\<not> remaining_req h2" "m_trace_reached_EOC h2" "m_trace_reached_calledback h2"
    "next_host_req_id h2 = 1"
    unfolding case_Ok_pair_iff unfolding case_Ok_iff by blast
  have "AiM_start small_trace small_trace_config small_device small_controller_config (Some 1) = Ok (small_host, s0)"
    using s0 by (auto simp: AiM_start_def small_system_def small_trace_init andThen_Ok_iff)
  then show thesis using that small_system_start(2) [OF s0] r by blast
qed

theorem host_ids_consecutive_witness:
  "\<exists>h s. sim_reachable h s \<and> map host_req_id (request_queue s) = [0]
     \<and> req_callback (last (request_queue s)) = Trace_receive"
proof (rule small_cycles)
  fix s0
  assume s0: "AiM_start small_trace small_trace_config small_device small_controller_config (Some 1) = Ok (small_host, s0)"
    "request_queue s0 = []"
  have r: "sim_reachable small_host_sent (with_eoc s0)"
    by (rule sim_reachable.front [OF sim_reachable.start [OF small_rank s0(1)] small_front [OF s0(2)]])
  have "map host_req_id (request_queue (with_eoc s0)) = [0] \<and> req_callback (last (request_queue (with_eoc s0))) = Trace_receive"
    using host_ids_consecutive [OF r] by (auto simp: with_eoc_def small_host_sent_def small_host_def)
  with r show ?thesis by (intro exI [of _ small_host_sent] exI [of _ "with_eoc s0"]) simp
qed


end
