(* ===== verification/Memory_Traces.thy ===== *)
theory Memory_Traces
  imports AiM_Trace
begin

text \<open>
  The other trace front ends, \<^verbatim>\<open>src/src/frontend/impl/memory_trace/loadstore_trace.cpp\<close> and
  \<^verbatim>\<open>readwrite_trace.cpp\<close>, which load the whole file and then replay it in a circle. The existence
  checks are those of the AiM trace (\<open>init_trace\<close>).
\<close>

subsection \<open>Loading\<close>

text \<open>\<open>while (std::getline(trace_file, line))\<close>: a last line needs no newline, and there is no line
  after the last newline.\<close>

lemma get_line_rest: "s \<noteq> [] \<Longrightarrow> get_line s = (line, rest, eof) \<Longrightarrow> length rest < length s"
  using get_line_shorter [of s line rest] by (cases eof) (auto simp: get_line_def split: if_splits)

function read_lines :: "string \<Rightarrow> string list" where
  "read_lines s = (if s = [] then [] else (case get_line s of (line, rest, _) \<Rightarrow> line # read_lines rest))"
  by pat_completeness auto
termination
  by (relation "measure length") (auto dest: get_line_rest [OF _ sym])

declare read_lines.simps [simp del]

text \<open>A line is two words, the first of them one of two names.\<close>

definition trace_words :: "string \<Rightarrow> string \<Rightarrow> string \<Rightarrow> (bool \<times> string) result" where
  "trace_words read_name write_name line =
     (case tokenize (CHR '' '') line of
        [kind, operand] \<Rightarrow>
          if kind = read_name then Ok (False, operand)
          else if kind = write_name then Ok (True, operand)
          else Err (Configuration_error ''Trace format invalid!'')
      | _ \<Rightarrow> Err (Configuration_error ''Trace format invalid!''))"

definition load_store_line :: "string \<Rightarrow> (bool \<times> int) result" where
  "load_store_line line =
     andThen (trace_words ''LD'' ''ST'' line) (\<lambda>(is_write, operand).
     andThen (if take 2 operand = ''0x'' \<or> take 2 operand = ''0X'' then stoll 16 (drop 2 operand) else stoll 10 operand)
       (\<lambda>a. Ok (is_write, a)))"


subsection \<open>Load/store traces\<close>

record load_store_trace =
  ls_trace :: "(bool \<times> int) list"
  ls_curr_trace_idx :: nat
  ls_trace_count :: nat
  ls_clock_ratio :: int

definition LoadStoreTrace_init ::
  "(string \<Rightarrow> string option option) \<Rightarrow> string option \<Rightarrow> int option \<Rightarrow> load_store_trace result" where
  "LoadStoreTrace_init files path ratio =
     (case (path, ratio) of
        (Some path, Some ratio) \<Rightarrow>
          andThen (init_trace files path) (\<lambda>content.
          andThen (map_result load_store_line (read_lines content)) (\<lambda>entries.
            Ok \<lparr>ls_trace = entries, ls_curr_trace_idx = 0, ls_trace_count = 0, ls_clock_ratio = ratio\<rparr>))
      | _ \<Rightarrow> Err (Configuration_error ''Param is required but not given''))"

definition load_store_request :: "bool \<times> int \<Rightarrow> request" where
  "load_store_request t = Request_addr (snd t) (id_of_type (if fst t then Write else Read))"

definition LoadStoreTrace_tick ::
  "(request \<Rightarrow> 'm \<Rightarrow> (bool \<times> 'm) result) \<Rightarrow> load_store_trace \<times> 'm \<Rightarrow> (load_store_trace \<times> 'm) result" where
  "LoadStoreTrace_tick send = (\<lambda>(h, m).
     andThen (vec_at (ls_trace h) (int (ls_curr_trace_idx h))) (\<lambda>t.
     andThen (send (load_store_request t) m) (\<lambda>(sent, m).
       Ok (if sent then h\<lparr>ls_curr_trace_idx := (ls_curr_trace_idx h + 1) mod length (ls_trace h),
                          ls_trace_count := ls_trace_count h + 1\<rparr> else h, m))))"

definition LoadStoreTrace_is_finished :: "load_store_trace \<Rightarrow> bool" where
  "LoadStoreTrace_is_finished h \<longleftrightarrow> length (ls_trace h) \<le> ls_trace_count h"

subsection \<open>Read/write traces\<close>

record read_write_trace =
  rw_trace :: "(bool \<times> int list) list"
  rw_curr_trace_idx :: nat
  rw_clock_ratio :: int




definition ReadWriteTrace_is_finished :: "read_write_trace \<Rightarrow> bool" where
  "ReadWriteTrace_is_finished h = True"

subsection \<open>What is replayed\<close>

text \<open>Any number of cycles with a memory system that remembers which requests it has accepted.\<close>

definition send_logged ::
  "(request \<Rightarrow> 'm \<Rightarrow> (bool \<times> 'm) result) \<Rightarrow> request \<Rightarrow> 'm \<times> request list \<Rightarrow> (bool \<times> 'm \<times> request list) result" where
  "send_logged send r = (\<lambda>(m, log).
     andThen (send r m) (\<lambda>(ok, m). Ok (ok, m, if ok then log @ [r] else log)))"

fun cycles :: "('s \<Rightarrow> 's result) \<Rightarrow> nat \<Rightarrow> 's \<Rightarrow> 's result" where
  "cycles tick 0 s = Ok s"
| "cycles tick (Suc n) s = andThen (tick s) (cycles tick n)"

lemma load_store_cycles:
  assumes "cycles (LoadStoreTrace_tick (send_logged send)) n (h, m, log) = Ok (h', m', log')"
    and "ls_curr_trace_idx h = ls_trace_count h mod length (ls_trace h)"
    and "log = map (\<lambda>j. load_store_request (ls_trace h ! (j mod length (ls_trace h)))) [0..<ls_trace_count h]"
  shows "ls_trace h' = ls_trace h \<and> ls_trace_count h \<le> ls_trace_count h' \<and> ls_trace_count h' \<le> ls_trace_count h + n
    \<and> log' = map (\<lambda>j. load_store_request (ls_trace h ! (j mod length (ls_trace h)))) [0..<ls_trace_count h']"
  using assms
proof (induction n arbitrary: h m log)
  case 0
  have "h' = h" "log' = log" using "0.prems"(1) by simp_all
  then show ?case using "0.prems"(3) by simp
next
  case (Suc n)
  let ?l = "length (ls_trace h)"
  from Suc.prems(1) obtain h1 m1 log1 where 1: "LoadStoreTrace_tick (send_logged send) (h, m, log) = Ok (h1, m1, log1)"
    and rest: "cycles (LoadStoreTrace_tick (send_logged send)) n (h1, m1, log1) = Ok (h', m', log')"
    by (auto simp: result_simps)
  then obtain sent where s: "ls_curr_trace_idx h < ?l"
    "h1 = (if sent then h\<lparr>ls_curr_trace_idx := (ls_curr_trace_idx h + 1) mod ?l, ls_trace_count := ls_trace_count h + 1\<rparr> else h)"
    "log1 = (if sent then log @ [load_store_request (ls_trace h ! ls_curr_trace_idx h)] else log)"
    by (auto simp: LoadStoreTrace_tick_def send_logged_def result_simps)
  have "ls_curr_trace_idx h1 = ls_trace_count h1 mod length (ls_trace h1)"
    using s(2) Suc.prems(2) by (simp add: mod_Suc_eq)
  moreover have "log1 = map (\<lambda>j. load_store_request (ls_trace h1 ! (j mod length (ls_trace h1)))) [0..<ls_trace_count h1]"
    using s(2,3) Suc.prems(2,3) by simp
  ultimately have "ls_trace h' = ls_trace h1 \<and> ls_trace_count h1 \<le> ls_trace_count h' \<and> ls_trace_count h' \<le> ls_trace_count h1 + n
    \<and> log' = map (\<lambda>j. load_store_request (ls_trace h1 ! (j mod length (ls_trace h1)))) [0..<ls_trace_count h']"
    by (rule Suc.IH [OF rest])
  then show ?case using s(2) by (auto split: if_splits)
qed

text \<open>C39: whatever the memory system accepts and refuses, after any number of
  cycles it has accepted exactly the requests of the trace in order, round after round, and the
  front end is finished exactly when the whole trace has been accepted at least once.\<close>

theorem load_store_replays:
  assumes "LoadStoreTrace_init files path ratio = Ok h"
    and "cycles (LoadStoreTrace_tick (send_logged send)) n (h, m, []) = Ok (h', m', log)"
  shows "log = map (\<lambda>j. load_store_request (ls_trace h ! (j mod length (ls_trace h)))) [0..<length log]
    \<and> (LoadStoreTrace_is_finished h' \<longleftrightarrow> take (length (ls_trace h)) log = map load_store_request (ls_trace h))"
proof -
  let ?l = "length (ls_trace h)"
  have h: "ls_curr_trace_idx h = 0" "ls_trace_count h = 0"
    using assms(1) by (auto simp: LoadStoreTrace_init_def andThen_Ok_iff split: option.splits)
  have e: "ls_trace h' = ls_trace h" "log = map (\<lambda>j. load_store_request (ls_trace h ! (j mod ?l))) [0..<ls_trace_count h']"
    using load_store_cycles [OF assms(2)] h by auto
  have n: "ls_trace_count h' = length log" using arg_cong [OF e(2), of length] by simp
  have "take ?l log = map load_store_request (ls_trace h)" if "?l \<le> length log"
    using that by (subst e(2)) (auto simp: n intro: nth_equalityI)
  moreover have "?l \<le> length log" if "take ?l log = map load_store_request (ls_trace h)"
    using arg_cong [OF that, of length] by simp
  ultimately have "?l \<le> length log \<longleftrightarrow> take ?l log = map load_store_request (ls_trace h)" by blast
  then show ?thesis using e(2) unfolding LoadStoreTrace_is_finished_def e(1) n by blast
qed

definition take_every :: "request \<Rightarrow> int \<Rightarrow> (bool \<times> int) result" where
  "take_every r m = Ok (m mod 2 = 1, m + 1)"

theorem load_store_replays_witness:
  "\<exists>h h' m' log. LoadStoreTrace_init (\<lambda>_. Some (Some (''LD 16'' @ CHR 0x0A # ''ST 0x20''))) (Some ''t'') (Some 1) = Ok h
     \<and> cycles (LoadStoreTrace_tick (send_logged take_every)) 6 (h, 0, []) = Ok (h', m', log)
     \<and> map addr log = [16, 32, 16] \<and> map req_type log = [Read, Write, Read] \<and> LoadStoreTrace_is_finished h'"
proof -
  define files where "files = (\<lambda>_ :: string. Some (Some (''LD 16'' @ CHR 0x0A # ''ST 0x20'')))"
  have "case LoadStoreTrace_init (\<lambda>_. Some (Some (''LD 16'' @ CHR 0x0A # ''ST 0x20''))) (Some ''t'') (Some 1) of
      Inl _ \<Rightarrow> False | Inr h \<Rightarrow> ls_trace h = [(False, 16), (True, 32)] \<and>
      (case cycles (LoadStoreTrace_tick (send_logged take_every)) 6 (h, 0, []) of
         Inl _ \<Rightarrow> False | Inr (h', m', log) \<Rightarrow> length log = 3)"
    by code_simp
  then obtain h h' m' log where i: "LoadStoreTrace_init files (Some ''t'') (Some 1) = Ok h" "ls_trace h = [(False, 16), (True, 32)]"
    and c: "cycles (LoadStoreTrace_tick (send_logged take_every)) 6 (h, 0, []) = Ok (h', m', log)" "length log = 3"
    unfolding files_def by (auto split: sum.splits)
  have "[0..<3] = [0, 1, 2 :: nat]" by (simp add: upt_rec)
  with load_store_replays [OF i(1) c(1)] i(2) c(2)
  have "log = map load_store_request [(False, 16), (True, 32), (False, 16)] \<and> LoadStoreTrace_is_finished h'"
    by (auto simp: numeral_2_eq_2)
  then show ?thesis using i(1) c(1) unfolding files_def
    by (intro exI conjI) (auto simp: load_store_request_def Request_addr_def type_of_id_def)
qed



end
