(* ===== verification/Row_Hammer.thy ===== *)
theory Row_Hammer
  imports Request Small_Device
begin

text \<open>
  What the RowHammer defenses of \<^verbatim>\<open>src/src/dram_controller/impl/plugin/\<close> share: the part of their
  \<open>setup\<close> that reads the device, the loop that flattens rank, bank group and bank to one index, and
  the tests by which \<open>update\<close> recognises the opening of a row and the refresh of a rank. They are
  followed by the contract towards the controller that all defenses keep, and by the two simplest:
  \<^verbatim>\<open>oracle_rh.cpp\<close> and \<^verbatim>\<open>para.cpp\<close>. The output under \<open>m_is_debug\<close> is left out.

  \<open>m_ctrl->priority_send\<close> is the parameter \<open>send\<close>, over the controller's state \<open>'c\<close>, as for the
  refresh manager; what it returns is not looked at.
\<close>

subsection \<open>The device as the defenses see it\<close>

record row_hammer =
  rh_VRR_req_id :: int
  rh_rank_level :: int
  rh_bank_level :: int
  rh_row_level :: int
  rh_num_ranks :: int
  rh_num_banks_per_rank :: int
  rh_num_rows_per_bank :: int

definition banks_per_rank :: "dram_spec \<Rightarrow> int result" where
  "banks_per_rank spec =
     andThen (get_level_size spec ''bankgroup'') (\<lambda>bankgroup.
     andThen (get_level_size spec ''bank'') (\<lambda>bank.
       Ok (if bankgroup = -1 then bank else bankgroup * bank)))"

definition row_hammer_levels :: "dram_spec \<Rightarrow> int \<Rightarrow> row_hammer result" where
  "row_hammer_levels spec vrr =
     andThen (SpecDef_id (m_levels spec) ''rank'') (\<lambda>rank.
     andThen (SpecDef_id (m_levels spec) ''bank'') (\<lambda>bank.
     andThen (SpecDef_id (m_levels spec) ''row'') (\<lambda>row.
     andThen (get_level_size spec ''rank'') (\<lambda>ranks.
     andThen (banks_per_rank spec) (\<lambda>banks.
     andThen (get_level_size spec ''row'') (\<lambda>rows.
       Ok \<lparr>rh_VRR_req_id = vrr, rh_rank_level = rank, rh_bank_level = bank, rh_row_level = row,
           rh_num_ranks = ranks, rh_num_banks_per_rank = banks, rh_num_rows_per_bank = rows\<rparr>))))))"

definition row_hammer_setup :: "dram_spec \<Rightarrow> row_hammer result" where
  "row_hammer_setup spec =
     (if \<not> SpecDef_contains (m_commands spec) ''VRR''
      then Err (Configuration_error ''not compatible with a DRAM without Victim-Row-Refresh (VRR)'')
      else andThen (SpecDef_id (m_requests spec) ''victim-row-refresh'') (row_hammer_levels spec))"

definition total_banks :: "row_hammer \<Rightarrow> int" where
  "total_banks rh = rh_num_banks_per_rank rh * rh_num_ranks rh"

definition flat_bank_step :: "dram_spec \<Rightarrow> int list \<Rightarrow> int \<Rightarrow> int \<times> int \<Rightarrow> (int \<times> int) result" where
  "flat_bank_step spec av i = (\<lambda>(flat_bank_id, accumulated_dimension).
     andThen (vec_at (org_count (m_organization spec)) (i + 1)) (\<lambda>n.
     andThen (vec_at av i) (\<lambda>a.
       Ok (flat_bank_id + a * (accumulated_dimension * n), accumulated_dimension * n))))"

definition flat_bank_of :: "dram_spec \<Rightarrow> int \<Rightarrow> int \<Rightarrow> int list \<Rightarrow> int result" where
  "flat_bank_of spec rank_level bank_level av =
     andThen (vec_at av bank_level) (\<lambda>bank.
     andThen (fold_result (flat_bank_step spec av) (rev [rank_level .. bank_level - 1]) (bank, 1)) (\<lambda>(flat, _).
       Ok flat))"

definition flat_bank_id :: "dram_spec \<Rightarrow> row_hammer \<Rightarrow> int list \<Rightarrow> int result" where
  "flat_bank_id spec rh av = flat_bank_of spec (rh_rank_level rh) (rh_bank_level rh) av"

definition command_is :: "(DRAMCommandMeta \<Rightarrow> bool) \<Rightarrow> int \<Rightarrow> dram_spec \<Rightarrow> int \<Rightarrow> bool result" where
  "command_is flag level spec c =
     andThen (SpecLUT_id (m_commands spec) (m_command_meta spec) c) (\<lambda>meta.
       if flag meta
       then andThen (SpecLUT_id (m_commands spec) (m_command_scopes spec) c) (\<lambda>scope. Ok (scope = level))
       else Ok False)"

text \<open>The bank and row an activation opens; \<open>None\<close> for every other command.\<close>

definition row_opened :: "dram_spec \<Rightarrow> row_hammer \<Rightarrow> request \<Rightarrow> (int \<times> int) option result" where
  "row_opened spec rh r =
     andThen (command_is is_opening (rh_row_level rh) spec (command r)) (\<lambda>opens.
       if opens
       then andThen (flat_bank_id spec rh (addr_vec r)) (\<lambda>b.
            andThen (vec_at (addr_vec r) (rh_row_level rh)) (\<lambda>row. Ok (Some (b, row))))
       else Ok None)"

definition rank_refreshed :: "dram_spec \<Rightarrow> row_hammer \<Rightarrow> request \<Rightarrow> bool result" where
  "rank_refreshed spec rh r = command_is is_refreshing (rh_rank_level rh) spec (command r)"

definition vrr_request :: "row_hammer \<Rightarrow> request \<Rightarrow> request" where
  "vrr_request rh r = Request_addr_vec (addr_vec r) (rh_VRR_req_id rh)"

definition send_vrr :: "(request \<Rightarrow> 'c \<Rightarrow> (bool \<times> 'c) result) \<Rightarrow> row_hammer \<Rightarrow> request \<Rightarrow> 'c \<Rightarrow> 'c result" where
  "send_vrr send rh r c = andThen (send (vrr_request rh r) c) (\<lambda>(_, c). Ok c)"

subsection \<open>Histories of the hook\<close>

text \<open>The calls of \<open>update\<close>, newest first, each with the requests the plugin sent in it. The
  controller takes or refuses a request as it likes.\<close>

definition log_send :: "(request \<Rightarrow> request list \<Rightarrow> bool) \<Rightarrow> request \<Rightarrow> request list \<Rightarrow> (bool \<times> request list) result" where
  "log_send accept q sent = Ok (accept q sent, sent @ [q])"

type_synonym hook_event = "request option \<times> request list"

fun hook_run ::
  "(request option \<Rightarrow> 'p \<times> request list \<Rightarrow> ('p \<times> request list) result) \<Rightarrow> request option list \<Rightarrow> 'p
    \<Rightarrow> ('p \<times> hook_event list) result" where
  "hook_run upd [] p = Ok (p, [])"
| "hook_run upd (r # rs) p =
     andThen (hook_run upd rs p) (\<lambda>(p, h).
     andThen (upd r (p, [])) (\<lambda>(p, sent). Ok (p, (r, sent) # h)))"

lemma hook_run_length: "hook_run upd rs p = Ok (p', h) \<Longrightarrow> length h = length rs \<and> map fst h = rs"
  by (induction rs arbitrary: p' h) (auto simp: result_simps)

text \<open>The induction over a history.\<close>

lemma hook_run_rule:
  assumes "hook_run upd rs p = Ok (p', h)" and "I p []"
    and "\<And>q h r q' sent. r \<in> set rs \<Longrightarrow> I q h \<Longrightarrow> upd r (q, []) = Ok (q', sent) \<Longrightarrow> I q' ((r, sent) # h)"
  shows "I p' h"
  using assms(1,3)
proof (induction rs arbitrary: p' h)
  case Nil
  then show ?case using assms(2) by simp
next
  case (Cons r rs)
  from Cons.prems(1) obtain q g sent where "hook_run upd rs p = Ok (q, g)" "upd r (q, []) = Ok (p', sent)" "h = (r, sent) # g"
    by (auto simp: result_simps)
  then show ?case using Cons.IH [of q g] Cons.prems(2) by simp
qed

text \<open>The number of events \<open>ev\<close> since the last one that ends the count: \<open>fresh\<close> ends it before the
  event itself is counted and sees the number of events so far, \<open>done\<close> ends it after.\<close>

fun count_since :: "(nat \<Rightarrow> 'e \<Rightarrow> bool) \<Rightarrow> ('e \<Rightarrow> bool) \<Rightarrow> ('e \<Rightarrow> bool) \<Rightarrow> 'e list \<Rightarrow> nat" where
  "count_since fresh finish ev [] = 0"
| "count_since fresh finish ev (e # h) =
     (if finish e then 0
      else (if ev e then 1 else 0) + (if fresh (length h) e then 0 else count_since fresh finish ev h))"

definition activation :: "dram_spec \<Rightarrow> row_hammer \<Rightarrow> int \<Rightarrow> int \<Rightarrow> hook_event \<Rightarrow> bool" where
  "activation spec rh b row e \<longleftrightarrow>
     (case fst e of None \<Rightarrow> False | Some r \<Rightarrow> row_opened spec rh r = Ok (Some (b, row)))"

text \<open>A preventive refresh is for the row whose activation triggered it.\<close>

definition mitigation :: "dram_spec \<Rightarrow> row_hammer \<Rightarrow> int \<Rightarrow> int \<Rightarrow> hook_event \<Rightarrow> bool" where
  "mitigation spec rh b row e \<longleftrightarrow> activation spec rh b row e \<and> snd e \<noteq> []"

subsection \<open>The contract towards the controller\<close>

text \<open>Whatever a defense does to the controller it does by asking for at most one preventive
  refresh, of the row just opened, and an idle cycle leaves the controller alone.\<close>

locale row_hammer_defense =
  fixes upd :: "(request \<Rightarrow> 'c \<Rightarrow> (bool \<times> 'c) result) \<Rightarrow> dram_spec \<Rightarrow> request option \<Rightarrow> 'p \<times> 'c \<Rightarrow> ('p \<times> 'c) result"
    and vrr_id :: "'p \<Rightarrow> int"
    and row_level :: "'p \<Rightarrow> int"
  assumes idle: "upd send spec None (p, c) = Ok (p', c') \<Longrightarrow> c' = c"
    and sends: "upd send spec (Some q) (p, c) = Ok (p', c') \<Longrightarrow>
      c' = c \<or> command_is is_opening (row_level p) spec (command q) = Ok True
        \<and> (\<exists>b. send (Request_addr_vec (addr_vec q) (vrr_id p)) c = Ok (b, c'))"
begin

lemma keeps_invariant:
  assumes "upd send spec r (p, c) = Ok (p', c')" and "I c"
    and "\<And>q u b v. I u \<Longrightarrow> send q u = Ok (b, v) \<Longrightarrow> I v"
  shows "I c'"
proof (cases r)
  case None
  then show ?thesis using idle assms(1,2) by blast
next
  case (Some q)
  then show ?thesis using sends assms by blast
qed

end

text \<open>The law of the requests sent, for a defense that reports the row it opened.\<close>

lemma row_opened_opens: "row_opened spec rh r = Ok (Some x) \<Longrightarrow> command_is is_opening (rh_row_level rh) spec (command r) = Ok True"
  by (auto simp: row_opened_def result_simps split: if_splits)

lemma send_vrr_Ok: "send_vrr send rh r c = Ok c' \<longleftrightarrow> (\<exists>b. send (Request_addr_vec (addr_vec r) (rh_VRR_req_id rh)) c = Ok (b, c'))"
  by (auto simp: send_vrr_def vrr_request_def result_simps)

lemma log_send_vrr: "send_vrr (log_send accept) rh r sent = Ok sent' \<longleftrightarrow> sent' = sent @ [vrr_request rh r]"
  by (auto simp: send_vrr_def log_send_def)

subsection \<open>A device to run the defenses on\<close>

text \<open>Two banks in one bank group of one rank, with the commands the defenses look at. It models no
  part of the program.\<close>

definition small_vrr_spec :: dram_spec where
  "small_vrr_spec = small_spec
     \<lparr>m_levels := [''channel'', ''rank'', ''bankgroup'', ''bank'', ''row'', ''column''],
      m_organization := \<lparr>density = 1, dq = 16, org_count = [1, 1, 1, 2, 8, 4]\<rparr>,
      m_commands := [''ACT'', ''REFab'', ''VRR''],
      m_command_scopes := [4, 1, 4],
      m_command_meta := [DRAMCommandMeta_default\<lparr>is_opening := True\<rparr>,
        DRAMCommandMeta_default\<lparr>is_refreshing := True\<rparr>, DRAMCommandMeta_default\<lparr>is_refreshing := True\<rparr>],
      m_requests := [''all-bank-refresh'', ''victim-row-refresh''],
      m_timings := [''tCK_ps''], m_timing_vals := [1000]\<rparr>"

definition small_activation :: "int \<Rightarrow> int \<Rightarrow> request" where
  "small_activation bank row = (Request_addr_vec [0, 0, 0, bank, row, 0] 0)\<lparr>command := 0\<rparr>"

definition small_rank_refresh :: request where
  "small_rank_refresh = (Request_addr_vec [0, 0, -1, -1, -1, -1] 0)\<lparr>command := 1\<rparr>"

end
