(* ===== verification/Float32.thy ===== *)
theory Float32
  imports Prelude "HOL-Library.Log_Nat"
begin

text \<open>
  Single-precision arithmetic on the values the program computes with: every \<open>float\<close> is a
  rational number, and an operation is the exact one followed by rounding to the nearest number
  of 24 significant bits, ties to even. The exponent is not bounded: the values here (cycle
  times, periods, thresholds) are far from overflow and from the subnormal numbers.
\<close>

text \<open>The position of the leading bit of a positive rational: \<open>2 ^ e \<le> x < 2 ^ (e + 1)\<close>.\<close>

definition float_exponent :: "rat \<Rightarrow> int" where
  "float_exponent x =
     (let (a, b) = quotient_of x; e = bitlen a - bitlen b
      in if power_int 2 e \<le> x then e else e - 1)"

definition round_even :: "rat \<Rightarrow> int" where
  "round_even x =
     (let f = \<lfloor>x\<rfloor>; r = x - of_int f
      in if r < 1 / 2 \<or> (r = 1 / 2 \<and> even f) then f else f + 1)"

definition float32 :: "rat \<Rightarrow> rat" where
  "float32 x =
     (if x = 0 then 0
      else (let u = power_int 2 (float_exponent \<bar>x\<bar> - 23) in sgn x * (of_int (round_even (\<bar>x\<bar> / u)) * u)))"

text \<open>Conversion to \<open>int\<close> drops the fraction.\<close>

definition float_to_int :: "rat \<Rightarrow> int" where
  "float_to_int x = (if x < 0 then - \<lfloor>- x\<rfloor> else \<lfloor>x\<rfloor>)"

lemma round_even_error: "\<bar>of_int (round_even x) - x\<bar> \<le> 1 / 2"
proof -
  have "of_int \<lfloor>x\<rfloor> \<le> x" "x < of_int \<lfloor>x\<rfloor> + 1" by linarith+
  then show ?thesis by (auto simp: round_even_def Let_def abs_le_iff)
qed

lemma round_even_int [simp]: "round_even (of_int n) = n"
  by (simp add: round_even_def)

lemma power_int_two_bitlen:
  "0 < a \<Longrightarrow> power_int 2 (bitlen a - 1) \<le> (of_int a :: rat) \<and> (of_int a :: rat) < power_int 2 (bitlen a)"
proof -
  assume a: "0 < a"
  have "2 ^ nat (bitlen a - 1) \<le> a" "a < 2 ^ nat (bitlen a)" using bitlen_bounds [OF a] by auto
  then have b: "(2 :: rat) ^ nat (bitlen a - 1) \<le> of_int a" "of_int a < (2 :: rat) ^ nat (bitlen a)"
    by (metis of_int_le_iff of_int_numeral of_int_power, metis of_int_less_iff of_int_numeral of_int_power)
  have "1 \<le> bitlen a" using a by (simp add: bitlen_ge_iff_power)
  with b show ?thesis by (simp add: power_int_def)
qed

lemma float_exponent_bounds:
  assumes "0 < x"
  shows "power_int 2 (float_exponent x) \<le> x" "x < power_int 2 (float_exponent x + 1)"
proof -
  obtain a b where q: "quotient_of x = (a, b)" by fastforce
  have b: "0 < b" by (rule quotient_of_denom_pos [OF q])
  have x: "x = of_int a / of_int b" by (rule quotient_of_div [OF q])
  then have a: "0 < a" using assms b by (simp add: zero_less_divide_iff)
  let ?p = "\<lambda>n. power_int (2 :: rat) n"
  let ?e = "bitlen a - bitlen b"
  have la: "?p (bitlen a - 1) \<le> of_int a" "of_int a < ?p (bitlen a)" using power_int_two_bitlen [OF a] by auto
  have lb: "?p (bitlen b - 1) \<le> of_int b" "of_int b < ?p (bitlen b)" using power_int_two_bitlen [OF b] by auto
  have "x < ?p (bitlen a) / ?p (bitlen b - 1)"
    unfolding x using la lb a b by (intro frac_less) (auto simp: zero_less_power_int)
  also have "\<dots> = ?p (?e + 1)" by (simp add: power_int_diff [symmetric] algebra_simps)
  finally have up: "x < ?p (?e + 1)" .
  have "?p (bitlen a - 1) / ?p (bitlen b) \<le> x"
    unfolding x using la lb a b by (intro frac_le) auto
  then have low: "?p (?e - 1) \<le> x" by (simp add: power_int_diff [symmetric] algebra_simps)
  show "?p (float_exponent x) \<le> x" using low by (simp add: float_exponent_def q Let_def)
  show "x < ?p (float_exponent x + 1)" using up by (simp add: float_exponent_def q Let_def)
qed

text \<open>Rounding loses less than one part in \<open>2 ^ 24\<close>.\<close>

lemma float32_error:
  assumes "0 \<le> x"
  shows "\<bar>float32 x - x\<bar> \<le> x / 2 ^ 24"
proof (cases "x = 0")
  case True
  then show ?thesis by (simp add: float32_def)
next
  case False
  then have x: "0 < x" using assms by simp
  let ?u = "power_int (2 :: rat) (float_exponent x - 23)"
  have u: "0 < ?u" by (simp add: zero_less_power_int)
  have "float32 x - x = (of_int (round_even (x / ?u)) - x / ?u) * ?u"
    using x u by (simp add: float32_def Let_def field_simps)
  then have "\<bar>float32 x - x\<bar> \<le> 1 / 2 * ?u"
    using round_even_error [of "x / ?u"] u by (simp add: abs_mult)
  also have "\<dots> \<le> x / 2 ^ 24"
  proof -
    have "?u * 2 ^ 23 = power_int 2 (float_exponent x)"
      by (simp add: power_int_diff)
    then have "?u * 2 ^ 23 \<le> x" using float_exponent_bounds(1) [OF x] by simp
    then show ?thesis by simp
  qed
  finally show ?thesis .
qed

lemma float32_upper: "0 \<le> x \<Longrightarrow> float32 x \<le> x * (1 + 1 / 2 ^ 24)"
  using abs_le_D1 [OF float32_error [of x]] by (simp add: algebra_simps)

lemma float32_nonneg: "0 \<le> x \<Longrightarrow> 0 \<le> float32 x"
proof -
  assume "0 \<le> x"
  then have "x - x / 2 ^ 24 \<le> float32 x" "0 \<le> x - x / 2 ^ 24"
    using abs_le_D2 [OF float32_error [of x]] by simp_all
  then show ?thesis by linarith
qed

end
