(* ===== verification/Oracle_RH.thy ===== *)
theory Oracle_RH
  imports Row_Hammer Float32
begin

text \<open>
  \<^verbatim>\<open>src/src/dram_controller/impl/plugin/oracle_rh.cpp\<close>, which counts every row exactly, and
  \<^verbatim>\<open>para.cpp\<close>, which refreshes at random. The generator of \<open>para.cpp\<close> (\<open>std::mt19937\<close> with a
  uniform distribution) is the parameter \<open>draw\<close> over a state \<open>'g\<close>.
\<close>

subsection \<open>OracleRH\<close>

record OracleRH =
  orh_dev :: row_hammer
  m_RH_threshold :: int
  orh_table :: "(int \<rightharpoonup> int) list"

definition OracleRH_setup :: "int option \<Rightarrow> dram_spec \<Rightarrow> OracleRH result" where
  "OracleRH_setup tRH spec =
     (case tRH of
        None \<Rightarrow> Err (Configuration_error ''Param is required but not given'')
      | Some tRH \<Rightarrow> andThen (row_hammer_setup spec) (\<lambda>rh.
          if total_banks rh < 0 then Err (Runtime_error ''length_error'')
          else Ok \<lparr>orh_dev = rh, m_RH_threshold = tRH, orh_table = replicate (nat (total_banks rh)) Map.empty\<rparr>))"

definition OracleRH_activate ::
  "(request \<Rightarrow> 'c \<Rightarrow> (bool \<times> 'c) result) \<Rightarrow> request \<Rightarrow> int \<Rightarrow> int \<Rightarrow> OracleRH \<times> 'c \<Rightarrow> (OracleRH \<times> 'c) result" where
  "OracleRH_activate send r b row = (\<lambda>(p, c).
     andThen (vec_at (orh_table p) b) (\<lambda>t.
       case t row of
         None \<Rightarrow> Ok (p\<lparr>orh_table := (orh_table p)[nat b := t(row \<mapsto> 1)]\<rparr>, c)
       | Some n \<Rightarrow>
           if n + 1 \<ge> m_RH_threshold p
           then andThen (send_vrr send (orh_dev p) r c) (\<lambda>c.
                Ok (p\<lparr>orh_table := (orh_table p)[nat b := t(row \<mapsto> 0)]\<rparr>, c))
           else Ok (p\<lparr>orh_table := (orh_table p)[nat b := t(row \<mapsto> n + 1)]\<rparr>, c)))"

definition OracleRH_refresh :: "request \<Rightarrow> OracleRH \<Rightarrow> OracleRH result" where
  "OracleRH_refresh r p =
     andThen (vec_at (addr_vec r) (rh_rank_level (orh_dev p))) (\<lambda>rank_id.
     andThen (fold_result (\<lambda>i t. vec_put t i Map.empty)
       [rank_id * rh_num_banks_per_rank (orh_dev p) .. (rank_id + 1) * rh_num_banks_per_rank (orh_dev p) - 1]
       (orh_table p)) (\<lambda>t. Ok (p\<lparr>orh_table := t\<rparr>)))"

definition OracleRH_update ::
  "(request \<Rightarrow> 'c \<Rightarrow> (bool \<times> 'c) result) \<Rightarrow> dram_spec \<Rightarrow> request option \<Rightarrow> OracleRH \<times> 'c \<Rightarrow> (OracleRH \<times> 'c) result" where
  "OracleRH_update send spec req = (\<lambda>(p, c).
     case req of
       None \<Rightarrow> Ok (p, c)
     | Some r \<Rightarrow>
         andThen (row_opened spec (orh_dev p) r) (\<lambda>opened.
           case opened of
             Some (b, row) \<Rightarrow> OracleRH_activate send r b row (p, c)
           | None \<Rightarrow> andThen (rank_refreshed spec (orh_dev p) r) (\<lambda>refreshed.
               if refreshed then andThen (OracleRH_refresh r p) (\<lambda>p. Ok (p, c)) else Ok (p, c))))"

lemma OracleRH_refresh_dev: "OracleRH_refresh r p = Ok p' \<Longrightarrow>
    orh_dev p' = orh_dev p \<and> m_RH_threshold p' = m_RH_threshold p"
  by (auto simp: OracleRH_refresh_def result_simps)

lemma OracleRH_activate_effect:
  assumes "OracleRH_activate send r b row (p, c) = Ok (p', c')"
  shows "orh_dev p' = orh_dev p \<and> m_RH_threshold p' = m_RH_threshold p
    \<and> (c' = c \<or> send_vrr send (orh_dev p) r c = Ok c')"
proof -
  from assms obtain t where t: "vec_at (orh_table p) b = Ok t"
    by (auto simp: OracleRH_activate_def result_simps)
  show ?thesis
    using assms t by (cases "t row") (auto simp: OracleRH_activate_def result_simps split: if_splits)
qed

interpretation oracle_rh: row_hammer_defense OracleRH_update "\<lambda>p. rh_VRR_req_id (orh_dev p)" "\<lambda>p. rh_row_level (orh_dev p)"
proof
  fix send :: "request \<Rightarrow> 'c \<Rightarrow> (bool \<times> 'c) result" and spec p c p' c' q
  show "OracleRH_update send spec None (p, c) = Ok (p', c') \<Longrightarrow> c' = c" by (simp add: OracleRH_update_def)
  assume u: "OracleRH_update send spec (Some q) (p, c) = Ok (p', c')"
  then obtain opened where o: "row_opened spec (orh_dev p) q = Ok opened" by (auto simp: OracleRH_update_def result_simps)
  show "c' = c \<or> command_is is_opening (rh_row_level (orh_dev p)) spec (command q) = Ok True
      \<and> (\<exists>b. send (Request_addr_vec (addr_vec q) (rh_VRR_req_id (orh_dev p))) c = Ok (b, c'))"
    using u o row_opened_opens [of spec "orh_dev p" q]
    by (auto simp: OracleRH_update_def result_simps send_vrr_Ok dest!: OracleRH_activate_effect
        split: option.splits if_splits)
qed

text \<open>The refresh of a rank clears the tables of its banks.\<close>

definition bank_refreshed :: "dram_spec \<Rightarrow> row_hammer \<Rightarrow> int \<Rightarrow> hook_event \<Rightarrow> bool" where
  "bank_refreshed spec rh b e \<longleftrightarrow>
     (case fst e of None \<Rightarrow> False | Some r \<Rightarrow>
        row_opened spec rh r = Ok None \<and> rank_refreshed spec rh r = Ok True
        \<and> (let n = rh_num_banks_per_rank rh; rank = addr_vec r ! nat (rh_rank_level rh) in
           rank * n \<le> b \<and> b < (rank + 1) * n))"

lemma clear_range:
  "fold_result (\<lambda>i t. vec_put t i Map.empty) is t = Ok t' \<Longrightarrow>
    length t' = length t \<and> (\<forall>b. in_vec t b \<longrightarrow> t' ! nat b = (if b \<in> set is then Map.empty else t ! nat b))"
proof (induction "is" arbitrary: t)
  case Nil
  then show ?case by simp
next
  case (Cons i js)
  then obtain u where u: "in_vec t i" "u = t[nat i := Map.empty]"
    and f: "fold_result (\<lambda>i t. vec_put t i Map.empty) js u = Ok t'" by (auto simp: result_simps)
  from Cons.IH [OF f] u show ?case
    by (auto simp: nth_list_update in_vec_def nat_eq_iff split: if_splits)
qed

text \<open>The activations of a row since its last preventive refresh or the last refresh of its rank.\<close>

definition oracle_exposure :: "dram_spec \<Rightarrow> row_hammer \<Rightarrow> hook_event list \<Rightarrow> int \<Rightarrow> int \<Rightarrow> nat" where
  "oracle_exposure spec rh h b row =
     count_since (\<lambda>_. bank_refreshed spec rh b) (mitigation spec rh b row) (activation spec rh b row) h"

definition oracle_counts :: "dram_spec \<Rightarrow> row_hammer \<Rightarrow> int \<Rightarrow> OracleRH \<Rightarrow> hook_event list \<Rightarrow> bool" where
  "oracle_counts spec rh T p h \<longleftrightarrow>
     orh_dev p = rh \<and> m_RH_threshold p = T
     \<and> (\<forall>b row. in_vec (orh_table p) b \<longrightarrow>
          int (oracle_exposure spec rh h b row) = (case (orh_table p ! nat b) row of None \<Rightarrow> 0 | Some n \<Rightarrow> n))
     \<and> (\<forall>b row. \<not> in_vec (orh_table p) b \<longrightarrow> oracle_exposure spec rh h b row = 0)
     \<and> (\<forall>b row. int (oracle_exposure spec rh h b row) < max 2 T)
     \<and> (case h of (Some r, sent) # g \<Rightarrow> sent = [] \<or>
           (\<exists>b row. row_opened spec rh r = Ok (Some (b, row)) \<and> sent = [vrr_request rh r]
              \<and> T \<le> int (oracle_exposure spec rh g b row) + 1)
        | (None, sent) # g \<Rightarrow> sent = [] | [] \<Rightarrow> True)"

lemma exposure_Cons:
  "oracle_exposure spec rh (e # h) b row =
     (if mitigation spec rh b row e then 0
      else (if activation spec rh b row e then 1 else 0)
        + (if bank_refreshed spec rh b e then 0 else oracle_exposure spec rh h b row))"
  by (simp add: oracle_exposure_def)

lemma oracle_counts_activate:
  assumes I: "oracle_counts spec rh T p h" and o: "row_opened spec rh r = Ok (Some (b, row))"
    and a: "OracleRH_activate (log_send accept) r b row (p, []) = Ok (p', sent)"
  shows "oracle_counts spec rh T p' ((Some r, sent) # h)"
proof -
  let ?e = "(Some r, sent)"
  have act: "activation spec rh b' row' ?e \<longleftrightarrow> b' = b \<and> row' = row" for b' row'
    using o by (auto simp: activation_def)
  have nr: "bank_refreshed spec rh b' ?e = False" for b' using o by (simp add: bank_refreshed_def)
  have mit: "mitigation spec rh b' row' ?e \<longleftrightarrow> b' = b \<and> row' = row \<and> sent \<noteq> []" for b' row'
    using act by (auto simp: mitigation_def)
  note ex = exposure_Cons [of spec rh ?e h, unfolded act mit nr if_False]
  let ?t = "orh_table p ! nat b"
  have dev: "orh_dev p = rh" "m_RH_threshold p = T" and inb: "in_vec (orh_table p) b"
    using I a by (auto simp: oracle_counts_def OracleRH_activate_def result_simps split: option.splits if_splits)
  have cnt: "int (oracle_exposure spec rh h b row) = (case ?t row of None \<Rightarrow> 0 | Some n \<Rightarrow> n)"
    using I inb unfolding oracle_counts_def by blast
  have below: "int (oracle_exposure spec rh h b' row') < max 2 T" for b' row'
    using I unfolding oracle_counts_def by blast
  have old: "int (oracle_exposure spec rh h b' row') = (case (orh_table p ! nat b') row' of None \<Rightarrow> 0 | Some n \<Rightarrow> n)"
    if "in_vec (orh_table p) b'" for b' row' using I that unfolding oracle_counts_def by blast
  have out: "oracle_exposure spec rh h b' row' = 0" if "\<not> in_vec (orh_table p) b'" for b' row'
    using I that by (simp add: oracle_counts_def)
  obtain v where p': "p' = p\<lparr>orh_table := (orh_table p)[nat b := ?t(row \<mapsto> v)]\<rparr>"
    and v: "(sent = [] \<and> v = int (oracle_exposure spec rh h b row) + 1 \<and> v < max 2 T)
      \<or> (sent = [vrr_request rh r] \<and> v = 0 \<and> T \<le> int (oracle_exposure spec rh h b row) + 1)"
    using a dev cnt by (auto simp: OracleRH_activate_def result_simps log_send_vrr split: option.splits if_splits)
  have same: "in_vec (orh_table p') b' = in_vec (orh_table p) b'" for b' by (simp add: p')
  have tab: "orh_table p' ! nat b' = (if b' = b then ?t(row \<mapsto> v) else orh_table p ! nat b')"
    if "in_vec (orh_table p) b'" for b' using that inb by (auto simp: p' nth_list_update in_vec_def nat_eq_iff)
  show ?thesis
    unfolding oracle_counts_def
  proof (intro conjI allI impI)
    show "orh_dev p' = rh" "m_RH_threshold p' = T" by (simp_all add: p' dev)
  next
    fix b' row' assume "in_vec (orh_table p') b'"
    then have b': "in_vec (orh_table p) b'" by (simp add: same)
    show "int (oracle_exposure spec rh (?e # h) b' row')
      = (case (orh_table p' ! nat b') row' of None \<Rightarrow> 0 | Some n \<Rightarrow> n)"
      using tab [OF b'] v old [OF b'] by (auto simp: ex)
  next
    fix b' row' assume "\<not> in_vec (orh_table p') b'"
    then have b': "\<not> in_vec (orh_table p) b'" by (simp add: same)
    then have "b' \<noteq> b" using inb by auto
    then show "oracle_exposure spec rh (?e # h) b' row' = 0" using out [OF b'] by (simp add: ex)
  next
    fix b' row' show "int (oracle_exposure spec rh (?e # h) b' row') < max 2 T"
      using below [of b' row'] v by (auto simp: ex)
  next
    show "case ?e # h of (Some r, sent) # g \<Rightarrow> sent = [] \<or>
           (\<exists>b row. row_opened spec rh r = Ok (Some (b, row)) \<and> sent = [vrr_request rh r]
              \<and> T \<le> int (oracle_exposure spec rh g b row) + 1)
        | (None, sent) # g \<Rightarrow> sent = [] | [] \<Rightarrow> True"
      using v o by auto
  qed
qed

lemma oracle_counts_step:
  assumes I: "oracle_counts spec rh T p h"
    and u: "OracleRH_update (log_send accept) spec req (p, []) = Ok (p', sent)"
  shows "oracle_counts spec rh T p' ((req, sent) # h)"
proof -
  have dev: "orh_dev p = rh" using I by (simp add: oracle_counts_def)
  have same: "oracle_counts spec rh T p ((req, []) # h)"
    if "\<And>b row. \<not> activation spec rh b row (req, [])" "\<And>b. \<not> bank_refreshed spec rh b (req, [])"
    using I that by (auto simp: oracle_counts_def exposure_Cons mitigation_def split: option.splits)
  show ?thesis
  proof (cases req)
    case None
    then have "p' = p" "sent = []" using u by (simp_all add: OracleRH_update_def)
    then show ?thesis using same None by (simp add: activation_def bank_refreshed_def)
  next
    case (Some r)
    then obtain opened where o: "row_opened spec rh r = Ok opened"
      using u dev by (auto simp: OracleRH_update_def result_simps)
    show ?thesis
    proof (cases opened)
      case (Some x)
      then obtain b row where x: "opened = Some (b, row)" by (cases x) auto
      then have "OracleRH_activate (log_send accept) r b row (p, []) = Ok (p', sent)"
        using u o dev \<open>req = Some r\<close> by (simp add: OracleRH_update_def)
      from oracle_counts_activate [OF I o [unfolded x] this] show ?thesis using \<open>req = Some r\<close> by simp
    next
      case None
      then obtain refreshed where f: "rank_refreshed spec rh r = Ok refreshed" "sent = []"
        and p': "if refreshed then OracleRH_refresh r p = Ok p' else p' = p"
        using u o dev \<open>req = Some r\<close> by (auto simp: OracleRH_update_def result_simps split: if_splits)
      have na: "\<not> activation spec rh b row (req, [])" for b row
        using o None \<open>req = Some r\<close> by (simp add: activation_def)
      show ?thesis
      proof (cases refreshed)
        case False
        then have "\<not> bank_refreshed spec rh b (req, [])" for b
          using f \<open>req = Some r\<close> by (simp add: bank_refreshed_def)
        then show ?thesis using same na p' False f(2) by simp
      next
        case True
        let ?rank = "addr_vec r ! nat (rh_rank_level rh)" and ?n = "rh_num_banks_per_rank rh"
        have cl: "bank_refreshed spec rh b (req, []) \<longleftrightarrow> b \<in> {?rank * ?n .. (?rank + 1) * ?n - 1}" for b
          using o None f True \<open>req = Some r\<close> by (auto simp: bank_refreshed_def Let_def)
        obtain t where t: "fold_result (\<lambda>i t. vec_put t i Map.empty) [?rank * ?n .. (?rank + 1) * ?n - 1] (orh_table p) = Ok t"
          and pt: "p' = p\<lparr>orh_table := t\<rparr>"
          using p' True dev by (auto simp: OracleRH_refresh_def result_simps)
        have len: "length t = length (orh_table p)" and tab: "in_vec (orh_table p) b \<Longrightarrow>
            t ! nat b = (if b \<in> {?rank * ?n .. (?rank + 1) * ?n - 1} then Map.empty else orh_table p ! nat b)" for b
          using clear_range [OF t] by simp_all
        have same_in: "in_vec t b = in_vec (orh_table p) b" for b by (rule in_vec_length [OF len])
        have ex: "oracle_exposure spec rh ((req, []) # h) b row =
            (if b \<in> {?rank * ?n .. (?rank + 1) * ?n - 1} then 0 else oracle_exposure spec rh h b row)" for b row
          unfolding exposure_Cons mitigation_def using na cl by simp
        have "0 < max 2 T" by simp
        then show ?thesis
          using I f(2) unfolding oracle_counts_def pt \<open>sent = []\<close> ex
          by (auto simp: same_in tab \<open>req = Some r\<close>)
      qed
    qed
  qed
qed

text \<open>C@oracle_rh_bounds_exposure: under \<open>OracleRH\<close>, whatever the controller does with its requests, no
  row of the device is activated as often as \<open>tRH\<close> (twice, for smaller values) without a preventive
  refresh of it being requested or its rank being refreshed; and a preventive refresh is requested
  only for the row just activated, and only when it has reached \<open>tRH\<close>.\<close>

theorem oracle_rh_bounds_exposure:
  assumes "OracleRH_setup (Some T) spec = Ok p"
    and "hook_run (OracleRH_update (log_send accept) spec) calls p = Ok (p', h)"
  shows "(\<forall>b row. int (oracle_exposure spec (orh_dev p) h b row) < max 2 T)
    \<and> (\<forall>r sent g. h = (Some r, sent) # g \<longrightarrow> sent \<noteq> [] \<longrightarrow>
        sent = [vrr_request (orh_dev p) r] \<and> (\<exists>b row. row_opened spec (orh_dev p) r = Ok (Some (b, row))
          \<and> T \<le> int (oracle_exposure spec (orh_dev p) g b row) + 1))"
proof -
  have "oracle_counts spec (orh_dev p) T p []"
    using assms(1)
    by (auto simp: OracleRH_setup_def oracle_counts_def oracle_exposure_def result_simps in_vec_def split: if_splits)
  then have "oracle_counts spec (orh_dev p) T p' h"
    by (rule hook_run_rule [OF assms(2)]) (rule oracle_counts_step)
  then show ?thesis by (auto simp: oracle_counts_def)
qed

theorem oracle_rh_bounds_exposure_witness:
  "\<exists>p p' h. OracleRH_setup (Some 2) small_vrr_spec = Ok p
     \<and> hook_run (OracleRH_update (log_send (\<lambda>_ _. True)) small_vrr_spec)
         [Some (small_activation 1 3), None, Some (small_activation 1 3)] p = Ok (p', h)
     \<and> snd (hd h) \<noteq> [] \<and> int (oracle_exposure small_vrr_spec (orh_dev p) h 1 3) < 2"
proof -
  let ?calls = "[Some (small_activation 1 3), None, Some (small_activation 1 3)]"
  have "case OracleRH_setup (Some 2) small_vrr_spec of Inl _ \<Rightarrow> False | Inr p \<Rightarrow>
      (case hook_run (OracleRH_update (log_send (\<lambda>_ _. True)) small_vrr_spec) ?calls p of
         Inl _ \<Rightarrow> False | Inr (p', h) \<Rightarrow> snd (hd h) \<noteq> [])"
    by code_simp
  then obtain p p' h where p: "OracleRH_setup (Some 2) small_vrr_spec = Ok p"
    and h: "hook_run (OracleRH_update (log_send (\<lambda>_ _. True)) small_vrr_spec) ?calls p = Ok (p', h)" "snd (hd h) \<noteq> []"
    by (auto split: sum.splits)
  from oracle_rh_bounds_exposure [OF p h(1)] have "int (oracle_exposure small_vrr_spec (orh_dev p) h 1 3) < 2" by simp
  with p h show ?thesis by blast
qed

subsection \<open>PARA\<close>

record 'g PARA =
  m_pr_threshold :: rat
  m_generator :: 'g
  para_VRR_req_id :: int
  para_bank_level :: int
  para_row_level :: int

definition PARA_setup :: "rat option \<Rightarrow> 'g \<Rightarrow> dram_spec \<Rightarrow> 'g PARA result" where
  "PARA_setup threshold generator spec =
     (case threshold of
        None \<Rightarrow> Err (Configuration_error ''Param is required but not given'')
      | Some threshold \<Rightarrow>
          if threshold \<le> 0 \<or> threshold \<ge> 1 then Err (Configuration_error ''Invalid probability threshold for PARA!'')
          else if \<not> SpecDef_contains (m_commands spec) ''VRR''
          then Err (Configuration_error ''not compatible with a DRAM without Victim-Row-Refresh (VRR)'')
          else andThen (SpecDef_id (m_requests spec) ''victim-row-refresh'') (\<lambda>vrr.
               andThen (SpecDef_id (m_levels spec) ''bank'') (\<lambda>bank.
               andThen (SpecDef_id (m_levels spec) ''row'') (\<lambda>row.
                 Ok \<lparr>m_pr_threshold = threshold, m_generator = generator, para_VRR_req_id = vrr,
                     para_bank_level = bank, para_row_level = row\<rparr>))))"

definition PARA_update ::
  "('g \<Rightarrow> rat \<times> 'g) \<Rightarrow> (request \<Rightarrow> 'c \<Rightarrow> (bool \<times> 'c) result) \<Rightarrow> dram_spec \<Rightarrow> request option \<Rightarrow> 'g PARA \<times> 'c
    \<Rightarrow> ('g PARA \<times> 'c) result" where
  "PARA_update draw send spec req = (\<lambda>(p, c).
     case req of
       None \<Rightarrow> Ok (p, c)
     | Some r \<Rightarrow>
         andThen (command_is is_opening (para_row_level p) spec (command r)) (\<lambda>opens.
           if opens
           then (let (x, g) = draw (m_generator p); p = p\<lparr>m_generator := g\<rparr> in
                 if x < m_pr_threshold p
                 then andThen (send (Request_addr_vec (addr_vec r) (para_VRR_req_id p)) c) (\<lambda>(_, c). Ok (p, c))
                 else Ok (p, c))
           else Ok (p, c)))"

interpretation para: row_hammer_defense "PARA_update draw" para_VRR_req_id para_row_level
  by unfold_locales
    (auto simp: PARA_update_def result_simps Let_def split: prod.splits if_splits)

end
