(* ===== verification/Graphene.thy ===== *)
theory Graphene
  imports Row_Hammer Float32 "HOL-Library.AList"
begin

text \<open>
  \<^verbatim>\<open>src/src/dram_controller/impl/plugin/graphene.cpp\<close>: a table of counters per bank that tracks the
  rows activated most often, with a spillover counter for all others.

  A bank's \<open>std::unordered_map\<close> is an association list. The loop that looks for an entry to give up
  visits the entries in an order the language does not fix: it is the parameter \<open>order\<close>, which may
  differ from cycle to cycle.
\<close>

subsection \<open>State and setup\<close>

record Graphene =
  gr_dev :: row_hammer
  gr_clk :: int
  m_num_table_entries :: int
  m_activation_threshold :: int
  m_reset_period_clk :: int
  m_activation_count_table :: "(int \<times> int) list list"
  m_spillover_counter :: "int list"

record graphene_config =
  cfg_num_table_entries :: "int option"
  cfg_activation_threshold :: "int option"
  cfg_reset_period_ns :: "int option"

text \<open>\<open>m_reset_period_ns / ((float) tCK_ps / 1000.0f)\<close>\<close>

definition reset_period_clk :: "int \<Rightarrow> int \<Rightarrow> int result" where
  "reset_period_clk reset_period_ns tCK_ps =
     (let tCK = float32 (float32 (of_int tCK_ps) / 1000) in
      if tCK = 0 then Err (Undefined ''conversion of infinity'')
      else Ok (float_to_int (float32 (float32 (of_int reset_period_ns) / tCK))))"

definition graphene_empty_table :: "int \<Rightarrow> int \<Rightarrow> (int \<times> int) list" where
  "graphene_empty_table num_rows num_entries = map (\<lambda>j. (j, 0)) [- num_rows .. - num_rows + num_entries - 1]"

definition Graphene_setup :: "graphene_config \<Rightarrow> dram_spec \<Rightarrow> Graphene result" where
  "Graphene_setup cfg spec =
     (case (cfg_num_table_entries cfg, cfg_activation_threshold cfg, cfg_reset_period_ns cfg) of
        (Some num_entries, Some threshold, Some reset_ns) \<Rightarrow>
          if \<not> SpecDef_contains (m_commands spec) ''VRR''
          then Err (Configuration_error ''not compatible with a DRAM without Victim-Row-Refresh (VRR)'')
          else
            andThen (SpecLUT_named (m_timings spec) (m_timing_vals spec) ''tCK_ps'') (\<lambda>tCK.
            andThen (reset_period_clk reset_ns tCK) (\<lambda>period.
            andThen (row_hammer_setup spec) (\<lambda>rh.
              if total_banks rh < 0 then Err (Runtime_error ''length_error'')
              else Ok
                \<lparr>gr_dev = rh, gr_clk = -1, m_num_table_entries = num_entries,
                 m_activation_threshold = threshold, m_reset_period_clk = period,
                 m_activation_count_table = replicate (nat (total_banks rh))
                   (graphene_empty_table (rh_num_rows_per_bank rh) num_entries),
                 m_spillover_counter = replicate (nat (total_banks rh)) 0\<rparr>)))
      | _ \<Rightarrow> Err (Configuration_error ''Param is required but not given''))"

subsection \<open>The update\<close>

text \<open>The loop over all banks visits exactly the entries of the two vectors.\<close>

definition Graphene_reset :: "Graphene \<Rightarrow> Graphene" where
  "Graphene_reset p = p
     \<lparr>m_activation_count_table := map (map (\<lambda>(row, _). (row, 0))) (m_activation_count_table p),
      m_spillover_counter := map (\<lambda>_. 0) (m_spillover_counter p)\<rparr>"

definition Graphene_tick :: "Graphene \<Rightarrow> Graphene" where
  "Graphene_tick p =
     (let p = p\<lparr>gr_clk := gr_clk p + 1\<rparr>
      in if gr_clk p mod m_reset_period_clk p = 0 then Graphene_reset p else p)"

text \<open>The counters of one bank when \<open>row\<close> is activated, and whether it has to be refreshed.\<close>

definition graphene_count ::
  "((int \<times> int) list \<Rightarrow> (int \<times> int) list) \<Rightarrow> int \<Rightarrow> int \<Rightarrow> (int \<times> int) list \<Rightarrow> int
    \<Rightarrow> bool \<times> (int \<times> int) list \<times> int" where
  "graphene_count order threshold row table spillover =
     (case map_of table row of
        None \<Rightarrow>
          (case find (\<lambda>(_, n). n = spillover) (order table) of
             Some (to_remove, n) \<Rightarrow>
               (False, AList.update row (n + 1) (AList.delete to_remove table), spillover)
           | None \<Rightarrow> (False, table, spillover + 1))
      | Some n \<Rightarrow>
          if n + 1 \<ge> threshold then (True, AList.update row spillover table, spillover)
          else (False, AList.update row (n + 1) table, spillover))"

definition Graphene_activate ::
  "(int \<Rightarrow> (int \<times> int) list \<Rightarrow> (int \<times> int) list) \<Rightarrow> (request \<Rightarrow> 'c \<Rightarrow> (bool \<times> 'c) result) \<Rightarrow> request
    \<Rightarrow> int \<Rightarrow> int \<Rightarrow> Graphene \<times> 'c \<Rightarrow> (Graphene \<times> 'c) result" where
  "Graphene_activate order send r b row = (\<lambda>(p, c).
     andThen (vec_at (m_activation_count_table p) b) (\<lambda>table.
     andThen (vec_at (m_spillover_counter p) b) (\<lambda>spillover.
       (let (refresh, table', spillover') =
              graphene_count (order (gr_clk p)) (m_activation_threshold p) row table spillover
        in andThen (if refresh then send_vrr send (gr_dev p) r c else Ok c) (\<lambda>c.
             Ok (p\<lparr>m_activation_count_table := (m_activation_count_table p)[nat b := table'],
                   m_spillover_counter := (m_spillover_counter p)[nat b := spillover']\<rparr>, c))))))"

definition Graphene_update ::
  "(int \<Rightarrow> (int \<times> int) list \<Rightarrow> (int \<times> int) list) \<Rightarrow> (request \<Rightarrow> 'c \<Rightarrow> (bool \<times> 'c) result) \<Rightarrow> dram_spec
    \<Rightarrow> request option \<Rightarrow> Graphene \<times> 'c \<Rightarrow> (Graphene \<times> 'c) result" where
  "Graphene_update order send spec req = (\<lambda>(p, c).
     if m_reset_period_clk p = 0 then Err (Undefined ''division by zero'')
     else
       (let p = Graphene_tick p
        in case req of
             None \<Rightarrow> Ok (p, c)
           | Some r \<Rightarrow> andThen (row_opened spec (gr_dev p) r) (\<lambda>opened.
               case opened of
                 Some (b, row) \<Rightarrow> Graphene_activate order send r b row (p, c)
               | None \<Rightarrow> Ok (p, c))))"

lemma Graphene_reset_fields [simp]:
  "gr_dev (Graphene_reset p) = gr_dev p" "gr_clk (Graphene_reset p) = gr_clk p"
  "m_num_table_entries (Graphene_reset p) = m_num_table_entries p"
  "m_activation_threshold (Graphene_reset p) = m_activation_threshold p"
  "m_reset_period_clk (Graphene_reset p) = m_reset_period_clk p"
  by (simp_all add: Graphene_reset_def)

lemma Graphene_tick_fields [simp]:
  "gr_dev (Graphene_tick p) = gr_dev p" "gr_clk (Graphene_tick p) = gr_clk p + 1"
  "m_activation_threshold (Graphene_tick p) = m_activation_threshold p"
  "m_reset_period_clk (Graphene_tick p) = m_reset_period_clk p"
  by (simp_all add: Graphene_tick_def Let_def)

lemma Graphene_activate_sends:
  "Graphene_activate order send r b row (p, c) = Ok (p', c') \<Longrightarrow> c' = c \<or> send_vrr send (gr_dev p) r c = Ok c'"
  by (auto simp: Graphene_activate_def result_simps split: prod.splits if_splits)

interpretation graphene: row_hammer_defense "Graphene_update order"
  "\<lambda>p. rh_VRR_req_id (gr_dev p)" "\<lambda>p. rh_row_level (gr_dev p)"
proof
  fix send :: "request \<Rightarrow> 'c \<Rightarrow> (bool \<times> 'c) result" and spec p c p' c' q
  show "Graphene_update order send spec None (p, c) = Ok (p', c') \<Longrightarrow> c' = c"
    by (simp add: Graphene_update_def Let_def split: if_splits)
  assume u: "Graphene_update order send spec (Some q) (p, c) = Ok (p', c')"
  then obtain opened where o: "row_opened spec (gr_dev p) q = Ok opened"
    by (auto simp: Graphene_update_def result_simps Let_def split: if_splits)
  show "c' = c \<or> command_is is_opening (rh_row_level (gr_dev p)) spec (command q) = Ok True
      \<and> (\<exists>b. send (Request_addr_vec (addr_vec q) (rh_VRR_req_id (gr_dev p))) c = Ok (b, c'))"
  proof (cases opened)
    case None
    then show ?thesis using u o by (simp add: Graphene_update_def Let_def split: if_splits)
  next
    case (Some x)
    then obtain b row where "opened = Some (b, row)" by (cases x) auto
    then have "Graphene_activate order send q b row (Graphene_tick p, c) = Ok (p', c')"
      using u o by (auto simp: Graphene_update_def Let_def split: if_splits)
    then show ?thesis using Graphene_activate_sends [of order send q b row "Graphene_tick p" c p' c']
      row_opened_opens [OF o [unfolded Some]] by (auto simp: send_vrr_Ok)
  qed
qed

subsection \<open>What the counters of a bank promise\<close>

text \<open>\<open>e\<close> gives the true number of activations of each row, \<open>W\<close> that of the bank. The sum of
  the counters is the potential that pays for the spillover.\<close>

definition counters_ok :: "nat \<Rightarrow> int \<Rightarrow> int \<Rightarrow> (int \<Rightarrow> int) \<Rightarrow> (int \<rightharpoonup> int) \<Rightarrow> int \<Rightarrow> bool" where
  "counters_ok N T W e m s \<longleftrightarrow> finite (dom m) \<and> card (dom m) = N \<and> 0 \<le> s
     \<and> (\<forall>k v. m k = Some v \<longrightarrow> s \<le> v \<and> e k \<le> v \<and> (v < T \<or> v \<le> s + 1))
     \<and> (\<forall>k. m k = None \<longrightarrow> e k \<le> s)
     \<and> (\<Sum>k\<in>dom m. the (m k)) + s \<le> W"

lemma counters_bound:
  assumes "counters_ok N T W e m s"
  shows "e k < max T (W div (int N + 1) + 2)"
proof -
  have f: "finite (dom m)" "card (dom m) = N" and s: "0 \<le> s" "(\<Sum>k\<in>dom m. the (m k)) + s \<le> W"
    using assms by (auto simp: counters_ok_def)
  have "(\<Sum>k\<in>dom m. s) \<le> (\<Sum>k\<in>dom m. the (m k))"
    using assms by (intro sum_mono) (auto simp: counters_ok_def)
  then have "s * (int N + 1) \<le> W" using f s(2) by (simp add: algebra_simps)
  then have "s \<le> W div (int N + 1)" by (simp add: zdiv_mono1 [of "s * (int N + 1)" W "int N + 1", simplified])
  moreover have "e k < T \<or> e k \<le> s + 1"
  proof (cases "m k")
    case None
    then have "e k \<le> s" using assms by (simp add: counters_ok_def)
    then show ?thesis by simp
  next
    case (Some v)
    then have "e k \<le> v \<and> (v < T \<or> v \<le> s + 1)" using assms unfolding counters_ok_def by blast
    then show ?thesis by linarith
  qed
  ultimately show ?thesis by linarith
qed

lemma sum_update:
  fixes m :: "int \<rightharpoonup> int"
  assumes "finite (dom m)" "m row = Some n"
  shows "(\<Sum>k\<in>dom (m(row \<mapsto> v)). the ((m(row \<mapsto> v)) k)) = (\<Sum>k\<in>dom m. the (m k)) - n + v"
proof -
  have r: "row \<in> dom m" and d: "dom (m(row \<mapsto> v)) = dom m" using assms(2) by auto
  have "(\<Sum>k\<in>dom m - {row}. the ((m(row \<mapsto> v)) k)) = (\<Sum>k\<in>dom m - {row}. the (m k))"
    by (rule sum.cong) auto
  then show ?thesis
    using sum.remove [OF assms(1) r, of "\<lambda>k. the (m k)"] sum.remove [OF assms(1) r, of "\<lambda>k. the ((m(row \<mapsto> v)) k)"]
      assms(2) d by simp
qed

lemma sum_replace:
  fixes m :: "int \<rightharpoonup> int"
  assumes "finite (dom m)" "m k = Some n" "m row = None"
  shows "(\<Sum>j\<in>dom ((m(k := None))(row \<mapsto> v)). the (((m(k := None))(row \<mapsto> v)) j)) = (\<Sum>j\<in>dom m. the (m j)) - n + v"
proof -
  have k: "k \<in> dom m" "row \<notin> dom m" using assms by auto
  have d: "dom ((m(k := None))(row \<mapsto> v)) = insert row (dom m - {k})" using k by auto
  have "(\<Sum>j\<in>dom m - {k}. the (((m(k := None))(row \<mapsto> v)) j)) = (\<Sum>j\<in>dom m - {k}. the (m j))"
    using k by (intro sum.cong) auto
  then show ?thesis
    unfolding d using sum.remove [OF assms(1) k(1), of "\<lambda>j. the (m j)"] assms(1,2) k by simp
qed

text \<open>The activation of a row, in terms of the map.\<close>

lemma graphene_count_map:
  assumes "graphene_count order T row t s = (refresh, t', s')" and "distinct (map fst t)"
    and "mset (order t) = mset t"
  obtains (hit) n where "map_of t row = Some n" "n + 1 < T" "map_of t' = (map_of t)(row \<mapsto> n + 1)" "s' = s" "\<not> refresh"
  | (mitigated) n where "map_of t row = Some n" "T \<le> n + 1" "map_of t' = (map_of t)(row \<mapsto> s)" "s' = s" refresh
  | (replaced) k where "map_of t row = None" "map_of t k = Some s"
      "map_of t' = ((map_of t)(k := None))(row \<mapsto> s + 1)" "s' = s" "\<not> refresh"
  | (spilled) "map_of t row = None" "\<And>k. map_of t k \<noteq> Some s" "t' = t" "s' = s + 1" "\<not> refresh"
proof (cases "map_of t row")
  case (Some n)
  show ?thesis
  proof (cases "n + 1 < T")
    case True
    then show ?thesis using assms(1) Some by (intro hit [of n]) (auto simp: graphene_count_def update_conv')
  next
    case False
    then show ?thesis using assms(1) Some by (intro mitigated [of n]) (auto simp: graphene_count_def update_conv')
  qed
next
  case None
  have st: "set (order t) = set t" using assms(3) by (metis set_mset_mset)
  show ?thesis
  proof (cases "find (\<lambda>(_, n). n = s) (order t)")
    case None2: None
    then have "map_of t k \<noteq> Some s" for k
      using map_of_SomeD [of t k s] st by (auto simp: find_None_iff)
    then show ?thesis using assms(1) None None2 by (intro spilled) (simp_all add: graphene_count_def)
  next
    case (Some x)
    then obtain i where i: "i < length (order t)" "snd x = s" "x = order t ! i"
      by (auto simp: find_Some_iff case_prod_beta)
    then have "x \<in> set t" using st nth_mem [of i "order t"] by simp
    then have x: "x = (fst x, s)" "(fst x, s) \<in> set t" using i(2) by (metis prod.collapse)+
    then have "map_of t (fst x) = Some s" using assms(2) by simp
    then show ?thesis using assms(1) None Some x(1) i(2)
      by (intro replaced [of "fst x"]) (auto simp: graphene_count_def update_conv' delete_conv' case_prod_beta)
  qed
qed

lemma graphene_count_distinct:
  "graphene_count order T row t s = (refresh, t', s') \<Longrightarrow> distinct (map fst t) \<Longrightarrow> distinct (map fst t')"
  by (auto simp: graphene_count_def distinct_update distinct_delete split: option.splits if_splits)

lemma counters_step:
  assumes c: "graphene_count order T row t s = (refresh, t', s')" and t: "distinct (map fst t)" "mset (order t) = mset t"
    and ok: "counters_ok N T W e (map_of t) s"
    and e': "e' row = (if refresh then 0 else e row + 1)" "\<And>k. k \<noteq> row \<Longrightarrow> e' k = e k"
  shows "counters_ok N T (W + 1) e' (map_of t') s'"
proof -
  let ?m = "map_of t"
  have fin: "finite (dom ?m)" and card: "card (dom ?m) = N" and s: "0 \<le> s"
    and tracked: "\<And>k v. ?m k = Some v \<Longrightarrow> s \<le> v \<and> e k \<le> v \<and> (v < T \<or> v \<le> s + 1)"
    and untracked: "\<And>k. ?m k = None \<Longrightarrow> e k \<le> s" and sum: "(\<Sum>k\<in>dom ?m. the (?m k)) + s \<le> W"
    using ok by (auto simp: counters_ok_def)
  from c t show ?thesis
  proof (cases rule: graphene_count_map)
    case (hit n)
    have "dom (map_of t') = dom ?m" using hit by auto
    moreover have "(\<Sum>k\<in>dom (map_of t'). the (map_of t' k)) + s \<le> W + 1"
      unfolding hit(3) sum_update [OF fin hit(1)] using sum by simp
    ultimately show ?thesis using hit fin card s tracked untracked e'
      by (auto simp: counters_ok_def) (smt (verit))+
  next
    case (mitigated n)
    have "dom (map_of t') = dom ?m" using mitigated by auto
    moreover have "(\<Sum>k\<in>dom (map_of t'). the (map_of t' k)) + s \<le> W + 1"
      unfolding mitigated(3) sum_update [OF fin mitigated(1)] using sum tracked [OF mitigated(1)] by simp
    ultimately show ?thesis using mitigated fin card s tracked untracked e'
      by (auto simp: counters_ok_def)
  next
    case (replaced k)
    have d: "dom (map_of t') = insert row (dom ?m - {k})" using replaced by auto
    have "row \<notin> dom ?m" "k \<in> dom ?m" using replaced by auto
    then have "card (dom (map_of t')) = N" unfolding d using fin card by (simp add: card.insert_remove card_Diff_singleton)
      (metis Suc_pred card_gt_0_iff empty_iff)
    moreover have "(\<Sum>k\<in>dom (map_of t'). the (map_of t' k)) + s \<le> W + 1"
      unfolding replaced(3) sum_replace [OF fin replaced(2,1)] using sum by simp
    moreover have "e k \<le> s" using tracked [OF replaced(2)] by simp
    ultimately show ?thesis using replaced fin d s tracked untracked e' 
      by (auto simp: counters_ok_def)
  next
    case spilled
    have "s + 1 \<le> v \<and> e k \<le> v" if "?m k = Some v" for k v
      using tracked [OF that] spilled(2) [of k] that by (cases "v = s") auto
    then show ?thesis using spilled fin card s tracked untracked e' sum
      by (auto simp: counters_ok_def) (smt (verit) option.distinct(1))+
  qed
qed

subsection \<open>Histories\<close>

text \<open>The activations of a row since its last preventive refresh or the last reset of the tables,
  and those of a bank since the last reset. The call number \<open>n\<close>, counted from 0, resets the tables
  when \<open>n\<close> is a multiple of the period.\<close>

definition graphene_exposure :: "dram_spec \<Rightarrow> row_hammer \<Rightarrow> int \<Rightarrow> hook_event list \<Rightarrow> int \<Rightarrow> int \<Rightarrow> nat" where
  "graphene_exposure spec rh P h b row =
     count_since (\<lambda>n _. int n mod P = 0) (mitigation spec rh b row) (activation spec rh b row) h"

definition graphene_window :: "dram_spec \<Rightarrow> row_hammer \<Rightarrow> int \<Rightarrow> hook_event list \<Rightarrow> int \<Rightarrow> nat" where
  "graphene_window spec rh P h b =
     count_since (\<lambda>n _. int n mod P = 0) (\<lambda>_. False) (\<lambda>e. \<exists>row. activation spec rh b row e) h"

lemma mod_add_one:
  fixes n :: int
  assumes "0 < P" "(n + 1) mod P \<noteq> 0"
  shows "(n + 1) mod P = n mod P + 1"
proof -
  have e: "(n + 1) mod P = (n mod P + 1) mod P" by (simp add: mod_add_left_eq)
  have "n mod P + 1 \<noteq> P" using assms(2) e by auto
  then have "n mod P + 1 < P" using pos_mod_bound [OF assms(1), of n] by linarith
  moreover have "0 \<le> n mod P" using assms(1) by simp
  ultimately show ?thesis unfolding e by (intro mod_pos_pos_trivial) auto
qed

lemma window_at_most_period:
  assumes "0 < P"
  shows "int (graphene_window spec rh P h b) \<le> P"
proof (cases h)
  case Nil
  then show ?thesis using assms by (simp add: graphene_window_def)
next
  case (Cons e g)
  have "int (graphene_window spec rh P (e # g) b) \<le> int (length g) mod P + 1" for e g
  proof (induction g arbitrary: e)
    case Nil
    then show ?case by (simp add: graphene_window_def)
  next
    case (Cons f g)
    show ?case
    proof (cases "int (length (f # g)) mod P = 0")
      case True
      then show ?thesis by (simp add: graphene_window_def)
    next
      case False
      have "int (graphene_window spec rh P (e # f # g) b) \<le> 1 + int (graphene_window spec rh P (f # g) b)"
        by (simp add: graphene_window_def)
      moreover have "(int (length g) + 1) mod P = int (length g) mod P + 1"
        by (rule mod_add_one) (use False assms in \<open>simp_all add: add.commute\<close>)
      ultimately show ?thesis using Cons.IH [of f] by (simp add: add.commute)
    qed
  qed
  from this [of e g] show ?thesis unfolding Cons using pos_mod_bound [OF assms, of "int (length g)"] by linarith
qed

text \<open>All banks together, for given true counts.\<close>

definition graphene_ok ::
  "row_hammer \<Rightarrow> int \<Rightarrow> nat \<Rightarrow> int \<Rightarrow> int \<Rightarrow> (int \<Rightarrow> int) \<Rightarrow> (int \<Rightarrow> int \<Rightarrow> int) \<Rightarrow> Graphene \<Rightarrow> bool" where
  "graphene_ok rh T N P clk W e p \<longleftrightarrow>
     gr_dev p = rh \<and> m_activation_threshold p = T \<and> m_reset_period_clk p = P \<and> gr_clk p = clk
     \<and> length (m_spillover_counter p) = length (m_activation_count_table p)
     \<and> (\<forall>b. in_vec (m_activation_count_table p) b \<longrightarrow>
          distinct (map fst (m_activation_count_table p ! nat b))
          \<and> counters_ok N T (W b) (e b) (map_of (m_activation_count_table p ! nat b)) (m_spillover_counter p ! nat b))
     \<and> (\<forall>b. \<not> in_vec (m_activation_count_table p) b \<longrightarrow> W b = 0 \<and> e b = (\<lambda>_. 0))"

lemma counters_reset:
  assumes "counters_ok N T W e m s"
  shows "counters_ok N T 0 (\<lambda>_. 0) (map_option (\<lambda>_. 0) \<circ> m) 0"
proof -
  have "dom (map_option (\<lambda>_. 0 :: int) \<circ> m) = dom m" by (auto simp: dom_def)
  moreover have "(\<Sum>k\<in>dom m. the (map_option (\<lambda>_. 0) (m k))) = (0 :: int)" by (rule sum.neutral) auto
  ultimately show ?thesis using assms by (auto simp: counters_ok_def)
qed

lemma graphene_tick_ok:
  assumes "graphene_ok rh T N P clk W e p"
  shows "graphene_ok rh T N P (clk + 1) (\<lambda>b. if (clk + 1) mod P = 0 then 0 else W b)
    (\<lambda>b. if (clk + 1) mod P = 0 then (\<lambda>_. 0) else e b) (Graphene_tick p)"
proof (cases "(clk + 1) mod P = 0")
  case False
  then show ?thesis using assms by (simp add: graphene_ok_def Graphene_tick_def Let_def)
next
  case True
  let ?q = "Graphene_reset (p\<lparr>gr_clk := gr_clk p + 1\<rparr>)"
  have q: "Graphene_tick p = ?q" using True assms by (simp add: graphene_ok_def Graphene_tick_def Let_def)
  have len: "length (m_activation_count_table ?q) = length (m_activation_count_table p)"
    "length (m_spillover_counter ?q) = length (m_spillover_counter p)" by (simp_all add: Graphene_reset_def)
  have "distinct (map fst (m_activation_count_table ?q ! nat b))
      \<and> counters_ok N T 0 (\<lambda>_. 0) (map_of (m_activation_count_table ?q ! nat b)) (m_spillover_counter ?q ! nat b)"
    if b: "in_vec (m_activation_count_table p) b" for b
  proof -
    have i: "nat b < length (m_activation_count_table p)" "nat b < length (m_spillover_counter p)"
      using in_vec_nat [OF b] assms by (simp_all add: graphene_ok_def)
    have "distinct (map fst (m_activation_count_table p ! nat b))"
      "counters_ok N T (W b) (e b) (map_of (m_activation_count_table p ! nat b)) (m_spillover_counter p ! nat b)"
      using assms b by (auto simp: graphene_ok_def)
    moreover have "map_of (map (\<lambda>(k, _). (k, 0 :: int)) t) = map_option (\<lambda>_. 0) \<circ> map_of t" for t :: "(int \<times> int) list"
      by (rule map_of_map)
    moreover have "map fst (map (\<lambda>(k, _). (k, 0 :: int)) t) = map fst t" for t :: "(int \<times> int) list"
      by auto
    ultimately show ?thesis using i counters_reset
      by (simp add: Graphene_reset_def del: map_map)
  qed
  then show ?thesis using True assms len unfolding graphene_ok_def q in_vec_length [OF len(1)] by simp
qed

lemma graphene_activate_ok:
  assumes ok: "graphene_ok rh T N P clk W e p" and perm: "\<And>n t. mset (order n t) = mset t"
    and a: "Graphene_activate order (log_send accept) r b row (p, []) = Ok (p', sent)"
  shows "graphene_ok rh T N P clk (W(b := W b + 1))
    (e(b := (e b)(row := if sent = [] then e b row + 1 else 0))) p'"
proof -
  let ?t = "m_activation_count_table p ! nat b" and ?s = "m_spillover_counter p ! nat b"
  obtain refresh t' s' where c: "graphene_count (order (gr_clk p)) T row ?t ?s = (refresh, t', s')"
    by (metis prod_cases3)
  have inb: "in_vec (m_activation_count_table p) b" and sent: "sent = (if refresh then [vrr_request rh r] else [])"
    and p': "p' = p\<lparr>m_activation_count_table := (m_activation_count_table p)[nat b := t'],
                   m_spillover_counter := (m_spillover_counter p)[nat b := s']\<rparr>"
    using a c ok by (auto simp: Graphene_activate_def graphene_ok_def result_simps log_send_vrr split: if_splits)
  have bank: "distinct (map fst ?t)" "counters_ok N T (W b) (e b) (map_of ?t) ?s"
    using ok inb by (auto simp: graphene_ok_def)
  have len: "nat b < length (m_activation_count_table p)" "nat b < length (m_spillover_counter p)"
    using ok inb in_vec_nat by (auto simp: graphene_ok_def)
  have step: "counters_ok N T (W b + 1) ((e b)(row := if sent = [] then e b row + 1 else 0)) (map_of t') s'"
    by (rule counters_step [OF c bank(1) perm bank(2)]) (simp_all add: sent)
  have dist: "distinct (map fst t')" by (rule graphene_count_distinct [OF c bank(1)])
  have other: "nat b' \<noteq> nat b" if "in_vec (m_activation_count_table p) b'" "b' \<noteq> b" for b'
    using that inb by (auto simp: in_vec_def)
  have "distinct (map fst (m_activation_count_table p' ! nat b')) \<and>
      counters_ok N T ((W(b := W b + 1)) b') ((e(b := (e b)(row := if sent = [] then e b row + 1 else 0))) b')
        (map_of (m_activation_count_table p' ! nat b')) (m_spillover_counter p' ! nat b')"
    if b': "in_vec (m_activation_count_table p) b'" for b'
  proof (cases "b' = b")
    case True
    then show ?thesis using step dist len by (simp add: p')
  next
    case False
    then show ?thesis using ok b' other [OF b' False] by (simp add: p' graphene_ok_def)
  qed
  then show ?thesis using ok inb by (auto simp: graphene_ok_def p')
qed

definition graphene_inv :: "dram_spec \<Rightarrow> row_hammer \<Rightarrow> int \<Rightarrow> nat \<Rightarrow> int \<Rightarrow> Graphene \<Rightarrow> hook_event list \<Rightarrow> bool" where
  "graphene_inv spec rh T N P p h \<longleftrightarrow>
     graphene_ok rh T N P (int (length h) - 1) (\<lambda>b. int (graphene_window spec rh P h b))
       (\<lambda>b row. int (graphene_exposure spec rh P h b row)) p"

lemma graphene_inv_step:
  assumes inv: "graphene_inv spec rh T N P p h" and perm: "\<And>n t. mset (order n t) = mset t"
    and u: "Graphene_update order (log_send accept) spec req (p, []) = Ok (p', sent)"
  shows "graphene_inv spec rh T N P p' ((req, sent) # h)"
proof -
  let ?fresh = "int (length h) mod P = 0"
  let ?W = "\<lambda>b. if ?fresh then 0 else int (graphene_window spec rh P h b)"
  let ?e = "\<lambda>b. if ?fresh then (\<lambda>_. 0) else (\<lambda>row. int (graphene_exposure spec rh P h b row))"
  have tick: "graphene_ok rh T N P (int (length h)) ?W ?e (Graphene_tick p)"
    using graphene_tick_ok [OF inv [unfolded graphene_inv_def]] by simp
  then have dev: "gr_dev p = rh" by (simp add: graphene_ok_def)
  have idle: "graphene_inv spec rh T N P p' ((req, sent) # h)"
    if "p' = Graphene_tick p" "\<And>b row. \<not> activation spec rh b row (req, sent)"
  proof -
    have "int (graphene_window spec rh P ((req, sent) # h) b) = ?W b"
      "int (graphene_exposure spec rh P ((req, sent) # h) b row) = ?e b row" for b row
      using that(2) by (simp_all add: graphene_window_def graphene_exposure_def mitigation_def)
    then show ?thesis using tick that(1) by (simp add: graphene_inv_def)
  qed
  show ?thesis
  proof (cases req)
    case None
    then show ?thesis using u idle by (simp add: Graphene_update_def activation_def split: if_splits)
  next
    case (Some r)
    then obtain opened where o: "row_opened spec rh r = Ok opened"
      using u dev by (auto simp: Graphene_update_def Let_def result_simps split: if_splits)
    show ?thesis
    proof (cases opened)
      case None
      then show ?thesis using u o dev idle \<open>req = Some r\<close>
        by (simp add: Graphene_update_def Let_def activation_def split: if_splits)
    next
      case (Some x)
      then obtain b row where x: "opened = Some (b, row)" by (cases x) auto
      have a: "Graphene_activate order (log_send accept) r b row (Graphene_tick p, []) = Ok (p', sent)"
        using u o dev x \<open>req = Some r\<close> by (simp add: Graphene_update_def Let_def split: if_splits)
      have act: "activation spec rh b' row' (req, sent) \<longleftrightarrow> b' = b \<and> row' = row" for b' row'
        using o x \<open>req = Some r\<close> by (auto simp: activation_def)
      have W: "(\<lambda>b. int (graphene_window spec rh P ((req, sent) # h) b)) = ?W(b := ?W b + 1)"
        by (rule ext) (simp add: graphene_window_def act)
      have e: "(\<lambda>b row. int (graphene_exposure spec rh P ((req, sent) # h) b row))
          = ?e(b := (?e b)(row := if sent = [] then ?e b row + 1 else 0))"
        unfolding graphene_exposure_def count_since.simps mitigation_def act by (intro ext) simp
      show ?thesis
        unfolding graphene_inv_def W e using graphene_activate_ok [OF tick perm a] by simp
    qed
  qed
qed

lemma graphene_inv_start:
  assumes "Graphene_setup cfg spec = Ok p"
  shows "graphene_inv spec (gr_dev p) (m_activation_threshold p) (nat (m_num_table_entries p)) (m_reset_period_clk p) p []"
proof -
  let ?t = "graphene_empty_table (rh_num_rows_per_bank (gr_dev p)) (m_num_table_entries p)"
  have p: "gr_clk p = -1" "m_activation_count_table p = replicate (nat (total_banks (gr_dev p))) ?t"
    "m_spillover_counter p = replicate (nat (total_banks (gr_dev p))) 0"
    using assms by (auto simp: Graphene_setup_def result_simps split: option.splits if_splits)
  let ?is = "[- rh_num_rows_per_bank (gr_dev p) .. - rh_num_rows_per_bank (gr_dev p) + m_num_table_entries p - 1]"
  have m: "map_of ?t = (\<lambda>k. if k \<in> set ?is then Some 0 else None)"
    by (auto simp: graphene_empty_table_def map_of_map_restrict restrict_map_def fun_eq_iff comp_def)
  have "dom (map_of ?t) = set ?is" by (auto simp: m dom_def)
  moreover have "(\<Sum>k\<in>dom (map_of ?t). the (map_of ?t k)) = 0" by (rule sum.neutral) (auto simp: m)
  ultimately have "counters_ok (nat (m_num_table_entries p)) T 0 (\<lambda>_. 0) (map_of ?t) 0" for T
    by (auto simp: counters_ok_def m)
  moreover have "distinct (map fst ?t)" by (simp add: graphene_empty_table_def comp_def)
  ultimately show ?thesis
    by (auto simp: graphene_inv_def graphene_ok_def p graphene_window_def graphene_exposure_def in_vec_def nat_less_iff)
qed

text \<open>C@graphene_bounds_exposure: under \<open>Graphene\<close>, in whatever order its tables are searched and
  whatever the controller does with its requests, the number of activations of a row since its last
  preventive refresh and the last reset stays below the threshold or below \<open>W div (N + 1) + 2\<close>, for
  \<open>W\<close> activations of its bank since the reset and tables of \<open>N\<close> entries. When the reset period is
  shorter than \<open>(N + 1) * (T - 1)\<close> cycles, no row ever reaches the threshold \<open>T\<close>.\<close>

theorem graphene_bounds_exposure:
  assumes "Graphene_setup cfg spec = Ok p" and "\<And>n t. mset (order n t) = mset t"
    and "hook_run (Graphene_update order (log_send accept) spec) calls p = Ok (p', h)"
    and "T = m_activation_threshold p" "P = m_reset_period_clk p" "N = nat (m_num_table_entries p)"
  shows "int (graphene_exposure spec (gr_dev p) P h b row)
      < max T (int (graphene_window spec (gr_dev p) P h b) div (int N + 1) + 2)
    \<and> (0 < P \<and> P < (int N + 1) * (T - 1) \<longrightarrow> int (graphene_exposure spec (gr_dev p) P h b row) < T)"
proof -
  have "graphene_inv spec (gr_dev p) T N P p' h"
    unfolding assms(4,5,6)
    by (rule hook_run_rule [OF assms(3), where I = "graphene_inv spec (gr_dev p) (m_activation_threshold p)
          (nat (m_num_table_entries p)) (m_reset_period_clk p)"])
      (fact graphene_inv_start [OF assms(1)], rule graphene_inv_step [OF _ assms(2)])
  then have ok: "graphene_ok (gr_dev p) T N P (int (length h) - 1) (\<lambda>b. int (graphene_window spec (gr_dev p) P h b))
      (\<lambda>b row. int (graphene_exposure spec (gr_dev p) P h b row)) p'"
    by (simp add: graphene_inv_def)
  have bound: "int (graphene_exposure spec (gr_dev p) P h b row)
      < max T (int (graphene_window spec (gr_dev p) P h b) div (int N + 1) + 2)"
  proof (cases "in_vec (m_activation_count_table p') b")
    case True
    then show ?thesis using ok counters_bound by (fastforce simp: graphene_ok_def)
  next
    case False
    then have "int (graphene_window spec (gr_dev p) P h b) = 0"
      "int (graphene_exposure spec (gr_dev p) P h b row) = 0"
      using ok by (auto simp: graphene_ok_def fun_eq_iff)
    then show ?thesis by simp
  qed
  moreover have "int (graphene_window spec (gr_dev p) P h b) div (int N + 1) + 2 \<le> T" if "0 < P" "P < (int N + 1) * (T - 1)"
  proof -
    have "int (graphene_window spec (gr_dev p) P h b) < (T - 1) * (int N + 1)"
      using window_at_most_period [OF that(1), of spec "gr_dev p" h b] that(2) by (simp add: mult.commute)
    moreover have "int (graphene_window spec (gr_dev p) P h b) div (int N + 1) * (int N + 1)
        \<le> int (graphene_window spec (gr_dev p) P h b)"
      using div_mult_mod_eq [of "int (graphene_window spec (gr_dev p) P h b)" "int N + 1"]
        pos_mod_sign [of "int N + 1" "int (graphene_window spec (gr_dev p) P h b)"] by linarith
    ultimately have "int (graphene_window spec (gr_dev p) P h b) div (int N + 1) * (int N + 1) < (T - 1) * (int N + 1)"
      by linarith
    then have "int (graphene_window spec (gr_dev p) P h b) div (int N + 1) < T - 1"
      by (simp only: mult_less_cancel_right_pos)
    then show ?thesis by simp
  qed
  ultimately show ?thesis by auto
qed

text \<open>Two entries per bank, threshold 3, tables reset every four cycles: the third activation of a
  row has it refreshed.\<close>

definition small_graphene :: graphene_config where
  "small_graphene = \<lparr>cfg_num_table_entries = Some 2, cfg_activation_threshold = Some 3, cfg_reset_period_ns = Some 4\<rparr>"

theorem graphene_bounds_exposure_witness:
  "\<exists>p p' h. Graphene_setup small_graphene small_vrr_spec = Ok p
     \<and> hook_run (Graphene_update (\<lambda>_ t. t) (log_send (\<lambda>_ _. False)) small_vrr_spec)
         (replicate 3 (Some (small_activation 1 3))) p = Ok (p', h)
     \<and> snd (hd h) \<noteq> [] \<and> int (graphene_exposure small_vrr_spec (gr_dev p) 4 h 1 3) < 3"
proof -
  let ?calls = "replicate 3 (Some (small_activation 1 3))"
  have "case Graphene_setup small_graphene small_vrr_spec of Inl _ \<Rightarrow> False | Inr p \<Rightarrow>
      m_reset_period_clk p = 4 \<and> m_activation_threshold p = 3 \<and> m_num_table_entries p = 2 \<and>
      (case hook_run (Graphene_update (\<lambda>_ t. t) (log_send (\<lambda>_ _. False)) small_vrr_spec) ?calls p of
         Inl _ \<Rightarrow> False | Inr (p', h) \<Rightarrow> snd (hd h) \<noteq> [])"
    by code_simp
  then obtain p p' h where p: "Graphene_setup small_graphene small_vrr_spec = Ok p"
      "m_reset_period_clk p = 4" "m_activation_threshold p = 3" "m_num_table_entries p = 2"
    and h: "hook_run (Graphene_update (\<lambda>_ t. t) (log_send (\<lambda>_ _. False)) small_vrr_spec) ?calls p = Ok (p', h)"
      "snd (hd h) \<noteq> []"
    by (auto split: sum.splits)
  have "int (graphene_exposure small_vrr_spec (gr_dev p) 4 h 1 3) < 3"
    using graphene_bounds_exposure [OF p(1) _ h(1), of 3 4 2 1 3] p(2-4) by simp
  with p(1) h show ?thesis by blast
qed

end
