(* ===== verification/TWiCe.thy ===== *)
theory TWiCe
  imports Row_Hammer Float32
begin

text \<open>
  \<^verbatim>\<open>src/src/dram_controller/impl/plugin/twice.cpp\<close>: counters of activated rows that are given up
  when they grow too slowly from refresh to refresh. The tables of all banks are pruned whichever
  rank is refreshed.
\<close>

subsection \<open>The plugin\<close>

record TwiCeEntry =
  act_count :: int
  entry_life :: int

record TWiCeIdeal =
  tw_dev :: row_hammer
  m_twice_rh_threshold :: int
  m_twice_pruning_interval_threshold :: rat
  m_twice_table :: "(int \<rightharpoonup> TwiCeEntry) list"

definition TWiCe_setup :: "int option \<Rightarrow> rat option \<Rightarrow> dram_spec \<Rightarrow> TWiCeIdeal result" where
  "TWiCe_setup rh_threshold pruning spec =
     (case (rh_threshold, pruning) of
        (Some rh_threshold, Some pruning) \<Rightarrow> andThen (row_hammer_setup spec) (\<lambda>rh.
          Ok \<lparr>tw_dev = rh, m_twice_rh_threshold = rh_threshold, m_twice_pruning_interval_threshold = pruning,
              m_twice_table = replicate (nat (total_banks rh)) Map.empty\<rparr>)
      | _ \<Rightarrow> Err (Configuration_error ''Param is required but not given''))"

text \<open>\<open>act_count < life * m_twice_pruning_interval_threshold\<close>, computed in single precision.\<close>

definition to_be_pruned :: "rat \<Rightarrow> TwiCeEntry \<Rightarrow> bool" where
  "to_be_pruned threshold e \<longleftrightarrow>
     float32 (of_int (act_count e)) < float32 (float32 (of_int (entry_life e)) * threshold)"

definition twice_prune :: "rat \<Rightarrow> (int \<rightharpoonup> TwiCeEntry) \<Rightarrow> (int \<rightharpoonup> TwiCeEntry)" where
  "twice_prune threshold t row =
     (case t row of
        None \<Rightarrow> None
      | Some e \<Rightarrow> if to_be_pruned threshold e then None else Some (e\<lparr>entry_life := entry_life e + 1\<rparr>))"

definition TWiCe_activate ::
  "(request \<Rightarrow> 'c \<Rightarrow> (bool \<times> 'c) result) \<Rightarrow> request \<Rightarrow> int \<Rightarrow> int \<Rightarrow> TWiCeIdeal \<times> 'c \<Rightarrow> (TWiCeIdeal \<times> 'c) result" where
  "TWiCe_activate send r b row = (\<lambda>(p, c).
     andThen (vec_at (m_twice_table p) b) (\<lambda>t.
       case t row of
         None \<Rightarrow> Ok (p\<lparr>m_twice_table := (m_twice_table p)[nat b := t(row \<mapsto> \<lparr>act_count = 1, entry_life = 0\<rparr>)]\<rparr>, c)
       | Some e \<Rightarrow>
           if act_count e + 1 \<ge> m_twice_rh_threshold p
           then andThen (send_vrr send (tw_dev p) r c) (\<lambda>c.
                Ok (p\<lparr>m_twice_table := (m_twice_table p)[nat b := t(row := None)]\<rparr>, c))
           else Ok (p\<lparr>m_twice_table := (m_twice_table p)
                  [nat b := t(row \<mapsto> e\<lparr>act_count := act_count e + 1\<rparr>)]\<rparr>, c)))"

definition TWiCe_update ::
  "(request \<Rightarrow> 'c \<Rightarrow> (bool \<times> 'c) result) \<Rightarrow> dram_spec \<Rightarrow> request option \<Rightarrow> TWiCeIdeal \<times> 'c
    \<Rightarrow> (TWiCeIdeal \<times> 'c) result" where
  "TWiCe_update send spec req = (\<lambda>(p, c).
     case req of
       None \<Rightarrow> Ok (p, c)
     | Some r \<Rightarrow>
         andThen (rank_refreshed spec (tw_dev p) r) (\<lambda>refreshed.
           if refreshed
           then Ok (p\<lparr>m_twice_table := map (twice_prune (m_twice_pruning_interval_threshold p)) (m_twice_table p)\<rparr>, c)
           else andThen (row_opened spec (tw_dev p) r) (\<lambda>opened.
             case opened of
               Some (b, row) \<Rightarrow> TWiCe_activate send r b row (p, c)
             | None \<Rightarrow> Ok (p, c))))"

lemma TWiCe_activate_effect:
  assumes "TWiCe_activate send r b row (p, c) = Ok (p', c')"
  shows "\<exists>v. in_vec (m_twice_table p) b
    \<and> p' = p\<lparr>m_twice_table := (m_twice_table p)[nat b := (m_twice_table p ! nat b)(row := v)]\<rparr>
    \<and> (case (m_twice_table p ! nat b) row of
         None \<Rightarrow> v = Some \<lparr>act_count = 1, entry_life = 0\<rparr> \<and> c' = c
       | Some e \<Rightarrow>
           if act_count e + 1 \<ge> m_twice_rh_threshold p then v = None \<and> send_vrr send (tw_dev p) r c = Ok c'
           else v = Some (e\<lparr>act_count := act_count e + 1\<rparr>) \<and> c' = c)"
  using assms
  by (cases "(m_twice_table p ! nat b) row") (auto simp: TWiCe_activate_def result_simps split: if_splits)

interpretation twice: row_hammer_defense TWiCe_update
  "\<lambda>p. rh_VRR_req_id (tw_dev p)" "\<lambda>p. rh_row_level (tw_dev p)"
proof
  fix send :: "request \<Rightarrow> 'c \<Rightarrow> (bool \<times> 'c) result" and spec p c p' c' q
  show "TWiCe_update send spec None (p, c) = Ok (p', c') \<Longrightarrow> c' = c" by (simp add: TWiCe_update_def)
  assume u: "TWiCe_update send spec (Some q) (p, c) = Ok (p', c')"
  show "c' = c \<or> command_is is_opening (rh_row_level (tw_dev p)) spec (command q) = Ok True
      \<and> (\<exists>b. send (Request_addr_vec (addr_vec q) (rh_VRR_req_id (tw_dev p))) c = Ok (b, c'))"
    using u row_opened_opens [of spec "tw_dev p" q]
    by (auto simp: TWiCe_update_def result_simps send_vrr_Ok dest!: TWiCe_activate_effect
        split: option.splits if_splits)
qed

subsection \<open>What giving up a counter may lose\<close>

text \<open>The slack of the three roundings of the comparison.\<close>

definition pruning_rate :: "rat \<Rightarrow> rat" where
  "pruning_rate threshold = threshold * (1 + 1 / 2 ^ 22)"

lemma pruned_entry:
  assumes "to_be_pruned threshold e" "0 \<le> act_count e" "0 \<le> entry_life e" "0 \<le> threshold"
  shows "of_int (act_count e) \<le> of_int (entry_life e) * pruning_rate threshold"
proof -
  let ?a = "of_int (act_count e) :: rat" and ?l = "of_int (entry_life e) :: rat" and ?d = "1 / 2 ^ 24 :: rat"
  have a: "0 \<le> ?a" and l: "0 \<le> ?l" using assms by simp_all
  have "?a * (1 - ?d) \<le> float32 ?a" using abs_le_D2 [OF float32_error [OF a]] by (simp add: algebra_simps)
  also have "\<dots> \<le> float32 (float32 ?l * threshold)" using assms(1) by (simp add: to_be_pruned_def)
  also have "\<dots> \<le> float32 ?l * threshold * (1 + ?d)"
    by (rule float32_upper) (use float32_nonneg [OF l] assms(4) in simp)
  also have "\<dots> \<le> ?l * (1 + ?d) * threshold * (1 + ?d)"
    using float32_upper [OF l] assms(4) by (intro mult_right_mono) auto
  also have "\<dots> = ?l * threshold * ((1 + ?d) * (1 + ?d))" by (simp add: algebra_simps)
  also have "\<dots> \<le> ?l * threshold * ((1 + 1 / 2 ^ 22) * (1 - ?d))"
    using l assms(4) by (intro mult_left_mono) auto
  also have "\<dots> = (?l * pruning_rate threshold) * (1 - ?d)" by (simp add: pruning_rate_def)
  finally show ?thesis by simp
qed

definition refresh_event :: "dram_spec \<Rightarrow> row_hammer \<Rightarrow> hook_event \<Rightarrow> bool" where
  "refresh_event spec rh e \<longleftrightarrow> (case fst e of None \<Rightarrow> False | Some r \<Rightarrow> rank_refreshed spec rh r = Ok True)"

definition counted_activation :: "dram_spec \<Rightarrow> row_hammer \<Rightarrow> int \<Rightarrow> int \<Rightarrow> hook_event \<Rightarrow> bool" where
  "counted_activation spec rh b row e \<longleftrightarrow> activation spec rh b row e \<and> \<not> refresh_event spec rh e"

definition counted_mitigation :: "dram_spec \<Rightarrow> row_hammer \<Rightarrow> int \<Rightarrow> int \<Rightarrow> hook_event \<Rightarrow> bool" where
  "counted_mitigation spec rh b row e \<longleftrightarrow> counted_activation spec rh b row e \<and> snd e \<noteq> []"

text \<open>The activations of a row and the refreshes seen since its last preventive refresh.\<close>

definition twice_exposure :: "dram_spec \<Rightarrow> row_hammer \<Rightarrow> hook_event list \<Rightarrow> int \<Rightarrow> int \<Rightarrow> nat" where
  "twice_exposure spec rh h b row =
     count_since (\<lambda>_ _. False) (counted_mitigation spec rh b row) (counted_activation spec rh b row) h"

definition twice_refreshes :: "dram_spec \<Rightarrow> row_hammer \<Rightarrow> hook_event list \<Rightarrow> int \<Rightarrow> int \<Rightarrow> nat" where
  "twice_refreshes spec rh h b row =
     count_since (\<lambda>_ _. False) (counted_mitigation spec rh b row) (refresh_event spec rh) h"

text \<open>A counter never claims less than the truth minus what its predecessors may have lost.\<close>

fun counter_ok :: "int \<Rightarrow> rat \<Rightarrow> nat \<Rightarrow> nat \<Rightarrow> TwiCeEntry option \<Rightarrow> bool" where
  "counter_ok T c A K None \<longleftrightarrow> of_nat A \<le> c * of_nat K"
| "counter_ok T c A K (Some e) \<longleftrightarrow> 1 \<le> act_count e \<and> act_count e < max 2 T \<and> 0 \<le> entry_life e
     \<and> of_nat A \<le> of_int (act_count e) + c * (of_nat K - of_int (entry_life e))"

lemma entry_bound:
  assumes "counter_ok T c A K e" "0 \<le> c"
  shows "of_nat A < of_int (max 2 T) + c * of_nat K"
proof (cases e)
  case None
  have "(0 :: rat) < of_int (max 2 T)" by simp
  then show ?thesis using assms None by (simp only: counter_ok.simps)
next
  case (Some x)
  then have "act_count x < max 2 T" "0 \<le> entry_life x"
    and A: "of_nat A \<le> of_int (act_count x) + c * (of_nat K - of_int (entry_life x))"
    using assms by simp_all
  then have "of_int (act_count x) < (of_int (max 2 T) :: rat)" "0 \<le> c * of_int (entry_life x)"
    using assms(2) by (simp_all only: of_int_less_iff, simp)
  moreover have "c * (of_nat K - of_int (entry_life x)) = c * of_nat K - c * of_int (entry_life x)"
    by (simp add: algebra_simps)
  ultimately show ?thesis using A by linarith
qed

lemma entry_prune:
  assumes "counter_ok T (pruning_rate threshold) A K (t row)" "0 \<le> threshold"
  shows "counter_ok T (pruning_rate threshold) A (Suc K) (twice_prune threshold t row)"
proof (cases "t row")
  case None
  moreover have "0 \<le> pruning_rate threshold" using assms(2) by (simp add: pruning_rate_def)
  ultimately show ?thesis using assms by (simp add: twice_prune_def algebra_simps)
next
  case (Some e)
  show ?thesis
  proof (cases "to_be_pruned threshold e")
    case True
    have "of_int (act_count e) \<le> of_int (entry_life e) * pruning_rate threshold"
      by (rule pruned_entry [OF True]) (use assms Some in auto)
    moreover have "0 \<le> pruning_rate threshold" using assms(2) by (simp add: pruning_rate_def)
    ultimately show ?thesis using True Some assms(1) by (simp add: twice_prune_def algebra_simps)
  next
    case False
    then show ?thesis using Some assms(1) by (simp add: twice_prune_def)
  qed
qed

definition twice_inv :: "dram_spec \<Rightarrow> row_hammer \<Rightarrow> int \<Rightarrow> rat \<Rightarrow> TWiCeIdeal \<Rightarrow> hook_event list \<Rightarrow> bool" where
  "twice_inv spec rh T threshold p h \<longleftrightarrow>
     tw_dev p = rh \<and> m_twice_rh_threshold p = T \<and> m_twice_pruning_interval_threshold p = threshold
     \<and> (\<forall>b row. if in_vec (m_twice_table p) b
          then counter_ok T (pruning_rate threshold) (twice_exposure spec rh h b row) (twice_refreshes spec rh h b row)
                 ((m_twice_table p ! nat b) row)
          else twice_exposure spec rh h b row = 0)"

lemma twice_Cons:
  "twice_exposure spec rh (e # h) b row =
     (if counted_mitigation spec rh b row e then 0
      else (if counted_activation spec rh b row e then 1 else 0) + twice_exposure spec rh h b row)"
  "twice_refreshes spec rh (e # h) b row =
     (if counted_mitigation spec rh b row e then 0
      else (if refresh_event spec rh e then 1 else 0) + twice_refreshes spec rh h b row)"
  by (simp_all add: twice_exposure_def twice_refreshes_def)

lemma twice_inv_activate:
  assumes inv: "twice_inv spec rh T threshold p h" and o: "row_opened spec rh r = Ok (Some (b, row))"
    and n: "rank_refreshed spec rh r = Ok False"
    and a: "TWiCe_activate (log_send accept) r b row (p, []) = Ok (p', sent)"
  shows "twice_inv spec rh T threshold p' ((Some r, sent) # h)"
proof -
  have act: "counted_activation spec rh b' row' (Some r, sent) \<longleftrightarrow> b' = b \<and> row' = row" for b' row'
    using o n by (auto simp: counted_activation_def activation_def refresh_event_def)
  have nr: "refresh_event spec rh (Some r, sent) = False" using n by (simp add: refresh_event_def)
  note e = twice_Cons [of spec rh "(Some r, sent)" h, unfolded counted_mitigation_def act nr snd_conv if_False]
  obtain v where inb: "in_vec (m_twice_table p) b"
    and p': "p' = p\<lparr>m_twice_table := (m_twice_table p)[nat b := (m_twice_table p ! nat b)(row := v)]\<rparr>"
    and c: "case (m_twice_table p ! nat b) row of
         None \<Rightarrow> v = Some \<lparr>act_count = 1, entry_life = 0\<rparr> \<and> sent = []
       | Some e \<Rightarrow>
           if act_count e + 1 \<ge> m_twice_rh_threshold p
           then v = None \<and> send_vrr (log_send accept) (tw_dev p) r [] = Ok sent
           else v = Some (e\<lparr>act_count := act_count e + 1\<rparr>) \<and> sent = []"
    using TWiCe_activate_effect [OF a] by blast
  have T: "m_twice_rh_threshold p = T" using inv by (simp add: twice_inv_def)
  let ?A = "twice_exposure spec rh h b row" and ?K = "twice_refreshes spec rh h b row"
  have old: "counter_ok T (pruning_rate threshold) ?A ?K ((m_twice_table p ! nat b) row)"
    using inv inb by (simp add: twice_inv_def)
  have new: "counter_ok T (pruning_rate threshold) (if sent \<noteq> [] then 0 else 1 + ?A) (if sent \<noteq> [] then 0 else 0 + ?K) v"
  proof (cases "(m_twice_table p ! nat b) row")
    case None
    then show ?thesis using old c by simp
  next
    case (Some x)
    then show ?thesis using old c T by (auto simp: log_send_vrr split: if_splits)
  qed
  have "if in_vec (m_twice_table p') b'
      then counter_ok T (pruning_rate threshold) (twice_exposure spec rh ((Some r, sent) # h) b' row')
        (twice_refreshes spec rh ((Some r, sent) # h) b' row') ((m_twice_table p' ! nat b') row')
      else twice_exposure spec rh ((Some r, sent) # h) b' row' = 0" for b' row'
  proof (cases "in_vec (m_twice_table p) b'")
    case False
    then have "b' \<noteq> b" "twice_exposure spec rh h b' row' = 0" using inb inv by (auto simp: twice_inv_def)
    then show ?thesis using False by (simp add: p' e)
  next
    case b': True
    show ?thesis
    proof (cases "b' = b \<and> row' = row")
      case True
      then show ?thesis using new inb in_vec_nat [OF inb] by (simp add: p' e split: if_splits)
    next
      case False
      have "(m_twice_table p' ! nat b') row' = (m_twice_table p ! nat b') row'"
        using False b' inb in_vec_nat [OF inb] by (cases "b' = b") (auto simp: p' nth_list_update in_vec_def)
      moreover have "counter_ok T (pruning_rate threshold) (twice_exposure spec rh h b' row')
          (twice_refreshes spec rh h b' row') ((m_twice_table p ! nat b') row')"
        using inv b' by (simp add: twice_inv_def)
      ultimately show ?thesis using False b' by (auto simp: p' e)
    qed
  qed
  moreover have "tw_dev p' = rh \<and> m_twice_rh_threshold p' = T \<and> m_twice_pruning_interval_threshold p' = threshold"
    using inv by (simp add: twice_inv_def p')
  ultimately show ?thesis unfolding twice_inv_def by blast
qed

lemma twice_inv_step:
  assumes inv: "twice_inv spec rh T threshold p h" and c: "0 \<le> threshold"
    and u: "TWiCe_update (log_send accept) spec req (p, []) = Ok (p', sent)"
  shows "twice_inv spec rh T threshold p' ((req, sent) # h)"
proof -
  have dev: "tw_dev p = rh" "m_twice_pruning_interval_threshold p = threshold" using inv by (simp_all add: twice_inv_def)
  have idle: "twice_inv spec rh T threshold p ((req, []) # h)"
    if "\<And>b row. \<not> counted_activation spec rh b row (req, [])" "\<not> refresh_event spec rh (req, [])"
    using inv that by (simp add: twice_inv_def twice_Cons counted_mitigation_def)
  show ?thesis
  proof (cases req)
    case None
    then have "p' = p" "sent = []" using u by (simp_all add: TWiCe_update_def)
    then show ?thesis using idle None by (simp add: counted_activation_def activation_def refresh_event_def)
  next
    case (Some r)
    then obtain refreshed where f: "rank_refreshed spec rh r = Ok refreshed"
      using u dev by (auto simp: TWiCe_update_def result_simps)
    show ?thesis
    proof (cases refreshed)
      case True
      then have s: "sent = []" and p': "p' = p\<lparr>m_twice_table := map (twice_prune threshold) (m_twice_table p)\<rparr>"
        using u f dev Some by (simp_all add: TWiCe_update_def)
      have r: "refresh_event spec rh (req, [])" using f True Some by (simp add: refresh_event_def)
      then have na: "\<not> counted_activation spec rh b row (req, [])" for b row by (simp add: counted_activation_def)
      have iv: "in_vec (m_twice_table p') b = in_vec (m_twice_table p) b" for b by (simp add: p' in_vec_def)
      have "counter_ok T (pruning_rate threshold) (twice_exposure spec rh h b row)
          (Suc (twice_refreshes spec rh h b row)) ((m_twice_table p' ! nat b) row)"
        if b: "in_vec (m_twice_table p) b" for b row
        using entry_prune [OF _ c] inv b in_vec_nat [OF b] by (simp add: twice_inv_def p')
      then show ?thesis
        using inv r na unfolding twice_inv_def s twice_Cons counted_mitigation_def iv by (simp add: p')
    next
      case False
      then obtain opened where o: "row_opened spec rh r = Ok opened"
        using u f dev Some by (auto simp: TWiCe_update_def result_simps)
      show ?thesis
      proof (cases opened)
        case None
        then have "p' = p" "sent = []" using u f o dev False \<open>req = Some r\<close> by (simp_all add: TWiCe_update_def)
        then show ?thesis using idle f o False None \<open>req = Some r\<close>
          by (simp add: counted_activation_def activation_def refresh_event_def)
      next
        case (Some x)
        then obtain b row where x: "opened = Some (b, row)" by (cases x) auto
        then have "TWiCe_activate (log_send accept) r b row (p, []) = Ok (p', sent)"
          using u f o dev False \<open>req = Some r\<close> by (simp add: TWiCe_update_def)
        moreover have "rank_refreshed spec rh r = Ok False" using f False by simp
        ultimately show ?thesis using twice_inv_activate [OF inv o [unfolded x]] \<open>req = Some r\<close> by blast
      qed
    qed
  qed
qed

text \<open>C@twice_bounds_exposure: under \<open>TWiCe-Ideal\<close>, whatever the controller does with its requests, the
  activations of a row since its last preventive refresh stay below the threshold (2, for smaller
  ones) plus the pruning threshold, with the slack of single precision, for every refresh seen
  since: what is lost by giving up counters grows no faster than the refreshes.\<close>

theorem twice_bounds_exposure:
  assumes "TWiCe_setup (Some T) (Some threshold) spec = Ok p" and "0 \<le> threshold"
    and "hook_run (TWiCe_update (log_send accept) spec) calls p = Ok (p', h)"
  shows "of_nat (twice_exposure spec (tw_dev p) h b row)
    < of_int (max 2 T) + pruning_rate threshold * of_nat (twice_refreshes spec (tw_dev p) h b row)"
proof -
  have p: "m_twice_table p = replicate (nat (total_banks (tw_dev p))) Map.empty" "m_twice_rh_threshold p = T"
    "m_twice_pruning_interval_threshold p = threshold"
    using assms(1) by (auto simp: TWiCe_setup_def result_simps)
  then have "twice_inv spec (tw_dev p) T threshold p []"
    by (auto simp: twice_inv_def twice_exposure_def twice_refreshes_def in_vec_def)
  then have "twice_inv spec (tw_dev p) T threshold p' h"
    by (rule hook_run_rule [OF assms(3)]) (rule twice_inv_step [OF _ assms(2)])
  then have e: "if in_vec (m_twice_table p') b
      then counter_ok T (pruning_rate threshold) (twice_exposure spec (tw_dev p) h b row)
        (twice_refreshes spec (tw_dev p) h b row) ((m_twice_table p' ! nat b) row)
      else twice_exposure spec (tw_dev p) h b row = 0"
    by (simp add: twice_inv_def)
  have c: "0 \<le> pruning_rate threshold" using assms(2) by (simp add: pruning_rate_def)
  show ?thesis
  proof (cases "in_vec (m_twice_table p') b")
    case True
    then show ?thesis using e entry_bound [OF _ c] by simp
  next
    case False
    have "(0 :: rat) < of_int (max 2 T)" by simp
    then have "0 < of_int (max 2 T) + pruning_rate threshold * of_nat (twice_refreshes spec (tw_dev p) h b row)"
      using c by (intro add_pos_nonneg) auto
    then show ?thesis using e False by simp
  qed
qed

theorem twice_bounds_exposure_witness:
  "\<exists>p p' h. TWiCe_setup (Some 3) (Some (3 / 2)) small_vrr_spec = Ok p
     \<and> hook_run (TWiCe_update (log_send (\<lambda>_ _. True)) small_vrr_spec)
         [Some small_rank_refresh, Some small_rank_refresh, Some (small_activation 1 3)] p = Ok (p', h)
     \<and> (m_twice_table p' ! 1) 3 = None
     \<and> of_nat (twice_exposure small_vrr_spec (tw_dev p) h 1 3)
       < 3 + pruning_rate (3 / 2) * of_nat (twice_refreshes small_vrr_spec (tw_dev p) h 1 3)"
proof -
  let ?calls = "[Some small_rank_refresh, Some small_rank_refresh, Some (small_activation 1 3)]"
  have "case TWiCe_setup (Some 3) (Some (3 / 2)) small_vrr_spec of Inl _ \<Rightarrow> False | Inr p \<Rightarrow>
      (case hook_run (TWiCe_update (log_send (\<lambda>_ _. True)) small_vrr_spec) ?calls p of
         Inl _ \<Rightarrow> False | Inr (p', h) \<Rightarrow> (case (m_twice_table p' ! 1) 3 of None \<Rightarrow> True | Some _ \<Rightarrow> False))"
    by code_simp
  then obtain p p' h where p: "TWiCe_setup (Some 3) (Some (3 / 2)) small_vrr_spec = Ok p"
    and h: "hook_run (TWiCe_update (log_send (\<lambda>_ _. True)) small_vrr_spec) ?calls p = Ok (p', h)"
      "(m_twice_table p' ! 1) 3 = None"
    by (auto split: sum.splits option.splits)
  have "of_nat (twice_exposure small_vrr_spec (tw_dev p) h 1 3)
      < 3 + pruning_rate (3 / 2) * of_nat (twice_refreshes small_vrr_spec (tw_dev p) h 1 3)"
    using twice_bounds_exposure [OF p _ h(1), of 1 3] by simp
  with p h show ?thesis by blast
qed

end
