(* ===== verification/Controller_Plugins.thy ===== *)
theory Controller_Plugins
  imports Plugin Oracle_RH Graphene TWiCe
begin

text \<open>
  The plugins a controller holds (\<open>std::vector<IControllerPlugin*>\<close>) as one type, with the virtual
  \<open>setup\<close> and \<open>update\<close>: the command counter, the RowHammer defenses, and the two that only report,
  \<^verbatim>\<open>src/src/dram_controller/impl/plugin/trace_recorder.cpp\<close> and \<^verbatim>\<open>dram_timing_exporter.cpp\<close>. What
  these two write to files is the value the model returns; opening and formatting the files is left
  out.
\<close>

subsection \<open>The reporting plugins\<close>

record TraceRecorder =
  rec_clk :: int
  rec_trace :: "(int \<times> string \<times> int list) list"

definition TraceRecorder_update :: "dram_spec \<Rightarrow> request option \<Rightarrow> TraceRecorder \<Rightarrow> TraceRecorder result" where
  "TraceRecorder_update spec req p =
     (let p = p\<lparr>rec_clk := rec_clk p + 1\<rparr> in
      case req of
        None \<Rightarrow> Ok p
      | Some r \<Rightarrow> andThen (SpecDef_name (m_commands spec) (command r)) (\<lambda>name.
          Ok (p\<lparr>rec_trace := rec_trace p @ [(rec_clk p, name, addr_vec r)]\<rparr>)))"

definition DRAMTimingExporter_finalize :: "int \<Rightarrow> dram_spec \<Rightarrow> (string \<times> int) list option result" where
  "DRAMTimingExporter_finalize channel_id spec =
     (if channel_id \<noteq> 0 then Ok None
      else andThen (map_result (\<lambda>i.
             andThen (SpecDef_name (m_timings spec) i) (\<lambda>name.
             andThen (SpecLUT_id (m_timings spec) (m_timing_vals spec) i) (\<lambda>v. Ok (name, v))))
           [0 .. int (length (m_timings spec)) - 1]) (\<lambda>table. Ok (Some table)))"

subsection \<open>All plugins\<close>

text \<open>What the code leaves open: the order in which a hash table is visited in a cycle, and the
  numbers the generator of PARA draws.\<close>

record plugin_env =
  env_order :: "int \<Rightarrow> (int \<times> int) list \<Rightarrow> (int \<times> int) list"
  env_draws :: "nat \<Rightarrow> rat"

definition env_draw :: "plugin_env \<Rightarrow> nat \<Rightarrow> rat \<times> nat" where
  "env_draw env n = (env_draws env n, n + 1)"

datatype plugin_config =
    Config_CommandCounter "string list"
  | Config_OracleRH "int option"
  | Config_PARA "rat option"
  | Config_Graphene graphene_config
  | Config_TWiCe "int option" "rat option"
  | Config_TraceRecorder
  | Config_DRAMTimingExporter

datatype plugin =
    Plugin_CommandCounter CommandCounter
  | Plugin_OracleRH OracleRH
  | Plugin_PARA "nat PARA"
  | Plugin_Graphene Graphene
  | Plugin_TWiCe TWiCeIdeal
  | Plugin_TraceRecorder TraceRecorder
  | Plugin_DRAMTimingExporter

fun plugin_setup :: "dram_spec \<Rightarrow> plugin_config \<Rightarrow> plugin result" where
  "plugin_setup spec (Config_CommandCounter names) =
     andThen (CommandCounter_setup spec \<lparr>m_commands_to_count = names, m_command_counters = Map.empty\<rparr>)
       (\<lambda>p. Ok (Plugin_CommandCounter p))"
| "plugin_setup spec (Config_OracleRH tRH) = andThen (OracleRH_setup tRH spec) (\<lambda>p. Ok (Plugin_OracleRH p))"
| "plugin_setup spec (Config_PARA threshold) = andThen (PARA_setup threshold 0 spec) (\<lambda>p. Ok (Plugin_PARA p))"
| "plugin_setup spec (Config_Graphene cfg) = andThen (Graphene_setup cfg spec) (\<lambda>p. Ok (Plugin_Graphene p))"
| "plugin_setup spec (Config_TWiCe threshold pruning) =
     andThen (TWiCe_setup threshold pruning spec) (\<lambda>p. Ok (Plugin_TWiCe p))"
| "plugin_setup spec Config_TraceRecorder = Ok (Plugin_TraceRecorder \<lparr>rec_clk = 0, rec_trace = []\<rparr>)"
| "plugin_setup spec Config_DRAMTimingExporter = Ok Plugin_DRAMTimingExporter"

fun plugin_update ::
  "plugin_env \<Rightarrow> (request \<Rightarrow> 'c \<Rightarrow> (bool \<times> 'c) result) \<Rightarrow> dram_spec \<Rightarrow> request option \<Rightarrow> plugin \<times> 'c
    \<Rightarrow> (plugin \<times> 'c) result" where
  "plugin_update env send spec req (Plugin_CommandCounter p, c) =
     andThen (CommandCounter_update (req \<noteq> None) req p) (\<lambda>p. Ok (Plugin_CommandCounter p, c))"
| "plugin_update env send spec req (Plugin_OracleRH p, c) =
     andThen (OracleRH_update send spec req (p, c)) (\<lambda>(p, c). Ok (Plugin_OracleRH p, c))"
| "plugin_update env send spec req (Plugin_PARA p, c) =
     andThen (PARA_update (env_draw env) send spec req (p, c)) (\<lambda>(p, c). Ok (Plugin_PARA p, c))"
| "plugin_update env send spec req (Plugin_Graphene p, c) =
     andThen (Graphene_update (env_order env) send spec req (p, c)) (\<lambda>(p, c). Ok (Plugin_Graphene p, c))"
| "plugin_update env send spec req (Plugin_TWiCe p, c) =
     andThen (TWiCe_update send spec req (p, c)) (\<lambda>(p, c). Ok (Plugin_TWiCe p, c))"
| "plugin_update env send spec req (Plugin_TraceRecorder p, c) =
     andThen (TraceRecorder_update spec req p) (\<lambda>p. Ok (Plugin_TraceRecorder p, c))"
| "plugin_update env send spec req (Plugin_DRAMTimingExporter, c) = Ok (Plugin_DRAMTimingExporter, c)"

text \<open>Whatever plugin is called, the controller is only changed by the requests it is sent.\<close>

lemma plugin_update_keeps:
  assumes "plugin_update env send spec req (p, c) = Ok (p', c')" and "I c"
    and "\<And>q u b v. I u \<Longrightarrow> send q u = Ok (b, v) \<Longrightarrow> I v"
  shows "I c'"
  using assms(1)
proof (cases p)
  case (Plugin_OracleRH x)
  then show ?thesis using assms(1) oracle_rh.keeps_invariant [of send spec req x c _ c' I] assms(2,3)
    by (auto simp: result_simps)
next
  case (Plugin_PARA x)
  then show ?thesis using assms(1) para.keeps_invariant [of "env_draw env" send spec req x c _ c' I] assms(2,3)
    by (auto simp: result_simps)
next
  case (Plugin_Graphene x)
  then show ?thesis using assms(1) graphene.keeps_invariant [of "env_order env" send spec req x c _ c' I] assms(2,3)
    by (auto simp: result_simps)
next
  case (Plugin_TWiCe x)
  then show ?thesis using assms(1) twice.keeps_invariant [of send spec req x c _ c' I] assms(2,3)
    by (auto simp: result_simps)
qed (use assms(2) in \<open>auto simp: result_simps\<close>)

end
