(* ===== verification/Addr_Mapper.thy ===== *)
theory Addr_Mapper
  imports Request Small_Device "HOL-Library.Signed_Division"
begin

text \<open>
  \<^verbatim>\<open>src/src/addr_mapper/impl/linear_mappers.cpp\<close>: the mappings of a physical address to the
  address vector of a device, each of which cuts the address into slices for the levels.

  The slices are taken by \<open>int\<close> shifts and masks, which the standard defines up to 30 bits: a
  level with more, or with a negative number of bits, is undefined behaviour.
\<close>

unbundle bit_operations_syntax

subsection \<open>State\<close>

record linear_mapper =
  lm_num_levels :: int
  m_addr_bits :: "int list"
  m_tx_offset :: int
  m_col_bits_idx :: int
  m_row_bits_idx :: int

text \<open>\<open>calc_log2\<close> of an \<open>int\<close> shifts a negative argument for ever.\<close>

definition int_log2 :: "int \<Rightarrow> int result" where
  "int_log2 v = (if v < 0 then Err (Undefined ''endless loop'') else Ok (int (calc_log2 (nat v))))"

definition find_row_level :: "dram_spec \<Rightarrow> int result" where
  "find_row_level spec =
     (case SpecDef_id (m_levels spec) ''row'' of
        Inl _ \<Rightarrow> Err (Runtime_error ''Organization row not found in the spec, cannot use linear mapping!'')
      | Inr l \<Rightarrow> Ok l)"

definition LinearMapperBase_setup :: "dram_spec \<Rightarrow> linear_mapper result" where
  "LinearMapperBase_setup spec =
     (let num_levels = int (length (org_count (m_organization spec))) in
      andThen (map_result int_log2 (org_count (m_organization spec))) (\<lambda>bits.
      andThen (vec_at bits (num_levels - 1)) (\<lambda>column_bits.
      andThen (int_log2 (m_internal_prefetch_size spec)) (\<lambda>prefetch_bits.
      andThen (vec_put bits (num_levels - 1) (column_bits - prefetch_bits)) (\<lambda>bits.
      andThen (int_log2 ((m_internal_prefetch_size spec * m_channel_width spec) sdiv 8)) (\<lambda>tx_offset.
      andThen (find_row_level spec) (\<lambda>row.
        Ok \<lparr>lm_num_levels = num_levels, m_addr_bits = bits, m_tx_offset = tx_offset,
            m_col_bits_idx = num_levels - 1, m_row_bits_idx = row\<rparr>)))))))"

subsection \<open>Slices\<close>

definition slice_bits :: "int \<Rightarrow> int \<Rightarrow> (int \<times> int) result" where
  "slice_bits a num_bits =
     (if 0 \<le> num_bits \<and> num_bits < 31 then Ok (slice_lower_bits a (nat num_bits))
      else Err (Undefined ''shift''))"

text \<open>\<open>addr_vec[i] = slice_lower_bits(addr, n)\<close>\<close>

definition slice_to :: "int \<Rightarrow> int \<Rightarrow> int \<times> int list \<Rightarrow> (int \<times> int list) result" where
  "slice_to i num_bits = (\<lambda>(a, v).
     andThen (slice_bits a num_bits) (\<lambda>(lo, a).
     andThen (vec_put v i lo) (\<lambda>v. Ok (a, v))))"

definition slice_level :: "linear_mapper \<Rightarrow> int \<Rightarrow> int \<times> int list \<Rightarrow> (int \<times> int list) result" where
  "slice_level m i st = andThen (vec_at (m_addr_bits m) i) (\<lambda>n. slice_to i n st)"

definition mapper_start :: "linear_mapper \<Rightarrow> request \<Rightarrow> int \<times> int list" where
  "mapper_start m r = (addr r div 2 ^ nat (m_tx_offset m), resize (nat (lm_num_levels m)) (addr_vec r))"

subsection \<open>The mappings\<close>

definition ChRaBaRoCo_apply :: "linear_mapper \<Rightarrow> request \<Rightarrow> request result" where
  "ChRaBaRoCo_apply m r =
     andThen (fold_result (slice_level m) (rev [0..int (length (m_addr_bits m)) - 1]) (mapper_start m r))
       (\<lambda>(a, v). Ok (r\<lparr>addr_vec := v\<rparr>))"

definition RoBaRaCoCh_apply :: "linear_mapper \<Rightarrow> request \<Rightarrow> request result" where
  "RoBaRaCoCh_apply m r =
     andThen (slice_level m 0 (mapper_start m r)) (\<lambda>st.
     andThen (slice_level m (int (length (m_addr_bits m)) - 1) st) (\<lambda>st.
     andThen (fold_result (slice_level m) [1..m_row_bits_idx m] st) (\<lambda>(a, v).
       Ok (r\<lparr>addr_vec := v\<rparr>))))"

text \<open>The loop of \<open>MOP4CLXOR\<close> that mixes the column into the other levels, with \<open>row_xor_index\<close>.\<close>

definition xor_level :: "linear_mapper \<Rightarrow> int \<Rightarrow> int \<times> int list \<Rightarrow> (int \<times> int list) result" where
  "xor_level m lvl = (\<lambda>(index, v).
     andThen (vec_at (m_addr_bits m) lvl) (\<lambda>n.
       if n > 0
       then (if n < 31 \<and> index < 32
             then andThen (vec_at v (m_col_bits_idx m)) (\<lambda>col.
                  andThen (vec_at v lvl) (\<lambda>x.
                  andThen (vec_put v lvl (x XOR (col div 2 ^ nat index) mod 2 ^ nat n)) (\<lambda>v.
                    Ok (index + n, v))))
             else Err (Undefined ''shift''))
       else Ok (index, v)))"

definition xor_levels :: "linear_mapper \<Rightarrow> int list \<Rightarrow> int list result" where
  "xor_levels m v = andThen (fold_result (xor_level m) [0..m_col_bits_idx m - 1] (0, v)) (\<lambda>(_, v). Ok v)"

definition MOP4CLXOR_apply :: "linear_mapper \<Rightarrow> request \<Rightarrow> request result" where
  "MOP4CLXOR_apply m r =
     (let col = m_col_bits_idx m; row = m_row_bits_idx m in
      andThen (slice_to col 2 (mapper_start m r)) (\<lambda>st.
      andThen (fold_result (slice_level m) [0..row - 1] st) (\<lambda>(a, v).
      andThen (vec_at (m_addr_bits m) col) (\<lambda>n.
      andThen (slice_bits a (n - 2)) (\<lambda>(hi, a).
      andThen (vec_at v col) (\<lambda>lo.
      andThen (vec_put v col (to_signed 32 (lo + hi * 4))) (\<lambda>v.
      andThen (vec_put v row (to_signed 32 a)) (\<lambda>v.
      andThen (xor_levels m v) (\<lambda>v. Ok (r\<lparr>addr_vec := v\<rparr>))))))))))"

subsection \<open>Putting the slices together again\<close>

text \<open>The address whose slices, in the given order of levels, are those of a vector.\<close>

fun unslice :: "int list \<Rightarrow> int list \<Rightarrow> int list \<Rightarrow> int \<Rightarrow> int" where
  "unslice bits v [] rest = rest"
| "unslice bits v (i # is) rest = v ! nat i + 2 ^ nat (bits ! nat i) * unslice bits v is rest"

lemma unslice_cong: "(\<And>i. i \<in> set is \<Longrightarrow> v ! nat i = w ! nat i) \<Longrightarrow> unslice bits v is rest = unslice bits w is rest"
  by (induction "is") auto

lemma slice_level_Ok:
  assumes "slice_level m i (a, v) = Ok (a', v')"
  shows "in_vec (m_addr_bits m) i \<and> in_vec v i \<and> 0 \<le> m_addr_bits m ! nat i \<and> m_addr_bits m ! nat i < 31
    \<and> a' = a div 2 ^ nat (m_addr_bits m ! nat i) \<and> v' = v[nat i := a mod 2 ^ nat (m_addr_bits m ! nat i)]"
  using assms
  by (auto simp: slice_level_def slice_to_def slice_bits_def slice_lower_bits_def result_simps split: if_splits)

lemma slice_levels_Ok:
  "fold_result (slice_level m) is (a, v) = Ok (a', v') \<Longrightarrow> distinct is \<Longrightarrow>
   length v' = length v \<and> a = unslice (m_addr_bits m) v' is a'
   \<and> (\<forall>i\<in>set is. in_vec v i \<and> 0 \<le> v' ! nat i \<and> v' ! nat i < 2 ^ nat (m_addr_bits m ! nat i))
   \<and> (\<forall>j<length v. int j \<notin> set is \<longrightarrow> v' ! j = v ! j)"
proof (induction "is" arbitrary: a v)
  case Nil
  then show ?case by simp
next
  case (Cons i "is")
  let ?n = "nat (m_addr_bits m ! nat i)"
  from Cons.prems(1) obtain a1 v1 where 1: "slice_level m i (a, v) = Ok (a1, v1)"
    and rest: "fold_result (slice_level m) is (a1, v1) = Ok (a', v')" by (auto simp: result_simps)
  from slice_level_Ok [OF 1] have i: "in_vec v i" and a1: "a1 = a div 2 ^ ?n" and v1: "v1 = v[nat i := a mod 2 ^ ?n]"
    by simp_all
  have ih: "length v' = length v" "a1 = unslice (m_addr_bits m) v' is a'"
    "\<forall>i\<in>set is. in_vec v i \<and> 0 \<le> v' ! nat i \<and> v' ! nat i < 2 ^ nat (m_addr_bits m ! nat i)"
    "\<forall>j<length v. int j \<notin> set is \<longrightarrow> v' ! j = v1 ! j"
    using Cons.IH [OF rest] Cons.prems(2) by (simp_all add: v1)
  have vi: "v' ! nat i = a mod 2 ^ ?n"
    using ih(4) i Cons.prems(2) in_vec_nat [OF i] by (auto simp: v1 in_vec_def)
  have "a = a mod 2 ^ ?n + 2 ^ ?n * a1" by (simp add: a1)
  moreover have "v1 ! j = v ! j" if "int j \<noteq> i" for j using that i by (auto simp: v1 nth_list_update in_vec_def)
  ultimately show ?case using ih(1) ih(2) [symmetric] ih(3,4) i vi by auto
qed

lemma slice_levels_rest:
  "fold_result (slice_level m) is (a, v) = Ok (a', v') \<Longrightarrow>
   a' = a div 2 ^ sum_list (map (\<lambda>i. nat (m_addr_bits m ! nat i)) is)"
proof (induction "is" arbitrary: a v)
  case Nil
  then show ?case by simp
next
  case (Cons i "is")
  from Cons.prems obtain a1 v1 where 1: "slice_level m i (a, v) = Ok (a1, v1)"
    and rest: "fold_result (slice_level m) is (a1, v1) = Ok (a', v')" by (auto simp: result_simps)
  show ?case using Cons.IH [OF rest] slice_level_Ok [OF 1]
    by (simp add: power_add zdiv_zmult2_eq)
qed

lemma slice_levels_defined:
  assumes "\<forall>i\<in>set is. in_vec (m_addr_bits m) i" and "\<forall>n\<in>set (m_addr_bits m). 0 \<le> n \<and> n < 31"
    and "length v = length (m_addr_bits m)"
  shows "\<exists>a' v'. fold_result (slice_level m) is (a, v) = Ok (a', v')"
  using assms(1,3)
proof (induction "is" arbitrary: a v)
  case Nil
  then show ?case by simp
next
  case (Cons i "is")
  have i: "in_vec (m_addr_bits m) i" using Cons.prems(1) by simp
  then have "m_addr_bits m ! nat i \<in> set (m_addr_bits m)" by (simp add: in_vec_nat)
  then have "0 \<le> m_addr_bits m ! nat i \<and> m_addr_bits m ! nat i < 31" using assms(2) by blast
  moreover have "in_vec v i" using i in_vec_length [of v "m_addr_bits m" i] Cons.prems(2) by simp
  ultimately obtain a1 where "slice_level m i (a, v)
      = Ok (a1, v[nat i := a mod 2 ^ nat (m_addr_bits m ! nat i)])"
    using i by (auto simp: slice_level_def slice_to_def slice_bits_def slice_lower_bits_def vec_at_in vec_put_in)
  then show ?case using Cons.IH [of "v[nat i := a mod 2 ^ nat (m_addr_bits m ! nat i)]" a1] Cons.prems by simp
qed

text \<open>Slicing all levels, each once, in any order: the vector determines the address.\<close>

definition mapper_capacity :: "linear_mapper \<Rightarrow> int" where
  "mapper_capacity m = 2 ^ (\<Sum>l<length (m_addr_bits m). nat (m_addr_bits m ! l))"

lemma slice_all_levels:
  assumes "\<forall>n\<in>set (m_addr_bits m). 0 \<le> n \<and> n < 31" and "length v = length (m_addr_bits m)"
    and "distinct is" and "set is = {0..int (length (m_addr_bits m)) - 1}"
    and "0 \<le> a" and "a < mapper_capacity m"
  shows "\<exists>v'. fold_result (slice_level m) is (a, v) = Ok (0, v') \<and> length v' = length v
    \<and> (\<forall>l<length v. 0 \<le> v' ! l \<and> v' ! l < 2 ^ nat (m_addr_bits m ! l)) \<and> unslice (m_addr_bits m) v' is 0 = a"
proof -
  let ?n = "length (m_addr_bits m)"
  have "\<forall>i\<in>set is. in_vec (m_addr_bits m) i" using assms(4) by (auto simp: in_vec_def)
  then obtain a' v' where r: "fold_result (slice_level m) is (a, v) = Ok (a', v')"
    using slice_levels_defined [OF _ assms(1,2)] by blast
  note e = slice_levels_Ok [OF r assms(3)]
  have "int ` {..<?n} = {0..int ?n - 1}" using image_int_atLeastLessThan [of 0 ?n] by (auto simp: lessThan_atLeast0)
  then have s: "set is = int ` {..<?n}" using assms(4) by simp
  have "sum_list (map (\<lambda>i. nat (m_addr_bits m ! nat i)) is) = (\<Sum>i\<in>set is. nat (m_addr_bits m ! nat i))"
    using assms(3) by (simp add: sum_list_distinct_conv_sum_set)
  also have "\<dots> = (\<Sum>l<?n. nat (m_addr_bits m ! l))" unfolding s by (subst sum.reindex) (auto simp: inj_on_def)
  finally have "a' = a div mapper_capacity m" using slice_levels_rest [OF r] by (simp add: mapper_capacity_def)
  then have a': "a' = 0" using assms(5,6) by simp
  have "0 \<le> v' ! l \<and> v' ! l < 2 ^ nat (m_addr_bits m ! l)" if "l < length v" for l
  proof -
    have "int l \<in> set is" using that assms(2,4) by simp
    then show ?thesis using e by fastforce
  qed
  then show ?thesis using r e a' by auto
qed

lemma setup_facts:
  assumes "LinearMapperBase_setup spec = Ok m"
  shows "lm_num_levels m = int (length (m_addr_bits m))" "0 < length (m_addr_bits m)"
    "m_col_bits_idx m = int (length (m_addr_bits m)) - 1"
proof -
  from assms obtain bits bits' where b: "map_result int_log2 (org_count (m_organization spec)) = Ok bits"
    "m_addr_bits m = bits'" "length bits' = length bits"
    "lm_num_levels m = int (length (org_count (m_organization spec)))" "m_col_bits_idx m = lm_num_levels m - 1"
    "in_vec bits (lm_num_levels m - 1)"
    by (auto simp: LinearMapperBase_setup_def Let_def result_simps)
  then show "lm_num_levels m = int (length (m_addr_bits m))" "0 < length (m_addr_bits m)"
    "m_col_bits_idx m = int (length (m_addr_bits m)) - 1"
    using map_result_length [OF b(1)] by (auto simp: in_vec_def)
qed

text \<open>C37: on a device whose rows are the level above the columns, and for an
  address within its capacity, both \<open>ChRaBaRoCo\<close> and \<open>RoBaRaCoCh\<close> return a vector with one entry per
  level, each below the size of its level, from which the address can be put together again: no
  two transactions of the device share a vector.\<close>

theorem linear_mapping_bijective:
  assumes "LinearMapperBase_setup spec = Ok m" and "\<forall>n\<in>set (m_addr_bits m). 0 \<le> n \<and> n < 31"
    and "m_row_bits_idx m = lm_num_levels m - 2" and "0 < m_row_bits_idx m"
    and "0 \<le> addr r" and "addr r div 2 ^ nat (m_tx_offset m) < mapper_capacity m"
  shows "(\<exists>v. ChRaBaRoCo_apply m r = Ok (r\<lparr>addr_vec := v\<rparr>) \<and> int (length v) = lm_num_levels m
      \<and> (\<forall>l<length v. 0 \<le> v ! l \<and> v ! l < 2 ^ nat (m_addr_bits m ! l))
      \<and> unslice (m_addr_bits m) v (rev [0..lm_num_levels m - 1]) 0 = addr r div 2 ^ nat (m_tx_offset m))
    \<and> (\<exists>v. RoBaRaCoCh_apply m r = Ok (r\<lparr>addr_vec := v\<rparr>) \<and> int (length v) = lm_num_levels m
      \<and> (\<forall>l<length v. 0 \<le> v ! l \<and> v ! l < 2 ^ nat (m_addr_bits m ! l))
      \<and> unslice (m_addr_bits m) v (0 # (lm_num_levels m - 1) # [1..lm_num_levels m - 2]) 0
        = addr r div 2 ^ nat (m_tx_offset m))"
proof -
  note f = setup_facts [OF assms(1)]
  let ?n = "int (length (m_addr_bits m))"
  let ?v = "resize (nat (lm_num_levels m)) (addr_vec r)" and ?a = "addr r div 2 ^ nat (m_tx_offset m)"
  have st: "mapper_start m r = (?a, ?v)" by (simp add: mapper_start_def)
  have a: "0 \<le> ?a" using assms(5) by (simp add: pos_imp_zdiv_nonneg_iff)
  have v: "length ?v = length (m_addr_bits m)" by (simp add: f(1))
  note all = slice_all_levels [OF assms(2) v _ _ a assms(6)]
  have "set (0 # (?n - 1) # [1..?n - 2]) = {0..?n - 1}" "distinct (0 # (?n - 1) # [1..?n - 2])"
    using f assms(3,4) by auto
  from all [OF this(2,1)] obtain w where w: "fold_result (slice_level m) (0 # (?n - 1) # [1..?n - 2]) (?a, ?v) = Ok (0, w)"
    "length w = length ?v" "\<forall>l<length ?v. 0 \<le> w ! l \<and> w ! l < 2 ^ nat (m_addr_bits m ! l)"
    "unslice (m_addr_bits m) w (0 # (?n - 1) # [1..?n - 2]) 0 = ?a" by blast
  then have "RoBaRaCoCh_apply m r = Ok (r\<lparr>addr_vec := w\<rparr>)"
    using assms(3) f(1) by (auto simp: RoBaRaCoCh_apply_def st result_simps)
  moreover have "set (rev [0..?n - 1]) = {0..?n - 1}" "distinct (rev [0..?n - 1])" by simp_all
  from all [OF this(2,1)] obtain u where u: "fold_result (slice_level m) (rev [0..?n - 1]) (?a, ?v) = Ok (0, u)"
    "length u = length ?v" "\<forall>l<length ?v. 0 \<le> u ! l \<and> u ! l < 2 ^ nat (m_addr_bits m ! l)"
    "unslice (m_addr_bits m) u (rev [0..?n - 1]) 0 = ?a" by blast
  then have "ChRaBaRoCo_apply m r = Ok (r\<lparr>addr_vec := u\<rparr>)"
    by (simp add: ChRaBaRoCo_apply_def st)
  ultimately show ?thesis using u w v f(1) by auto
qed

subsection \<open>The XOR mapping\<close>

text \<open>Mixing the column in twice changes nothing: the loop reads the column and leaves it, and
  each level takes the same column bits again.\<close>

lemma xor_level_Ok:
  assumes "xor_level m lvl (k, v) = Ok (k', v')" and "lvl \<noteq> m_col_bits_idx m"
  shows "in_vec (m_addr_bits m) lvl \<and> length v' = length v
    \<and> k' = (if 0 < m_addr_bits m ! nat lvl then k + m_addr_bits m ! nat lvl else k)
    \<and> (0 < m_addr_bits m ! nat lvl \<longrightarrow> in_vec v lvl \<and> in_vec v (m_col_bits_idx m))
    \<and> v' = (if 0 < m_addr_bits m ! nat lvl
            then v[nat lvl := v ! nat lvl XOR (v ! nat (m_col_bits_idx m) div 2 ^ nat k) mod 2 ^ nat (m_addr_bits m ! nat lvl)]
            else v)"
  using assms by (auto simp: xor_level_def result_simps split: if_splits)

lemma xor_levels_frame:
  "fold_result (xor_level m) ls (k, v) = Ok (k', v') \<Longrightarrow> m_col_bits_idx m \<notin> set ls \<Longrightarrow> 0 \<le> m_col_bits_idx m \<Longrightarrow>
   length v' = length v \<and> (\<forall>l\<ge>0. l \<notin> set ls \<longrightarrow> v' ! nat l = v ! nat l)
   \<and> (\<forall>l\<ge>0. l \<notin> set ls \<longrightarrow> l \<noteq> m_col_bits_idx m \<longrightarrow>
        fold_result (xor_level m) ls (k, v[nat l := x]) = Ok (k', v'[nat l := x]))"
proof (induction ls arbitrary: k v)
  case Nil
  then show ?case by simp
next
  case (Cons j ls)
  from Cons.prems(1) obtain k1 v1 where 1: "xor_level m j (k, v) = Ok (k1, v1)"
    and rest: "fold_result (xor_level m) ls (k1, v1) = Ok (k', v')" by (auto simp: result_simps)
  have c: "j \<noteq> m_col_bits_idx m" "m_col_bits_idx m \<notin> set ls" using Cons.prems(2) by auto
  note e = xor_level_Ok [OF 1 c(1)]
  note ih = Cons.IH [OF rest c(2) Cons.prems(3)]
  have j: "0 \<le> j" using e by (auto simp: in_vec_def)
  have step: "xor_level m j (k, v[nat l := x]) = Ok (k1, v1[nat l := x])"
    if l: "0 \<le> l" "l \<noteq> j" "l \<noteq> m_col_bits_idx m" for l
  proof -
    have n: "nat l \<noteq> nat j" "nat l \<noteq> nat (m_col_bits_idx m)" using l j Cons.prems(3) by auto
    show ?thesis using 1 n
      by (auto simp: xor_level_def result_simps list_update_swap split: if_splits)
  qed
  have "v1 ! nat l = v ! nat l" if "0 \<le> l" "l \<noteq> j" for l
    using e that j by (auto simp: nth_list_update)
  then show ?case using ih e step by (auto simp: result_simps)
qed

lemma xor_levels_twice:
  "fold_result (xor_level m) ls (k, v) = Ok (k', v') \<Longrightarrow> distinct ls \<Longrightarrow> m_col_bits_idx m \<notin> set ls \<Longrightarrow>
   0 \<le> m_col_bits_idx m \<Longrightarrow> fold_result (xor_level m) ls (k, v') = Ok (k', v)"
proof (induction ls arbitrary: k v)
  case Nil
  then show ?case by simp
next
  case (Cons j ls)
  from Cons.prems(1) obtain k1 v1 where 1: "xor_level m j (k, v) = Ok (k1, v1)"
    and rest: "fold_result (xor_level m) ls (k1, v1) = Ok (k', v')" by (auto simp: result_simps)
  have c: "j \<noteq> m_col_bits_idx m" "m_col_bits_idx m \<notin> set ls" "j \<notin> set ls" "distinct ls" using Cons.prems(2,3) by auto
  note e = xor_level_Ok [OF 1 c(1)]
  have j: "0 \<le> j" using e by (auto simp: in_vec_def)
  have again: "fold_result (xor_level m) ls (k1, v') = Ok (k', v1)" by (rule Cons.IH [OF rest c(4,2) Cons.prems(4)])
  note fr = xor_levels_frame [OF rest c(2) Cons.prems(4)]
  have same: "v' ! nat j = v1 ! nat j" "v' ! nat (m_col_bits_idx m) = v1 ! nat (m_col_bits_idx m)" "length v' = length v1"
    using fr [of 0] c j Cons.prems(4) by auto
  have nj: "nat j \<noteq> nat (m_col_bits_idx m)" using c(1) j Cons.prems(4) by auto
  have "xor_level m j (k, v') = Ok (k1, v'[nat j := v ! nat j])"
  proof (cases "0 < m_addr_bits m ! nat j")
    case True
    then have v1: "v1 ! nat j = v ! nat j XOR (v ! nat (m_col_bits_idx m) div 2 ^ nat k) mod 2 ^ nat (m_addr_bits m ! nat j)"
      "v1 ! nat (m_col_bits_idx m) = v ! nat (m_col_bits_idx m)"
      using e nj in_vec_nat [of v j] by auto
    have "in_vec v' i = in_vec v i" for i using same(3) e by (simp add: in_vec_def)
    then show ?thesis using 1 True same v1
      by (auto simp: xor_level_def result_simps xor.assoc split: if_splits)
  next
    case False
    then have "v1 = v" using e by simp
    then show ?thesis using 1 False same(1) by (auto simp: xor_level_def result_simps split: if_splits) (metis list_update_id)
  qed
  moreover have "fold_result (xor_level m) ls (k1, v'[nat j := v ! nat j]) = Ok (k', v1[nat j := v ! nat j])"
    using xor_levels_frame [OF again c(2) Cons.prems(4)] j c(1,3) by auto
  moreover have "v1[nat j := v ! nat j] = v" using e by auto
  ultimately show ?case by simp
qed

text \<open>The address read back from a vector before the mixing.\<close>

definition mop_address :: "linear_mapper \<Rightarrow> int list \<Rightarrow> int" where
  "mop_address m w =
     (let col = nat (m_col_bits_idx m); row = m_row_bits_idx m in
      w ! col mod 4 + 4 * unslice (m_addr_bits m) w [0..row - 1]
        (w ! col div 4 + 2 ^ nat (m_addr_bits m ! col - 2) * w ! nat row))"

text \<open>What remains of an address for the row after the other levels have taken their slices.\<close>

lemma mop_row_bits:
  fixes a :: int
  assumes "int (length bits) = row + 2" and "0 \<le> row" and "2 \<le> bits ! nat (row + 1)" and "0 \<le> a"
    and "a < 2 ^ (\<Sum>l<length bits. nat (bits ! l))"
  shows "0 \<le> a div 4 div 2 ^ sum_list (map (\<lambda>i. nat (bits ! nat i)) [0..row - 1]) div 2 ^ nat (bits ! nat (row + 1) - 2)"
    and "a div 4 div 2 ^ sum_list (map (\<lambda>i. nat (bits ! nat i)) [0..row - 1]) div 2 ^ nat (bits ! nat (row + 1) - 2)
      < 2 ^ nat (bits ! nat row)"
proof -
  let ?k = "sum_list (map (\<lambda>i. nat (bits ! nat i)) [0..row - 1])" and ?c = "nat (bits ! nat (row + 1))"
  have n: "length bits = Suc (Suc (nat row))" "nat (row + 1) = Suc (nat row)" using assms(1,2) by simp_all
  have "?k = (\<Sum>i\<in>set [0..row - 1]. nat (bits ! nat i))" by (simp add: sum_list_distinct_conv_sum_set del: set_upto)
  also have "set [0..row - 1] = int ` {..<nat row}"
    using image_int_atLeastLessThan [of 0 "nat row"] assms(2) by (auto simp: lessThan_atLeast0)
  also have "(\<Sum>i\<in>int ` {..<nat row}. nat (bits ! nat i)) = (\<Sum>l<nat row. nat (bits ! l))"
    by (subst sum.reindex) (auto simp: inj_on_def)
  finally have k: "(\<Sum>l<length bits. nat (bits ! l)) = ?k + nat (bits ! nat row) + ?c" by (simp add: n)
  have e: "4 * 2 ^ ?k * 2 ^ nat (bits ! nat (row + 1) - 2) = (2::int) ^ (?k + ?c)"
  proof -
    have "?k + ?c = 2 + ?k + nat (bits ! nat (row + 1) - 2)" using assms(3) by simp
    then show ?thesis by (simp only: power_add) simp
  qed
  have "a div 4 div 2 ^ ?k div 2 ^ nat (bits ! nat (row + 1) - 2) = a div 2 ^ (?k + ?c)"
    unfolding e [symmetric] by (simp add: zdiv_zmult2_eq)
  then have div: "a div 4 div 2 ^ ?k div 2 ^ nat (bits ! nat (row + 1) - 2) = a div 2 ^ (?k + ?c)" .
  have "a < 2 ^ nat (bits ! nat row) * 2 ^ (?k + ?c)" using assms(5) by (simp add: k power_add ac_simps)
  moreover have "a div 2 ^ (?k + ?c) * 2 ^ (?k + ?c) \<le> a"
    unfolding minus_mod_eq_div_mult [symmetric] by simp
  ultimately have "a div 2 ^ (?k + ?c) * 2 ^ (?k + ?c) < 2 ^ nat (bits ! nat row) * 2 ^ (?k + ?c)" by (rule le_less_trans [rotated])
  then have "a div 2 ^ (?k + ?c) < 2 ^ nat (bits ! nat row)" by (simp add: mult_less_cancel_right)
  with div show "0 \<le> a div 4 div 2 ^ ?k div 2 ^ nat (bits ! nat (row + 1) - 2)"
    "a div 4 div 2 ^ ?k div 2 ^ nat (bits ! nat (row + 1) - 2) < 2 ^ nat (bits ! nat row)"
    using assms(4) by (simp_all add: pos_imp_zdiv_nonneg_iff)
qed

lemma small_signed: "0 \<le> x \<Longrightarrow> x < 1073741828 \<Longrightarrow> to_signed 32 x = x"
  by (rule to_signed_id) simp_all

text \<open>C38: \<open>MOP4CLXOR\<close> loses nothing either: mixing the column into the
  vector it returns once more undoes the mixing, and the address can then be put together from
  the slices, the two low and the remaining bits of the column among them.\<close>

theorem mop_mapping_invertible:
  assumes "LinearMapperBase_setup spec = Ok m" and "MOP4CLXOR_apply m r = Ok r'"
    and "m_row_bits_idx m = lm_num_levels m - 2" and "0 < m_row_bits_idx m"
    and "\<forall>n\<in>set (m_addr_bits m). n < 31"
    and "0 \<le> addr r" and "addr r div 2 ^ nat (m_tx_offset m) < mapper_capacity m"
  shows "\<exists>w. xor_levels m (addr_vec r') = Ok w \<and> mop_address m w = addr r div 2 ^ nat (m_tx_offset m)"
proof -
  note f = setup_facts [OF assms(1)]
  let ?a = "addr r div 2 ^ nat (m_tx_offset m)" and ?v = "resize (nat (lm_num_levels m)) (addr_vec r)"
  define col row bits where d: "col = m_col_bits_idx m" "row = m_row_bits_idx m" "bits = m_addr_bits m"
  have cr: "col = row + 1" "0 < row" "int (length bits) = row + 2" using f assms(3,4) by (simp_all add: d)
  have a: "0 \<le> ?a" using assms(6) by (simp add: pos_imp_zdiv_nonneg_iff)
  from assms(2) obtain a2 v2 v5 where
    fold: "fold_result (slice_level m) [0..row - 1] (?a div 4, ?v[nat col := ?a mod 4]) = Ok (a2, v2)"
    and n: "0 \<le> bits ! nat col - 2" "in_vec v2 col" "in_vec v2 row" "in_vec bits col" "in_vec ?v col"
    and x: "xor_levels m (v2[nat col := to_signed 32 (v2 ! nat col + a2 mod 2 ^ nat (bits ! nat col - 2) * 4),
        nat row := to_signed 32 (a2 div 2 ^ nat (bits ! nat col - 2))]) = Ok v5"
    and r': "addr_vec r' = v5"
    by (auto simp: MOP4CLXOR_apply_def Let_def mapper_start_def slice_to_def slice_bits_def slice_lower_bits_def d result_simps
        split: if_splits)
  have c: "bits ! nat col < 31" using assms(5) n(4) in_vec_nat [of bits col] by (simp add: d)
  note e = slice_levels_Ok [OF fold] and a2 = slice_levels_rest [OF fold]
  have lo: "v2 ! nat col = ?a mod 4"
  proof -
    have "nat col < length ?v" using n(5) by (rule in_vec_nat)
    moreover have "int (nat col) \<notin> set [0..row - 1]" using cr by simp
    ultimately show ?thesis using e by simp
  qed
  let ?hi = "a2 mod 2 ^ nat (bits ! nat col - 2)" and ?rw = "a2 div 2 ^ nat (bits ! nat col - 2)"
  have hi: "0 \<le> ?hi" "?hi < 2 ^ nat (bits ! nat col - 2)" by simp_all
  have "(2::int) ^ nat (bits ! nat col - 2) \<le> 2 ^ 28" using c by (intro power_increasing) auto
  then have "(2::int) ^ nat (bits ! nat col - 2) \<le> 268435456" by simp
  then have p: "?hi < 268435456" using hi(2) by linarith
  have "0 \<le> ?a mod 4" "?a mod 4 < 4" by simp_all
  then have "0 \<le> ?a mod 4 + ?hi * 4" "?a mod 4 + ?hi * 4 < 1073741828" using hi(1) p by linarith+
  then have col32: "to_signed 32 (?a mod 4 + ?hi * 4) = ?a mod 4 + ?hi * 4" by (rule small_signed)
  have rw: "0 \<le> ?rw" "?rw < 2 ^ nat (bits ! nat row)"
  proof -
    have "?a < 2 ^ (\<Sum>l<length bits. nat (bits ! l))" using assms(7) by (simp add: d(3) mapper_capacity_def)
    moreover have "0 \<le> row" "2 \<le> bits ! nat (row + 1)" using cr(1,2) n(1) by auto
    ultimately show "0 \<le> ?rw" "?rw < 2 ^ nat (bits ! nat row)"
      using mop_row_bits [OF cr(3) _ _ a] unfolding a2 cr(1) d(3) [symmetric] by blast+
  qed
  have "in_vec bits row" using cr by (simp add: in_vec_def)
  then have "bits ! nat row < 31" using assms(5) in_vec_nat [of bits row] by (simp add: d)
  then have "(2::int) ^ nat (bits ! nat row) \<le> 2 ^ 30" by (intro power_increasing) auto
  then have row32: "to_signed 32 ?rw = ?rw" using rw by (intro to_signed_id) simp_all
  define w where "w = v2[nat col := ?a mod 4 + ?hi * 4, nat row := ?rw]"
  have "xor_levels m v5 = Ok w"
  proof -
    from x obtain k where "fold_result (xor_level m) [0..m_col_bits_idx m - 1] (0, w) = Ok (k, v5)"
      by (auto simp: w_def lo col32 row32 xor_levels_def result_simps)
    then have "fold_result (xor_level m) [0..m_col_bits_idx m - 1] (0, v5) = Ok (k, w)"
      by (rule xor_levels_twice) (use cr d in simp_all)
    then show ?thesis by (simp add: xor_levels_def)
  qed
  moreover have "mop_address m w = ?a"
  proof -
    have wc: "w ! nat col = ?a mod 4 + ?hi * 4" "w ! nat row = ?rw"
      using n(2,3) in_vec_nat [OF n(2)] in_vec_nat [OF n(3)] cr by (simp_all add: w_def)
    have "unslice bits w [0..row - 1] a2 = unslice bits v2 [0..row - 1] a2"
      by (rule unslice_cong) (use cr in \<open>auto simp: w_def nth_list_update\<close>)
    then have u: "?a div 4 = unslice bits w [0..row - 1] a2" using e by (simp add: d)
    have "(?a mod 4 + ?hi * 4) mod 4 = ?a mod 4" "(?a mod 4 + ?hi * 4) div 4 = ?hi"
      using pos_mod_bound [of 4 ?a] pos_mod_sign [of 4 ?a] by auto
    moreover have "?hi + 2 ^ nat (bits ! nat col - 2) * ?rw = a2" by simp
    ultimately have "mop_address m w = ?a mod 4 + 4 * (?a div 4)"
      unfolding mop_address_def Let_def d [symmetric] wc u by simp
    then show ?thesis by simp
  qed
  ultimately show ?thesis using r' by auto
qed

subsection \<open>Witnesses\<close>

text \<open>Two channels, four bank groups of four banks, 16 rows of 128 columns.\<close>

definition mapper_spec :: dram_spec where
  "mapper_spec = small_spec\<lparr>m_organization := \<lparr>density = 1, dq = 16, org_count = [2, 4, 4, 16, 128]\<rparr>,
     m_channel_width := 16\<rparr>"

definition small_mapper :: linear_mapper where
  "small_mapper = \<lparr>lm_num_levels = 5, m_addr_bits = [1, 2, 2, 4, 4], m_tx_offset = 4, m_col_bits_idx = 4, m_row_bits_idx = 3\<rparr>"

lemma small_mapper_setup: "LinearMapperBase_setup mapper_spec = Ok small_mapper"
  by code_simp

lemma small_mapper_capacity: "mapper_capacity small_mapper = 8192"
  by code_simp

theorem linear_mapping_bijective_witness:
  "\<exists>v w. ChRaBaRoCo_apply small_mapper (Request_addr 74565 0) = Ok ((Request_addr 74565 0)\<lparr>addr_vec := v\<rparr>)
     \<and> unslice [1, 2, 2, 4, 4] v [4, 3, 2, 1, 0] 0 = 4660
     \<and> RoBaRaCoCh_apply small_mapper (Request_addr 74565 0) = Ok ((Request_addr 74565 0)\<lparr>addr_vec := w\<rparr>)
     \<and> unslice [1, 2, 2, 4, 4] w [0, 4, 1, 2, 3] 0 = 4660"
proof -
  have l: "rev [0..lm_num_levels small_mapper - 1] = [4, 3, 2, 1, 0]"
    "0 # (lm_num_levels small_mapper - 1) # [1..lm_num_levels small_mapper - 2] = [0, 4, 1, 2, 3]"
    "m_addr_bits small_mapper = [1, 2, 2, 4, 4]" "addr (Request_addr 74565 0) div 2 ^ nat (m_tx_offset small_mapper) = 4660"
    by code_simp+
  have "\<forall>n\<in>set (m_addr_bits small_mapper). 0 \<le> n \<and> n < 31" "m_row_bits_idx small_mapper = lm_num_levels small_mapper - 2"
    "0 < m_row_bits_idx small_mapper" "0 \<le> addr (Request_addr 74565 0)"
    "addr (Request_addr 74565 0) div 2 ^ nat (m_tx_offset small_mapper) < mapper_capacity small_mapper"
    by (simp_all add: small_mapper_capacity l(4)) (simp_all add: small_mapper_def Request_addr_def)
  from linear_mapping_bijective [OF small_mapper_setup this] show ?thesis unfolding l by blast
qed

theorem mop_mapping_invertible_witness:
  "\<exists>r w. MOP4CLXOR_apply small_mapper (Request_addr 74565 0) = Ok r \<and> xor_levels small_mapper (addr_vec r) = Ok w
     \<and> mop_address small_mapper w = 4660"
proof -
  have "is_ok (MOP4CLXOR_apply small_mapper (Request_addr 74565 0))" by code_simp
  then obtain r where r: "MOP4CLXOR_apply small_mapper (Request_addr 74565 0) = Ok r" by (auto simp: is_ok_iff)
  have a: "addr (Request_addr 74565 0) div 2 ^ nat (m_tx_offset small_mapper) = 4660" by code_simp
  have "m_row_bits_idx small_mapper = lm_num_levels small_mapper - 2"
    "0 < m_row_bits_idx small_mapper" "\<forall>n\<in>set (m_addr_bits small_mapper). n < 31" "0 \<le> addr (Request_addr 74565 0)"
    "addr (Request_addr 74565 0) div 2 ^ nat (m_tx_offset small_mapper) < mapper_capacity small_mapper"
    by (simp_all add: small_mapper_capacity a) (simp_all add: small_mapper_def Request_addr_def)
  from mop_mapping_invertible [OF small_mapper_setup r this] r show ?thesis unfolding a by blast
qed

end
