(* ===== verification/Generic_Controller.thy ===== *)
theory Generic_Controller
  imports AiM_Controller Controller_Plugins Addr_Mapper "HOL-Library.Sublist"
begin

text \<open>
  The controller and the memory system for conventional devices:
  \<^verbatim>\<open>src/src/dram_controller/impl/generic_dram_controller.cpp\<close> and
  \<^verbatim>\<open>src/src/memory_system/impl/generic_DRAM_system.cpp\<close>. Scheduler, address mapper, callbacks, the
  device's \<open>issue_command\<close> and what the plugins leave open are parameters, as for the
  AiM controller. The four request buffers are kept under their names; the counters of row hits are
  never changed by the source and are left out.
\<close>

subsection \<open>State\<close>

datatype generic_buffer = Gen_active | Gen_priority | Gen_read | Gen_write

record GenericController =
  gen_channel_id :: int
  gen_clk :: int
  gen_pending :: "request list"
  gen_buf :: "generic_buffer \<Rightarrow> ReqBuffer"
  gen_row_addr_idx :: int
  gen_wr_low_watermark :: rat
  gen_wr_high_watermark :: rat
  gen_is_write_mode :: bool
  gen_refresh :: AllBankRefresh
  gen_plugin_configs :: "plugin_config list"
  gen_plugins :: "plugin list"

definition GenericController_init :: "controller_config \<Rightarrow> plugin_config list \<Rightarrow> int \<Rightarrow> GenericController" where
  "GenericController_init cfg plugin_cfgs channel_id =
     \<lparr>gen_channel_id = channel_id, gen_clk = 0, gen_pending = [], gen_buf = (\<lambda>_. ReqBuffer_new),
      gen_row_addr_idx = -1,
      gen_wr_low_watermark = opt_or (cfg_wr_low_watermark cfg) default_low_watermark,
      gen_wr_high_watermark = opt_or (cfg_wr_high_watermark cfg) default_high_watermark,
      gen_is_write_mode = False, gen_refresh = AllBankRefresh_new,
      gen_plugin_configs = plugin_cfgs, gen_plugins = []\<rparr>"

definition gen_put :: "generic_buffer \<Rightarrow> ReqBuffer \<Rightarrow> GenericController \<Rightarrow> GenericController" where
  "gen_put x b c = c\<lparr>gen_buf := (gen_buf c)(x := b)\<rparr>"

definition GenericController_setup :: "dram_spec \<Rightarrow> GenericController \<Rightarrow> GenericController result" where
  "GenericController_setup spec c =
     andThen (SpecDef_id (m_levels spec) ''row'') (\<lambda>row.
       Ok (gen_put Gen_priority ((gen_buf c Gen_priority)\<lparr>max_size := 512 * 3 + 32\<rparr>)
             (c\<lparr>gen_row_addr_idx := row\<rparr>)))"

definition GenericController_connect :: "dram_spec \<Rightarrow> GenericController \<Rightarrow> GenericController result" where
  "GenericController_connect spec c =
     andThen (GenericController_setup spec c) (\<lambda>c.
     andThen (AllBankRefresh_setup spec (gen_refresh c)) (\<lambda>rf.
     andThen (map_result (plugin_setup spec) (gen_plugin_configs c)) (\<lambda>ps.
       Ok (c\<lparr>gen_refresh := rf, gen_plugins := ps\<rparr>))))"

subsection \<open>Accepting requests\<close>

definition gen_final_command :: "dram_spec \<Rightarrow> request \<Rightarrow> int result" where
  "gen_final_command spec r = SpecLUT_id (m_requests spec) (m_request_translations spec) (id_of_type (req_type r))"

definition gen_enqueue :: "generic_buffer \<Rightarrow> request \<Rightarrow> GenericController \<Rightarrow> bool \<times> request \<times> GenericController" where
  "gen_enqueue x r c =
     (let (is_success, b) = enqueue r (gen_buf c x) in
      (is_success, if is_success then r else r\<lparr>arrive := -1\<rparr>, gen_put x b c))"

definition gen_send :: "dram_spec \<Rightarrow> request \<Rightarrow> GenericController \<Rightarrow> (bool \<times> request \<times> GenericController) result" where
  "gen_send spec r c =
     andThen (gen_final_command spec r) (\<lambda>f.
       (let r = r\<lparr>final_command := f\<rparr> in
        if req_type r = Read \<and> list_ex (\<lambda>wreq. addr wreq = addr r) (buffer (gen_buf c Gen_write))
        then (let r = r\<lparr>depart := gen_clk c + 1\<rparr> in Ok (True, r, c\<lparr>gen_pending := gen_pending c @ [r]\<rparr>))
        else (let r = r\<lparr>arrive := gen_clk c\<rparr> in
              if req_type r = Read then Ok (gen_enqueue Gen_read r c)
              else if req_type r = Write then Ok (gen_enqueue Gen_write r c)
              else Err (Runtime_error ''Invalid request type!''))))"

definition gen_priority_send :: "dram_spec \<Rightarrow> request \<Rightarrow> GenericController \<Rightarrow> (bool \<times> GenericController) result" where
  "gen_priority_send spec r c =
     andThen (gen_final_command spec r) (\<lambda>f.
       (let (is_success, b) = enqueue (r\<lparr>final_command := f\<rparr>) (gen_buf c Gen_priority) in
        Ok (is_success, gen_put Gen_priority b c)))"

subsection \<open>Completion\<close>

definition gen_serve_completed_reads ::
  "(request \<Rightarrow> 's \<Rightarrow> 's result) \<Rightarrow> GenericController \<Rightarrow> 's \<Rightarrow> (GenericController \<times> 's) result" where
  "gen_serve_completed_reads cb c s =
     (case gen_pending c of
        [] \<Rightarrow> Ok (c, s)
      | r # rest \<Rightarrow>
          if depart r \<le> gen_clk c
          then andThen (run_callback cb r s) (\<lambda>s. Ok (c\<lparr>gen_pending := rest\<rparr>, s))
          else Ok (c, s))"

subsection \<open>Scheduling\<close>

definition gen_set_write_mode :: "GenericController \<Rightarrow> GenericController" where
  "gen_set_write_mode c =
     (let w = gen_buf c Gen_write in
      if \<not> gen_is_write_mode c
      then (if of_nat (buf_size w) > gen_wr_high_watermark c * of_nat (max_size w)
               \<or> buf_size (gen_buf c Gen_read) = 0
            then c\<lparr>gen_is_write_mode := True\<rparr> else c)
      else (if of_nat (buf_size w) < gen_wr_low_watermark c * of_nat (max_size w)
               \<and> buf_size (gen_buf c Gen_read) \<noteq> 0
            then c\<lparr>gen_is_write_mode := False\<rparr> else c))"

type_synonym gen_selection = "(generic_buffer \<times> nat) option"

definition gen_pick_best ::
  "(dram \<Rightarrow> ReqBuffer \<Rightarrow> (nat option \<times> ReqBuffer) result) \<Rightarrow> dram \<Rightarrow> generic_buffer \<Rightarrow> GenericController
    \<Rightarrow> (gen_selection \<times> GenericController) result" where
  "gen_pick_best best d x c =
     andThen (best d (gen_buf c x)) (\<lambda>(it, b).
       case it of
         None \<Rightarrow> Ok (None, gen_put x b c)
       | Some i \<Rightarrow> andThen (request_ready d (buffer b ! i)) (\<lambda>request_found.
           Ok (if request_found then Some (x, i) else None, gen_put x b c)))"

definition gen_pick_head :: "dram \<Rightarrow> GenericController \<Rightarrow> (gen_selection \<times> GenericController) result" where
  "gen_pick_head d c =
     andThen (set_preq_command d (buffer (gen_buf c Gen_priority) ! 0)) (\<lambda>r.
     andThen (request_ready d r) (\<lambda>request_found.
       Ok (if request_found then Some (Gen_priority, 0) else None,
           gen_put Gen_priority (buf_put 0 r (gen_buf c Gen_priority)) c)))"

definition gen_row_group :: "GenericController \<Rightarrow> request \<Rightarrow> int list result" where
  "gen_row_group c r =
     (if nat (gen_row_addr_idx c) \<le> length (addr_vec r) then Ok (take (nat (gen_row_addr_idx c)) (addr_vec r))
      else Err (Undefined ''vector range''))"

definition gen_interrupts_active :: "dram \<Rightarrow> GenericController \<Rightarrow> request \<Rightarrow> bool result" where
  "gen_interrupts_active d c r =
     andThen (SpecLUT_id (m_commands (dram_spec d)) (m_command_meta (dram_spec d)) (command r)) (\<lambda>meta.
       if is_closing meta
       then andThen (gen_row_group c r) (\<lambda>rowgroup.
            andThen (map_result (gen_row_group c) (buffer (gen_buf c Gen_active))) (\<lambda>groups.
              Ok (rowgroup \<in> set groups)))
       else Ok False)"

definition gen_protect :: "dram \<Rightarrow> gen_selection \<times> GenericController \<Rightarrow> (gen_selection \<times> GenericController) result" where
  "gen_protect d = (\<lambda>(sel, c).
     case sel of
       None \<Rightarrow> Ok (None, c)
     | Some (x, i) \<Rightarrow>
         andThen (gen_interrupts_active d c (buffer (gen_buf c x) ! i)) (\<lambda>interrupt.
           Ok (if interrupt then None else sel, c)))"

definition gen_select ::
  "(dram \<Rightarrow> ReqBuffer \<Rightarrow> (nat option \<times> ReqBuffer) result) \<Rightarrow> dram \<Rightarrow> GenericController
    \<Rightarrow> (gen_selection \<times> GenericController) result" where
  "gen_select best d c =
     andThen (gen_pick_best best d Gen_active c) (\<lambda>(sel, c).
       if sel \<noteq> None then Ok (sel, c)
       else if buf_size (gen_buf c Gen_priority) \<noteq> 0 then gen_pick_head d c
       else (let c = gen_set_write_mode c in
             gen_pick_best best d (if gen_is_write_mode c then Gen_write else Gen_read) c))"

definition gen_schedule_request ::
  "(dram \<Rightarrow> ReqBuffer \<Rightarrow> (nat option \<times> ReqBuffer) result) \<Rightarrow> dram \<Rightarrow> GenericController
    \<Rightarrow> (gen_selection \<times> GenericController) result" where
  "gen_schedule_request best d c = andThen (gen_select best d c) (gen_protect d)"

subsection \<open>Serving\<close>

definition gen_remove :: "generic_buffer \<Rightarrow> nat \<Rightarrow> GenericController \<Rightarrow> GenericController" where
  "gen_remove x i c = gen_put x (remove_req i (gen_buf c x)) c"

definition gen_complete :: "dram_spec \<Rightarrow> generic_buffer \<Rightarrow> nat \<Rightarrow> request \<Rightarrow> GenericController \<Rightarrow> GenericController" where
  "gen_complete spec x i r c =
     gen_remove x i
       (if req_type r = Read
        then c\<lparr>gen_pending := gen_pending c @ [r\<lparr>depart := gen_clk c + m_read_latency spec\<rparr>]\<rparr>
        else c)"

text \<open>The result of \<open>m_active_buffer.enqueue\<close> is not looked at.\<close>

definition gen_continue ::
  "dram_spec \<Rightarrow> generic_buffer \<Rightarrow> nat \<Rightarrow> request \<Rightarrow> GenericController \<Rightarrow> GenericController result" where
  "gen_continue spec x i r c =
     andThen (SpecLUT_id (m_commands spec) (m_command_meta spec) (command r)) (\<lambda>meta.
       Ok (if is_opening meta
           then gen_remove x i (gen_put Gen_active (snd (enqueue r (gen_buf c Gen_active))) c)
           else c))"

text \<open>\<open>dev_issue\<close> stands for the virtual \<open>IDRAM::issue_command\<close>, which every device defines for itself.\<close>

type_synonym issue_function = "int \<Rightarrow> int list \<Rightarrow> dram \<Rightarrow> dram result"

definition gen_serve :: "issue_function \<Rightarrow> gen_selection \<Rightarrow> dram \<Rightarrow> GenericController \<Rightarrow> (dram \<times> GenericController) result" where
  "gen_serve dev_issue sel d c =
     (case sel of
        None \<Rightarrow> Ok (d, c)
      | Some (x, i) \<Rightarrow>
          (let r = buffer (gen_buf c x) ! i; spec = dram_spec d in
           andThen (dev_issue (command r) (addr_vec r) d) (\<lambda>d.
           andThen (if command r = final_command r then Ok (gen_complete spec x i r c)
                    else gen_continue spec x i r c) (\<lambda>c. Ok (d, c)))))"

text \<open>The plugins are called in order. A defense may call back with a request of its own, which goes
  to the end of the priority buffer: the iterator of the request being served stays valid.\<close>

definition gen_plugin_step ::
  "plugin_env \<Rightarrow> dram_spec \<Rightarrow> request option \<Rightarrow> nat \<Rightarrow> GenericController \<Rightarrow> GenericController result" where
  "gen_plugin_step env spec req j c =
     andThen (plugin_update env (gen_priority_send spec) spec req (gen_plugins c ! j, c)) (\<lambda>(p, c).
       Ok (c\<lparr>gen_plugins := (gen_plugins c)[j := p]\<rparr>))"

definition gen_plugins_update ::
  "plugin_env \<Rightarrow> dram_spec \<Rightarrow> gen_selection \<Rightarrow> GenericController \<Rightarrow> GenericController result" where
  "gen_plugins_update env spec sel c =
     fold_result (gen_plugin_step env spec (case sel of None \<Rightarrow> None | Some (x, i) \<Rightarrow> Some (buffer (gen_buf c x) ! i)))
       [0..<length (gen_plugins c)] c"

definition gen_refresh_tick :: "dram_spec \<Rightarrow> GenericController \<Rightarrow> GenericController result" where
  "gen_refresh_tick spec c =
     andThen (AllBankRefresh_tick (gen_priority_send spec) (gen_channel_id c) (gen_refresh c) c) (\<lambda>(rf, c).
       Ok (c\<lparr>gen_refresh := rf\<rparr>))"

definition gen_tick ::
  "plugin_env \<Rightarrow> issue_function \<Rightarrow> (dram \<Rightarrow> ReqBuffer \<Rightarrow> (nat option \<times> ReqBuffer) result) \<Rightarrow> (request \<Rightarrow> 's \<Rightarrow> 's result)
    \<Rightarrow> dram \<Rightarrow> GenericController \<Rightarrow> 's \<Rightarrow> (dram \<times> GenericController \<times> 's) result" where
  "gen_tick env dev_issue best cb d c s =
     andThen (gen_serve_completed_reads cb (c\<lparr>gen_clk := gen_clk c + 1\<rparr>) s) (\<lambda>(c, s).
     andThen (gen_refresh_tick (dram_spec d) c) (\<lambda>c.
     andThen (gen_schedule_request best d c) (\<lambda>(sel, c).
     andThen (gen_plugins_update env (dram_spec d) sel c) (\<lambda>c.
     andThen (gen_serve dev_issue sel d c) (\<lambda>(d, c). Ok (d, c, s))))))"

subsection \<open>The memory system\<close>

record generic_system =
  gsys_clk :: int
  gsys_dram :: dram
  gsys_controllers :: "GenericController list"
  s_num_read_requests :: int
  s_num_write_requests :: int
  s_num_other_requests :: int
  gsys_clock_ratio :: int

definition GenericSystem_init :: "dram \<Rightarrow> controller_config \<Rightarrow> plugin_config list \<Rightarrow> int option \<Rightarrow> generic_system result" where
  "GenericSystem_init d ccfg plugin_cfgs ratio =
     andThen (get_level_size (dram_spec d) ''channel'') (\<lambda>num_channels.
       case ratio of
         None \<Rightarrow> Err (Configuration_error ''Param is required but not given'')
       | Some ratio \<Rightarrow> Ok
           \<lparr>gsys_clk = 0, gsys_dram = d,
            gsys_controllers = map (\<lambda>i. GenericController_init ccfg plugin_cfgs (int i)) [0..<nat num_channels],
            s_num_read_requests = 0, s_num_write_requests = 0, s_num_other_requests = 0,
            gsys_clock_ratio = ratio\<rparr>)"

definition GenericSystem_connect :: "generic_system \<Rightarrow> generic_system result" where
  "GenericSystem_connect s =
     andThen (map_result (GenericController_connect (dram_spec (gsys_dram s))) (gsys_controllers s)) (\<lambda>cs.
       Ok (s\<lparr>gsys_controllers := cs\<rparr>))"

definition count_request :: "request \<Rightarrow> generic_system \<Rightarrow> generic_system" where
  "count_request r s =
     (case req_type r of
        Read \<Rightarrow> s\<lparr>s_num_read_requests := s_num_read_requests s + 1\<rparr>
      | Write \<Rightarrow> s\<lparr>s_num_write_requests := s_num_write_requests s + 1\<rparr>
      | _ \<Rightarrow> s\<lparr>s_num_other_requests := s_num_other_requests s + 1\<rparr>)"

definition GenericSystem_send ::
  "(request \<Rightarrow> request result) \<Rightarrow> request \<Rightarrow> generic_system \<Rightarrow> (bool \<times> generic_system) result" where
  "GenericSystem_send mapper r s =
     andThen (mapper r) (\<lambda>r.
     andThen (vec_at (addr_vec r) 0) (\<lambda>channel_id.
     andThen (vec_at (gsys_controllers s) channel_id) (\<lambda>c.
     andThen (gen_send (dram_spec (gsys_dram s)) r c) (\<lambda>(is_success, r, c).
     andThen (vec_put (gsys_controllers s) channel_id c) (\<lambda>cs.
       (let s = s\<lparr>gsys_controllers := cs\<rparr> in
        Ok (is_success, if is_success then count_request r s else s)))))))"

definition gen_tick_controller ::
  "plugin_env \<Rightarrow> issue_function \<Rightarrow> (dram \<Rightarrow> ReqBuffer \<Rightarrow> (nat option \<times> ReqBuffer) result) \<Rightarrow> (request \<Rightarrow> 's \<Rightarrow> 's result) \<Rightarrow> nat
    \<Rightarrow> generic_system \<times> 's \<Rightarrow> (generic_system \<times> 's) result" where
  "gen_tick_controller env dev_issue best cb i = (\<lambda>(s, h).
     andThen (gen_tick env dev_issue best cb (gsys_dram s) (gsys_controllers s ! i) h) (\<lambda>(d, c, h).
       Ok (s\<lparr>gsys_dram := d, gsys_controllers := (gsys_controllers s)[i := c]\<rparr>, h)))"

definition GenericSystem_tick ::
  "plugin_env \<Rightarrow> issue_function \<Rightarrow> (dram \<Rightarrow> ReqBuffer \<Rightarrow> (nat option \<times> ReqBuffer) result) \<Rightarrow> (request \<Rightarrow> 's \<Rightarrow> 's result)
    \<Rightarrow> generic_system \<times> 's \<Rightarrow> (generic_system \<times> 's) result" where
  "GenericSystem_tick env dev_issue best cb = (\<lambda>(s, h).
     fold_result (gen_tick_controller env dev_issue best cb) [0..<length (gsys_controllers s)]
       (s\<lparr>gsys_clk := gsys_clk s + 1, gsys_dram := dram_tick (gsys_dram s)\<rparr>, h))"

subsection \<open>The command a cycle issues\<close>

text \<open>What the selection promises of the request it has found.\<close>

definition servable :: "dram \<Rightarrow> GenericController \<Rightarrow> generic_buffer \<Rightarrow> nat \<Rightarrow> bool" where
  "servable d c x i \<longleftrightarrow> i < length (buffer (gen_buf c x))
     \<and> (let r = buffer (gen_buf c x) ! i in
        dram_get_preq d (final_command r) (addr_vec r) = Ok (command r) \<and> request_ready d r = Ok True)"

lemma gen_put_buf [simp]: "gen_buf (gen_put x b c) y = (if x = y then b else gen_buf c y)"
  by (simp add: gen_put_def)

lemma gen_pick_head_servable:
  assumes "gen_pick_head d c = Ok (Some (x, i), c')" and "buf_size (gen_buf c Gen_priority) \<noteq> 0"
  shows "servable d c' x i"
  using assms
  by (auto simp: gen_pick_head_def servable_def set_preq_command_def result_simps Let_def buf_put_def buf_size_def
      split: if_splits)

context request_scheduler
begin

lemma gen_pick_best_servable:
  assumes "gen_pick_best best d y c = Ok (Some (x, i), c')"
  shows "servable d c' x i"
proof -
  from assms obtain b where b: "best d (gen_buf c y) = Ok (Some i, b)" "request_ready d (buffer b ! i) = Ok True"
    and e: "x = y" "c' = gen_put y b c"
    by (auto simp: gen_pick_best_def result_simps split: option.splits if_splits)
  have i: "i < length (buffer b)" by (rule best_index [OF b(1)])
  then have "i < length (buffer (gen_buf c y))" by (simp add: best_length [OF b(1)])
  then have "rescheduled d (buffer (gen_buf c y) ! i) (buffer b ! i)"
    using best_rescheduled [OF b(1)] by (simp add: list_all2_conv_all_nth)
  from rescheduled_fields(2) [OF this] rescheduled_keeps [OF this, of final_command] rescheduled_keeps [OF this, of addr_vec]
  show ?thesis using i b(2) e by (simp add: servable_def)
qed

lemma gen_select_servable:
  assumes "gen_select best d c = Ok (Some (x, i), c')"
  shows "servable d c' x i"
proof -
  from assms obtain sel c1 where 1: "gen_pick_best best d Gen_active c = Ok (sel, c1)"
    and 2: "(if sel \<noteq> None then Ok (sel, c1)
       else if buf_size (gen_buf c1 Gen_priority) \<noteq> 0 then gen_pick_head d c1
       else (let c = gen_set_write_mode c1 in
             gen_pick_best best d (if gen_is_write_mode c then Gen_write else Gen_read) c)) = Ok (Some (x, i), c')"
    by (auto simp: gen_select_def result_simps)
  show ?thesis
  proof (cases sel)
    case None
    show ?thesis
    proof (cases "buf_size (gen_buf c1 Gen_priority) = 0")
      case True
      then show ?thesis using 2 None gen_pick_best_servable by (simp add: Let_def split: if_splits)
    next
      case False
      then show ?thesis using 2 None gen_pick_head_servable by simp
    qed
  next
    case (Some y)
    then have "gen_pick_best best d Gen_active c = Ok (Some (x, i), c')" using 1 2 by simp
    then show ?thesis by (rule gen_pick_best_servable)
  qed
qed

lemma gen_schedule_servable:
  assumes "gen_schedule_request best d c = Ok (Some (x, i), c')"
  shows "servable d c' x i" "gen_interrupts_active d c' (buffer (gen_buf c' x) ! i) = Ok False"
proof -
  from assms obtain sel c1 where sel: "gen_select best d c = Ok (sel, c1)" and p: "gen_protect d (sel, c1) = Ok (Some (x, i), c')"
    by (auto simp: gen_schedule_request_def result_simps)
  then have y: "sel = Some (x, i)" "c' = c1" "gen_interrupts_active d c1 (buffer (gen_buf c1 x) ! i) = Ok False"
    by (auto simp: gen_protect_def result_simps split: option.splits if_splits)
  show "servable d c' x i" using gen_select_servable sel y(1,2) by simp
  show "gen_interrupts_active d c' (buffer (gen_buf c' x) ! i) = Ok False" using y(2,3) by simp
qed

end

lemma not_interrupting:
  assumes "gen_interrupts_active d c r = Ok False"
    and "SpecLUT_id (m_commands (dram_spec d)) (m_command_meta (dram_spec d)) (command r) = Ok meta" and "is_closing meta"
    and "gen_row_group c r = Ok grp" and "q \<in> set (buffer (gen_buf c Gen_active))"
  shows "gen_row_group c q \<noteq> Ok grp"
proof -
  from assms(1-4) obtain groups where g: "map_result (gen_row_group c) (buffer (gen_buf c Gen_active)) = Ok groups" "grp \<notin> set groups"
    by (auto simp: gen_interrupts_active_def result_simps)
  from assms(5) obtain k where "k < length (buffer (gen_buf c Gen_active))" "q = buffer (gen_buf c Gen_active) ! k"
    by (auto simp: in_set_conv_nth)
  then have "gen_row_group c q = Ok (groups ! k)" "groups ! k \<in> set groups"
    using map_result_nth [OF g(1), of k] map_result_length [OF g(1)] by simp_all
  then show ?thesis using g(2) by auto
qed

lemma gen_priority_send_appends:
  "gen_priority_send spec q c = Ok (b, c') \<Longrightarrow> prefix (buffer (gen_buf c x)) (buffer (gen_buf c' x))"
  by (auto simp: gen_priority_send_def enqueue_def Let_def result_simps split: if_splits)

lemma plugins_only_append:
  assumes "gen_plugins_update env spec sel c = Ok c'"
  shows "prefix (buffer (gen_buf c x)) (buffer (gen_buf c' x))"
  using assms unfolding gen_plugins_update_def
proof (rule fold_result_invariant)
  show "prefix (buffer (gen_buf c x)) (buffer (gen_buf c x))" by simp
next
  fix j u v
  assume p: "prefix (buffer (gen_buf c x)) (buffer (gen_buf u x))"
    and s: "gen_plugin_step env spec (case sel of None \<Rightarrow> None | Some (x, i) \<Rightarrow> Some (buffer (gen_buf c x) ! i)) j u = Ok v"
  then obtain pl w where w: "plugin_update env (gen_priority_send spec) spec
        (case sel of None \<Rightarrow> None | Some (x, i) \<Rightarrow> Some (buffer (gen_buf c x) ! i)) (gen_plugins u ! j, u) = Ok (pl, w)"
    and v: "gen_buf v = gen_buf w"
    by (auto simp: gen_plugin_step_def result_simps)
  have "prefix (buffer (gen_buf c x)) (buffer (gen_buf w x))"
    by (rule plugin_update_keeps [OF w, of "\<lambda>u. prefix (buffer (gen_buf c x)) (buffer (gen_buf u x))"])
      (use p in \<open>blast intro: prefix_order.trans gen_priority_send_appends\<close>)+
  then show "prefix (buffer (gen_buf c x)) (buffer (gen_buf v x))" by (simp add: v)
qed

text \<open>C36: a cycle of the generic controller leaves the device alone when
  its scheduling step finds no request, whatever device it drives. Otherwise it issues one command, for the request found:
  the prerequisite of its final command, which the device is ready for in that cycle, and which,
  if it closes rows, is not for a row group that a request of the active buffer is using.\<close>

theorem generic_issues_ready_command:
  assumes "gen_tick env dev_issue FRFCFS_get_best_request cb d c s = Ok (d', c', s')"
  shows "\<exists>c1 c2 sel c3. gen_serve_completed_reads cb (c\<lparr>gen_clk := gen_clk c + 1\<rparr>) s = Ok (c1, s')
    \<and> gen_refresh_tick (dram_spec d) c1 = Ok c2 \<and> gen_schedule_request FRFCFS_get_best_request d c2 = Ok (sel, c3)
    \<and> (case sel of
         None \<Rightarrow> d' = d
       | Some (x, i) \<Rightarrow> i < length (buffer (gen_buf c3 x)) \<and>
           (let r = buffer (gen_buf c3 x) ! i in
            dev_issue (command r) (addr_vec r) d = Ok d'
            \<and> dram_get_preq d (final_command r) (addr_vec r) = Ok (command r)
            \<and> dram_check_ready d (command r) (addr_vec r) = Ok True
            \<and> (\<forall>meta grp. SpecLUT_id (m_commands (dram_spec d)) (m_command_meta (dram_spec d)) (command r) = Ok meta
                \<longrightarrow> is_closing meta \<longrightarrow> gen_row_group c3 r = Ok grp
                \<longrightarrow> (\<forall>q\<in>set (buffer (gen_buf c3 Gen_active)). gen_row_group c3 q \<noteq> Ok grp))))"
proof -
  from assms obtain c1 c2 sel c3 c4 where
    st: "gen_serve_completed_reads cb (c\<lparr>gen_clk := gen_clk c + 1\<rparr>) s = Ok (c1, s')"
      "gen_refresh_tick (dram_spec d) c1 = Ok c2" "gen_schedule_request FRFCFS_get_best_request d c2 = Ok (sel, c3)"
    and p: "gen_plugins_update env (dram_spec d) sel c3 = Ok c4" and serve: "gen_serve dev_issue sel d c4 = Ok (d', c')"
    by (auto simp: gen_tick_def result_simps)
  have b: "prefix (buffer (gen_buf c3 x)) (buffer (gen_buf c4 x))" for x by (rule plugins_only_append [OF p])
  show ?thesis
  proof (cases sel)
    case None
    then have "d' = d" using serve by (simp add: gen_serve_def)
    show ?thesis
      by (rule exI [of _ c1], rule exI [of _ c2], rule exI [of _ None], rule exI [of _ c3])
        (use st None \<open>d' = d\<close> in simp)
  next
    case (Some y)
    then obtain x i where y: "sel = Some (x, i)" by (cases y) auto
    let ?r = "buffer (gen_buf c3 x) ! i"
    note sv = frfcfs.gen_schedule_servable [OF st(3) [unfolded y]]
    have i: "i < length (buffer (gen_buf c3 x))" using sv(1) by (simp add: servable_def)
    then have "buffer (gen_buf c4 x) ! i = ?r" using b [of x] by (auto simp: prefix_def nth_append)
    then have "dev_issue (command ?r) (addr_vec ?r) d = Ok d'"
      using serve y by (auto simp: gen_serve_def Let_def result_simps)
    moreover have "i < length (buffer (gen_buf c3 x))" "dram_get_preq d (final_command ?r) (addr_vec ?r) = Ok (command ?r)"
      "dram_check_ready d (command ?r) (addr_vec ?r) = Ok True"
      using sv(1) by (auto simp: servable_def Let_def request_ready_def)
    ultimately have "case sel of None \<Rightarrow> d' = d | Some (x, i) \<Rightarrow> i < length (buffer (gen_buf c3 x)) \<and>
           (let r = buffer (gen_buf c3 x) ! i in
            dev_issue (command r) (addr_vec r) d = Ok d'
            \<and> dram_get_preq d (final_command r) (addr_vec r) = Ok (command r)
            \<and> dram_check_ready d (command r) (addr_vec r) = Ok True
            \<and> (\<forall>meta grp. SpecLUT_id (m_commands (dram_spec d)) (m_command_meta (dram_spec d)) (command r) = Ok meta
                \<longrightarrow> is_closing meta \<longrightarrow> gen_row_group c3 r = Ok grp
                \<longrightarrow> (\<forall>q\<in>set (buffer (gen_buf c3 Gen_active)). gen_row_group c3 q \<noteq> Ok grp)))"
      using y not_interrupting [OF sv(2)] unfolding Let_def by simp
    with st show ?thesis by blast
  qed
qed

text \<open>A read on the small device: the first cycle opens its row.\<close>

definition generic_config :: controller_config where
  "generic_config = \<lparr>cfg_wr_low_watermark = None, cfg_wr_high_watermark = None, cfg_clock_ratio = None, cfg_plugins = []\<rparr>"

definition generic_env :: plugin_env where
  "generic_env = \<lparr>env_order = (\<lambda>_ t. t), env_draws = (\<lambda>_. 0)\<rparr>"

definition generic_with_read :: "GenericController result" where
  "generic_with_read =
     andThen (GenericController_connect (dram_spec small_device) (GenericController_init generic_config [Config_TraceRecorder] 0)) (\<lambda>c.
     andThen (gen_send (dram_spec small_device) (Request_addr_vec [0, 0, 1, 3, 0] 0) c) (\<lambda>(_, _, c). Ok c))"

theorem generic_issues_ready_command_witness:
  "\<exists>c d' c'. \<exists>r :: request. gen_tick generic_env issue_command FRFCFS_get_best_request (\<lambda>r s. Ok s) small_device c () = Ok (d', c', ())
     \<and> issue_command (command r) (addr_vec r) small_device = Ok d' \<and> d' \<noteq> small_device
     \<and> dram_check_ready small_device (command r) (addr_vec r) = Ok True"
proof -
  have "case generic_with_read of Inl _ \<Rightarrow> False | Inr c \<Rightarrow>
      (case gen_tick generic_env issue_command FRFCFS_get_best_request (\<lambda>r s. Ok s) small_device c () of
         Inl _ \<Rightarrow> False | Inr (d', c', s) \<Rightarrow> m_open_rows d' \<noteq> m_open_rows small_device)"
    by code_simp
  then obtain c d' c' where t: "gen_tick generic_env issue_command FRFCFS_get_best_request (\<lambda>r s. Ok s) small_device c () = Ok (d', c', ())"
    and d: "d' \<noteq> small_device" by (auto split: sum.splits)
  from generic_issues_ready_command [OF t] show ?thesis
  proof (elim exE conjE)
    fix sel :: gen_selection and c3 :: GenericController
    assume "case sel of None \<Rightarrow> d' = small_device | Some (x, i) \<Rightarrow> i < length (buffer (gen_buf c3 x)) \<and>
           (let r = buffer (gen_buf c3 x) ! i in
            issue_command (command r) (addr_vec r) small_device = Ok d'
            \<and> dram_get_preq small_device (final_command r) (addr_vec r) = Ok (command r)
            \<and> dram_check_ready small_device (command r) (addr_vec r) = Ok True
            \<and> (\<forall>meta grp. SpecLUT_id (m_commands (dram_spec small_device)) (m_command_meta (dram_spec small_device)) (command r) = Ok meta
                \<longrightarrow> is_closing meta \<longrightarrow> gen_row_group c3 r = Ok grp
                \<longrightarrow> (\<forall>q\<in>set (buffer (gen_buf c3 Gen_active)). gen_row_group c3 q \<noteq> Ok grp)))"
    with d obtain x i where k: "issue_command (command (buffer (gen_buf c3 x) ! i)) (addr_vec (buffer (gen_buf c3 x) ! i)) small_device = Ok d'
        \<and> dram_check_ready small_device (command (buffer (gen_buf c3 x) ! i)) (addr_vec (buffer (gen_buf c3 x) ! i)) = Ok True"
      by (cases sel) (auto simp: Let_def)
    show ?thesis
      by (rule exI [of _ c], rule exI [of _ d'], rule exI [of _ c'], rule exI [of _ "buffer (gen_buf c3 x) ! i"])
        (use t d k in simp)
  qed
qed

end
