(* ===== verification/Row_Indirection.thy ===== *)
theory Row_Indirection
  imports Row_Hammer Addr_Mapper "HOL-Library.AList"
begin

text \<open>
  \<^verbatim>\<open>src/src/addr_mapper/impl/rit.h\<close> and \<^verbatim>\<open>rit.cpp\<close>: the linear mappers with a row indirection table
  per bank, by which a defense moves rows. A bank's hash table is an association list; the order in
  which it is searched is the parameter \<open>order\<close>. \<open>dump_rit\<close> only prints and is left out.
\<close>

subsection \<open>The table\<close>

record RIT_entry =
  dst_row :: int
  rit_lock :: bool

type_synonym rit_bank = "(int \<times> RIT_entry) list"

record rit_mapper =
  rit_base :: linear_mapper
  rit_rank_level :: int
  rit_bank_level :: int
  rit_row_level :: int
  rit_num_entries :: int
  m_row_indirection_table :: "rit_bank list"

definition LinearMapperBase_with_rit_setup :: "dram_spec \<Rightarrow> rit_mapper result" where
  "LinearMapperBase_with_rit_setup spec =
     andThen (LinearMapperBase_setup spec) (\<lambda>m.
       Ok \<lparr>rit_base = m, rit_rank_level = -1, rit_bank_level = -1, rit_row_level = -1,
           rit_num_entries = -1, m_row_indirection_table = []\<rparr>)"

definition init_rit :: "dram_spec \<Rightarrow> int \<Rightarrow> int \<Rightarrow> rit_mapper \<Rightarrow> rit_mapper result" where
  "init_rit spec num_banks num_rit_entries m =
     andThen (SpecDef_id (m_levels spec) ''rank'') (\<lambda>rank.
     andThen (SpecDef_id (m_levels spec) ''bank'') (\<lambda>bank.
     andThen (SpecDef_id (m_levels spec) ''row'') (\<lambda>row.
       Ok (m\<lparr>rit_num_entries := num_rit_entries, rit_rank_level := rank, rit_bank_level := bank,
             rit_row_level := row,
             m_row_indirection_table := m_row_indirection_table m @ replicate (nat num_banks) []\<rparr>))))"

definition rit_lookup :: "rit_bank \<Rightarrow> int \<Rightarrow> int" where
  "rit_lookup t src_row = (case map_of t src_row of Some e \<Rightarrow> dst_row e | None \<Rightarrow> -1)"

definition check_rit :: "rit_mapper \<Rightarrow> int \<Rightarrow> int \<Rightarrow> int result" where
  "check_rit m b src_row = andThen (vec_at (m_row_indirection_table m) b) (\<lambda>t. Ok (rit_lookup t src_row))"

text \<open>The comparison of \<open>size()\<close> with an \<open>int\<close> converts the latter to an unsigned number.\<close>

definition is_rit_full :: "rit_mapper \<Rightarrow> int \<Rightarrow> bool result" where
  "is_rit_full m b =
     andThen (vec_at (m_row_indirection_table m) b) (\<lambda>t.
       Ok (int (length t) \<ge> to_unsigned 64 (rit_num_entries m)))"

text \<open>On a row without an entry \<open>operator[]\<close> would make one and read its uninitialised lock.\<close>

definition is_rit_locked :: "rit_mapper \<Rightarrow> int \<Rightarrow> int \<Rightarrow> bool result" where
  "is_rit_locked m b src_row =
     andThen (vec_at (m_row_indirection_table m) b) (\<lambda>t.
       case map_of t src_row of
         Some e \<Rightarrow> Ok (rit_lock e)
       | None \<Rightarrow> Err (Undefined ''uninitialised RIT entry''))"

definition rit_unlock :: "rit_mapper \<Rightarrow> rit_mapper" where
  "rit_unlock m = m\<lparr>m_row_indirection_table :=
     map (map (\<lambda>(src, e). (src, e\<lparr>rit_lock := False\<rparr>))) (m_row_indirection_table m)\<rparr>"

definition rit_put :: "rit_mapper \<Rightarrow> int \<Rightarrow> rit_bank \<Rightarrow> rit_mapper" where
  "rit_put m b t = m\<lparr>m_row_indirection_table := (m_row_indirection_table m)[nat b := t]\<rparr>"

definition rit_insert_entry :: "int \<Rightarrow> int \<Rightarrow> int \<Rightarrow> rit_mapper \<Rightarrow> rit_mapper result" where
  "rit_insert_entry b src_row dst m =
     andThen (vec_at (m_row_indirection_table m) b) (\<lambda>t.
       (let t = AList.update dst \<lparr>dst_row = src_row, rit_lock = True\<rparr>
                  (AList.update src_row \<lparr>dst_row = dst, rit_lock = True\<rparr> t)
        in if int (length t) > to_unsigned 64 (rit_num_entries m) then Err (Exit_failure ''RIT is full'')
           else Ok (rit_put m b t)))"

definition rit_remove_entry :: "int \<Rightarrow> int \<Rightarrow> int \<Rightarrow> rit_mapper \<Rightarrow> rit_mapper result" where
  "rit_remove_entry b src_row dst m =
     andThen (vec_at (m_row_indirection_table m) b) (\<lambda>t.
       Ok (rit_put m b (AList.delete dst (AList.delete src_row t))))"

definition get_unswap_pair ::
  "(rit_bank \<Rightarrow> rit_bank) \<Rightarrow> rit_mapper \<Rightarrow> int \<Rightarrow> (int \<Rightarrow> bool) \<Rightarrow> (int \<times> int) result" where
  "get_unswap_pair order m b excluded =
     andThen (vec_at (m_row_indirection_table m) b) (\<lambda>t.
       case find (\<lambda>(src, e). \<not> rit_lock e \<and> \<not> excluded src \<and> \<not> excluded (dst_row e)) (order t) of
         Some (src, e) \<Rightarrow> Ok (src, dst_row e)
       | None \<Rightarrow> Err (Exit_failure ''No unlocked entry found in the RIT!''))"

subsection \<open>The mappings\<close>

definition apply_indirection :: "dram_spec \<Rightarrow> rit_mapper \<Rightarrow> request \<Rightarrow> request result" where
  "apply_indirection spec m r =
     (if rit_num_entries m = -1 then Ok r
      else andThen (flat_bank_of spec (rit_rank_level m) (rit_bank_level m) (addr_vec r)) (\<lambda>b.
           andThen (vec_at (addr_vec r) (rit_row_level m)) (\<lambda>src_row.
           andThen (check_rit m b src_row) (\<lambda>dst.
             if dst \<noteq> -1
             then andThen (vec_put (addr_vec r) (rit_row_level m) dst) (\<lambda>v. Ok (r\<lparr>addr_vec := v\<rparr>))
             else Ok r))))"

definition ChRaBaRoCo_with_rit_apply :: "dram_spec \<Rightarrow> rit_mapper \<Rightarrow> request \<Rightarrow> request result" where
  "ChRaBaRoCo_with_rit_apply spec m r = andThen (ChRaBaRoCo_apply (rit_base m) r) (apply_indirection spec m)"

definition RoBaRaCoCh_with_rit_apply :: "dram_spec \<Rightarrow> rit_mapper \<Rightarrow> request \<Rightarrow> request result" where
  "RoBaRaCoCh_with_rit_apply spec m r = andThen (RoBaRaCoCh_apply (rit_base m) r) (apply_indirection spec m)"

definition MOP4CLXOR_with_rit_apply :: "dram_spec \<Rightarrow> rit_mapper \<Rightarrow> request \<Rightarrow> request result" where
  "MOP4CLXOR_with_rit_apply spec m r = andThen (MOP4CLXOR_apply (rit_base m) r) (apply_indirection spec m)"

subsection \<open>Tables that pair rows\<close>

text \<open>A table pairs rows when every entry has its counterpart. Rows are never -1, the value that
  says that there is no entry.\<close>

definition pairing :: "(int \<rightharpoonup> int) \<Rightarrow> bool" where
  "pairing f \<longleftrightarrow> (\<forall>a b. f a = Some b \<longrightarrow> f b = Some a \<and> b \<noteq> -1)"

definition rit_map :: "rit_bank \<Rightarrow> int \<rightharpoonup> int" where
  "rit_map t = map_option dst_row \<circ> map_of t"

definition rit_ok :: "rit_bank \<Rightarrow> bool" where
  "rit_ok t \<longleftrightarrow> distinct (map fst t) \<and> pairing (rit_map t)"

lemma rit_lookup_map: "rit_lookup t src = (case rit_map t src of Some d \<Rightarrow> d | None \<Rightarrow> -1)"
  by (simp add: rit_lookup_def rit_map_def split: option.splits)

lemma pairingD: "pairing f \<Longrightarrow> f a = Some b \<Longrightarrow> f b = Some a \<and> b \<noteq> -1"
  unfolding pairing_def by blast

lemma pairing_not_minus_one: "pairing f \<Longrightarrow> f (-1) = None"
  using pairingD [of f "-1"] pairingD [of f _ "-1"] by (metis not_None_eq)

lemma pairing_insert:
  assumes f: "pairing f" and "f a = None" "f b = None" "a \<noteq> b" "a \<noteq> -1" "b \<noteq> -1"
  shows "pairing (f(a \<mapsto> b, b \<mapsto> a))"
  unfolding pairing_def
proof (intro allI impI)
  fix x y assume g: "(f(a \<mapsto> b, b \<mapsto> a)) x = Some y"
  show "(f(a \<mapsto> b, b \<mapsto> a)) y = Some x \<and> y \<noteq> -1"
  proof (cases "x = a \<or> x = b")
    case True
    then show ?thesis using g assms(4-6) by (auto split: if_splits)
  next
    case False
    then have "f x = Some y" using g by simp
    then have "f y = Some x" "y \<noteq> -1" using pairingD [OF f] by blast+
    moreover from this have "y \<noteq> a" "y \<noteq> b" using assms(2,3) by auto
    ultimately show ?thesis by simp
  qed
qed

lemma pairing_delete:
  assumes f: "pairing f" and ab: "f a = Some b"
  shows "pairing (f(a := None, b := None))"
  unfolding pairing_def
proof (intro allI impI)
  fix x y assume g: "(f(a := None, b := None)) x = Some y"
  then have "f x = Some y" "x \<noteq> a" "x \<noteq> b" by (auto split: if_splits)
  moreover from this have "f y = Some x" "y \<noteq> -1" using pairingD [OF f] by blast+
  moreover have "f b = Some a" using pairingD [OF f ab] by blast
  ultimately have "y \<noteq> a" "y \<noteq> b" using ab by auto
  with \<open>f y = Some x\<close> \<open>y \<noteq> -1\<close> show "(f(a := None, b := None)) y = Some x \<and> y \<noteq> -1" by simp
qed

lemma lookup_some:
  assumes "pairing (rit_map t)"
  shows "rit_lookup t src \<noteq> -1 \<longleftrightarrow> rit_map t src = Some (rit_lookup t src)"
proof (cases "rit_map t src")
  case None
  then show ?thesis by (simp add: rit_lookup_map)
next
  case (Some d)
  then show ?thesis using pairingD [OF assms Some] by (simp add: rit_lookup_map)
qed

lemma rit_map_update [simp]: "rit_map (AList.update a e t) = (rit_map t)(a \<mapsto> dst_row e)"
  by (rule ext) (simp add: rit_map_def update_conv')

lemma rit_map_delete [simp]: "rit_map (AList.delete a t) = (rit_map t)(a := None)"
  by (rule ext) (simp add: rit_map_def delete_conv')

lemma rit_ok_insert:
  assumes "rit_ok t" "rit_map t a = None" "rit_map t b = None" "a \<noteq> b" "a \<noteq> -1" "b \<noteq> -1"
  shows "rit_ok (AList.update b \<lparr>dst_row = a, rit_lock = True\<rparr> (AList.update a \<lparr>dst_row = b, rit_lock = True\<rparr> t))"
  using assms pairing_insert [of "rit_map t" a b] by (simp add: rit_ok_def distinct_update)

lemma rit_ok_delete:
  assumes "rit_ok t" "rit_map t a = Some b"
  shows "rit_ok (AList.delete b (AList.delete a t))"
  using assms pairing_delete [of "rit_map t" a b] by (simp add: rit_ok_def distinct_delete)

lemma rit_ok_unlock: "rit_ok t \<Longrightarrow> rit_ok (map (\<lambda>(src, e). (src, e\<lparr>rit_lock := False\<rparr>)) t)"
proof -
  assume ok: "rit_ok t"
  have "map_of (map (\<lambda>(src, e). (src, e\<lparr>rit_lock := False\<rparr>)) t) = map_option (\<lambda>e. e\<lparr>rit_lock := False\<rparr>) \<circ> map_of t"
    by (rule map_of_map)
  then have "rit_map (map (\<lambda>(src, e). (src, e\<lparr>rit_lock := False\<rparr>)) t) = rit_map t"
    by (intro ext) (simp add: rit_map_def option.map_comp comp_def)
  moreover have "map fst (map (\<lambda>(src, e). (src, e\<lparr>rit_lock := False\<rparr>)) t) = map fst t" by auto
  ultimately show ?thesis using ok by (simp add: rit_ok_def del: map_map)
qed

text \<open>C@rit_indirection_involutive: while the tables pair rows, the indirection maps a vector to one
  that differs in the row at most, and mapping that once more restores it: no two rows of a bank are
  ever stored in the same place.\<close>

theorem rit_indirection_involutive:
  assumes "\<forall>t\<in>set (m_row_indirection_table m). rit_ok t"
    and "0 \<le> rit_rank_level m" "rit_rank_level m \<le> rit_bank_level m" "rit_bank_level m < rit_row_level m"
    and "apply_indirection spec m r = Ok r'"
  shows "apply_indirection spec m r' = Ok r
    \<and> (\<exists>row. r' = r\<lparr>addr_vec := (addr_vec r)[nat (rit_row_level m) := row]\<rparr>)"
proof (cases "rit_num_entries m = -1")
  case True
  then have "r' = r" using assms(5) by (simp add: apply_indirection_def)
  then show ?thesis using True
    by (intro conjI exI [of _ "addr_vec r ! nat (rit_row_level m)"]) (simp_all add: apply_indirection_def)
next
  case False
  let ?i = "rit_row_level m" and ?row = "addr_vec r ! nat (rit_row_level m)"
  obtain b t where b: "flat_bank_of spec (rit_rank_level m) (rit_bank_level m) (addr_vec r) = Ok b"
    and i: "in_vec (addr_vec r) ?i" and t: "in_vec (m_row_indirection_table m) b" "t = m_row_indirection_table m ! nat b"
    and u: "(if rit_lookup t ?row \<noteq> -1
        then andThen (vec_put (addr_vec r) ?i (rit_lookup t ?row)) (\<lambda>v. Ok (r\<lparr>addr_vec := v\<rparr>)) else Ok r) = Ok r'"
    using assms(5) False unfolding apply_indirection_def check_rit_def
    by (auto simp: andThen_Ok_iff vec_at_Ok_iff simp del: vec_put_Ok_iff)
  have r': "if rit_lookup t ?row \<noteq> -1 then r' = r\<lparr>addr_vec := (addr_vec r)[nat ?i := rit_lookup t ?row]\<rparr> else r' = r"
    using u by (simp add: result_simps split: if_splits)
  have "t \<in> set (m_row_indirection_table m)" using t in_vec_nat [OF t(1)] by simp
  then have p: "pairing (rit_map t)" using assms(1) by (simp add: rit_ok_def)
  show ?thesis
  proof (cases "rit_lookup t ?row = -1")
    case True
    then have "r' = r" using r' by simp
    then show ?thesis using assms(5) by (auto intro!: exI [of _ ?row])
  next
    case moved: False
    let ?v = "(addr_vec r)[nat ?i := rit_lookup t ?row]"
    have r'v: "r' = r\<lparr>addr_vec := ?v\<rparr>" using r' moved by simp
    have same: "vec_at ?v k = vec_at (addr_vec r) k" if "k \<le> rit_bank_level m" for k
      using that assms(2,3,4) by (auto simp: vec_at_def in_vec_def nth_list_update)
    have "flat_bank_step spec ?v k = flat_bank_step spec (addr_vec r) k" if "k \<le> rit_bank_level m" for k
      by (simp add: flat_bank_step_def same [OF that])
    then have "fold_result (flat_bank_step spec ?v) (rev [rit_rank_level m .. rit_bank_level m - 1]) st
        = fold_result (flat_bank_step spec (addr_vec r)) (rev [rit_rank_level m .. rit_bank_level m - 1]) st" for st
      by (intro fold_result_cong) auto
    then have "flat_bank_of spec (rit_rank_level m) (rit_bank_level m) ?v = Ok b"
      using b same [of "rit_bank_level m"] unfolding flat_bank_of_def by simp
    moreover have "rit_map t ?row = Some (rit_lookup t ?row)" using lookup_some [OF p] moved by simp
    then have "rit_map t (rit_lookup t ?row) = Some ?row" "?row \<noteq> -1"
      using pairingD [OF p, of ?row] pairing_not_minus_one [OF p] by auto
    then have "rit_lookup t (rit_lookup t ?row) = ?row" "?row \<noteq> -1" by (simp_all add: rit_lookup_map)
    ultimately have "apply_indirection spec m r' = Ok r"
      using False i t in_vec_nat [OF i]
      by (simp add: apply_indirection_def r'v check_rit_def vec_at_def vec_put_def)
    then show ?thesis using r'v by auto
  qed
qed

text \<open>Rows 3 and 5 of the second bank swapped.\<close>

definition small_rit :: rit_mapper where
  "small_rit =
     \<lparr>rit_base = \<lparr>lm_num_levels = 6, m_addr_bits = [0, 0, 0, 1, 3, 2], m_tx_offset = 0, m_col_bits_idx = 5,
        m_row_bits_idx = 4\<rparr>, rit_rank_level = 1, rit_bank_level = 3, rit_row_level = 4, rit_num_entries = 8,
      m_row_indirection_table = [[], [(3, \<lparr>dst_row = 5, rit_lock = True\<rparr>), (5, \<lparr>dst_row = 3, rit_lock = True\<rparr>)]]\<rparr>"

theorem rit_indirection_involutive_witness:
  "apply_indirection small_vrr_spec small_rit (small_activation 1 3) = Ok (small_activation 1 5)
   \<and> apply_indirection small_vrr_spec small_rit (small_activation 1 5) = Ok (small_activation 1 3)"
proof -
  have a: "apply_indirection small_vrr_spec small_rit (small_activation 1 3) = Ok (small_activation 1 5)" by code_simp
  have "\<forall>t\<in>set (m_row_indirection_table small_rit). rit_ok t"
    by (auto simp: small_rit_def rit_ok_def pairing_def rit_map_def split: if_splits)
  from rit_indirection_involutive [OF this _ _ _ a] a show ?thesis by (simp add: small_rit_def)
qed

end
