(* ===== verification/RRS.thy ===== *)
theory RRS
  imports Row_Indirection Float32 Graphene
begin

text \<open>
  \<^verbatim>\<open>src/src/dram_controller/impl/plugin/rrs.cpp\<close>, which swaps a hot row with a random one: it copies
  the two rows by requests of its own and records the swap in the row indirection table of the
  address mapper, which it shares with the memory system. The state is the plugin's and the
  mapper's. What the language leaves open is a parameter: the order in which a table is searched
  and the rows the generator draws; a loop that rejects draw after draw is given up after
  \<open>rrs_fuel\<close> of them, as a computation that does not return.
\<close>

subsection \<open>State and setup\<close>

record rrs_env =
  rrs_order :: "int \<Rightarrow> (int \<times> int) list \<Rightarrow> (int \<times> int) list"
  rrs_rit_order :: "int \<Rightarrow> rit_bank \<Rightarrow> rit_bank"
  rrs_draws :: "nat \<Rightarrow> int"
  rrs_fuel :: nat

record RRS =
  rrs_dev :: row_hammer
  rrs_clk :: int
  rrs_num_hrt_entries :: int
  m_rss_threshold :: int
  rrs_reset_period_clk :: int
  m_RD_req_id :: int
  m_WR_req_id :: int
  m_col_level :: int
  m_num_cls :: int
  m_hot_row_tracker :: "(int \<times> int) list list"
  rrs_spillover :: "int list"
  rrs_drawn :: nat
  s_num_swaps :: int
  s_num_unswaps :: int
  s_num_reswaps :: int

record rrs_config =
  cfg_num_hrt_entries :: "int option"
  cfg_num_rit_entries :: "int option"
  cfg_rss_threshold :: "int option"
  cfg_rss_reset_period_ns :: "int option"

definition RRS_setup :: "rrs_config \<Rightarrow> dram_spec \<Rightarrow> rit_mapper \<Rightarrow> (RRS \<times> rit_mapper) result" where
  "RRS_setup cfg spec m =
     (case (cfg_num_hrt_entries cfg, cfg_num_rit_entries cfg, cfg_rss_threshold cfg, cfg_rss_reset_period_ns cfg) of
        (Some hrt, Some rit, Some threshold, Some reset_ns) \<Rightarrow>
          andThen (SpecLUT_named (m_timings spec) (m_timing_vals spec) ''tCK_ps'') (\<lambda>tCK.
          andThen (reset_period_clk reset_ns tCK) (\<lambda>period.
          andThen (SpecDef_id (m_requests spec) ''read'') (\<lambda>rd.
          andThen (SpecDef_id (m_requests spec) ''write'') (\<lambda>wr.
          andThen (row_hammer_levels spec (-1)) (\<lambda>rh.
          andThen (SpecDef_id (m_levels spec) ''column'') (\<lambda>col.
          andThen (get_level_size spec ''column'') (\<lambda>columns.
            if total_banks rh < 0 then Err (Runtime_error ''length_error'')
            else andThen (init_rit spec (total_banks rh) rit m) (\<lambda>m.
              Ok (\<lparr>rrs_dev = rh, rrs_clk = 0, rrs_num_hrt_entries = hrt, m_rss_threshold = threshold,
                   rrs_reset_period_clk = period, m_RD_req_id = rd, m_WR_req_id = wr, m_col_level = col,
                   m_num_cls = columns sdiv 8, m_hot_row_tracker = replicate (nat (total_banks rh)) [],
                   rrs_spillover = replicate (nat (total_banks rh)) 0, rrs_drawn = 0,
                   s_num_swaps = 0, s_num_unswaps = 0, s_num_reswaps = 0\<rparr>, m)))))))))
      | _ \<Rightarrow> Err (Configuration_error ''Param is required but not given''))"

subsection \<open>Swapping rows\<close>

text \<open>The requests that copy one row, for each of the four loops of \<open>issue_swap\<close>.\<close>

definition copy_requests :: "RRS \<Rightarrow> request \<Rightarrow> int \<Rightarrow> int \<Rightarrow> request list result" where
  "copy_requests p r row t =
     andThen (vec_put (addr_vec r) (rh_row_level (rrs_dev p)) row) (\<lambda>av.
       map_result (\<lambda>cl. andThen (vec_put av (m_col_level p) (cl * 8)) (\<lambda>av. Ok (Request_addr_vec av t)))
         [0 .. m_num_cls p - 1])"

definition send_or_exit :: "(request \<Rightarrow> 'c \<Rightarrow> (bool \<times> 'c) result) \<Rightarrow> request list \<Rightarrow> 'c \<Rightarrow> 'c result" where
  "send_or_exit send rs c =
     fold_result (\<lambda>q c. andThen (send q c) (\<lambda>(sent, c).
       if sent then Ok c else Err (Exit_failure ''Check priority queue max size.''))) rs c"

definition issue_swap ::
  "(request \<Rightarrow> 'c \<Rightarrow> (bool \<times> 'c) result) \<Rightarrow> RRS \<Rightarrow> request \<Rightarrow> int \<Rightarrow> int \<Rightarrow> 'c \<Rightarrow> 'c result" where
  "issue_swap send p r src dst c =
     fold_result (\<lambda>(row, t) c.
       andThen (copy_requests p r row t) (\<lambda>rs. send_or_exit send rs c))
       [(src, m_RD_req_id p), (dst, m_RD_req_id p), (dst, m_WR_req_id p), (src, m_WR_req_id p)] c"

fun draw_row :: "nat \<Rightarrow> (nat \<Rightarrow> int) \<Rightarrow> (int \<Rightarrow> bool) \<Rightarrow> nat \<Rightarrow> (int \<times> nat) result" where
  "draw_row 0 draws acceptable n = Err (Undefined ''endless loop'')"
| "draw_row (Suc fuel) draws acceptable n =
     (if acceptable (draws n) then Ok (draws n, n + 1) else draw_row fuel draws acceptable (n + 1))"

definition get_rand_row ::
  "rrs_env \<Rightarrow> int \<Rightarrow> int \<Rightarrow> RRS \<times> rit_mapper \<Rightarrow> (int \<times> RRS) result" where
  "get_rand_row env b row_id = (\<lambda>(p, m).
     andThen (vec_at (m_hot_row_tracker p) b) (\<lambda>hrt.
     andThen (vec_at (m_row_indirection_table m) b) (\<lambda>t.
     andThen (draw_row (rrs_fuel env) (rrs_draws env)
         (\<lambda>x. map_of hrt x = None \<and> rit_lookup t x = -1 \<and> x \<noteq> row_id \<and> x \<noteq> -1) (rrs_drawn p)) (\<lambda>(x, n).
       Ok (x, p\<lparr>rrs_drawn := n\<rparr>)))))"

type_synonym 'c rrs_state = "(RRS \<times> rit_mapper) \<times> 'c"

text \<open>When the table is full a pair of rows that are not hot is swapped back.\<close>

definition rrs_make_room ::
  "rrs_env \<Rightarrow> (request \<Rightarrow> 'c \<Rightarrow> (bool \<times> 'c) result) \<Rightarrow> request \<Rightarrow> int \<Rightarrow> 'c rrs_state \<Rightarrow> 'c rrs_state result" where
  "rrs_make_room env send r b = (\<lambda>((p, m), c).
     andThen (is_rit_full m b) (\<lambda>full.
       if full
       then andThen (vec_at (m_hot_row_tracker p) b) (\<lambda>hrt.
            andThen (get_unswap_pair (rrs_rit_order env (rrs_clk p)) m b (\<lambda>x. map_of hrt x \<noteq> None)) (\<lambda>(src, dst).
            andThen (issue_swap send p r src dst c) (\<lambda>c.
            andThen (rit_remove_entry b src dst m) (\<lambda>m.
              Ok ((p\<lparr>s_num_unswaps := s_num_unswaps p + 1\<rparr>, m), c)))))
       else Ok ((p, m), c)))"

definition rrs_first_swap ::
  "rrs_env \<Rightarrow> (request \<Rightarrow> 'c \<Rightarrow> (bool \<times> 'c) result) \<Rightarrow> request \<Rightarrow> int \<Rightarrow> int \<Rightarrow> 'c rrs_state \<Rightarrow> 'c rrs_state result" where
  "rrs_first_swap env send r b row st =
     andThen (rrs_make_room env send r b st) (\<lambda>((p, m), c).
     andThen (get_rand_row env b row (p, m)) (\<lambda>(dst, p).
     andThen (issue_swap send p r row dst c) (\<lambda>c.
     andThen (rit_insert_entry b row dst m) (\<lambda>m.
       Ok ((p\<lparr>s_num_swaps := s_num_swaps p + 1\<rparr>, m), c)))))"

text \<open>Swapped in an earlier epoch: back, and with another row.\<close>

definition rrs_swap_back ::
  "rrs_env \<Rightarrow> (request \<Rightarrow> 'c \<Rightarrow> (bool \<times> 'c) result) \<Rightarrow> request \<Rightarrow> int \<Rightarrow> int \<Rightarrow> int \<Rightarrow> 'c rrs_state
    \<Rightarrow> 'c rrs_state result" where
  "rrs_swap_back env send r b row prev = (\<lambda>((p, m), c).
     andThen (get_rand_row env b row (p, m)) (\<lambda>(dst, p).
     andThen (issue_swap send p r row prev c) (\<lambda>c.
     andThen (rit_remove_entry b row prev m) (\<lambda>m.
     andThen (issue_swap send p r row dst c) (\<lambda>c.
     andThen (rit_insert_entry b row dst m) (\<lambda>m.
       Ok ((p\<lparr>s_num_unswaps := s_num_unswaps p + 1, s_num_swaps := s_num_swaps p + 1\<rparr>, m), c)))))))"

text \<open>Swapped in this epoch already: both rows get a new place.\<close>

definition rrs_swap_again ::
  "rrs_env \<Rightarrow> (request \<Rightarrow> 'c \<Rightarrow> (bool \<times> 'c) result) \<Rightarrow> request \<Rightarrow> int \<Rightarrow> int \<Rightarrow> int \<Rightarrow> 'c rrs_state
    \<Rightarrow> 'c rrs_state result" where
  "rrs_swap_again env send r b row prev st =
     andThen (rrs_make_room env send r b st) (\<lambda>((p, m), c).
     andThen (get_rand_row env b row (p, m)) (\<lambda>(dst0, p).
     andThen (get_rand_row env b row (p, m)) (\<lambda>(dst1, p).
     andThen (rit_remove_entry b row prev m) (\<lambda>m.
     andThen (issue_swap send p r row dst0 c) (\<lambda>c.
     andThen (issue_swap send p r prev dst1 c) (\<lambda>c.
     andThen (rit_insert_entry b row dst1 m) (\<lambda>m.
     andThen (rit_insert_entry b prev dst0 m) (\<lambda>m.
       Ok ((p\<lparr>s_num_swaps := s_num_swaps p + 2, s_num_reswaps := s_num_reswaps p + 1\<rparr>, m), c)))))))))"

definition rrs_swap ::
  "rrs_env \<Rightarrow> (request \<Rightarrow> 'c \<Rightarrow> (bool \<times> 'c) result) \<Rightarrow> request \<Rightarrow> int \<Rightarrow> int \<Rightarrow> 'c rrs_state \<Rightarrow> 'c rrs_state result" where
  "rrs_swap env send r b row = (\<lambda>((p, m), c).
     andThen (check_rit m b row) (\<lambda>prev.
       if prev \<noteq> -1
       then andThen (is_rit_locked m b row) (\<lambda>locked.
            if locked then rrs_swap_again env send r b row prev ((p, m), c)
            else rrs_swap_back env send r b row prev ((p, m), c))
       else rrs_first_swap env send r b row ((p, m), c)))"

subsection \<open>The update\<close>

text \<open>The hot-row tracker of a bank: \<open>None\<close> when the row did not get an entry.\<close>

definition rrs_track ::
  "((int \<times> int) list \<Rightarrow> (int \<times> int) list) \<Rightarrow> int \<Rightarrow> int \<Rightarrow> (int \<times> int) list \<Rightarrow> int
    \<Rightarrow> int option \<times> (int \<times> int) list \<times> int" where
  "rrs_track order num_entries row hrt spillover =
     (case map_of hrt row of
        Some n \<Rightarrow> (Some (n + 1), AList.update row (n + 1) hrt, spillover)
      | None \<Rightarrow>
          if int (length hrt) < to_unsigned 64 num_entries then (Some 1, AList.update row 1 hrt, spillover)
          else (case find (\<lambda>(_, n). n = spillover) (order hrt) of
                  Some (to_remove, n) \<Rightarrow>
                    (Some (n + 1), AList.update row (n + 1) (AList.delete to_remove hrt), spillover)
                | None \<Rightarrow> (None, hrt, spillover + 1)))"

definition RRS_activate ::
  "rrs_env \<Rightarrow> (request \<Rightarrow> 'c \<Rightarrow> (bool \<times> 'c) result) \<Rightarrow> request \<Rightarrow> int \<Rightarrow> int \<Rightarrow> 'c rrs_state \<Rightarrow> 'c rrs_state result" where
  "RRS_activate env send r b row = (\<lambda>((p, m), c).
     andThen (vec_at (m_hot_row_tracker p) b) (\<lambda>hrt.
     andThen (vec_at (rrs_spillover p) b) (\<lambda>spillover.
       (let (hits, hrt, spillover) = rrs_track (rrs_order env (rrs_clk p)) (rrs_num_hrt_entries p) row hrt spillover;
            p = p\<lparr>m_hot_row_tracker := (m_hot_row_tracker p)[nat b := hrt],
                  rrs_spillover := (rrs_spillover p)[nat b := spillover]\<rparr>
        in case hits of
             None \<Rightarrow> Ok ((p, m), c)
           | Some n \<Rightarrow>
               if m_rss_threshold p = 0 then Err (Undefined ''division by zero'')
               else if n mod m_rss_threshold p = 0 then rrs_swap env send r b row ((p, m), c)
               else Ok ((p, m), c)))))"

definition RRS_tick :: "RRS \<times> rit_mapper \<Rightarrow> RRS \<times> rit_mapper" where
  "RRS_tick = (\<lambda>(p, m).
     (let p = p\<lparr>rrs_clk := rrs_clk p + 1\<rparr>
      in if rrs_clk p mod rrs_reset_period_clk p = 0
         then (p\<lparr>m_hot_row_tracker := map (\<lambda>_. []) (m_hot_row_tracker p),
                 rrs_spillover := map (\<lambda>_. 0) (rrs_spillover p)\<rparr>, rit_unlock m)
         else (p, m)))"

definition RRS_update ::
  "rrs_env \<Rightarrow> (request \<Rightarrow> 'c \<Rightarrow> (bool \<times> 'c) result) \<Rightarrow> dram_spec \<Rightarrow> request option \<Rightarrow> 'c rrs_state
    \<Rightarrow> 'c rrs_state result" where
  "RRS_update env send spec req = (\<lambda>((p, m), c).
     if rrs_reset_period_clk p = 0 then Err (Undefined ''division by zero'')
     else
       (let (p, m) = RRS_tick (p, m) in
        case req of
          None \<Rightarrow> Ok ((p, m), c)
        | Some r \<Rightarrow> andThen (row_opened spec (rrs_dev p) r) (\<lambda>opened.
            case opened of
              Some (b, row) \<Rightarrow> RRS_activate env send r b row ((p, m), c)
            | None \<Rightarrow> Ok ((p, m), c))))"

subsection \<open>The table keeps pairing rows\<close>

definition tables_ok :: "rit_mapper \<Rightarrow> bool" where
  "tables_ok m \<longleftrightarrow> (\<forall>t\<in>set (m_row_indirection_table m). rit_ok t)"

text \<open>A draw is only accepted when it meets the condition, and enough draws find one that does.\<close>

lemma draw_row_accepts: "draw_row fuel draws ok n = Ok (x, k) \<Longrightarrow> ok x \<and> n < k"
  by (induction fuel arbitrary: n) (fastforce split: if_splits)+

lemma draw_row_returns: "ok (draws (n + j)) \<Longrightarrow> j < fuel \<Longrightarrow> is_ok (draw_row fuel draws ok n)"
proof (induction fuel arbitrary: n j)
  case 0
  then show ?case by simp
next
  case (Suc fuel)
  show ?case
  proof (cases j)
    case 0
    then show ?thesis using Suc.prems by simp
  next
    case (Suc k)
    then have "is_ok (draw_row fuel draws ok (n + 1))" using Suc.prems by (intro Suc.IH [of "n + 1" k]) auto
    then show ?thesis by simp
  qed
qed

lemma get_rand_row_spec:
  assumes "get_rand_row env b row (p, m) = Ok (dst, p')"
  shows "\<exists>n. p' = p\<lparr>rrs_drawn := n\<rparr> \<and> in_vec (m_row_indirection_table m) b
    \<and> rit_lookup (m_row_indirection_table m ! nat b) dst = -1 \<and> dst \<noteq> row \<and> dst \<noteq> -1"
  using assms by (auto simp: get_rand_row_def result_simps dest!: draw_row_accepts)

lemma tables_ok_at: "tables_ok m \<Longrightarrow> in_vec (m_row_indirection_table m) b \<Longrightarrow> rit_ok (m_row_indirection_table m ! nat b)"
  using nth_mem [OF in_vec_nat] by (auto simp: tables_ok_def)

lemma tables_ok_put: "tables_ok m \<Longrightarrow> rit_ok t \<Longrightarrow> tables_ok (rit_put m b t)"
  unfolding tables_ok_def rit_put_def using set_update_subset_insert [of "m_row_indirection_table m" "nat b" t] by auto

lemma lookup_none: "rit_ok t \<Longrightarrow> rit_lookup t x = -1 \<Longrightarrow> rit_map t x = None"
  using lookup_some [of t x] by (cases "rit_map t x") (auto simp: rit_ok_def rit_lookup_map)

lemma insert_tables_ok:
  assumes "rit_insert_entry b row dst m = Ok m'" "tables_ok m"
    and "rit_map (m_row_indirection_table m ! nat b) row = None" "rit_map (m_row_indirection_table m ! nat b) dst = None"
    and "row \<noteq> dst" "row \<noteq> -1" "dst \<noteq> -1"
  shows "tables_ok m'"
  using assms rit_ok_insert [OF tables_ok_at [OF assms(2)], of b row dst]
  by (auto simp: rit_insert_entry_def result_simps Let_def split: if_splits intro!: tables_ok_put)

lemma remove_tables_ok:
  assumes "rit_remove_entry b row dst m = Ok m'" "tables_ok m"
    and "rit_map (m_row_indirection_table m ! nat b) row = Some dst"
  shows "tables_ok m' \<and> in_vec (m_row_indirection_table m) b
    \<and> rit_map (m_row_indirection_table m' ! nat b) = (rit_map (m_row_indirection_table m ! nat b))(row := None, dst := None)"
proof -
  have i: "in_vec (m_row_indirection_table m) b"
    and m': "m' = rit_put m b (AList.delete dst (AList.delete row (m_row_indirection_table m ! nat b)))"
    using assms(1) by (auto simp: rit_remove_entry_def result_simps)
  show ?thesis
    using rit_ok_delete [OF tables_ok_at [OF assms(2) i] assms(3)] tables_ok_put [OF assms(2)] i in_vec_nat [OF i]
    by (simp add: m' rit_put_def)
qed

text \<open>Making room only removes a pair, and an entry that is locked stays.\<close>

lemma make_room_spec:
  assumes "rrs_make_room env send r b ((p, m), c) = Ok ((p', m'), c')" "tables_ok m"
    and "\<And>n t. set (rrs_rit_order env n t) = set t"
  shows "tables_ok m' \<and> s_num_reswaps p' = s_num_reswaps p
    \<and> (\<forall>x. rit_map (m_row_indirection_table m ! nat b) x = None \<longrightarrow> rit_map (m_row_indirection_table m' ! nat b) x = None)"
proof -
  obtain full where full: "is_rit_full m b = Ok full" using assms(1) by (auto simp: rrs_make_room_def result_simps)
  show ?thesis
  proof (cases full)
    case False
    then show ?thesis using assms(1,2) full by (auto simp: rrs_make_room_def)
  next
    case True
    then obtain excl src dst where u: "get_unswap_pair (rrs_rit_order env (rrs_clk p)) m b excl = Ok (src, dst)"
      and rem: "rit_remove_entry b src dst m = Ok m'" and p': "s_num_reswaps p' = s_num_reswaps p"
      using assms(1) full by (auto simp: rrs_make_room_def result_simps)
    let ?t = "m_row_indirection_table m ! nat b"
    obtain e where i: "in_vec (m_row_indirection_table m) b" and e: "(src, e) \<in> set ?t" "dst = dst_row e"
      using u assms(3) by (auto simp: get_unswap_pair_def result_simps find_Some_iff split: option.splits) (metis nth_mem)
    have "distinct (map fst ?t)" using tables_ok_at [OF assms(2) i] by (simp add: rit_ok_def)
    then have "rit_map ?t src = Some dst" using e by (simp add: rit_map_def)
    from remove_tables_ok [OF rem assms(2) this] p' show ?thesis by simp
  qed
qed

definition rrs_ok :: "RRS \<times> rit_mapper \<Rightarrow> bool" where
  "rrs_ok = (\<lambda>(p, m). 0 \<le> s_num_reswaps p \<and> (s_num_reswaps p = 0 \<longrightarrow> tables_ok m))"

lemma first_swap_ok:
  assumes "rrs_first_swap env send r b row ((p, m), c) = Ok ((p', m'), c')" "tables_ok m"
    and "rit_map (m_row_indirection_table m ! nat b) row = None" "row \<noteq> -1"
    and "\<And>n t. set (rrs_rit_order env n t) = set t"
  shows "tables_ok m' \<and> s_num_reswaps p' = s_num_reswaps p"
proof -
  from assms(1) obtain p1 m1 c1 dst p2 where room: "rrs_make_room env send r b ((p, m), c) = Ok ((p1, m1), c1)"
    and dst: "get_rand_row env b row (p1, m1) = Ok (dst, p2)" and ins: "rit_insert_entry b row dst m1 = Ok m'"
    and p': "s_num_reswaps p' = s_num_reswaps p2"
    by (auto simp: rrs_first_swap_def result_simps)
  from make_room_spec [OF room assms(2,5)] have ok: "tables_ok m1" "s_num_reswaps p1 = s_num_reswaps p"
    "rit_map (m_row_indirection_table m1 ! nat b) row = None" using assms(3) by auto
  from get_rand_row_spec [OF dst] obtain n where d: "p2 = p1\<lparr>rrs_drawn := n\<rparr>" "in_vec (m_row_indirection_table m1) b"
    "rit_lookup (m_row_indirection_table m1 ! nat b) dst = -1" "dst \<noteq> row" "dst \<noteq> -1" by blast
  have "rit_map (m_row_indirection_table m1 ! nat b) dst = None" by (rule lookup_none [OF tables_ok_at [OF ok(1) d(2)] d(3)])
  then have "tables_ok m'" using insert_tables_ok [OF ins ok(1,3)] d(4,5) assms(4) by blast
  then show ?thesis using p' d(1) ok(2) by simp
qed

lemma swap_back_ok:
  assumes "rrs_swap_back env send r b row prev ((p, m), c) = Ok ((p', m'), c')" "tables_ok m"
    and "rit_map (m_row_indirection_table m ! nat b) row = Some prev" "row \<noteq> -1"
  shows "tables_ok m' \<and> s_num_reswaps p' = s_num_reswaps p"
proof -
  from assms(1) obtain dst p1 m1 where dst: "get_rand_row env b row (p, m) = Ok (dst, p1)"
    and rem: "rit_remove_entry b row prev m = Ok m1" and ins: "rit_insert_entry b row dst m1 = Ok m'"
    and p': "s_num_reswaps p' = s_num_reswaps p1"
    by (auto simp: rrs_swap_back_def result_simps)
  from remove_tables_ok [OF rem assms(2,3)] have ok: "tables_ok m1"
    and m1: "rit_map (m_row_indirection_table m1 ! nat b) = (rit_map (m_row_indirection_table m ! nat b))(row := None, prev := None)"
    by auto
  from get_rand_row_spec [OF dst] obtain n where d: "p1 = p\<lparr>rrs_drawn := n\<rparr>" "in_vec (m_row_indirection_table m) b"
    "rit_lookup (m_row_indirection_table m ! nat b) dst = -1" "dst \<noteq> row" "dst \<noteq> -1" by blast
  have "rit_map (m_row_indirection_table m ! nat b) dst = None" by (rule lookup_none [OF tables_ok_at [OF assms(2) d(2)] d(3)])
  then have "tables_ok m'" using d(4,5) assms(4) by (intro insert_tables_ok [OF ins ok]) (auto simp: m1)
  then show ?thesis using p' d(1) by simp
qed

lemma rand_row_reswaps: "get_rand_row env b row st = Ok (x, p') \<Longrightarrow> s_num_reswaps p' = s_num_reswaps (fst st)"
  by (cases st) (auto simp: get_rand_row_def andThen_Ok_iff)

lemma make_room_reswaps: "rrs_make_room env send r b st = Ok ((p', m'), c') \<Longrightarrow> s_num_reswaps p' = s_num_reswaps (fst (fst st))"
  by (cases st) (auto simp: rrs_make_room_def andThen_Ok_iff split: prod.splits if_splits)

lemma swap_again_counts:
  "rrs_swap_again env send r b row prev ((p, m), c) = Ok ((p', m'), c') \<Longrightarrow> s_num_reswaps p' = s_num_reswaps p + 1"
  by (auto simp: rrs_swap_again_def andThen_Ok_iff dest!: make_room_reswaps rand_row_reswaps)

lemma rrs_swap_ok:
  assumes s: "rrs_swap env send r b row ((p, m), c) = Ok ((p', m'), c')" and ok: "rrs_ok (p, m)" and row: "row \<noteq> -1"
    and order: "\<And>n t. set (rrs_rit_order env n t) = set t"
  shows "rrs_ok (p', m')"
proof -
  let ?t = "m_row_indirection_table m ! nat b"
  have i: "in_vec (m_row_indirection_table m) b" using s by (auto simp: rrs_swap_def check_rit_def result_simps)
  have pos: "0 \<le> s_num_reswaps p" and tabs: "s_num_reswaps p = 0 \<Longrightarrow> tables_ok m" using ok by (auto simp: rrs_ok_def)
  show ?thesis
  proof (cases "rit_lookup ?t row = -1")
    case True
    then have f: "rrs_first_swap env send r b row ((p, m), c) = Ok ((p', m'), c')"
      using s i by (simp add: rrs_swap_def check_rit_def vec_at_in)
    then have "s_num_reswaps p' = s_num_reswaps p"
      by (auto simp: rrs_first_swap_def andThen_Ok_iff dest!: make_room_reswaps rand_row_reswaps)
    moreover have "tables_ok m'" if "s_num_reswaps p = 0"
      using first_swap_ok [OF f tabs [OF that] lookup_none [OF tables_ok_at [OF tabs [OF that] i] True] row order] by blast
    ultimately show ?thesis using pos by (simp add: rrs_ok_def)
  next
    case False
    then obtain locked where b: "if locked then rrs_swap_again env send r b row (rit_lookup ?t row) ((p, m), c) = Ok ((p', m'), c')
        else rrs_swap_back env send r b row (rit_lookup ?t row) ((p, m), c) = Ok ((p', m'), c')"
    proof -
      from s i False have "andThen (is_rit_locked m b row) (\<lambda>locked.
            if locked then rrs_swap_again env send r b row (rit_lookup ?t row) ((p, m), c)
            else rrs_swap_back env send r b row (rit_lookup ?t row) ((p, m), c)) = Ok ((p', m'), c')"
        by (simp add: rrs_swap_def check_rit_def vec_at_in)
      then obtain l where "(if l then rrs_swap_again env send r b row (rit_lookup ?t row) ((p, m), c)
            else rrs_swap_back env send r b row (rit_lookup ?t row) ((p, m), c)) = Ok ((p', m'), c')"
        by (rule andThen_OkE)
      then show thesis by (intro that [of l]) (cases l, simp_all)
    qed
    show ?thesis
    proof (cases locked)
      case True
      then show ?thesis using b swap_again_counts pos by (fastforce simp: rrs_ok_def)
    next
      case unlocked: False
      then have sb: "rrs_swap_back env send r b row (rit_lookup ?t row) ((p, m), c) = Ok ((p', m'), c')" using b by simp
      then have "s_num_reswaps p' = s_num_reswaps p"
        by (auto simp: rrs_swap_back_def get_rand_row_def result_simps)
      moreover have "tables_ok m'" if "s_num_reswaps p = 0"
      proof -
        have "rit_map ?t row = Some (rit_lookup ?t row)"
          using lookup_some [of ?t row] tables_ok_at [OF tabs [OF that] i] False by (simp add: rit_ok_def)
        from swap_back_ok [OF sb tabs [OF that] this row] show ?thesis by blast
      qed
      ultimately show ?thesis using pos by (simp add: rrs_ok_def)
    qed
  qed
qed

lemma tables_ok_unlock: "tables_ok m \<Longrightarrow> tables_ok (rit_unlock m)"
  using rit_ok_unlock by (auto simp: tables_ok_def rit_unlock_def)

lemma RRS_tick_ok: "rrs_ok (p, m) \<Longrightarrow> RRS_tick (p, m) = (p', m') \<Longrightarrow> rrs_ok (p', m') \<and> rrs_dev p' = rrs_dev p"
  by (auto simp: RRS_tick_def Let_def rrs_ok_def tables_ok_unlock split: if_splits)

definition opens_real_rows :: "dram_spec \<Rightarrow> row_hammer \<Rightarrow> request option \<Rightarrow> bool" where
  "opens_real_rows spec rh req \<longleftrightarrow>
     (case req of None \<Rightarrow> True | Some r \<Rightarrow>
        (case row_opened spec rh r of Inr (Some (b, row)) \<Rightarrow> row \<noteq> -1 | _ \<Rightarrow> True))"

lemma RRS_activate_cases:
  assumes "RRS_activate env send r b row ((p, m), c) = Ok ((p', m'), c')"
  shows "\<exists>q. s_num_reswaps q = s_num_reswaps p \<and> rrs_dev q = rrs_dev p
    \<and> ((p', m') = (q, m) \<or> rrs_swap env send r b row ((q, m), c) = Ok ((p', m'), c'))"
proof -
  let ?hrt = "m_hot_row_tracker p ! nat b" and ?s = "rrs_spillover p ! nat b"
  obtain hits hrt s where t: "rrs_track (rrs_order env (rrs_clk p)) (rrs_num_hrt_entries p) row ?hrt ?s = (hits, hrt, s)"
    by (metis prod_cases3)
  let ?q = "p\<lparr>m_hot_row_tracker := (m_hot_row_tracker p)[nat b := hrt], rrs_spillover := (rrs_spillover p)[nat b := s]\<rparr>"
  have "(case hits of None \<Rightarrow> Ok ((?q, m), c)
       | Some n \<Rightarrow> if m_rss_threshold p = 0 then Err (Undefined ''division by zero'')
           else if n mod m_rss_threshold p = 0 then rrs_swap env send r b row ((?q, m), c)
           else Ok ((?q, m), c)) = Ok ((p', m'), c')"
    using assms t by (cases hits) (auto simp: RRS_activate_def andThen_Ok_iff vec_at_Ok_iff Let_def)
  then have "(p', m') = (?q, m) \<or> rrs_swap env send r b row ((?q, m), c) = Ok ((p', m'), c')"
    by (cases hits) (auto split: if_splits)
  then show ?thesis by (intro exI [of _ ?q]) simp
qed

lemma RRS_update_ok:
  assumes u: "RRS_update env send spec req ((p, m), c) = Ok ((p', m'), c')" and ok: "rrs_ok (p, m)"
    and real: "opens_real_rows spec (rrs_dev p) req"
    and order: "\<And>n t. set (rrs_rit_order env n t) = set t"
  shows "rrs_ok (p', m')"
proof -
  obtain p1 m1 where t: "RRS_tick (p, m) = (p1, m1)" by fastforce
  note ok1 = RRS_tick_ok [OF ok t]
  show ?thesis
  proof (cases req)
    case None
    then show ?thesis using u t ok1 by (simp add: RRS_update_def split: if_splits)
  next
    case (Some r)
    then obtain opened where o: "row_opened spec (rrs_dev p) r = Ok opened"
      using u t ok1 by (auto simp: RRS_update_def result_simps split: if_splits)
    show ?thesis
    proof (cases opened)
      case None
      then show ?thesis using u t ok1 o \<open>req = Some r\<close> by (simp add: RRS_update_def split: if_splits)
    next
      case (Some x)
      then obtain b row where x: "opened = Some (b, row)" by (cases x) auto
      then have row: "row \<noteq> -1" using real o \<open>req = Some r\<close> by (simp add: opens_real_rows_def)
      have a: "RRS_activate env send r b row ((p1, m1), c) = Ok ((p', m'), c')"
        using u t ok1 o x \<open>req = Some r\<close> by (simp add: RRS_update_def split: if_splits)
      then obtain q where q: "s_num_reswaps q = s_num_reswaps p1"
        "(p', m') = (q, m1) \<or> rrs_swap env send r b row ((q, m1), c) = Ok ((p', m'), c')"
        using RRS_activate_cases [OF a] by auto
      then have "rrs_ok (q, m1)" using ok1 by (simp add: rrs_ok_def)
      then show ?thesis using q(2) rrs_swap_ok [OF _ _ row order] by auto
    qed
  qed
qed

lemma rand_row_dev: "get_rand_row env b row st = Ok (x, p') \<Longrightarrow> rrs_dev p' = rrs_dev (fst st)"
  by (cases st) (auto simp: get_rand_row_def andThen_Ok_iff)

lemma make_room_dev: "rrs_make_room env send r b st = Ok ((p', m'), c') \<Longrightarrow> rrs_dev p' = rrs_dev (fst (fst st))"
  by (cases st) (auto simp: rrs_make_room_def andThen_Ok_iff split: prod.splits if_splits)

lemma rrs_swap_dev: "rrs_swap env send r b row ((p, m), c) = Ok ((p', m'), c') \<Longrightarrow> rrs_dev p' = rrs_dev p"
  by (auto simp: rrs_swap_def rrs_first_swap_def rrs_swap_back_def rrs_swap_again_def andThen_Ok_iff
      split: if_splits dest!: make_room_dev rand_row_dev)

lemma RRS_update_dev:
  assumes u: "RRS_update env send spec req ((p, m), c) = Ok ((p', m'), c')"
  shows "rrs_dev p' = rrs_dev p"
proof -
  obtain p1 m1 where t: "RRS_tick (p, m) = (p1, m1)" by fastforce
  then have d: "rrs_dev p1 = rrs_dev p" by (auto simp: RRS_tick_def Let_def split: if_splits)
  have "rrs_dev p' = rrs_dev p1" if "RRS_activate env send r b row ((p1, m1), c) = Ok ((p', m'), c')" for r b row
    using RRS_activate_cases [OF that] by (auto dest!: rrs_swap_dev)
  then show ?thesis using u t d
    by (auto simp: RRS_update_def andThen_Ok_iff split: if_splits option.splits)
qed

text \<open>C@rrs_table_pairs_rows: from \<open>setup\<close> on, in whatever order tables are searched, whatever rows are
  drawn and however the controller answers, the row indirection tables pair rows as long as no row
  has been swapped a second time within an epoch.\<close>

theorem rrs_table_pairs_rows:
  assumes "LinearMapperBase_with_rit_setup spec = Ok m0" and "RRS_setup cfg spec m0 = Ok (p, m)"
    and "hook_run (RRS_update env (log_send accept) spec) calls (p, m) = Ok ((p', m'), h)"
    and "\<And>n t. set (rrs_rit_order env n t) = set t"
    and "\<forall>req\<in>set calls. opens_real_rows spec (rrs_dev p) req"
    and "s_num_reswaps p' = 0"
  shows "\<forall>t\<in>set (m_row_indirection_table m'). rit_ok t"
proof -
  have "s_num_reswaps p = 0" "m_row_indirection_table m = replicate (nat (total_banks (rrs_dev p))) []"
    using assms(1,2)
    by (auto simp: RRS_setup_def init_rit_def LinearMapperBase_with_rit_setup_def result_simps split: option.splits if_splits)
  then have start: "rrs_ok (p, m) \<and> rrs_dev p = rrs_dev p"
    by (auto simp: rrs_ok_def tables_ok_def rit_ok_def rit_map_def pairing_def)
  have "rrs_ok (p', m') \<and> rrs_dev (fst (p', m')) = rrs_dev p"
  proof (rule hook_run_rule [OF assms(3), where I = "\<lambda>st h. rrs_ok st \<and> rrs_dev (fst st) = rrs_dev p"])
    show "rrs_ok (p, m) \<and> rrs_dev (fst (p, m)) = rrs_dev p" using start by simp
  next
    fix q h r q' sent
    assume r: "r \<in> set calls" and ok: "rrs_ok q \<and> rrs_dev (fst q) = rrs_dev p"
      and u: "RRS_update env (log_send accept) spec r (q, []) = Ok (q', sent)"
    obtain x y x' y' where q: "q = (x, y)" "q' = (x', y')" by (cases q, cases q') auto
    show "rrs_ok q' \<and> rrs_dev (fst q') = rrs_dev p"
      using RRS_update_ok [OF u [unfolded q] _ _ assms(4)] RRS_update_dev [OF u [unfolded q]] ok r assms(5) q by simp
  qed
  then show ?thesis using assms(6) by (simp add: rrs_ok_def tables_ok_def)
qed

subsection \<open>Runs on a small device\<close>

definition small_rrs_spec :: dram_spec where
  "small_rrs_spec = small_vrr_spec\<lparr>m_requests := [''read'', ''write'']\<rparr>"

definition small_rrs :: rrs_config where
  "small_rrs = \<lparr>cfg_num_hrt_entries = Some 4, cfg_num_rit_entries = Some 8, cfg_rss_threshold = Some 1,
     cfg_rss_reset_period_ns = Some 100\<rparr>"

definition small_rrs_env :: rrs_env where
  "small_rrs_env = \<lparr>rrs_order = (\<lambda>_ t. t), rrs_rit_order = (\<lambda>_ t. t),
     rrs_draws = (\<lambda>n. if n = 0 then 5 else 6), rrs_fuel = 4\<rparr>"

definition small_rrs_run :: "request option list \<Rightarrow> ((RRS \<times> rit_mapper) \<times> hook_event list) result" where
  "small_rrs_run calls =
     andThen (LinearMapperBase_with_rit_setup small_rrs_spec) (\<lambda>m.
     andThen (RRS_setup small_rrs small_rrs_spec m)
       (hook_run (RRS_update small_rrs_env (log_send (\<lambda>_ _. True)) small_rrs_spec) calls))"

theorem rrs_table_pairs_rows_witness:
  "\<exists>p m h. small_rrs_run [Some (small_activation 1 3)] = Ok ((p, m), h)
     \<and> (\<forall>t\<in>set (m_row_indirection_table m). rit_ok t) \<and> check_rit m 1 3 = Ok 5"
proof -
  let ?calls = "[Some (small_activation 1 3)]"
  have "case LinearMapperBase_with_rit_setup small_rrs_spec of Inl _ \<Rightarrow> False | Inr m0 \<Rightarrow>
      (case RRS_setup small_rrs small_rrs_spec m0 of Inl _ \<Rightarrow> False | Inr (p0, m1) \<Rightarrow>
        opens_real_rows small_rrs_spec (rrs_dev p0) (Some (small_activation 1 3)) \<and>
      (case hook_run (RRS_update small_rrs_env (log_send (\<lambda>_ _. True)) small_rrs_spec) ?calls (p0, m1) of
         Inl _ \<Rightarrow> False | Inr ((p, m), h) \<Rightarrow> s_num_reswaps p = 0 \<and> check_rit m 1 3 = Ok 5))"
    by code_simp
  then obtain m0 p0 m1 p m h where s: "LinearMapperBase_with_rit_setup small_rrs_spec = Ok m0"
      "RRS_setup small_rrs small_rrs_spec m0 = Ok (p0, m1)"
    and real: "opens_real_rows small_rrs_spec (rrs_dev p0) (Some (small_activation 1 3))"
    and h: "hook_run (RRS_update small_rrs_env (log_send (\<lambda>_ _. True)) small_rrs_spec) ?calls (p0, m1) = Ok ((p, m), h)"
      "s_num_reswaps p = 0" "check_rit m 1 3 = Ok 5"
    by (simp only: ok_case_iff split_paired_Ex prod.case) blast
  have "\<forall>t\<in>set (m_row_indirection_table m). rit_ok t"
    by (rule rrs_table_pairs_rows [OF s h(1) _ _ h(2)]) (use real in \<open>simp_all add: small_rrs_env_def\<close>)
  moreover have "small_rrs_run ?calls = Ok ((p, m), h)" using s h(1) by (simp add: small_rrs_run_def)
  ultimately show ?thesis using h(3) by blast
qed

text \<open>Without the restriction it fails: nothing keeps the two rows drawn for a second swap apart. When
  they are the same, two rows of a bank are mapped to one.\<close>

theorem rrs_second_swap_aliases:
  "\<exists>p m h. small_rrs_run [Some (small_activation 1 5), Some (small_activation 1 3)] = Ok ((p, m), h)
     \<and> apply_indirection small_rrs_spec m (small_activation 1 3) = Ok (small_activation 1 6)
     \<and> apply_indirection small_rrs_spec m (small_activation 1 5) = Ok (small_activation 1 6)"
proof -
  have "case small_rrs_run [Some (small_activation 1 5), Some (small_activation 1 3)] of
      Inl _ \<Rightarrow> False | Inr ((p, m), h) \<Rightarrow>
        apply_indirection small_rrs_spec m (small_activation 1 3) = Ok (small_activation 1 6)
        \<and> apply_indirection small_rrs_spec m (small_activation 1 5) = Ok (small_activation 1 6)"
    by code_simp
  then show ?thesis by (auto split: sum.splits)
qed

end
