(* ===== verification/Translation.thy ===== *)
theory Translation
  imports Request
begin

text \<open>
  \<^verbatim>\<open>src/src/translation/impl/no_translation.cpp\<close> and \<^verbatim>\<open>random_translation.cpp\<close>: the mapping of virtual
  to physical addresses. The generator is the sequence \<open>draws\<close> of the numbers it returns; a loop
  that rejects \<open>fuel\<close> of them in a row is given up, as a computation that does not return.
\<close>

unbundle bit_operations_syntax

definition NoTranslation_translate :: "request \<Rightarrow> 't \<Rightarrow> (bool \<times> request \<times> 't) result" where
  "NoTranslation_translate r t = Ok (True, r, t)"

record RandomTranslation =
  m_max_paddr :: int
  m_offsetbits :: nat
  m_num_pages :: int
  m_free_physical_pages :: "bool list"
  m_num_free_physical_pages :: int
  m_translation :: "(int \<rightharpoonup> int) list"
  m_reserved_pages :: "int set"
  rt_drawn :: nat

definition RandomTranslation_init :: "int option \<Rightarrow> int option \<Rightarrow> nat \<Rightarrow> RandomTranslation result" where
  "RandomTranslation_init max_addr pagesize_KB num_cores =
     (case max_addr of
        None \<Rightarrow> Err (Configuration_error ''Param is required but not given'')
      | Some max_addr \<Rightarrow>
          (let pagesize = (case pagesize_KB of Some n \<Rightarrow> n | None \<Rightarrow> 4) * 1024 in
           if pagesize \<le> 0 \<or> max_addr < 0 then Err (Undefined ''page size'')
           else (let num_pages = max_addr div pagesize in
             Ok \<lparr>m_max_paddr = max_addr, m_offsetbits = calc_log2 (nat pagesize), m_num_pages = num_pages,
                 m_free_physical_pages = replicate (nat num_pages) True, m_num_free_physical_pages = num_pages,
                 m_translation = replicate num_cores Map.empty, m_reserved_pages = {}, rt_drawn = 0\<rparr>)))"

fun draw_page :: "nat \<Rightarrow> (nat \<Rightarrow> int) \<Rightarrow> int \<Rightarrow> (int \<Rightarrow> bool) \<Rightarrow> nat \<Rightarrow> (int \<times> nat) result" where
  "draw_page 0 draws pages acceptable n = Err (Undefined ''endless loop'')"
| "draw_page (Suc fuel) draws pages acceptable n =
     (if pages = 0 then Err (Undefined ''division by zero'')
      else let page = draws n mod pages in
        if acceptable page then Ok (page, n + 1) else draw_page fuel draws pages acceptable (n + 1))"

text \<open>The page for a new translation. When none is free any page that is not reserved is taken; a
  page that is assigned is counted, but not marked in \<open>m_free_physical_pages\<close>.\<close>

definition assign_page :: "nat \<Rightarrow> (nat \<Rightarrow> int) \<Rightarrow> RandomTranslation \<Rightarrow> (int \<times> RandomTranslation) result" where
  "assign_page fuel draws t =
     (if m_num_free_physical_pages t = 0
      then andThen (draw_page fuel draws (m_num_pages t) (\<lambda>p. p \<notin> m_reserved_pages t) (rt_drawn t)) (\<lambda>(p, n).
             Ok (p, t\<lparr>rt_drawn := n\<rparr>))
      else andThen (draw_page fuel draws (m_num_pages t)
               (\<lambda>p. p \<notin> m_reserved_pages t \<and> m_free_physical_pages t ! nat p) (rt_drawn t)) (\<lambda>(p, n).
             Ok (p, t\<lparr>rt_drawn := n, m_num_free_physical_pages := m_num_free_physical_pages t - 1\<rparr>)))"

definition physical_address :: "RandomTranslation \<Rightarrow> int \<Rightarrow> int \<Rightarrow> int" where
  "physical_address t ppn a = (ppn * 2 ^ m_offsetbits t) OR (a AND (2 ^ m_offsetbits t - 1))"

definition RandomTranslation_translate ::
  "nat \<Rightarrow> (nat \<Rightarrow> int) \<Rightarrow> request \<Rightarrow> RandomTranslation \<Rightarrow> (bool \<times> request \<times> RandomTranslation) result" where
  "RandomTranslation_translate fuel draws r t =
     (let vpn = addr r div 2 ^ m_offsetbits t in
      andThen (vec_at (m_translation t) (source_id r)) (\<lambda>core.
      andThen (case core vpn of
          Some ppn \<Rightarrow> Ok (ppn, t)
        | None \<Rightarrow> andThen (assign_page fuel draws t) (\<lambda>(ppn, t).
            Ok (ppn, t\<lparr>m_translation := (m_translation t)[nat (source_id r) := core(vpn \<mapsto> ppn)]\<rparr>))) (\<lambda>(ppn, t).
        Ok (True, r\<lparr>addr := physical_address t ppn (addr r)\<rparr>, t))))"

definition RandomTranslation_reserve :: "string \<Rightarrow> int \<Rightarrow> RandomTranslation \<Rightarrow> (bool \<times> RandomTranslation) result" where
  "RandomTranslation_reserve type a t =
     (if type \<noteq> ''Hydra''
      then Err (Configuration_error ''Hydra translation only accepts address reservation for Hydra.'')
      else Ok (True, t\<lparr>m_reserved_pages := insert (a div 2 ^ m_offsetbits t) (m_reserved_pages t)\<rparr>))"

definition get_max_addr :: "RandomTranslation \<Rightarrow> int" where
  "get_max_addr t = m_max_paddr t"

subsection \<open>Pages stay where they are\<close>

lemma physical_address_eq:
  assumes "0 \<le> ppn"
  shows "physical_address t ppn a = ppn * 2 ^ m_offsetbits t + a mod 2 ^ m_offsetbits t"
proof -
  have m: "a AND (2 ^ n - 1) = take_bit n a" for n by (simp add: take_bit_eq_mask mask_eq_exp_minus_1)
  have "(ppn * 2 ^ n) AND take_bit n a = 0" for n
    by (rule bit_eqI) (auto simp: bit_simps push_bit_eq_mult [symmetric])
  then have "(ppn * 2 ^ n) OR take_bit n a = ppn * 2 ^ n + take_bit n a" for n
    by (simp add: disjunctive_add_eq_or)
  then show ?thesis by (simp add: physical_address_def m take_bit_eq_mod)
qed

lemma draw_page_spec:
  assumes "draw_page fuel draws pages ok n = Ok (p, k)" "0 < pages"
  shows "ok p \<and> 0 \<le> p \<and> p < pages"
  using assms by (induction fuel arbitrary: n) (auto simp: Let_def split: if_splits)

lemma assign_page_spec:
  assumes "assign_page fuel draws t = Ok (p, t')" "0 < m_num_pages t"
  shows "0 \<le> p \<and> p < m_num_pages t \<and> p \<notin> m_reserved_pages t \<and> m_translation t' = m_translation t
    \<and> m_offsetbits t' = m_offsetbits t \<and> m_num_pages t' = m_num_pages t \<and> m_reserved_pages t' = m_reserved_pages t"
  using assms by (auto simp: assign_page_def result_simps split: if_splits dest!: draw_page_spec)

text \<open>Every assigned frame is one of the memory's.\<close>

definition frames_ok :: "RandomTranslation \<Rightarrow> bool" where
  "frames_ok t \<longleftrightarrow> 0 < m_num_pages t
     \<and> (\<forall>core\<in>set (m_translation t). \<forall>vpn ppn. core vpn = Some ppn \<longrightarrow> 0 \<le> ppn \<and> ppn < m_num_pages t)"

fun translate_all ::
  "nat \<Rightarrow> (nat \<Rightarrow> int) \<Rightarrow> request list \<Rightarrow> RandomTranslation \<Rightarrow> (request list \<times> RandomTranslation) result" where
  "translate_all fuel draws [] t = Ok ([], t)"
| "translate_all fuel draws (r # rs) t =
     andThen (RandomTranslation_translate fuel draws r t) (\<lambda>(_, q, t).
     andThen (translate_all fuel draws rs t) (\<lambda>(qs, t). Ok (q # qs, t)))"

definition frame_of :: "RandomTranslation \<Rightarrow> int \<Rightarrow> int \<Rightarrow> int option" where
  "frame_of t core vpn = (m_translation t ! nat core) vpn"

lemma translate_spec:
  assumes "RandomTranslation_translate fuel draws r t = Ok (b, q, t')" and "frames_ok t"
  shows "b \<and> frames_ok t' \<and> m_offsetbits t' = m_offsetbits t \<and> m_num_pages t' = m_num_pages t
    \<and> length (m_translation t') = length (m_translation t) \<and> in_vec (m_translation t) (source_id r)
    \<and> (\<exists>ppn. frame_of t' (source_id r) (addr r div 2 ^ m_offsetbits t) = Some ppn \<and> 0 \<le> ppn \<and> ppn < m_num_pages t
         \<and> addr q = ppn * 2 ^ m_offsetbits t + addr r mod 2 ^ m_offsetbits t)
    \<and> (\<forall>c vpn ppn. frame_of t c vpn = Some ppn \<longrightarrow> in_vec (m_translation t) c \<longrightarrow> frame_of t' c vpn = Some ppn)"
proof -
  let ?vpn = "addr r div 2 ^ m_offsetbits t" and ?core = "m_translation t ! nat (source_id r)"
  have i: "in_vec (m_translation t) (source_id r)" and b: b
    using assms(1) by (auto simp: RandomTranslation_translate_def Let_def result_simps)
  have mem: "?core \<in> set (m_translation t)" using in_vec_nat [OF i] by simp
  show ?thesis
  proof (cases "?core ?vpn")
    case (Some ppn)
    then have "t' = t" "q = r\<lparr>addr := physical_address t ppn (addr r)\<rparr>"
      using assms(1) i by (auto simp: RandomTranslation_translate_def Let_def vec_at_in)
    moreover have "0 \<le> ppn" "ppn < m_num_pages t" using assms(2) mem Some by (auto simp: frames_ok_def)
    ultimately show ?thesis using assms(2) i b Some by (simp add: frame_of_def physical_address_eq)
  next
    case None
    then obtain ppn u where a: "assign_page fuel draws t = Ok (ppn, u)"
      and t': "t' = u\<lparr>m_translation := (m_translation u)[nat (source_id r) := ?core(?vpn \<mapsto> ppn)]\<rparr>"
      and q: "q = r\<lparr>addr := physical_address t' ppn (addr r)\<rparr>"
      using assms(1) i by (auto simp: RandomTranslation_translate_def Let_def vec_at_in result_simps)
    have n: "0 < m_num_pages t" using assms(2) by (simp add: frames_ok_def)
    note s = assign_page_spec [OF a n]
    have tab: "m_translation t' = (m_translation t)[nat (source_id r) := ?core(?vpn \<mapsto> ppn)]" using s by (simp add: t')
    have "frames_ok t'"
      unfolding frames_ok_def
    proof (intro conjI ballI allI impI)
      show "0 < m_num_pages t'" using n s by (simp add: t')
      fix core v x assume c: "core \<in> set (m_translation t')" and x: "core v = Some x"
      have "core \<in> insert (?core(?vpn \<mapsto> ppn)) (set (m_translation t))"
        using c set_update_subset_insert unfolding tab by fast
      then show "0 \<le> x" "x < m_num_pages t'"
        using x s assms(2) mem by (auto simp: frames_ok_def t' split: if_splits)
    qed
    moreover have "frame_of t' c v = Some x" if "frame_of t c v = Some x" "in_vec (m_translation t) c" for c v x
      using that None i in_vec_nat [OF that(2)] in_vec_nat [OF i]
      by (auto simp: frame_of_def tab nth_list_update)
    ultimately show ?thesis using s i b in_vec_nat [OF i] by (simp add: frame_of_def tab q physical_address_eq t')
  qed
qed

text \<open>C@translation_stable: when a sequence of requests is translated, whatever the generator draws,
  each keeps its offset in its page, lands in the physical memory, and is put into the frame that
  its core's page has at the end: a page never moves.\<close>

theorem translation_stable:
  assumes "translate_all fuel draws rs t = Ok (qs, t')" and "frames_ok t"
  shows "length qs = length rs \<and> (\<forall>i<length rs. \<exists>ppn. 0 \<le> ppn \<and> ppn < m_num_pages t
      \<and> frame_of t' (source_id (rs ! i)) (addr (rs ! i) div 2 ^ m_offsetbits t) = Some ppn
      \<and> addr (qs ! i) = ppn * 2 ^ m_offsetbits t + addr (rs ! i) mod 2 ^ m_offsetbits t)"
proof -
  have "length qs = length rs \<and> length (m_translation t') = length (m_translation t)
      \<and> (\<forall>c vpn ppn. frame_of t c vpn = Some ppn \<longrightarrow> in_vec (m_translation t) c \<longrightarrow> frame_of t' c vpn = Some ppn)
      \<and> (\<forall>i<length rs. \<exists>ppn. 0 \<le> ppn \<and> ppn < m_num_pages t
          \<and> frame_of t' (source_id (rs ! i)) (addr (rs ! i) div 2 ^ m_offsetbits t) = Some ppn
          \<and> addr (qs ! i) = ppn * 2 ^ m_offsetbits t + addr (rs ! i) mod 2 ^ m_offsetbits t)"
    using assms
  proof (induction rs arbitrary: qs t)
    case Nil
    then show ?case by simp
  next
    case (Cons r rs)
    from Cons.prems(1) obtain b q u ps where u: "RandomTranslation_translate fuel draws r t = Ok (b, q, u)"
      and ps: "translate_all fuel draws rs u = Ok (ps, t')" and qs: "qs = q # ps"
      by (auto simp: result_simps)
    note s = translate_spec [OF u Cons.prems(2)]
    have ok: "frames_ok u" and same: "m_offsetbits u = m_offsetbits t" "m_num_pages u = m_num_pages t"
      "length (m_translation u) = length (m_translation t)" and i: "in_vec (m_translation t) (source_id r)" using s by blast+
    note ih = Cons.IH [OF ps ok, unfolded same]
    from s obtain ppn where p: "frame_of u (source_id r) (addr r div 2 ^ m_offsetbits t) = Some ppn" "0 \<le> ppn"
      "ppn < m_num_pages t" "addr q = ppn * 2 ^ m_offsetbits t + addr r mod 2 ^ m_offsetbits t" by blast
    have vec: "in_vec (m_translation u) c = in_vec (m_translation t) c" for c by (rule in_vec_length [OF same(3)])
    have "frame_of t' (source_id r) (addr r div 2 ^ m_offsetbits t) = Some ppn"
      using ih p(1) i vec by blast
    then have "\<exists>ppn. 0 \<le> ppn \<and> ppn < m_num_pages t
        \<and> frame_of t' (source_id ((r # rs) ! j)) (addr ((r # rs) ! j) div 2 ^ m_offsetbits t) = Some ppn
        \<and> addr (qs ! j) = ppn * 2 ^ m_offsetbits t + addr ((r # rs) ! j) mod 2 ^ m_offsetbits t"
      if "j < length (r # rs)" for j
      using that ih p qs by (cases j) auto
    moreover have "length qs = length (r # rs)" using ih qs by simp
    ultimately show ?case using ih s vec by blast
  qed
  then show ?thesis by blast
qed

subsection \<open>Runs\<close>

definition small_access :: "int \<Rightarrow> request" where
  "small_access a = (Request_addr a 0)\<lparr>source_id := 0\<rparr>"

definition small_translation :: RandomTranslation where
  "small_translation = \<lparr>m_max_paddr = 16384, m_offsetbits = 12, m_num_pages = 4,
     m_free_physical_pages = [True, True, True, True], m_num_free_physical_pages = 4,
     m_translation = [Map.empty], m_reserved_pages = {}, rt_drawn = 0\<rparr>"

lemma small_translation_init: "RandomTranslation_init (Some 16384) None 1 = Ok small_translation"
proof -
  have "calc_log2 4096 = 12" by (simp add: calc_log2_def calc_log2_loop.simps)
  moreover have "replicate 4 True = [True, True, True, True]" by (simp add: eval_nat_numeral)
  ultimately show ?thesis by (simp add: RandomTranslation_init_def small_translation_def)
qed

lemma draw_page_numeral:
  "draw_page (numeral k) draws pages ok n =
     (if pages = 0 then Err (Undefined ''division by zero'')
      else let page = draws n mod pages in
        if ok page then Ok (page, n + 1) else draw_page (pred_numeral k) draws pages ok (n + 1))"
  by (simp add: numeral_eq_Suc)

lemmas translation_run = RandomTranslation_translate_def assign_page_def draw_page_numeral small_translation_def
  small_access_def Request_addr_def physical_address_eq vec_at_def in_vec_def

theorem translation_stable_witness:
  "\<exists>t qs t'. RandomTranslation_init (Some 16384) None 1 = Ok t
     \<and> translate_all 4 (\<lambda>n. 7 - int n) [small_access 5000, small_access 100, small_access 4097] t = Ok (qs, t')
     \<and> map addr qs = [13192, 8292, 12289]
     \<and> (\<forall>i<3. \<exists>ppn. frame_of t' 0 ([1, 0, 1] ! i) = Some ppn
          \<and> addr (qs ! i) = ppn * 4096 + [904, 100, 1] ! i)"
proof -
  let ?rs = "[small_access 5000, small_access 100, small_access 4097]"
  obtain qs t' where t': "translate_all 4 (\<lambda>n. 7 - int n) ?rs small_translation = Ok (qs, t')"
      "map addr qs = [13192, 8292, 12289]"
    by (simp add: translation_run)
  have "frames_ok small_translation" by (simp add: frames_ok_def small_translation_def)
  note stable = translation_stable [OF t'(1) this]
  have "\<exists>ppn. frame_of t' 0 ([1, 0, 1] ! i) = Some ppn \<and> addr (qs ! i) = ppn * 4096 + [904, 100, 1] ! i"
    if "i < 3" for i
  proof -
    have "i < length ?rs" using that by simp
    with stable obtain ppn
      where "frame_of t' (source_id (?rs ! i)) (addr (?rs ! i) div 2 ^ m_offsetbits small_translation) = Some ppn"
      "addr (qs ! i) = ppn * 2 ^ m_offsetbits small_translation + addr (?rs ! i) mod 2 ^ m_offsetbits small_translation"
      by blast
    moreover have "i = 0 \<or> i = 1 \<or> i = 2" using that by auto
    ultimately show ?thesis by (auto simp: small_translation_def small_access_def Request_addr_def)
  qed
  then have "\<forall>i<3. \<exists>ppn. frame_of t' 0 ([1, 0, 1] ! i) = Some ppn \<and> addr (qs ! i) = ppn * 4096 + [904, 100, 1] ! i"
    by blast
  then show ?thesis by (intro exI conjI) (rule small_translation_init t')+
qed

text \<open>A page that was handed out is still marked free, so that two pages of the same core may share a
  frame while others have never been used.\<close>

theorem frames_are_shared:
  "\<exists>t qs t'. RandomTranslation_init (Some 16384) None 1 = Ok t
     \<and> translate_all 4 (\<lambda>n. 5) [small_access 0, small_access 4096] t = Ok (qs, t')
     \<and> map addr qs = [4096, 4096] \<and> m_num_free_physical_pages t' = 2"
proof -
  have "\<exists>qs t'. translate_all 4 (\<lambda>n. 5) [small_access 0, small_access 4096] small_translation = Ok (qs, t')
     \<and> map addr qs = [4096, 4096] \<and> m_num_free_physical_pages t' = 2"
    by (simp add: translation_run)
  then show ?thesis by (intro exI [of _ small_translation]) (simp only: small_translation_init simp_thms)
qed

end
