(* ===== verification/O3_Core.thy ===== *)
theory O3_Core
  imports Memory_Traces
begin

text \<open>
  The processor core of \<^verbatim>\<open>src/src/frontend/impl/processor/simpleO3\<close> (\<^verbatim>\<open>core.h\<close>, \<^verbatim>\<open>core.cpp\<close>,
  \<^verbatim>\<open>trace.cpp\<close>): the trace it replays, the instruction window it retires from, and its cycle. The
  translation and the cache it talks to are the arguments \<open>translate\<close> and \<open>send\<close> over a state of
  their own.
\<close>

subsection \<open>The trace\<close>

record Inst =
  bubble_count :: int
  load_addr :: int
  store_addr :: int

record o3_trace =
  o3_insts :: "Inst list"
  o3_trace_idx :: nat

definition stoi :: "string \<Rightarrow> int result" where
  "stoi s = andThen (stoll 10 s) (\<lambda>v. if v < - (2 ^ 31) \<or> 2 ^ 31 \<le> v then Err Out_of_range else Ok v)"

definition o3_trace_line :: "string \<Rightarrow> Inst result" where
  "o3_trace_line line =
     (let tokens = tokenize (CHR '' '') line; num_tokens = length tokens in
      if num_tokens \<noteq> 2 \<and> num_tokens \<noteq> 3 then Err (Configuration_error ''Trace format invalid!'')
      else andThen (stoi (tokens ! 0)) (\<lambda>bubbles.
           andThen (stoll 10 (tokens ! 1)) (\<lambda>load.
           andThen (if num_tokens = 2 then Ok (-1) else stoll 10 (tokens ! 2)) (\<lambda>store.
             Ok \<lparr>bubble_count = bubbles, load_addr = load, store_addr = store\<rparr>))))"

definition Trace_load :: "(string \<Rightarrow> string option option) \<Rightarrow> string \<Rightarrow> o3_trace result" where
  "Trace_load files path =
     andThen (init_trace files path) (\<lambda>content.
     andThen (map_result o3_trace_line (read_lines content)) (\<lambda>insts.
       Ok \<lparr>o3_insts = insts, o3_trace_idx = 0\<rparr>))"

definition get_next_inst :: "o3_trace \<Rightarrow> (Inst \<times> o3_trace) result" where
  "get_next_inst t =
     andThen (vec_at (o3_insts t) (int (o3_trace_idx t))) (\<lambda>inst.
       Ok (inst, t\<lparr>o3_trace_idx := (o3_trace_idx t + 1) mod length (o3_insts t)\<rparr>))"

text \<open>\<open>SimpleO3Trace\<close> of \<^verbatim>\<open>trace.cpp\<close> reads the same format with a copy of the same loop.\<close>

definition SimpleO3Trace_load :: "(string \<Rightarrow> string option option) \<Rightarrow> string \<Rightarrow> o3_trace result" where
  "SimpleO3Trace_load files path =
     andThen (init_trace files path) (\<lambda>content.
     andThen (map_result o3_trace_line (read_lines content)) (\<lambda>insts.
       Ok \<lparr>o3_insts = insts, o3_trace_idx = 0\<rparr>))"

subsection \<open>The instruction window\<close>

record InstWindow =
  m_ipc :: int
  m_depth :: int
  m_load :: int
  m_head_idx :: int
  m_tail_idx :: int
  m_ready_list :: "bool list"
  m_addr_list :: "int list"

definition vec_checked :: "'a list \<Rightarrow> int \<Rightarrow> 'a result" where
  "vec_checked xs i = (if in_vec xs i then Ok (xs ! nat i) else Err Out_of_range)"

text \<open>A vector of a negative length throws \<open>std::length_error\<close>.\<close>

definition InstWindow_new :: "int \<Rightarrow> int \<Rightarrow> InstWindow result" where
  "InstWindow_new ipc depth =
     (if depth < 0 then Err (Runtime_error ''vector length'')
      else Ok \<lparr>m_ipc = ipc, m_depth = depth, m_load = 0, m_head_idx = 0, m_tail_idx = 0,
               m_ready_list = replicate (nat depth) False, m_addr_list = replicate (nat depth) (-1)\<rparr>)"

definition is_full :: "InstWindow \<Rightarrow> bool" where
  "is_full w \<longleftrightarrow> m_load w = m_depth w"

definition window_insert :: "bool \<Rightarrow> int \<Rightarrow> InstWindow \<Rightarrow> InstWindow result" where
  "window_insert ready a w =
     andThen (vec_checked (m_ready_list w) (m_head_idx w)) (\<lambda>_.
     andThen (vec_checked (m_addr_list w) (m_head_idx w)) (\<lambda>_.
       Ok (w\<lparr>m_ready_list := (m_ready_list w)[nat (m_head_idx w) := ready],
             m_addr_list := (m_addr_list w)[nat (m_head_idx w) := a],
             m_head_idx := (m_head_idx w + 1) mod m_depth w, m_load := m_load w + 1\<rparr>)))"

function retire_loop :: "InstWindow \<Rightarrow> int \<Rightarrow> (int \<times> InstWindow) result" where
  "retire_loop w num_retired =
     (if 0 < m_load w \<and> num_retired < m_ipc w
      then andThen (vec_checked (m_ready_list w) (m_tail_idx w)) (\<lambda>ready.
        if \<not> ready then Ok (num_retired, w)
        else retire_loop (w\<lparr>m_tail_idx := (m_tail_idx w + 1) mod m_depth w, m_load := m_load w - 1\<rparr>) (num_retired + 1))
      else Ok (num_retired, w))"
  by pat_completeness auto
termination by (relation "measure (\<lambda>(w, _). nat (m_load w))") auto

declare retire_loop.simps [simp del]

definition retire :: "InstWindow \<Rightarrow> (int \<times> InstWindow) result" where
  "retire w = (if m_load w = 0 then Ok (0, w) else retire_loop w 0)"

fun mark_ready :: "nat \<Rightarrow> int \<Rightarrow> int \<Rightarrow> InstWindow \<Rightarrow> InstWindow result" where
  "mark_ready 0 index a w = Ok w"
| "mark_ready (Suc n) index a w =
     andThen (vec_at (m_addr_list w) index) (\<lambda>x.
     andThen (if x = a then vec_put (m_ready_list w) index True else Ok (m_ready_list w)) (\<lambda>ready.
       mark_ready n (if index + 1 = m_depth w then 0 else index + 1) a (w\<lparr>m_ready_list := ready\<rparr>)))"

definition set_ready :: "int \<Rightarrow> InstWindow \<Rightarrow> InstWindow result" where
  "set_ready a w = (if m_load w = 0 then Ok w else mark_ready (nat (m_load w)) (m_tail_idx w) a w)"

subsection \<open>The window is a queue\<close>

definition window_ok :: "InstWindow \<Rightarrow> bool" where
  "window_ok w \<longleftrightarrow> 0 < m_depth w \<and> 0 \<le> m_load w \<and> m_load w \<le> m_depth w
     \<and> 0 \<le> m_tail_idx w \<and> m_tail_idx w < m_depth w \<and> m_head_idx w = (m_tail_idx w + m_load w) mod m_depth w
     \<and> int (length (m_ready_list w)) = m_depth w \<and> int (length (m_addr_list w)) = m_depth w"

definition slot :: "InstWindow \<Rightarrow> nat \<Rightarrow> nat" where
  "slot w k = nat ((m_tail_idx w + int k) mod m_depth w)"

definition window_queue :: "InstWindow \<Rightarrow> (bool \<times> int) list" where
  "window_queue w = map (\<lambda>k. (m_ready_list w ! slot w k, m_addr_list w ! slot w k)) [0..<nat (m_load w)]"

lemma length_window_queue: "window_ok w \<Longrightarrow> int (length (window_queue w)) = m_load w"
  by (simp add: window_queue_def window_ok_def)

lemma slot_bound: "window_ok w \<Longrightarrow> int (slot w k) < m_depth w"
  by (simp add: slot_def window_ok_def)

lemma ex_Suc_less_iff: "(\<exists>k<Suc n. P k) \<longleftrightarrow> P 0 \<or> (\<exists>k<n. P (Suc k))"
  using less_Suc_eq_0_disj by auto

lemma slot_inject:
  assumes "window_ok w" "int i < m_depth w" "int j < m_depth w" "slot w i = slot w j"
  shows "i = j"
proof -
  have "(m_tail_idx w + int i) mod m_depth w = (m_tail_idx w + int j) mod m_depth w"
    using assms(1,4) by (simp add: slot_def window_ok_def nat_eq_iff)
  then have "m_depth w dvd int i - int j" by (simp add: mod_eq_dvd_iff)
  then show ?thesis using assms(2,3) zdvd_not_zless [of "\<bar>int i - int j\<bar>" "m_depth w"] by force
qed

lemma window_insert_queue:
  assumes "window_ok w" "\<not> is_full w"
  shows "\<exists>w'. window_insert ready a w = Ok w' \<and> window_ok w' \<and> window_queue w' = window_queue w @ [(ready, a)]
    \<and> m_load w' = m_load w + 1 \<and> m_ipc w' = m_ipc w \<and> m_depth w' = m_depth w"
proof -
  let ?l = "nat (m_load w)"
  let ?w = "w\<lparr>m_ready_list := (m_ready_list w)[nat (m_head_idx w) := ready],
             m_addr_list := (m_addr_list w)[nat (m_head_idx w) := a],
             m_head_idx := (m_head_idx w + 1) mod m_depth w, m_load := m_load w + 1\<rparr>"
  have lt: "m_load w < m_depth w" using assms by (auto simp: window_ok_def is_full_def)
  have sl: "slot ?w = slot w" by (simp add: slot_def fun_eq_iff)
  have head: "nat (m_head_idx w) = slot w ?l" "0 \<le> m_head_idx w" "m_head_idx w < m_depth w"
    using assms(1) by (simp_all add: window_ok_def slot_def)
  have len: "slot w k < length (m_ready_list w)" "slot w k < length (m_addr_list w)" for k
    using slot_bound [OF assms(1), of k] assms(1) by (simp_all add: window_ok_def)
  have "slot w ?l \<noteq> slot w k" if "k < ?l" for k
    using slot_inject [OF assms(1), of k ?l] that lt assms(1) by (auto simp: window_ok_def)
  then have "map (\<lambda>k. (m_ready_list ?w ! slot ?w k, m_addr_list ?w ! slot ?w k)) [0..<?l] = window_queue w"
    unfolding window_queue_def sl by (intro map_cong) (auto simp: head)
  moreover have "nat (m_load ?w) = Suc ?l" using assms(1) by (simp add: window_ok_def nat_add_distrib)
  moreover have "(m_ready_list ?w ! slot ?w ?l, m_addr_list ?w ! slot ?w ?l) = (ready, a)"
    using len [of ?l] unfolding sl by (simp add: head)
  ultimately have "window_queue ?w = window_queue w @ [(ready, a)]" unfolding window_queue_def [of ?w] by simp
  moreover have "window_ok ?w" using assms(1) lt by (auto simp: window_ok_def mod_simps algebra_simps)
  moreover have "window_insert ready a w = Ok ?w"
    using head assms(1) by (simp add: window_insert_def vec_checked_def in_vec_def window_ok_def)
  ultimately show ?thesis by auto
qed

text \<open>Retiring takes the finished instructions off the front, at most \<open>m_ipc\<close> of them.\<close>

definition retirable :: "int \<Rightarrow> (bool \<times> int) list \<Rightarrow> nat" where
  "retirable ipc q = length (takeWhile fst (take (nat ipc) q))"

lemma window_queue_Cons:
  assumes "window_ok w" "0 < m_load w"
  defines "w' \<equiv> w\<lparr>m_tail_idx := (m_tail_idx w + 1) mod m_depth w, m_load := m_load w - 1\<rparr>"
  shows "window_queue w = (m_ready_list w ! nat (m_tail_idx w), m_addr_list w ! nat (m_tail_idx w)) # window_queue w'"
    and "window_ok w'"
proof -
  have "nat (m_load w) = Suc (nat (m_load w'))" using assms(2) by (simp add: w'_def)
  moreover have "slot w (Suc k) = slot w' k" for k by (simp add: w'_def slot_def mod_simps algebra_simps)
  moreover have "slot w 0 = nat (m_tail_idx w)" using assms(1) by (simp add: slot_def window_ok_def)
  ultimately show "window_queue w = (m_ready_list w ! nat (m_tail_idx w), m_addr_list w ! nat (m_tail_idx w)) # window_queue w'"
    unfolding window_queue_def by (simp add: upt_conv_Cons map_Suc_upt [symmetric] w'_def del: upt_Suc)
  show "window_ok w'" using assms(1,2) by (auto simp: window_ok_def w'_def mod_simps)
qed

lemma retire_loop_queue:
  "window_ok w \<Longrightarrow> \<exists>w'. retire_loop w n = Ok (n + int (retirable (m_ipc w - n) (window_queue w)), w')
     \<and> window_ok w' \<and> window_queue w' = drop (retirable (m_ipc w - n) (window_queue w)) (window_queue w)
     \<and> m_load w' = m_load w - int (retirable (m_ipc w - n) (window_queue w))
     \<and> m_ipc w' = m_ipc w \<and> m_depth w' = m_depth w"
proof (induction w n rule: retire_loop.induct)
  case (1 w n)
  show ?case
  proof (cases "0 < m_load w \<and> n < m_ipc w")
    case False
    then have "m_load w = 0 \<or> m_ipc w \<le> n" using "1.prems" by (auto simp: window_ok_def)
    then have "retirable (m_ipc w - n) (window_queue w) = 0" by (auto simp: retirable_def window_queue_def)
    then show ?thesis using False "1.prems" by (subst retire_loop.simps) auto
  next
    case True
    let ?w = "w\<lparr>m_tail_idx := (m_tail_idx w + 1) mod m_depth w, m_load := m_load w - 1\<rparr>"
    let ?ready = "m_ready_list w ! nat (m_tail_idx w)"
    have at: "vec_checked (m_ready_list w) (m_tail_idx w) = Ok ?ready"
      using "1.prems" by (simp add: vec_checked_def in_vec_def window_ok_def)
    note q = window_queue_Cons [OF "1.prems" conjunct1 [OF True]]
    have "nat (m_ipc w - n) = Suc (nat (m_ipc w - (n + 1)))" using True by arith
    then have r: "retirable (m_ipc w - n) (window_queue w) =
        (if ?ready then Suc (retirable (m_ipc ?w - (n + 1)) (window_queue ?w)) else 0)"
      unfolding q(1) retirable_def by simp
    show ?thesis
    proof (cases ?ready)
      case False
      then show ?thesis using True at r "1.prems" by (subst retire_loop.simps) simp
    next
      case ready: True
      from "1.IH" [OF True at _ q(2)] ready obtain w' where
        "retire_loop ?w (n + 1) = Ok (n + 1 + int (retirable (m_ipc ?w - (n + 1)) (window_queue ?w)), w')"
        "window_ok w'" "window_queue w' = drop (retirable (m_ipc ?w - (n + 1)) (window_queue ?w)) (window_queue ?w)"
        "m_load w' = m_load ?w - int (retirable (m_ipc ?w - (n + 1)) (window_queue ?w))"
        "m_ipc w' = m_ipc w" "m_depth w' = m_depth w" by auto
      moreover have "window_queue w = (?ready, m_addr_list w ! nat (m_tail_idx w)) # window_queue ?w" by (rule q(1))
      ultimately show ?thesis using True at ready r by (subst retire_loop.simps) simp
    qed
  qed
qed

lemma retire_queue:
  assumes "window_ok w"
  shows "\<exists>w'. retire w = Ok (int (retirable (m_ipc w) (window_queue w)), w')
     \<and> window_ok w' \<and> window_queue w' = drop (retirable (m_ipc w) (window_queue w)) (window_queue w)
     \<and> m_load w' = m_load w - int (retirable (m_ipc w) (window_queue w))
     \<and> m_ipc w' = m_ipc w \<and> m_depth w' = m_depth w"
proof (cases "m_load w = 0")
  case True
  then show ?thesis using assms by (simp add: retire_def window_queue_def retirable_def)
next
  case False
  then show ?thesis using retire_loop_queue [OF assms, of 0] by (simp add: retire_def)
qed

lemma mark_ready_spec:
  assumes "0 \<le> index" "index < m_depth w" "int (length (m_ready_list w)) = m_depth w"
    "int (length (m_addr_list w)) = m_depth w"
  shows "\<exists>ready. mark_ready n index a w = Ok (w\<lparr>m_ready_list := ready\<rparr>) \<and> length ready = length (m_ready_list w)
    \<and> (\<forall>j<length ready. ready ! j =
         (m_ready_list w ! j \<or> m_addr_list w ! j = a \<and> (\<exists>k<n. j = nat ((index + int k) mod m_depth w))))"
  using assms
proof (induction n arbitrary: index w)
  case 0
  then show ?case by (intro exI [of _ "m_ready_list w"]) simp
next
  case (Suc n)
  let ?next = "if index + 1 = m_depth w then 0 else index + 1"
  let ?set = "if m_addr_list w ! nat index = a then (m_ready_list w)[nat index := True] else m_ready_list w"
  let ?w = "w\<lparr>m_ready_list := ?set\<rparr>"
  have i: "in_vec (m_addr_list w) index" "in_vec (m_ready_list w) index" using Suc.prems by (simp_all add: in_vec_def)
  have next_mod: "?next = (index + 1) mod m_depth w" using Suc.prems by auto
  have pre: "0 \<le> ?next" "?next < m_depth ?w" "int (length (m_ready_list ?w)) = m_depth ?w"
    "int (length (m_addr_list ?w)) = m_depth ?w" using Suc.prems by simp_all
  from Suc.IH [OF pre] obtain ready where
    r: "mark_ready n ?next a ?w = Ok (?w\<lparr>m_ready_list := ready\<rparr>)" "length ready = length (m_ready_list ?w)"
      "\<forall>j<length ready. ready ! j =
         (m_ready_list ?w ! j \<or> m_addr_list ?w ! j = a \<and> (\<exists>k<n. j = nat ((?next + int k) mod m_depth ?w)))"
    by blast
  have step: "mark_ready (Suc n) index a w = mark_ready n ?next a ?w"
    using i by (simp add: vec_at_in vec_put_in)
  have shift: "(\<exists>k<Suc n. j = nat ((index + int k) mod m_depth w)) \<longleftrightarrow>
      j = nat index \<or> (\<exists>k<n. j = nat ((?next + int k) mod m_depth w))" for j
    unfolding next_mod ex_Suc_less_iff using Suc.prems by (simp add: mod_simps algebra_simps)
  have set: "m_ready_list ?w ! j = (m_ready_list w ! j \<or> m_addr_list w ! j = a \<and> j = nat index)"
    if "j < length (m_ready_list w)" for j
    using that by (cases "j = nat index") auto
  have "ready ! j = (m_ready_list w ! j \<or> m_addr_list w ! j = a \<and> (\<exists>k<Suc n. j = nat ((index + int k) mod m_depth w)))"
    if j: "j < length ready" for j
  proof -
    have "j < length (m_ready_list w)" using j r(2) by (simp split: if_splits)
    from set [OF this] r(3) j show ?thesis unfolding shift by auto
  qed
  moreover have "mark_ready (Suc n) index a w = Ok (w\<lparr>m_ready_list := ready\<rparr>)" unfolding step r(1) by simp
  moreover have "length ready = length (m_ready_list w)" using r(2) by simp
  ultimately show ?case by blast
qed

lemma set_ready_queue:
  assumes "window_ok w"
  shows "\<exists>w'. set_ready a w = Ok w' \<and> window_ok w'
    \<and> window_queue w' = map (\<lambda>(r, x). (r \<or> x = a, x)) (window_queue w)
    \<and> m_load w' = m_load w \<and> m_ipc w' = m_ipc w \<and> m_depth w' = m_depth w"
proof (cases "m_load w = 0")
  case True
  then show ?thesis using assms by (simp add: set_ready_def window_queue_def)
next
  case False
  let ?n = "nat (m_load w)"
  from mark_ready_spec [of "m_tail_idx w" w ?n a] assms obtain ready where
    r: "mark_ready ?n (m_tail_idx w) a w = Ok (w\<lparr>m_ready_list := ready\<rparr>)" "length ready = length (m_ready_list w)"
      "\<forall>j<length ready. ready ! j = (m_ready_list w ! j \<or> m_addr_list w ! j = a \<and> (\<exists>k<?n. j = slot w k))"
    by (auto simp: window_ok_def slot_def)
  let ?w = "w\<lparr>m_ready_list := ready\<rparr>"
  have sl: "slot ?w = slot w" by (simp add: slot_def fun_eq_iff)
  have "slot w k < length ready" for k
    using slot_bound [OF assms, of k] assms r(2) by (simp add: window_ok_def)
  then have "window_queue ?w = map (\<lambda>(r, x). (r \<or> x = a, x)) (window_queue w)"
    unfolding window_queue_def sl using r(3) by auto
  moreover have "window_ok ?w" using assms r(2) by (simp add: window_ok_def)
  ultimately show ?thesis using False r(1) by (simp add: set_ready_def)
qed

text \<open>The queue as the core uses it: it inserts only when the window is not full.\<close>

datatype window_op = Insert bool int | Retire | Set_ready int

fun window_step :: "window_op \<Rightarrow> InstWindow \<Rightarrow> (int \<times> InstWindow) result" where
  "window_step (Insert ready a) w =
     (if is_full w then Ok (0, w) else andThen (window_insert ready a w) (\<lambda>w. Ok (1, w)))"
| "window_step Retire w = retire w"
| "window_step (Set_ready a) w = andThen (set_ready a w) (\<lambda>w. Ok (0, w))"

fun queue_step :: "int \<Rightarrow> int \<Rightarrow> window_op \<Rightarrow> (bool \<times> int) list \<Rightarrow> int \<times> (bool \<times> int) list" where
  "queue_step ipc depth (Insert ready a) q = (if int (length q) = depth then (0, q) else (1, q @ [(ready, a)]))"
| "queue_step ipc depth Retire q = (int (retirable ipc q), drop (retirable ipc q) q)"
| "queue_step ipc depth (Set_ready a) q = (0, map (\<lambda>(r, x). (r \<or> x = a, x)) q)"

fun window_run :: "window_op list \<Rightarrow> InstWindow \<Rightarrow> (int list \<times> InstWindow) result" where
  "window_run [] w = Ok ([], w)"
| "window_run (x # xs) w =
     andThen (window_step x w) (\<lambda>(out, w). andThen (window_run xs w) (\<lambda>(outs, w). Ok (out # outs, w)))"

fun queue_run :: "int \<Rightarrow> int \<Rightarrow> window_op list \<Rightarrow> (bool \<times> int) list \<Rightarrow> int list \<times> (bool \<times> int) list" where
  "queue_run ipc depth [] q = ([], q)"
| "queue_run ipc depth (x # xs) q =
     (case queue_step ipc depth x q of (out, q) \<Rightarrow>
        (case queue_run ipc depth xs q of (outs, q) \<Rightarrow> (out # outs, q)))"

lemma window_step_queue:
  assumes "window_ok w"
  shows "\<exists>w'. window_step x w = Ok (fst (queue_step (m_ipc w) (m_depth w) x (window_queue w)), w') \<and> window_ok w'
    \<and> window_queue w' = snd (queue_step (m_ipc w) (m_depth w) x (window_queue w))
    \<and> m_ipc w' = m_ipc w \<and> m_depth w' = m_depth w"
proof (cases x)
  case (Insert ready a)
  then show ?thesis
    using window_insert_queue [OF assms, of ready a] length_window_queue [OF assms] assms
    by (cases "is_full w") (auto simp: is_full_def)
next
  case Retire
  then show ?thesis using retire_queue [OF assms] by auto
next
  case (Set_ready a)
  then show ?thesis using set_ready_queue [OF assms, of a] by auto
qed

lemma window_run_queue:
  assumes "window_ok w"
  shows "\<exists>w'. window_run xs w = Ok (fst (queue_run (m_ipc w) (m_depth w) xs (window_queue w)), w') \<and> window_ok w'
    \<and> window_queue w' = snd (queue_run (m_ipc w) (m_depth w) xs (window_queue w))"
  using assms
proof (induction xs arbitrary: w)
  case Nil
  then show ?case by simp
next
  case (Cons x xs)
  from window_step_queue [OF Cons.prems, of x] obtain u where
    "window_step x w = Ok (fst (queue_step (m_ipc w) (m_depth w) x (window_queue w)), u)" "window_ok u"
    "window_queue u = snd (queue_step (m_ipc w) (m_depth w) x (window_queue w))" "m_ipc u = m_ipc w" "m_depth u = m_depth w"
    by blast
  with Cons.IH [of u] show ?case by (auto simp: case_prod_beta)
qed

lemma InstWindow_new_ok:
  assumes "0 < depth"
  shows "\<exists>w. InstWindow_new ipc depth = Ok w \<and> window_ok w \<and> window_queue w = [] \<and> m_load w = 0
    \<and> m_ipc w = ipc \<and> m_depth w = depth"
  using assms by (simp add: InstWindow_new_def window_ok_def window_queue_def)

text \<open>C@window_is_a_queue: the ring buffer of a window of any positive depth never reads or writes
  out of range, and after any sequence of operations it has given the same results and holds the
  same instructions as a queue that is appended to, that loses its finished front, at most
  \<open>ipc\<close> at a time, and whose instructions waiting for an address become ready together.\<close>

theorem window_is_a_queue:
  assumes "0 < depth"
  shows "\<exists>w w'. InstWindow_new ipc depth = Ok w
    \<and> window_run xs w = Ok (fst (queue_run ipc depth xs []), w')
    \<and> window_queue w' = snd (queue_run ipc depth xs [])"
  using InstWindow_new_ok [OF assms, of ipc] window_run_queue [of _ xs] by fastforce

theorem window_is_a_queue_witness:
  "\<exists>w w'. InstWindow_new 2 3 = Ok w
     \<and> window_run [Insert False 7, Insert True (-1), Insert True (-1), Insert True (-1), Retire, Set_ready 7, Retire,
                   Insert False 9, Retire] w = Ok ([1, 1, 1, 0, 0, 0, 2, 1, 1], w')
     \<and> window_queue w' = [(False, 9)]"
  using window_is_a_queue [of 3 2 "[Insert False 7, Insert True (-1), Insert True (-1), Insert True (-1), Retire,
    Set_ready 7, Retire, Insert False 9, Retire]"]
  by (simp add: retirable_def)

subsection \<open>The core\<close>

record o3_core =
  m_id :: int
  o3_trace :: o3_trace
  m_window :: InstWindow
  m_callback :: callback
  m_num_bubbles :: int
  m_load_addr :: int
  m_writeback_addr :: int
  m_num_expected_insts :: int
  m_last_mem_cycle :: int
  o3_clk :: int
  reached_expected_num_insts :: bool
  s_insts_retired :: int
  s_cycles_recorded :: int
  s_mem_access_cycles :: int

definition fetch :: "o3_core \<Rightarrow> o3_core result" where
  "fetch c =
     andThen (get_next_inst (o3_trace c)) (\<lambda>(inst, t).
       Ok (c\<lparr>o3_trace := t, m_num_bubbles := bubble_count inst, m_load_addr := load_addr inst,
             m_writeback_addr := store_addr inst\<rparr>))"

text \<open>The callback is set after the construction by the front end, to the same function for all cores.\<close>

definition SimpleO3Core_new ::
  "(string \<Rightarrow> string option option) \<Rightarrow> callback \<Rightarrow> int \<Rightarrow> int \<Rightarrow> int \<Rightarrow> int \<Rightarrow> string \<Rightarrow> o3_core result" where
  "SimpleO3Core_new files cb core_id ipc depth num_expected_insts trace_path =
     andThen (Trace_load files trace_path) (\<lambda>t.
     andThen (InstWindow_new ipc depth) (\<lambda>w.
       fetch \<lparr>m_id = core_id, o3_trace = t, m_window = w, m_callback = cb, m_num_bubbles = 0, m_load_addr = -1,
         m_writeback_addr = -1, m_num_expected_insts = num_expected_insts, m_last_mem_cycle = 0, o3_clk = 0,
         reached_expected_num_insts = False, s_insts_retired = 0, s_cycles_recorded = 0, s_mem_access_cycles = 0\<rparr>))"

text \<open>The retirement at the start of a cycle.\<close>

definition core_retire :: "o3_core \<Rightarrow> o3_core result" where
  "core_retire c0 =
     (let c = c0\<lparr>o3_clk := o3_clk c0 + 1\<rparr> in
      andThen (retire (m_window c)) (\<lambda>(n, w).
        let c = c\<lparr>m_window := w, s_insts_retired := s_insts_retired c + n\<rparr> in
        Ok (if \<not> reached_expected_num_insts c \<and> m_num_expected_insts c \<le> s_insts_retired c
            then c\<lparr>reached_expected_num_insts := True, s_cycles_recorded := o3_clk c\<rparr> else c)))"

text \<open>The loop that issues the instructions that do not access memory. The flag says that the cycle
  goes on after it.\<close>

function issue_bubbles :: "int \<Rightarrow> o3_core \<Rightarrow> (bool \<times> int \<times> o3_core) result" where
  "issue_bubbles num_inserted c =
     (if 0 < m_num_bubbles c
      then if num_inserted = m_ipc (m_window c) \<or> is_full (m_window c) then Ok (False, num_inserted, c)
           else andThen (window_insert True (-1) (m_window c)) (\<lambda>w.
             issue_bubbles (num_inserted + 1) (c\<lparr>m_window := w, m_num_bubbles := m_num_bubbles c - 1\<rparr>))
      else Ok (True, num_inserted, c))"
  by pat_completeness auto
termination by (relation "measure (\<lambda>(_, c). nat (m_num_bubbles c))") auto

declare issue_bubbles.simps [simp del]

definition send_load ::
  "(request \<Rightarrow> 'e \<Rightarrow> (bool \<times> request \<times> 'e) result) \<Rightarrow> (request \<Rightarrow> 'e \<Rightarrow> (bool \<times> 'e) result) \<Rightarrow>
   int \<Rightarrow> o3_core \<Rightarrow> 'e \<Rightarrow> (bool \<times> o3_core \<times> 'e) result" where
  "send_load translate send num_inserted c e =
     (if m_load_addr c = -1 then Ok (True, c, e)
      else if num_inserted = m_ipc (m_window c) \<or> is_full (m_window c) then Ok (False, c, e)
      else andThen (translate (Request_source (m_load_addr c) (id_of_type Read) (m_id c) (m_callback c)) e) (\<lambda>(ok, r, e).
        if \<not> ok then Ok (False, c, e)
        else andThen (send r e) (\<lambda>(ok, e).
          if ok then andThen (window_insert False (addr r) (m_window c)) (\<lambda>w.
                 Ok (m_writeback_addr c = -1, c\<lparr>m_window := w, m_load_addr := -1\<rparr>, e))
          else Ok (False, c, e))))"

definition send_writeback ::
  "(request \<Rightarrow> 'e \<Rightarrow> (bool \<times> request \<times> 'e) result) \<Rightarrow> (request \<Rightarrow> 'e \<Rightarrow> (bool \<times> 'e) result) \<Rightarrow>
   o3_core \<Rightarrow> 'e \<Rightarrow> (bool \<times> 'e) result" where
  "send_writeback translate send c e =
     (if m_writeback_addr c = -1 then Ok (True, e)
      else andThen (translate (Request_source (m_writeback_addr c) (id_of_type Write) (m_id c) (m_callback c)) e) (\<lambda>(ok, r, e).
        if \<not> ok then Ok (False, e) else send r e))"

definition SimpleO3Core_tick ::
  "(request \<Rightarrow> 'e \<Rightarrow> (bool \<times> request \<times> 'e) result) \<Rightarrow> (request \<Rightarrow> 'e \<Rightarrow> (bool \<times> 'e) result) \<Rightarrow>
   o3_core \<Rightarrow> 'e \<Rightarrow> (o3_core \<times> 'e) result" where
  "SimpleO3Core_tick translate send c e =
     andThen (core_retire c) (\<lambda>c.
     andThen (issue_bubbles 0 c) (\<lambda>(continues, num_inserted, c).
       if \<not> continues then Ok (c, e)
       else andThen (send_load translate send num_inserted c e) (\<lambda>(continues, c, e).
         if \<not> continues then Ok (c, e)
         else andThen (send_writeback translate send c e) (\<lambda>(continues, e).
           if \<not> continues then Ok (c, e)
           else andThen (fetch c) (\<lambda>c. Ok (c, e))))))"

definition SimpleO3Core_receive :: "request \<Rightarrow> o3_core \<Rightarrow> o3_core result" where
  "SimpleO3Core_receive req c0 =
     andThen (set_ready (addr req) (m_window c0)) (\<lambda>w.
       let c = c0\<lparr>m_window := w\<rparr> in
       Ok (if arrive req \<noteq> -1 \<and> m_last_mem_cycle c < depart req \<and> \<not> reached_expected_num_insts c
           then c\<lparr>s_mem_access_cycles := s_mem_access_cycles c + (depart req - max (m_last_mem_cycle c) (arrive req)),
                  m_last_mem_cycle := depart req\<rparr>
           else c))"

subsection \<open>The core accounts for every instruction\<close>

text \<open>The instructions of a line of the trace, and those of the current line that are not in the window.\<close>

definition line_insts :: "Inst \<Rightarrow> int" where
  "line_insts i = max 0 (bubble_count i) + (if load_addr i = -1 then 0 else 1)"

definition pending_insts :: "o3_core \<Rightarrow> int" where
  "pending_insts c = max 0 (m_num_bubbles c) + (if m_load_addr c = -1 then 0 else 1)"

definition core_total :: "o3_core \<Rightarrow> int" where
  "core_total c = s_insts_retired c + m_load (m_window c) + pending_insts c"

definition fetched_insts :: "Inst list \<Rightarrow> nat \<Rightarrow> int" where
  "fetched_insts insts n = (\<Sum>j<n. line_insts (insts ! (j mod length insts)))"

definition core_ok :: "nat \<Rightarrow> o3_core \<Rightarrow> bool" where
  "core_ok n c \<longleftrightarrow> window_ok (m_window c) \<and> o3_insts (o3_trace c) \<noteq> []
     \<and> o3_trace_idx (o3_trace c) = n mod length (o3_insts (o3_trace c))
     \<and> core_total c = fetched_insts (o3_insts (o3_trace c)) n
     \<and> (reached_expected_num_insts c \<longleftrightarrow> 0 < o3_clk c \<and> m_num_expected_insts c \<le> s_insts_retired c)"

text \<open>What the parts of a cycle leave alone.\<close>

definition same_core :: "o3_core \<Rightarrow> o3_core \<Rightarrow> bool" where
  "same_core c c' \<longleftrightarrow> o3_trace c' = o3_trace c \<and> m_num_expected_insts c' = m_num_expected_insts c
     \<and> m_depth (m_window c') = m_depth (m_window c)"

definition same_stats :: "o3_core \<Rightarrow> o3_core \<Rightarrow> bool" where
  "same_stats c c' \<longleftrightarrow> o3_clk c' = o3_clk c \<and> s_insts_retired c' = s_insts_retired c
     \<and> reached_expected_num_insts c' = reached_expected_num_insts c"

definition same_core_but_trace :: "o3_core \<Rightarrow> o3_core \<Rightarrow> bool" where
  "same_core_but_trace c c' \<longleftrightarrow> o3_insts (o3_trace c') = o3_insts (o3_trace c)
     \<and> m_num_expected_insts c' = m_num_expected_insts c \<and> m_depth (m_window c') = m_depth (m_window c)"

lemma fetch_spec:
  assumes "fetch c = Ok c'" "core_ok n c" "m_num_bubbles c \<le> 0" "m_load_addr c = -1"
  shows "core_ok (Suc n) c' \<and> same_core_but_trace c c' \<and> same_stats c c'"
proof -
  let ?insts = "o3_insts (o3_trace c)"
  let ?inst = "?insts ! (n mod length ?insts)"
  have c': "c' = c\<lparr>o3_trace := (o3_trace c)\<lparr>o3_trace_idx := (n mod length ?insts + 1) mod length ?insts\<rparr>,
      m_num_bubbles := bubble_count ?inst, m_load_addr := load_addr ?inst, m_writeback_addr := store_addr ?inst\<rparr>"
    using assms(1,2) by (auto simp: fetch_def get_next_inst_def result_simps core_ok_def)
  have "pending_insts c = 0" using assms(3,4) by (simp add: pending_insts_def)
  moreover have "pending_insts c' = line_insts ?inst" by (simp add: c' pending_insts_def line_insts_def)
  ultimately have "core_total c' = core_total c + line_insts ?inst" by (simp add: core_total_def c')
  moreover have "fetched_insts ?insts (Suc n) = fetched_insts ?insts n + line_insts ?inst" by (simp add: fetched_insts_def)
  ultimately show ?thesis using assms(2) by (simp add: core_ok_def c' mod_Suc_eq same_core_but_trace_def same_stats_def)
qed

lemma core_retire_spec:
  assumes "core_retire c = Ok c'" "core_ok n c" "0 \<le> o3_clk c"
  shows "core_ok n c' \<and> m_num_expected_insts c' = m_num_expected_insts c \<and> o3_clk c' = o3_clk c + 1
    \<and> o3_insts (o3_trace c') = o3_insts (o3_trace c) \<and> m_depth (m_window c') = m_depth (m_window c)"
proof -
  from retire_queue [of "m_window c"] assms(2) obtain k w where
    "retire (m_window c) = Ok (int k, w)" "window_ok w" "m_load w = m_load (m_window c) - int k"
    "m_depth w = m_depth (m_window c)" by (auto simp: core_ok_def)
  moreover from this assms(1) have c': "c' = (let d = c\<lparr>o3_clk := o3_clk c + 1, m_window := w, s_insts_retired := s_insts_retired c + int k\<rparr> in
      if \<not> reached_expected_num_insts d \<and> m_num_expected_insts d \<le> s_insts_retired d
      then d\<lparr>reached_expected_num_insts := True, s_cycles_recorded := o3_clk d\<rparr> else d)"
    by (auto simp: core_retire_def Let_def)
  ultimately have "window_ok (m_window c')" "core_total c' = core_total c" "o3_trace c' = o3_trace c"
      "o3_clk c' = o3_clk c + 1" "m_num_expected_insts c' = m_num_expected_insts c"
      "m_depth (m_window c') = m_depth (m_window c)"
    by (simp_all add: core_total_def pending_insts_def Let_def)
  moreover have "reached_expected_num_insts c' \<longleftrightarrow> m_num_expected_insts c' \<le> s_insts_retired c'"
    using assms(2) by (auto simp: c' Let_def core_ok_def)
  ultimately show ?thesis using assms(2,3) by (simp add: core_ok_def)
qed

lemma issue_bubbles_spec:
  "issue_bubbles m c = Ok (continues, m', c') \<Longrightarrow> core_ok n c
   \<Longrightarrow> core_ok n c' \<and> (continues \<longrightarrow> m_num_bubbles c' \<le> 0) \<and> m \<le> m' \<and> same_core c c' \<and> same_stats c c'"
proof (induction m c rule: issue_bubbles.induct)
  case (1 m c)
  show ?case
  proof (cases "0 < m_num_bubbles c \<and> \<not> (m = m_ipc (m_window c) \<or> is_full (m_window c))")
    case False
    then show ?thesis using "1.prems"
      by (subst (asm) issue_bubbles.simps) (auto simp: same_core_def same_stats_def split: if_splits)
  next
    case True
    with "1.prems" window_insert_queue [of "m_window c" True "-1"] obtain w where
      w: "window_insert True (-1) (m_window c) = Ok w" "window_ok w" "m_load w = m_load (m_window c) + 1"
        "m_depth w = m_depth (m_window c)" by (auto simp: core_ok_def)
    let ?c = "c\<lparr>m_window := w, m_num_bubbles := m_num_bubbles c - 1\<rparr>"
    have "issue_bubbles (m + 1) ?c = Ok (continues, m', c')"
      using "1.prems"(1) True w(1) by (subst (asm) issue_bubbles.simps) simp
    moreover have "core_ok n ?c"
      using "1.prems"(2) w True by (auto simp: core_ok_def core_total_def pending_insts_def)
    ultimately have "core_ok n c' \<and> (continues \<longrightarrow> m_num_bubbles c' \<le> 0) \<and> m + 1 \<le> m' \<and> same_core ?c c' \<and> same_stats ?c c'"
      using "1.IH" True w(1) by blast
    then show ?thesis using w by (simp add: same_core_def same_stats_def)
  qed
qed

lemma send_load_cases:
  assumes "send_load translate send m c e = Ok (continues, c', e')"
  shows "(c' = c \<and> (continues \<longrightarrow> m_load_addr c = -1))
    \<or> (\<exists>a w. window_insert False a (m_window c) = Ok w \<and> c' = c\<lparr>m_window := w, m_load_addr := -1\<rparr>
         \<and> m_load_addr c \<noteq> -1 \<and> \<not> is_full (m_window c))"
  using assms by (auto simp: send_load_def result_simps split: if_splits)

lemma send_load_spec:
  assumes "send_load translate send m c e = Ok (continues, c', e')" "core_ok n c"
  shows "core_ok n c' \<and> (continues \<longrightarrow> m_load_addr c' = -1) \<and> m_num_bubbles c' = m_num_bubbles c
    \<and> same_core c c' \<and> same_stats c c'"
  using send_load_cases [OF assms(1)]
proof (elim disjE exE conjE)
  assume "c' = c" "continues \<longrightarrow> m_load_addr c = -1"
  then show ?thesis using assms(2) by (simp add: same_core_def same_stats_def)
next
  fix a w
  assume w: "window_insert False a (m_window c) = Ok w" "c' = c\<lparr>m_window := w, m_load_addr := -1\<rparr>"
    "m_load_addr c \<noteq> -1" "\<not> is_full (m_window c)"
  from window_insert_queue [of "m_window c" False a] w assms(2)
  have "window_ok w" "m_load w = m_load (m_window c) + 1" "m_depth w = m_depth (m_window c)"
    by (auto simp: core_ok_def)
  then show ?thesis using w(2,3) assms(2)
    by (simp add: core_ok_def core_total_def pending_insts_def same_core_def same_stats_def)
qed

lemma core_tick_spec:
  assumes "SimpleO3Core_tick translate send c e = Ok (c', e')" "core_ok n c" "0 \<le> o3_clk c"
  shows "\<exists>n'\<ge>n. core_ok n' c' \<and> o3_clk c' = o3_clk c + 1 \<and> m_num_expected_insts c' = m_num_expected_insts c
    \<and> o3_insts (o3_trace c') = o3_insts (o3_trace c) \<and> m_depth (m_window c') = m_depth (m_window c)"
proof -
  from assms(1) obtain c1 c2 k m where r: "core_retire c = Ok c1" and i: "issue_bubbles 0 c1 = Ok (k, m, c2)"
    by (auto simp: SimpleO3Core_tick_def andThen_Ok_iff)
  note s1 = core_retire_spec [OF r assms(2,3)]
  note s2 = issue_bubbles_spec [OF i, of n]
  show ?thesis
  proof (cases k)
    case False
    then have "c' = c2" using assms(1) by (simp add: SimpleO3Core_tick_def r i)
    then show ?thesis using s1 s2 by (auto simp: same_core_def same_stats_def)
  next
    case True
    then obtain k3 c3 e3 where l: "send_load translate send m c2 e = Ok (k3, c3, e3)"
      using assms(1) by (auto simp: SimpleO3Core_tick_def r i andThen_Ok_iff)
    note s3 = send_load_spec [OF l, of n]
    consider "c' = c3" | "k3" "fetch c3 = Ok c'"
      using assms(1) True by (auto simp: SimpleO3Core_tick_def r i l result_simps split: if_splits)
    then show ?thesis
    proof cases
      case 1
      then show ?thesis using s1 s2 s3 by (auto simp: same_core_def same_stats_def)
    next
      case 2
      have "core_ok (Suc n) c' \<and> same_core_but_trace c3 c' \<and> same_stats c3 c'"
        by (rule fetch_spec [OF 2(2)]) (use 2 True s1 s2 s3 in auto)
      then show ?thesis using s1 s2 s3 by (intro exI [of _ "Suc n"]) (auto simp: same_core_def same_core_but_trace_def same_stats_def)
    qed
  qed
qed

lemma core_receive_spec:
  assumes "SimpleO3Core_receive req c = Ok c'" "core_ok n c"
  shows "core_ok n c' \<and> same_core c c' \<and> same_stats c c'"
proof -
  from set_ready_queue [of "m_window c" "addr req"] assms(2) obtain w where
    w: "set_ready (addr req) (m_window c) = Ok w" "window_ok w" "m_load w = m_load (m_window c)"
      "m_depth w = m_depth (m_window c)" by (auto simp: core_ok_def)
  from assms(1) obtain x y where "c' = c\<lparr>m_window := w\<rparr> \<or> c' = c\<lparr>m_window := w, s_mem_access_cycles := x, m_last_mem_cycle := y\<rparr>"
    unfolding SimpleO3Core_receive_def w(1) andThen_Ok Let_def by (auto split: if_splits)
  then show ?thesis using w assms(2)
    by (elim disjE) (simp_all add: core_ok_def core_total_def pending_insts_def same_core_def same_stats_def)
qed

text \<open>What happens to a core: a cycle, or the completion of a request.\<close>

datatype core_event = Core_tick | Core_receive request

fun core_step ::
  "(request \<Rightarrow> 'e \<Rightarrow> (bool \<times> request \<times> 'e) result) \<Rightarrow> (request \<Rightarrow> 'e \<Rightarrow> (bool \<times> 'e) result) \<Rightarrow>
   core_event \<Rightarrow> o3_core \<times> 'e \<Rightarrow> (o3_core \<times> 'e) result" where
  "core_step translate send Core_tick (c, e) = SimpleO3Core_tick translate send c e"
| "core_step translate send (Core_receive req) (c, e) = andThen (SimpleO3Core_receive req c) (\<lambda>c. Ok (c, e))"

lemma core_run_spec:
  assumes "fold_result (core_step translate send) evs (c, e) = Ok (c', e')" "core_ok n c" "0 \<le> o3_clk c"
  shows "\<exists>n'\<ge>n. core_ok n' c' \<and> o3_clk c' = o3_clk c + int (length (filter (\<lambda>x. x = Core_tick) evs))
    \<and> m_num_expected_insts c' = m_num_expected_insts c
    \<and> o3_insts (o3_trace c') = o3_insts (o3_trace c) \<and> m_depth (m_window c') = m_depth (m_window c)"
  using assms
proof (induction evs arbitrary: c e n)
  case Nil
  then show ?case by auto
next
  case (Cons x evs)
  from Cons.prems(1) obtain c1 e1 where x: "core_step translate send x (c, e) = Ok (c1, e1)"
    and rest: "fold_result (core_step translate send) evs (c1, e1) = Ok (c', e')"
    by (auto simp: andThen_Ok_iff)
  show ?case
  proof (cases x)
    case Core_tick
    with x have "SimpleO3Core_tick translate send c e = Ok (c1, e1)" by simp
    from core_tick_spec [OF this Cons.prems(2,3)] obtain k where k: "n \<le> k" "core_ok k c1" "o3_clk c1 = o3_clk c + 1"
      "m_num_expected_insts c1 = m_num_expected_insts c" "o3_insts (o3_trace c1) = o3_insts (o3_trace c)"
      "m_depth (m_window c1) = m_depth (m_window c)" by blast
    from Cons.IH [OF rest k(2)] k Cons.prems(3) obtain n' where "k \<le> n'" "core_ok n' c'"
      "o3_clk c' = o3_clk c1 + int (length (filter (\<lambda>x. x = Core_tick) evs))"
      "m_num_expected_insts c' = m_num_expected_insts c1" "o3_insts (o3_trace c') = o3_insts (o3_trace c1)"
      "m_depth (m_window c') = m_depth (m_window c1)" by auto
    then show ?thesis using k Core_tick by (intro exI [of _ n']) auto
  next
    case (Core_receive req)
    with x have "SimpleO3Core_receive req c = Ok c1" by (auto simp: andThen_Ok_iff)
    note s = core_receive_spec [OF this Cons.prems(2)]
    from Cons.IH [OF rest, of n] s Cons.prems(3) obtain n' where "n \<le> n'" "core_ok n' c'"
      "o3_clk c' = o3_clk c1 + int (length (filter (\<lambda>x. x = Core_tick) evs))"
      "m_num_expected_insts c' = m_num_expected_insts c1" "o3_insts (o3_trace c') = o3_insts (o3_trace c1)"
      "m_depth (m_window c') = m_depth (m_window c1)" by (auto simp: same_stats_def)
    then show ?thesis using s Core_receive by (intro exI [of _ n']) (auto simp: same_core_def same_stats_def)
  qed
qed

lemma SimpleO3Core_new_ok:
  assumes "SimpleO3Core_new files cb core_id ipc depth expected path = Ok c" "0 < depth"
  shows "core_ok 1 c \<and> o3_clk c = 0 \<and> m_num_expected_insts c = expected \<and> m_depth (m_window c) = depth"
proof -
  from InstWindow_new_ok [OF assms(2), of ipc] obtain w where w: "InstWindow_new ipc depth = Ok w" "window_ok w"
    "m_load w = 0" "m_depth w = depth" by blast
  from assms(1) obtain t where l: "Trace_load files path = Ok t" by (auto simp: SimpleO3Core_new_def andThen_Ok_iff)
  have t: "o3_trace_idx t = 0" "fetch \<lparr>m_id = core_id, o3_trace = t, m_window = w,
      m_callback = cb, m_num_bubbles = 0, m_load_addr = -1, m_writeback_addr = -1, m_num_expected_insts = expected,
      m_last_mem_cycle = 0, o3_clk = 0, reached_expected_num_insts = False, s_insts_retired = 0,
      s_cycles_recorded = 0, s_mem_access_cycles = 0\<rparr> = Ok c"
    using l assms(1) w(1) by (auto simp: Trace_load_def andThen_Ok_iff) [1] (use l assms(1) w(1) in \<open>simp add: SimpleO3Core_new_def\<close>)
  let ?c = "\<lparr>m_id = core_id, o3_trace = t, m_window = w,
      m_callback = cb, m_num_bubbles = 0, m_load_addr = -1, m_writeback_addr = -1, m_num_expected_insts = expected,
      m_last_mem_cycle = 0, o3_clk = 0, reached_expected_num_insts = False, s_insts_retired = 0,
      s_cycles_recorded = 0, s_mem_access_cycles = 0\<rparr>"
  have "o3_insts t \<noteq> []" using t by (auto simp: fetch_def get_next_inst_def result_simps in_vec_def)
  then have "core_ok 0 ?c" using w t(1) by (simp add: core_ok_def core_total_def pending_insts_def fetched_insts_def)
  from fetch_spec [OF t(2) this] show ?thesis using w(4) by (simp add: same_core_but_trace_def same_stats_def)
qed

text \<open>C@core_retires_the_trace: from its construction on, through any cycles and completions and
  whatever the translation and the cache answer, a core has replayed the lines of its trace in a
  circle, and every instruction of the lines it has fetched is either retired, in its window (which
  never holds more than its depth), or still to be issued. It is finished exactly when the expected
  number has been retired.\<close>

theorem core_retires_the_trace:
  assumes "SimpleO3Core_new files cb core_id ipc depth expected path = Ok c" "0 < depth"
    and "fold_result (core_step translate send) evs (c, e) = Ok (c', e')"
  shows "\<exists>n\<ge>1. s_insts_retired c' + m_load (m_window c') + pending_insts c' = fetched_insts (o3_insts (o3_trace c)) n
    \<and> o3_trace_idx (o3_trace c') = n mod length (o3_insts (o3_trace c))
    \<and> 0 \<le> m_load (m_window c') \<and> m_load (m_window c') \<le> depth
    \<and> (reached_expected_num_insts c' \<longleftrightarrow> Core_tick \<in> set evs \<and> expected \<le> s_insts_retired c')"
proof -
  note new = SimpleO3Core_new_ok [OF assms(1,2)]
  from core_run_spec [OF assms(3), of 1] new obtain n where n: "1 \<le> n" "core_ok n c'"
    "o3_clk c' = int (length (filter (\<lambda>x. x = Core_tick) evs))" "m_num_expected_insts c' = expected"
    "o3_insts (o3_trace c') = o3_insts (o3_trace c)" "m_depth (m_window c') = depth" by auto
  have "0 < o3_clk c' \<longleftrightarrow> Core_tick \<in> set evs" unfolding n(3) by (auto simp: filter_empty_conv)
  then show ?thesis using n by (intro exI [of _ n]) (auto simp: core_ok_def core_total_def window_ok_def)
qed

definition small_translate :: "request \<Rightarrow> nat \<Rightarrow> (bool \<times> request \<times> nat) result" where
  "small_translate r e = Ok (True, r\<lparr>addr := addr r + 4096\<rparr>, e)"

definition small_cache_send :: "request \<Rightarrow> nat \<Rightarrow> (bool \<times> nat) result" where
  "small_cache_send r e = Ok (e mod 2 = 1, e + 1)"

definition small_o3_file :: "string \<Rightarrow> string option option" where
  "small_o3_file path = Some (Some (''2 64'' @ CHR 0x0A # ''0 128 256''))"

definition small_core_events :: "core_event list" where
  "small_core_events = [Core_tick, Core_tick, Core_tick, Core_receive (Request_addr 4160 0), Core_tick, Core_tick, Core_tick]"

theorem core_retires_the_trace_witness:
  "\<exists>c c' e' n. SimpleO3Core_new small_o3_file No_callback 0 2 4 3 ''t'' = Ok c
     \<and> fold_result (core_step small_translate small_cache_send) small_core_events (c, 0) = Ok (c', e')
     \<and> s_insts_retired c' = 3 \<and> m_load (m_window c') = 1 \<and> 1 \<le> n
     \<and> 4 + pending_insts c' = fetched_insts (o3_insts (o3_trace c)) n \<and> reached_expected_num_insts c'"
proof -
  have "case SimpleO3Core_new small_o3_file No_callback 0 2 4 3 ''t'' of Inl _ \<Rightarrow> False | Inr c \<Rightarrow>
      (case fold_result (core_step small_translate small_cache_send) small_core_events (c, 0) of Inl _ \<Rightarrow> False
       | Inr (c', e') \<Rightarrow> s_insts_retired c' = 3 \<and> m_load (m_window c') = 1)"
    by code_simp
  then obtain c c' e' where r: "SimpleO3Core_new small_o3_file No_callback 0 2 4 3 ''t'' = Ok c"
      "fold_result (core_step small_translate small_cache_send) small_core_events (c, 0) = Ok (c', e')"
      "s_insts_retired c' = 3" "m_load (m_window c') = 1"
    by (simp only: ok_case_iff split_paired_Ex prod.case) blast
  have "Core_tick \<in> set small_core_events" by (simp add: small_core_events_def)
  then show ?thesis using core_retires_the_trace [OF r(1) _ r(2)] r by auto
qed

end
