(* ===== verification/LLC.thy ===== *)
theory LLC
  imports O3_Core
begin

text \<open>
  The last-level cache of the SimpleO3 front end, \<^verbatim>\<open>src/src/frontend/impl/processor/simpleO3/llc.h\<close>
  and \<^verbatim>\<open>llc.cpp\<close>. A \<open>std::list\<close> iterator kept in an MSHR is the identity of the list node it points
  to: every node that is created gets a new one. A node is looked up in the set of its address; when
  it is no longer there the iterator dangles.
\<close>

unbundle bit_operations_syntax

subsection \<open>State\<close>

record Line =
  line_addr :: int
  line_tag :: int
  line_dirty :: bool
  line_ready :: bool
  line_node :: nat

record llc =
  m_cache_sets :: "int \<rightharpoonup> Line list"
  m_mshrs :: "(int \<times> nat) list"
  m_receive_requests :: "int \<rightharpoonup> request list"
  m_miss_list :: "(int \<times> request) list"
  m_hit_list :: "(int \<times> request) list"
  llc_clk :: int
  m_latency :: int
  m_size_bytes :: int
  m_linesize_bytes :: int
  m_associativity :: int
  m_set_size :: int
  m_num_mshrs :: int
  m_index_mask :: int
  m_index_offset :: nat
  m_tag_offset :: nat
  s_llc_read_access :: int
  s_llc_write_access :: int
  s_llc_read_misses :: int
  s_llc_write_misses :: int
  s_llc_eviction :: int
  s_llc_mshr_unavailable :: int
  next_node :: nat

text \<open>\<open>m_size_bytes\<close> and \<open>m_linesize_bytes\<close> are \<open>size_t\<close>, so the number of sets is an unsigned quotient,
  stored in an \<open>int\<close>; \<open>calc_log2\<close> of a negative one shifts for ever.\<close>

definition SimpleO3LLC_new :: "int \<Rightarrow> int \<Rightarrow> int \<Rightarrow> int \<Rightarrow> int \<Rightarrow> llc result" where
  "SimpleO3LLC_new latency size_bytes linesize_bytes associativity num_mshrs =
     (let size = to_unsigned 64 size_bytes; linesize = to_unsigned 64 linesize_bytes;
          way = to_unsigned 64 (linesize * to_unsigned 64 associativity) in
      if way = 0 then Err (Undefined ''division by zero'')
      else let sets = to_signed 32 (size div way) in
        if sets < 0 then Err (Undefined ''endless loop'')
        else Ok \<lparr>m_cache_sets = Map.empty, m_mshrs = [], m_receive_requests = Map.empty, m_miss_list = [],
                m_hit_list = [], llc_clk = 0, m_latency = latency, m_size_bytes = size, m_linesize_bytes = linesize,
                m_associativity = associativity, m_set_size = sets, m_num_mshrs = num_mshrs,
                m_index_mask = sets - 1, m_index_offset = calc_log2 (nat linesize),
                m_tag_offset = calc_log2 (nat sets) + calc_log2 (nat linesize),
                s_llc_read_access = 0, s_llc_write_access = 0, s_llc_read_misses = 0, s_llc_write_misses = 0,
                s_llc_eviction = 0, s_llc_mshr_unavailable = 0, next_node = 0\<rparr>)"

definition get_index :: "llc \<Rightarrow> int \<Rightarrow> int" where
  "get_index l a = to_signed 32 ((a div 2 ^ m_index_offset l) AND m_index_mask l)"

definition get_tag :: "llc \<Rightarrow> int \<Rightarrow> int" where
  "get_tag l a = a div 2 ^ m_tag_offset l"

definition line_align :: "llc \<Rightarrow> int \<Rightarrow> int" where
  "line_align l a = a AND NOT (m_linesize_bytes l - 1)"

subsection \<open>Lookup\<close>

text \<open>\<open>std::find_if\<close>: the position of the first element with the property.\<close>

fun find_pos :: "('a \<Rightarrow> bool) \<Rightarrow> 'a list \<Rightarrow> nat option" where
  "find_pos P [] = None"
| "find_pos P (x # xs) = (if P x then Some 0 else map_option Suc (find_pos P xs))"

definition get_set :: "llc \<Rightarrow> int \<Rightarrow> Line list" where
  "get_set l a = (case m_cache_sets l (get_index l a) of Some ways \<Rightarrow> ways | None \<Rightarrow> [])"

definition put_set :: "llc \<Rightarrow> int \<Rightarrow> Line list \<Rightarrow> llc" where
  "put_set l a ways = l\<lparr>m_cache_sets := (m_cache_sets l)(get_index l a \<mapsto> ways)\<rparr>"

text \<open>When no line has the tag the source reads \<open>ready\<close> of \<open>end()\<close>; whatever it reads, it returns
  \<open>end()\<close>.\<close>

definition check_set_hit :: "llc \<Rightarrow> Line list \<Rightarrow> int \<Rightarrow> nat option" where
  "check_set_hit l ways a =
     (case find_pos (\<lambda>x. line_tag x = get_tag l a) ways of
        None \<Rightarrow> None
      | Some k \<Rightarrow> if line_ready (ways ! k) then Some k else None)"

definition check_mshr_hit :: "llc \<Rightarrow> int \<Rightarrow> nat option" where
  "check_mshr_hit l a = find_pos (\<lambda>e. line_align l (fst e) = line_align l a) (m_mshrs l)"

text \<open>Writing through the iterator of an MSHR.\<close>

definition node_update :: "(Line \<Rightarrow> Line) \<Rightarrow> int \<times> nat \<Rightarrow> llc \<Rightarrow> llc result" where
  "node_update f e l =
     (case find_pos (\<lambda>x. line_node x = snd e) (get_set l (fst e)) of
        None \<Rightarrow> Err (Undefined ''dangling iterator'')
      | Some k \<Rightarrow> Ok (put_set l (fst e) ((get_set l (fst e))[k := f (get_set l (fst e) ! k)])))"

subsection \<open>Replacement\<close>

definition need_eviction :: "llc \<Rightarrow> Line list \<Rightarrow> int \<Rightarrow> bool" where
  "need_eviction l ways a \<longleftrightarrow>
     (if find_pos (\<lambda>x. get_tag l a = line_tag x) ways \<noteq> None then False
      else \<not> int (length ways) < to_unsigned 64 (m_associativity l))"

definition evict_line :: "llc \<Rightarrow> Line list \<Rightarrow> nat \<Rightarrow> llc \<times> Line list" where
  "evict_line l ways victim =
     (let l = l\<lparr>s_llc_eviction := s_llc_eviction l + 1\<rparr>;
          l = (if line_dirty (ways ! victim)
               then l\<lparr>m_miss_list := m_miss_list l @
                   [(llc_clk l + m_latency l, Request_addr (line_addr (ways ! victim)) (id_of_type Write))]\<rparr>
               else l)
      in (l, remove_at victim ways))"

definition new_line :: "llc \<Rightarrow> int \<Rightarrow> Line" where
  "new_line l a =
     \<lparr>line_addr = a, line_tag = get_tag l a, line_dirty = False, line_ready = False, line_node = next_node l\<rparr>"

text \<open>\<open>None\<close> is \<open>set.end()\<close>; otherwise the new line is the last of the set.\<close>

definition allocate_line :: "llc \<Rightarrow> Line list \<Rightarrow> int \<Rightarrow> (llc \<times> Line list) option" where
  "allocate_line l ways a =
     (let push = (\<lambda>(l, ways). (l\<lparr>next_node := next_node l + 1\<rparr>, ways @ [new_line l a])) in
      if need_eviction l ways a
      then map_option (\<lambda>victim. push (evict_line l ways victim)) (find_pos line_ready ways)
      else Some (push (l, ways)))"

subsection \<open>Operations\<close>

definition count_access :: "request \<Rightarrow> llc \<Rightarrow> llc" where
  "count_access req l =
     (if req_type req = Read then l\<lparr>s_llc_read_access := s_llc_read_access l + 1\<rparr>
      else if req_type req = Write then l\<lparr>s_llc_write_access := s_llc_write_access l + 1\<rparr> else l)"

definition count_miss :: "request \<Rightarrow> llc \<Rightarrow> llc" where
  "count_miss req l =
     (if req_type req = Read then l\<lparr>s_llc_read_misses := s_llc_read_misses l + 1\<rparr>
      else if req_type req = Write then l\<lparr>s_llc_write_misses := s_llc_write_misses l + 1\<rparr> else l)"

definition serve_hit :: "request \<Rightarrow> nat \<Rightarrow> llc \<Rightarrow> llc" where
  "serve_hit req k l =
     (let ways = get_set l (addr req);
          line = \<lparr>line_addr = addr req, line_tag = get_tag l (addr req),
                  line_dirty = line_dirty (ways ! k) \<or> req_type req = Write, line_ready = True, line_node = next_node l\<rparr>
      in (put_set l (addr req) (remove_at k (ways @ [line])))
           \<lparr>next_node := next_node l + 1, m_hit_list := m_hit_list l @ [(llc_clk l + m_latency l, req)]\<rparr>)"

definition join_mshr :: "request \<Rightarrow> bool \<Rightarrow> int \<times> nat \<Rightarrow> llc \<Rightarrow> llc result" where
  "join_mshr req dirty e l =
     (let waiting = (case m_receive_requests l (fst e) of Some rs \<Rightarrow> rs | None \<Rightarrow> []) in
      node_update (\<lambda>x. x\<lparr>line_dirty := dirty \<or> line_dirty x\<rparr>) e
        (l\<lparr>m_receive_requests := (m_receive_requests l)(fst e \<mapsto> waiting @ [req])\<rparr>))"

definition line_available :: "llc \<Rightarrow> Line list \<Rightarrow> bool" where
  "line_available l ways \<longleftrightarrow> int (length ways) < to_unsigned 64 (m_associativity l) \<or> (\<exists>x\<in>set ways. line_ready x)"

definition serve_miss :: "request \<Rightarrow> bool \<Rightarrow> llc \<Rightarrow> (bool \<times> llc) result" where
  "serve_miss req dirty l =
     (let ways = get_set l (addr req) in
      if int (length (m_mshrs l)) = to_unsigned 64 (m_num_mshrs l)
      then Ok (False, l\<lparr>s_llc_mshr_unavailable := s_llc_mshr_unavailable l + 1\<rparr>)
      else if \<not> line_available l ways then Ok (False, l)
      else (case allocate_line l ways (addr req) of
          None \<Rightarrow> Err (Runtime_error ''Failed to allocate new line when there is available entry.'')
        | Some (l, ways) \<Rightarrow>
            (let k = length ways - 1; line = ways ! k in
             Ok (True, (put_set l (addr req) (ways[k := line\<lparr>line_dirty := dirty\<rparr>]))
               \<lparr>m_mshrs := m_mshrs l @ [(addr req, line_node line)],
                m_receive_requests := (m_receive_requests l)(addr req \<mapsto> [req]),
                m_miss_list := m_miss_list l @ [(llc_clk l + m_latency l, req)]\<rparr>))))"

text \<open>A write that misses is sent on as a read; \<open>type_id\<close> stays that of a write.\<close>

definition as_read :: "request \<Rightarrow> request" where
  "as_read req = (if req_type req = Write then req\<lparr>req_type := Read\<rparr> else req)"

definition SimpleO3LLC_send :: "request \<Rightarrow> llc \<Rightarrow> (bool \<times> llc) result" where
  "SimpleO3LLC_send req l0 =
     (let l = count_access req (put_set l0 (addr req) (get_set l0 (addr req))) in
      case check_set_hit l (get_set l (addr req)) (addr req) of
        Some k \<Rightarrow> Ok (True, serve_hit req k l)
      | None \<Rightarrow>
          (let l = count_miss req l; dirty = (req_type req = Write); req = as_read req in
           case check_mshr_hit l (addr req) of
             Some k \<Rightarrow> andThen (join_mshr req dirty (m_mshrs l ! k) l) (\<lambda>l. Ok (True, l))
           | None \<Rightarrow> serve_miss req dirty l))"

definition SimpleO3LLC_receive :: "request \<Rightarrow> llc \<Rightarrow> llc result" where
  "SimpleO3LLC_receive req l =
     (case check_mshr_hit l (addr req) of
        None \<Rightarrow> Ok l
      | Some k \<Rightarrow> andThen (node_update (\<lambda>x. x\<lparr>line_ready := True\<rparr>) (m_mshrs l ! k) l) (\<lambda>l.
          Ok (l\<lparr>m_mshrs := remove_at k (m_mshrs l)\<rparr>)))"

fun send_misses ::
  "(request \<Rightarrow> 'm \<Rightarrow> (bool \<times> 'm) result) \<Rightarrow> int \<Rightarrow> (int \<times> request) list \<Rightarrow> 'm \<Rightarrow> ((int \<times> request) list \<times> 'm) result" where
  "send_misses send clk [] m = Ok ([], m)"
| "send_misses send clk ((due, req) # rest) m =
     andThen (if due \<le> clk then send req m else Ok (False, m)) (\<lambda>(sent, m).
     andThen (send_misses send clk rest m) (\<lambda>(left, m). Ok (if sent then left else (due, req) # left, m)))"

text \<open>The callback gets at the cache, but not at the list that is walked.\<close>

fun serve_hits ::
  "(request \<Rightarrow> llc \<times> 'h \<Rightarrow> (llc \<times> 'h) result) \<Rightarrow> (int \<times> request) list \<Rightarrow> (int \<times> request) list \<Rightarrow> llc \<times> 'h \<Rightarrow> (llc \<times> 'h) result" where
  "serve_hits cb kept [] (l, h) = Ok (l\<lparr>m_hit_list := kept\<rparr>, h)"
| "serve_hits cb kept ((due, req) # rest) (l, h) =
     (if due \<le> llc_clk l
      then andThen (cb req (l\<lparr>m_hit_list := kept @ (due, req) # rest,
                              m_receive_requests := (m_receive_requests l)(addr req \<mapsto> [req])\<rparr>, h))
             (serve_hits cb kept rest)
      else serve_hits cb (kept @ [(due, req)]) rest (l, h))"

definition SimpleO3LLC_tick ::
  "(request \<Rightarrow> 'm \<Rightarrow> (bool \<times> 'm) result) \<Rightarrow> (request \<Rightarrow> llc \<times> 'h \<Rightarrow> (llc \<times> 'h) result) \<Rightarrow>
   llc \<times> 'h \<times> 'm \<Rightarrow> (llc \<times> 'h \<times> 'm) result" where
  "SimpleO3LLC_tick send cb = (\<lambda>(l0, h, m).
     let l = l0\<lparr>llc_clk := llc_clk l0 + 1\<rparr> in
     andThen (send_misses send (llc_clk l) (m_miss_list l) m) (\<lambda>(left, m).
     andThen (serve_hits cb [] (m_hit_list l) (l\<lparr>m_miss_list := left\<rparr>, h)) (\<lambda>(l, h). Ok (l, h, m))))"

subsection \<open>Sets, tags and lines\<close>

definition geometry :: "llc \<Rightarrow> int \<times> int \<times> int \<times> int \<times> nat \<times> nat" where
  "geometry l = (m_linesize_bytes l, m_associativity l, m_num_mshrs l, m_index_mask l, m_index_offset l, m_tag_offset l)"

text \<open>The line size and the number of sets are powers of two.\<close>

definition llc_shape :: "llc \<Rightarrow> bool" where
  "llc_shape l \<longleftrightarrow> 0 \<le> m_associativity l \<and> m_associativity l < 2 ^ 31 \<and> 0 \<le> m_num_mshrs l \<and> m_num_mshrs l < 2 ^ 31
     \<and> (\<exists>sets. m_index_mask l = 2 ^ sets - 1 \<and> m_tag_offset l = sets + m_index_offset l \<and> sets \<le> 30)
     \<and> m_linesize_bytes l = 2 ^ m_index_offset l"

lemma geometry_get:
  assumes "geometry l' = geometry l"
  shows "get_index l' = get_index l" "get_tag l' = get_tag l" "line_align l' = line_align l"
    "m_associativity l' = m_associativity l" "m_num_mshrs l' = m_num_mshrs l" "llc_shape l' = llc_shape l"
  using assms by (auto simp: geometry_def get_index_def get_tag_def line_align_def llc_shape_def fun_eq_iff)

lemma line_align_eq:
  assumes "llc_shape l"
  shows "line_align l a = a div 2 ^ m_index_offset l * 2 ^ m_index_offset l"
proof -
  have "line_align l a = a AND NOT (mask (m_index_offset l))"
    using assms by (simp add: line_align_def llc_shape_def mask_eq_exp_minus_1)
  also have "\<dots> = push_bit (m_index_offset l) (drop_bit (m_index_offset l) a)"
    by (rule bit_eqI) (auto simp: bit_simps)
  finally show ?thesis by (simp add: push_bit_eq_mult drop_bit_eq_div)
qed

text \<open>A line of memory is its set and its tag.\<close>

lemma index_tag_align:
  assumes "llc_shape l"
  shows "get_index l a = get_index l b \<and> get_tag l a = get_tag l b \<longleftrightarrow> line_align l a = line_align l b"
proof -
  obtain sets where s: "m_index_mask l = 2 ^ sets - 1" "m_tag_offset l = sets + m_index_offset l" "sets \<le> 30"
    using assms by (auto simp: llc_shape_def)
  let ?k = "m_index_offset l"
  have i: "get_index l x = (x div 2 ^ ?k) mod 2 ^ sets" for x
  proof -
    have "(x div 2 ^ ?k) AND m_index_mask l = (x div 2 ^ ?k) mod 2 ^ sets"
      using s(1) by (simp flip: mask_eq_exp_minus_1 take_bit_eq_mask add: take_bit_eq_mod)
    moreover have "(2::int) ^ sets \<le> 2 ^ 30" using s(3) by (intro power_increasing) auto
    then have bounds: "0 \<le> (x div 2 ^ ?k) mod 2 ^ sets" "(x div 2 ^ ?k) mod 2 ^ sets < 2 ^ 30"
      using pos_mod_bound [of "2 ^ sets" "x div 2 ^ ?k"] by (simp, simp del: pos_mod_bound)
    have "to_signed 32 y = y" if "0 \<le> y" "y < 2 ^ 30" for y using that by (intro to_signed_id) simp_all
    from this [OF bounds] have "to_signed 32 ((x div 2 ^ ?k) mod 2 ^ sets) = (x div 2 ^ ?k) mod 2 ^ sets" .
    ultimately show ?thesis by (simp add: get_index_def)
  qed
  have t: "get_tag l x = (x div 2 ^ ?k) div 2 ^ sets" for x
    by (simp add: get_tag_def s(2) power_add mult.commute flip: zdiv_zmult2_eq)
  have "x div 2 ^ ?k = y div 2 ^ ?k \<longleftrightarrow> get_index l x = get_index l y \<and> get_tag l x = get_tag l y" for x y
    unfolding i t by (metis div_mult_mod_eq)
  then show ?thesis by (simp add: line_align_eq [OF assms])
qed

subsection \<open>The invariant\<close>

definition cache_set :: "llc \<Rightarrow> int \<Rightarrow> Line list" where
  "cache_set l i = (case m_cache_sets l i of Some ways \<Rightarrow> ways | None \<Rightarrow> [])"

lemma get_set_cache_set: "get_set l a = cache_set l (get_index l a)"
  by (simp add: get_set_def cache_set_def)

text \<open>No two lines of a set have the same tag, no set is larger than the associativity, and the lines
  still in flight are exactly those that the MSHRs point to, one MSHR a line of memory.\<close>

definition ways_ok :: "llc \<Rightarrow> int \<Rightarrow> Line list \<Rightarrow> bool" where
  "ways_ok l i ways \<longleftrightarrow> distinct (map line_tag ways) \<and> distinct (map line_node ways)
     \<and> int (length ways) \<le> m_associativity l
     \<and> (\<forall>x\<in>set ways. line_node x < next_node l \<and> line_tag x = get_tag l (line_addr x) \<and> get_index l (line_addr x) = i
          \<and> (\<not> line_ready x \<longrightarrow> (\<exists>a. (a, line_node x) \<in> set (m_mshrs l) \<and> get_index l a = i)))"

definition mshr_points :: "llc \<Rightarrow> int \<times> nat \<Rightarrow> Line list \<Rightarrow> bool" where
  "mshr_points l e ways \<longleftrightarrow> (\<exists>x\<in>set ways. line_node x = snd e \<and> \<not> line_ready x \<and> line_tag x = get_tag l (fst e))"

definition llc_ok :: "llc \<Rightarrow> bool" where
  "llc_ok l \<longleftrightarrow> llc_shape l \<and> int (length (m_mshrs l)) \<le> m_num_mshrs l
     \<and> distinct (map (\<lambda>e. line_align l (fst e)) (m_mshrs l))
     \<and> (\<forall>i. ways_ok l i (cache_set l i)) \<and> (\<forall>e\<in>set (m_mshrs l). mshr_points l e (get_set l (fst e)))"

lemma mshr_points_nth:
  "mshr_points l e ways \<longleftrightarrow>
     (\<exists>j<length ways. line_node (ways ! j) = snd e \<and> \<not> line_ready (ways ! j) \<and> line_tag (ways ! j) = get_tag l (fst e))"
  unfolding mshr_points_def by (metis in_set_conv_nth)

lemma llc_ok_replace:
  assumes "llc_ok l" "geometry l' = geometry l" "next_node l \<le> next_node l'"
    and "cache_set l' = (cache_set l)(i := ways)" "ways_ok l' i ways"
    and "int (length (m_mshrs l')) \<le> m_num_mshrs l" "distinct (map (\<lambda>e. line_align l (fst e)) (m_mshrs l'))"
    and "\<And>e. get_index l (fst e) \<noteq> i \<Longrightarrow> e \<in> set (m_mshrs l') \<longleftrightarrow> e \<in> set (m_mshrs l)"
    and "\<And>e. get_index l (fst e) = i \<Longrightarrow> e \<in> set (m_mshrs l') \<Longrightarrow> mshr_points l e ways"
  shows "llc_ok l'"
proof -
  note g = geometry_get [OF assms(2)]
  have "ways_ok l' j (cache_set l' j)" for j
  proof (cases "j = i")
    case False
    then have "ways_ok l j (cache_set l' j)" using assms(1,4) by (simp add: llc_ok_def)
    moreover have "\<exists>a. (a, n) \<in> set (m_mshrs l') \<and> get_index l a = j"
      if "\<exists>a. (a, n) \<in> set (m_mshrs l) \<and> get_index l a = j" for n
      using that False assms(8) by fastforce
    ultimately show ?thesis using assms(3) unfolding ways_ok_def g by (auto intro: less_le_trans)
  qed (use assms(4,5) in simp)
  moreover have "mshr_points l' e (get_set l' (fst e))" if "e \<in> set (m_mshrs l')" for e
    using assms(1,4,8,9) that unfolding llc_ok_def mshr_points_def get_set_cache_set g
    by (cases "get_index l (fst e) = i") auto
  ultimately show ?thesis using assms(1,6,7) by (simp add: llc_ok_def g)
qed

lemma llc_ok_same:
  assumes "llc_ok l" "geometry l' = geometry l" "next_node l' = next_node l" "cache_set l' = cache_set l"
    "m_mshrs l' = m_mshrs l"
  shows "llc_ok l'"
  using assms(1) unfolding llc_ok_def ways_ok_def mshr_points_def get_set_cache_set geometry_get [OF assms(2)] assms(3-5) .

lemma find_pos_Some: "find_pos P xs = Some k \<Longrightarrow> k < length xs \<and> P (xs ! k)"
  by (induction xs arbitrary: k) (auto split: if_splits)

lemma find_pos_None: "find_pos P xs = None \<longleftrightarrow> (\<forall>x\<in>set xs. \<not> P x)"
  by (induction xs) auto

lemma find_pos_unique:
  assumes "distinct (map f xs)" "k < length xs" "f (xs ! k) = v"
  shows "find_pos (\<lambda>x. f x = v) xs = Some k"
proof -
  from assms(2,3) obtain j where "find_pos (\<lambda>x. f x = v) xs = Some j"
    using find_pos_None [of "\<lambda>x. f x = v" xs] by (cases "find_pos (\<lambda>x. f x = v) xs") auto
  moreover from find_pos_Some [OF this] have "j = k"
    using nth_eq_iff_index_eq [OF assms(1), of j k] assms(2,3) by simp
  ultimately show ?thesis by simp
qed

lemma cache_set_put: "cache_set (put_set l a ways) = (cache_set l)(get_index l a := ways)"
  by (auto simp: cache_set_def put_set_def)

lemma put_set_get: "geometry (put_set l a ways) = geometry l" "m_mshrs (put_set l a ways) = m_mshrs l"
    "next_node (put_set l a ways) = next_node l"
  by (simp_all add: put_set_def geometry_def)

lemma touch_set: "cache_set (put_set l a (get_set l a)) = cache_set l"
  by (simp add: cache_set_put get_set_cache_set fun_eq_iff)

lemma touch_ok: "llc_ok l \<Longrightarrow> llc_ok (put_set l a (get_set l a))"
  by (rule llc_ok_same) (auto simp: put_set_get touch_set)

lemma llc_ok_ways: "llc_ok l \<Longrightarrow> ways_ok l (get_index l a) (get_set l a)"
  by (simp add: llc_ok_def get_set_cache_set)

lemma in_remove_at: "distinct (map f xs) \<Longrightarrow> k < length xs \<Longrightarrow> x \<in> set (remove_at k xs) \<longleftrightarrow> x \<in> set xs \<and> x \<noteq> xs ! k"
proof -
  assume d: "distinct (map f xs)" and k: "k < length xs"
  have "distinct xs" using d by (simp add: distinct_map)
  moreover have xs: "xs = take k xs @ xs ! k # drop (Suc k) xs" using k by (rule id_take_nth_drop)
  ultimately have "xs ! k \<notin> set (take k xs) \<union> set (drop (Suc k) xs)" by (metis distinct.simps(2) distinct_append not_distinct_conv_prefix Un_iff disjoint_iff list.set_intros(1))
  moreover have "set xs = set (take k xs) \<union> insert (xs ! k) (set (drop (Suc k) xs))" by (subst xs) (simp only: set_append list.set)
  ultimately show ?thesis by (auto simp: remove_at_def)
qed

lemma distinct_remove_at: "distinct (map f xs) \<Longrightarrow> distinct (map f (remove_at k xs))"
  unfolding remove_at_def map_append take_map [symmetric] drop_map [symmetric]
  by (simp add: set_take_disj_set_drop_if_distinct)

text \<open>A hit moves the line to the back of its set.\<close>

lemma serve_hit_ok:
  assumes "llc_ok l" "check_set_hit l (get_set l (addr req)) (addr req) = Some k"
  shows "llc_ok (serve_hit req k l)"
proof -
  let ?a = "addr req" and ?i = "get_index l (addr req)" and ?ways = "get_set l (addr req)"
  from assms(2) have k: "k < length ?ways" "line_tag (?ways ! k) = get_tag l ?a" "line_ready (?ways ! k)"
    by (auto simp: check_set_hit_def split: option.splits if_splits dest: find_pos_Some)
  define line where "line = \<lparr>line_addr = ?a, line_tag = get_tag l ?a,
      line_dirty = line_dirty (?ways ! k) \<or> req_type req = Write, line_ready = True, line_node = next_node l\<rparr>"
  let ?l = "serve_hit req k l" and ?new = "remove_at k ?ways @ [line]"
  have w: "ways_ok l ?i ?ways" by (rule llc_ok_ways [OF assms(1)])
  have d: "distinct (map line_tag ?ways)" "distinct (map line_node ?ways)" using w by (simp_all add: ways_ok_def)
  have l: "cache_set ?l = (cache_set l)(?i := ?new)" "geometry ?l = geometry l" "m_mshrs ?l = m_mshrs l"
    "next_node ?l = Suc (next_node l)"
    using k(1) by (auto simp: serve_hit_def Let_def line_def cache_set_def put_set_def geometry_def remove_at_def fun_eq_iff)
  note g = geometry_get [OF l(2)]
  have mem: "x \<in> set (remove_at k ?ways) \<longleftrightarrow> x \<in> set ?ways \<and> x \<noteq> ?ways ! k" for x
    by (rule in_remove_at [OF d(1) k(1)])
  have "line_tag x \<noteq> get_tag l ?a" if "x \<in> set (remove_at k ?ways)" for x
    using that k(1,2) d(1) unfolding mem by (auto simp: distinct_map inj_on_def)
  moreover have "line_node x \<noteq> next_node l" if "x \<in> set ?ways" for x using w that by (auto simp: ways_ok_def)
  ultimately have "get_tag l ?a \<notin> line_tag ` set (remove_at k ?ways)" "next_node l \<notin> line_node ` set (remove_at k ?ways)"
    by (auto simp: mem dest: sym)
  then have new: "distinct (map line_tag ?new)" "distinct (map line_node ?new)"
    using distinct_remove_at [OF d(1), of k] distinct_remove_at [OF d(2), of k] by (simp_all add: line_def)
  have len: "length ?new = length ?ways" using length_remove_at [OF k(1)] by simp
  show ?thesis
  proof (rule llc_ok_replace [OF assms(1) l(2) _ l(1)])
    show "ways_ok ?l ?i ?new"
      using w new len unfolding ways_ok_def g l(3,4) by (auto simp: mem less_Suc_eq line_def)
    show "mshr_points l e ?new" if e: "get_index l (fst e) = ?i" "e \<in> set (m_mshrs ?l)" for e
    proof -
      have "mshr_points l e ?ways" using assms(1) e by (auto simp: llc_ok_def l(3) get_set_cache_set)
      then show ?thesis using k(3) by (auto simp: mshr_points_def mem)
    qed
  qed (use assms(1) l(3,4) in \<open>auto simp: llc_ok_def\<close>)
qed

text \<open>An MSHR of a well-formed cache never dangles.\<close>

lemma node_update_ok:
  assumes "llc_ok l" "e \<in> set (m_mshrs l)"
  obtains k where "node_update f e l = Ok (put_set l (fst e) ((get_set l (fst e))[k := f (get_set l (fst e) ! k)]))"
    and "k < length (get_set l (fst e))" "line_node (get_set l (fst e) ! k) = snd e"
    and "\<not> line_ready (get_set l (fst e) ! k)" "line_tag (get_set l (fst e) ! k) = get_tag l (fst e)"
proof -
  let ?ways = "get_set l (fst e)"
  from assms obtain x where x: "x \<in> set ?ways" "line_node x = snd e" "\<not> line_ready x" "line_tag x = get_tag l (fst e)"
    by (auto simp: llc_ok_def mshr_points_def)
  then obtain k where k: "k < length ?ways" "?ways ! k = x" by (auto simp: in_set_conv_nth)
  have "distinct (map line_node ?ways)" using llc_ok_ways [OF assms(1)] by (simp add: ways_ok_def)
  then have "find_pos (\<lambda>x. line_node x = snd e) ?ways = Some k" using k x(2) by (intro find_pos_unique) auto
  then have "node_update f e l = Ok (put_set l (fst e) (?ways[k := f (?ways ! k)]))" by (simp add: node_update_def)
  then show ?thesis by (rule that) (use k x in auto)
qed

lemma map_update_same: "f y = f (xs ! k) \<Longrightarrow> map f (xs[k := y]) = map f xs"
  by (cases "k < length xs") (simp_all add: map_update list_update_same_conv list_update_beyond)

lemma join_mshr_ok:
  assumes "llc_ok l" "e \<in> set (m_mshrs l)"
  shows "\<exists>l'. join_mshr req dirty e l = Ok l' \<and> llc_ok l' \<and> geometry l' = geometry l"
proof -
  let ?a = "fst e" and ?ways = "get_set l (fst e)" and ?f = "\<lambda>x. x\<lparr>line_dirty := dirty \<or> line_dirty x\<rparr>"
  let ?waiting = "case m_receive_requests l (fst e) of Some rs \<Rightarrow> rs | None \<Rightarrow> []"
  let ?m = "l\<lparr>m_receive_requests := (m_receive_requests l)(fst e \<mapsto> ?waiting @ [req])\<rparr>"
  have m: "llc_ok ?m" "geometry ?m = geometry l" "cache_set ?m = cache_set l" "get_set ?m ?a = ?ways"
    by (auto intro: llc_ok_same [OF assms(1)] simp: geometry_def cache_set_def get_set_def get_index_def fun_eq_iff)
  obtain k where k: "node_update ?f e ?m = Ok (put_set ?m ?a (?ways[k := ?f (?ways ! k)]))" "k < length ?ways"
    "\<not> line_ready (?ways ! k)"
    by (rule node_update_ok [OF m(1), of e ?f]) (use assms(2) m(4) in auto)
  let ?l = "put_set ?m ?a (?ways[k := ?f (?ways ! k)])"
  have g: "geometry ?l = geometry l" using m(2) by (simp add: put_set_get)
  have c: "cache_set ?l = (cache_set l)(get_index l ?a := ?ways[k := ?f (?ways ! k)])"
    using m(3) by (simp add: cache_set_put geometry_get(1) [OF m(2)])
  have w: "ways_ok l (get_index l ?a) ?ways" by (rule llc_ok_ways [OF assms(1)])
  have in_ways: "\<exists>y\<in>set ?ways. line_node x = line_node y \<and> line_tag x = line_tag y \<and> line_addr x = line_addr y
      \<and> line_ready x = line_ready y" if "x \<in> set (?ways[k := ?f (?ways ! k)])" for x
    using set_update_subset_insert [of ?ways k "?f (?ways ! k)"] that k(2) by fastforce
  have "llc_ok ?l"
  proof (rule llc_ok_replace [OF assms(1) g _ c])
    show "ways_ok ?l (get_index l ?a) (?ways[k := ?f (?ways ! k)])"
      using w k(2) unfolding ways_ok_def geometry_get [OF g]
      by (auto simp: map_update_same put_set_get dest!: in_ways)
    show "mshr_points l d (?ways[k := ?f (?ways ! k)])" if d: "get_index l (fst d) = get_index l ?a" "d \<in> set (m_mshrs ?l)" for d
    proof -
      have "mshr_points l d ?ways" using assms(1) d by (auto simp: llc_ok_def put_set_get get_set_cache_set)
      then obtain j where "j < length ?ways" "line_node (?ways ! j) = snd d" "\<not> line_ready (?ways ! j)"
        "line_tag (?ways ! j) = get_tag l (fst d)" by (auto simp: mshr_points_nth)
      then show ?thesis unfolding mshr_points_nth using k(2) by (intro exI [of _ j]) (auto simp: nth_list_update)
    qed
  qed (use assms(1) in \<open>auto simp: llc_ok_def put_set_get\<close>)
  then show ?thesis using k(1) g by (simp add: join_mshr_def)
qed

text \<open>The answer of memory makes the line ready and gives the MSHR back.\<close>

lemma receive_ok:
  assumes "llc_ok l"
  shows "\<exists>l'. SimpleO3LLC_receive req l = Ok l' \<and> llc_ok l' \<and> geometry l' = geometry l"
proof (cases "check_mshr_hit l (addr req)")
  case None
  then show ?thesis using assms by (simp add: SimpleO3LLC_receive_def)
next
  case (Some j)
  let ?e = "m_mshrs l ! j"
  have j: "j < length (m_mshrs l)" using Some by (auto simp: check_mshr_hit_def dest: find_pos_Some)
  let ?a = "fst ?e" and ?ways = "get_set l (fst ?e)" and ?f = "\<lambda>x. x\<lparr>line_ready := True\<rparr>"
  obtain k where k: "node_update ?f ?e l = Ok (put_set l ?a (?ways[k := ?f (?ways ! k)]))" "k < length ?ways"
    "line_node (?ways ! k) = snd ?e" "\<not> line_ready (?ways ! k)" "line_tag (?ways ! k) = get_tag l ?a"
    by (rule node_update_ok [OF assms, of ?e ?f]) (use j in auto)
  let ?l = "put_set l ?a (?ways[k := ?f (?ways ! k)])\<lparr>m_mshrs := remove_at j (m_mshrs l)\<rparr>"
  have l: "SimpleO3LLC_receive req l = Ok ?l" using Some k(1) by (simp add: SimpleO3LLC_receive_def put_set_def)
  have g: "geometry ?l = geometry l" by (simp add: put_set_def geometry_def)
  have c: "cache_set ?l = (cache_set l)(get_index l ?a := ?ways[k := ?f (?ways ! k)])"
    by (simp add: cache_set_def put_set_def fun_eq_iff)
  have aligns: "distinct (map (\<lambda>e. line_align l (fst e)) (m_mshrs l))" using assms by (simp add: llc_ok_def)
  have mem: "e \<in> set (remove_at j (m_mshrs l)) \<longleftrightarrow> e \<in> set (m_mshrs l) \<and> e \<noteq> ?e" for e
    by (rule in_remove_at [OF aligns j])
  have w: "ways_ok l (get_index l ?a) ?ways" by (rule llc_ok_ways [OF assms])
  have tags: "distinct (map line_tag ?ways)" and nodes: "distinct (map line_node ?ways)" using w by (simp_all add: ways_ok_def)
  have other: "snd e \<noteq> snd ?e" if e: "e \<in> set (remove_at j (m_mshrs l))" "get_index l (fst e) = get_index l ?a" for e
  proof
    assume same: "snd e = snd ?e"
    have "mshr_points l e ?ways" using assms e unfolding mem by (auto simp: llc_ok_def get_set_cache_set)
    then obtain x where "x \<in> set ?ways" "line_node x = snd ?e" "line_tag x = get_tag l (fst e)"
      by (auto simp: mshr_points_def same)
    moreover from this nodes k(2,3) have "x = ?ways ! k" by (auto simp: distinct_map inj_on_def)
    ultimately have "line_align l (fst e) = line_align l ?a"
      using e(2) k(5) index_tag_align [of l "fst e" ?a] assms by (simp add: llc_ok_def)
    moreover have "inj_on (\<lambda>e. line_align l (fst e)) (set (m_mshrs l))" using aligns by (simp add: distinct_map)
    ultimately have "e = ?e" using e(1) j unfolding mem by (auto dest: inj_onD)
    then show False using e(1) unfolding mem by blast
  qed
  have "llc_ok ?l"
  proof (rule llc_ok_replace [OF assms g _ c])
    show "ways_ok ?l (get_index l ?a) (?ways[k := ?f (?ways ! k)])"
      unfolding ways_ok_def geometry_get [OF g]
    proof (intro conjI ballI impI)
      show "distinct (map line_tag (?ways[k := ?f (?ways ! k)]))" "distinct (map line_node (?ways[k := ?f (?ways ! k)]))"
        using tags nodes by (simp_all add: map_update_same)
      show "int (length (?ways[k := ?f (?ways ! k)])) \<le> m_associativity l" using w by (simp add: ways_ok_def)
      fix x assume "x \<in> set (?ways[k := ?f (?ways ! k)])"
      then obtain i where i: "i < length ?ways" "x = ?ways[k := ?f (?ways ! k)] ! i" by (auto simp: in_set_conv_nth)
      then have y: "?ways ! i \<in> set ?ways" "line_node x = line_node (?ways ! i)" "line_tag x = line_tag (?ways ! i)"
        "line_addr x = line_addr (?ways ! i)" "line_ready x \<longleftrightarrow> i = k \<or> line_ready (?ways ! i)"
        using k(2) by (auto simp: nth_list_update)
      show "line_node x < next_node ?l" "line_tag x = get_tag l (line_addr x)" "get_index l (line_addr x) = get_index l ?a"
        using w y by (auto simp: ways_ok_def put_set_def)
      assume n: "\<not> line_ready x"
      then obtain b where b: "(b, line_node (?ways ! i)) \<in> set (m_mshrs l)" "get_index l b = get_index l ?a"
        using w y by (auto simp: ways_ok_def)
      moreover have "(b, line_node (?ways ! i)) \<noteq> ?e"
        using n y(5) k(2,3) i(1) nodes nth_eq_iff_index_eq [OF nodes, of i k] by (auto dest: arg_cong [where f = snd])
      ultimately show "\<exists>b. (b, line_node x) \<in> set (m_mshrs ?l) \<and> get_index l b = get_index l ?a"
        using y(2) by (auto simp: mem put_set_def)
    qed
    show "mshr_points l e (?ways[k := ?f (?ways ! k)])"
      if e: "get_index l (fst e) = get_index l ?a" "e \<in> set (m_mshrs ?l)" for e
    proof -
      have r: "e \<in> set (remove_at j (m_mshrs l))" using e(2) by (simp add: put_set_def)
      then have "mshr_points l e ?ways" using assms e(1) unfolding mem by (auto simp: llc_ok_def get_set_cache_set)
      then obtain i where i: "i < length ?ways" "line_node (?ways ! i) = snd e" "\<not> line_ready (?ways ! i)"
        "line_tag (?ways ! i) = get_tag l (fst e)" by (auto simp: mshr_points_nth)
      moreover have "i \<noteq> k" using other [OF r e(1)] i(2) k(3) by auto
      ultimately show ?thesis unfolding mshr_points_nth by (intro exI [of _ i]) auto
    qed
  qed (use assms j length_remove_at [OF j] distinct_remove_at [OF aligns, of j] in \<open>auto simp: llc_ok_def put_set_def mem\<close>)
  then show ?thesis using l g by blast
qed

text \<open>A miss for which there is room: a ready line is evicted when the set is full, and the new line
  is not ready.\<close>

lemma no_line_with_tag:
  assumes "llc_ok l" "check_set_hit l (get_set l a) a = None" "check_mshr_hit l a = None" "x \<in> set (get_set l a)"
  shows "line_tag x \<noteq> get_tag l a"
proof
  assume t: "line_tag x = get_tag l a"
  have w: "ways_ok l (get_index l a) (get_set l a)" by (rule llc_ok_ways [OF assms(1)])
  obtain j where j: "j < length (get_set l a)" "get_set l a ! j = x" using assms(4) by (auto simp: in_set_conv_nth)
  have "find_pos (\<lambda>x. line_tag x = get_tag l a) (get_set l a) = Some j"
    using w j t by (intro find_pos_unique) (auto simp: ways_ok_def)
  then have "\<not> line_ready x" using assms(2) j by (auto simp: check_set_hit_def split: if_splits)
  then obtain b where b: "(b, line_node x) \<in> set (m_mshrs l)" "get_index l b = get_index l a"
    using w assms(4) by (auto simp: ways_ok_def)
  have "mshr_points l (b, line_node x) (get_set l a)"
    using assms(1) b by (auto simp: llc_ok_def get_set_cache_set)
  then obtain y where y: "y \<in> set (get_set l a)" "line_node y = line_node x" "line_tag y = get_tag l b"
    by (auto simp: mshr_points_def)
  moreover have "distinct (map line_node (get_set l a))" using w by (simp add: ways_ok_def)
  ultimately have "y = x" using assms(4) by (auto simp: distinct_map dest: inj_onD)
  then have "line_align l b = line_align l a"
    using y(3) t b(2) index_tag_align [of l b a] assms(1) by (simp add: llc_ok_def)
  then show False using assms(3) b(1) by (auto simp: check_mshr_hit_def find_pos_None)
qed

lemma allocate_line_ok:
  assumes "llc_ok l" "check_set_hit l (get_set l a) a = None" "check_mshr_hit l a = None"
    and "line_available l (get_set l a)"
  obtains l' ways where "allocate_line l (get_set l a) a = Some (l', ways @ [new_line l a])"
    and "distinct (map line_tag ways)" "distinct (map line_node ways)" "int (length ways) < m_associativity l"
    and "\<And>x. x \<in> set ways \<Longrightarrow> x \<in> set (get_set l a)"
    and "\<And>x. x \<in> set (get_set l a) \<Longrightarrow> \<not> line_ready x \<Longrightarrow> x \<in> set ways"
    and "geometry l' = geometry l" "m_mshrs l' = m_mshrs l" "m_cache_sets l' = m_cache_sets l"
    "next_node l' = Suc (next_node l)"
    "m_receive_requests l' = m_receive_requests l" "m_hit_list l' = m_hit_list l"
proof -
  let ?ways = "get_set l a"
  have w: "ways_ok l (get_index l a) ?ways" by (rule llc_ok_ways [OF assms(1)])
  have none: "find_pos (\<lambda>x. get_tag l a = line_tag x) ?ways = None"
    unfolding find_pos_None by (metis no_line_with_tag [OF assms(1-3)])
  have assoc: "to_unsigned 64 (m_associativity l) = m_associativity l"
    using assms(1) by (auto simp: llc_ok_def llc_shape_def to_unsigned_def)
  show ?thesis
  proof (cases "int (length ?ways) < m_associativity l")
    case True
    then have "allocate_line l ?ways a = Some (l\<lparr>next_node := next_node l + 1\<rparr>, ?ways @ [new_line l a])"
      by (simp add: allocate_line_def need_eviction_def none assoc)
    then show ?thesis by (rule that) (use w True in \<open>auto simp: ways_ok_def geometry_def\<close>)
  next
    case False
    then have "\<exists>x\<in>set ?ways. line_ready x" using assms(4) by (simp add: line_available_def assoc)
    then obtain v where v: "find_pos line_ready ?ways = Some v"
      using find_pos_None [of line_ready ?ways] by (cases "find_pos line_ready ?ways") auto
    note v' = find_pos_Some [OF v]
    obtain l1 where e: "evict_line l ?ways v = (l1, remove_at v ?ways)" "next_node l1 = next_node l"
        "new_line l1 a = new_line l a" and l1: "geometry l1 = geometry l" "m_mshrs l1 = m_mshrs l"
        "m_cache_sets l1 = m_cache_sets l" "m_receive_requests l1 = m_receive_requests l" "m_hit_list l1 = m_hit_list l"
      by (simp add: evict_line_def Let_def new_line_def get_tag_def geometry_def)
    have "allocate_line l ?ways a = Some (l1\<lparr>next_node := next_node l1 + 1\<rparr>, remove_at v ?ways @ [new_line l a])"
      using v False by (simp add: allocate_line_def need_eviction_def none assoc e)
    then show ?thesis
    proof (rule that)
      show "distinct (map line_tag (remove_at v ?ways))" "distinct (map line_node (remove_at v ?ways))"
        using w by (auto simp: ways_ok_def intro: distinct_remove_at)
      show "int (length (remove_at v ?ways)) < m_associativity l"
        using w v' length_remove_at [of v ?ways] by (simp add: ways_ok_def)
      have d: "distinct (map line_node ?ways)" using w by (simp add: ways_ok_def)
      show "x \<in> set (remove_at v ?ways) \<Longrightarrow> x \<in> set ?ways"
        "x \<in> set ?ways \<Longrightarrow> \<not> line_ready x \<Longrightarrow> x \<in> set (remove_at v ?ways)" for x
        using in_remove_at [OF d, of v x] v' by auto
    qed (use l1 e in \<open>auto simp: geometry_def\<close>)
  qed
qed

lemma serve_miss_ok:
  assumes "llc_ok l" "check_set_hit l (get_set l (addr req)) (addr req) = None" "check_mshr_hit l (addr req) = None"
  shows "\<exists>b l'. serve_miss req dirty l = Ok (b, l') \<and> llc_ok l' \<and> geometry l' = geometry l"
proof -
  let ?a = "addr req"
  have num: "to_unsigned 64 (m_num_mshrs l) = m_num_mshrs l"
    using assms(1) by (auto simp: llc_ok_def llc_shape_def to_unsigned_def)
  consider "int (length (m_mshrs l)) = m_num_mshrs l" | "\<not> line_available l (get_set l ?a)" "int (length (m_mshrs l)) \<noteq> m_num_mshrs l"
    | "int (length (m_mshrs l)) \<noteq> m_num_mshrs l" "line_available l (get_set l ?a)" by blast
  then show ?thesis
  proof cases
    case 1
    let ?l = "l\<lparr>s_llc_mshr_unavailable := s_llc_mshr_unavailable l + 1\<rparr>"
    have g: "geometry ?l = geometry l" by (simp add: geometry_def)
    have "llc_ok ?l" by (rule llc_ok_same [OF assms(1) g]) (auto simp: cache_set_def)
    then show ?thesis using 1 g by (auto simp: serve_miss_def num)
  next
    case 2
    then show ?thesis using assms(1) by (auto simp: serve_miss_def num)
  next
    case 3
    obtain l1 ways where a: "allocate_line l (get_set l ?a) ?a = Some (l1, ways @ [new_line l ?a])"
      and d: "distinct (map line_tag ways)" "distinct (map line_node ways)" "int (length ways) < m_associativity l"
      and sub: "\<And>x. x \<in> set ways \<Longrightarrow> x \<in> set (get_set l ?a)"
      and keep: "\<And>x. x \<in> set (get_set l ?a) \<Longrightarrow> \<not> line_ready x \<Longrightarrow> x \<in> set ways"
      and l1: "geometry l1 = geometry l" "m_mshrs l1 = m_mshrs l" "m_cache_sets l1 = m_cache_sets l"
        "next_node l1 = Suc (next_node l)"
      by (rule allocate_line_ok [OF assms 3(2)]) blast
    let ?line = "new_line l ?a\<lparr>line_dirty := dirty\<rparr>"
    let ?new = "ways @ [?line]"
    let ?l = "(put_set l1 ?a ?new)\<lparr>m_mshrs := m_mshrs l @ [(?a, next_node l)],
        m_receive_requests := (m_receive_requests l1)(?a \<mapsto> [req]),
        m_miss_list := m_miss_list l1 @ [(llc_clk l1 + m_latency l1, req)]\<rparr>"
    have r: "serve_miss req dirty l = Ok (True, ?l)"
      using 3 by (simp add: serve_miss_def num a l1(2) put_set_def new_line_def nth_append)
    note g1 = geometry_get [OF l1(1)]
    have g: "geometry ?l = geometry l" using l1(1) by (simp add: put_set_def geometry_def)
    have c: "cache_set ?l = (cache_set l)(get_index l ?a := ?new)"
      by (simp add: cache_set_def put_set_def l1(3) g1(1) fun_eq_iff)
    have w: "ways_ok l (get_index l ?a) (get_set l ?a)" by (rule llc_ok_ways [OF assms(1)])
    have fresh: "line_node x < next_node l" "line_node x \<noteq> next_node l" if "x \<in> set ways" for x using w sub [OF that] by (auto simp: ways_ok_def)
    have tag: "line_tag x \<noteq> get_tag l ?a" if "x \<in> set ways" for x
      by (rule no_line_with_tag [OF assms sub [OF that]])
    have "llc_ok ?l"
    proof (rule llc_ok_replace [OF assms(1) g _ c])
      have "get_tag l ?a \<notin> line_tag ` set ways" "next_node l \<notin> line_node ` set ways"
        using tag fresh(2) by (auto dest: sym)
      then have "distinct (map line_tag ?new)" "distinct (map line_node ?new)"
        using d by (simp_all add: new_line_def)
      then show "ways_ok ?l (get_index l ?a) ?new"
        using w d(3) sub fresh unfolding ways_ok_def geometry_get [OF g]
        by (auto simp: new_line_def put_set_def l1(4) less_Suc_eq)
      show "mshr_points l e ?new" if e: "get_index l (fst e) = get_index l ?a" "e \<in> set (m_mshrs ?l)" for e
      proof (cases "e = (?a, next_node l)")
        case True
        then show ?thesis by (simp add: mshr_points_def new_line_def)
      next
        case False
        then have "mshr_points l e (get_set l ?a)" using assms(1) e by (auto simp: llc_ok_def get_set_cache_set)
        then show ?thesis using keep by (auto simp: mshr_points_def)
      qed
      show "int (length (m_mshrs ?l)) \<le> m_num_mshrs l" using assms(1) 3(1) by (auto simp: llc_ok_def)
      show "distinct (map (\<lambda>e. line_align l (fst e)) (m_mshrs ?l))"
        using assms(1,3) by (auto simp: llc_ok_def check_mshr_hit_def find_pos_None)
    qed (auto simp: put_set_def l1(4))
    then show ?thesis using r g by blast
  qed
qed

lemma count_ok: "llc_ok l \<Longrightarrow> llc_ok (count_access req l)" "llc_ok l \<Longrightarrow> llc_ok (count_miss req l)"
  by (rule llc_ok_same, assumption, auto simp: count_access_def count_miss_def geometry_def cache_set_def)+

lemma count_geometry: "geometry (count_access req l) = geometry l" "geometry (count_miss req l) = geometry l"
    "m_cache_sets (count_miss req l) = m_cache_sets l" "m_mshrs (count_miss req l) = m_mshrs l"
  by (auto simp: count_access_def count_miss_def geometry_def)

lemma addr_as_read [simp]: "addr (as_read req) = addr req" "source_id (as_read req) = source_id req"
  by (simp_all add: as_read_def)

lemma send_ok:
  assumes "llc_ok l0"
  shows "\<exists>b l'. SimpleO3LLC_send req l0 = Ok (b, l') \<and> llc_ok l' \<and> geometry l' = geometry l0"
proof -
  let ?a = "addr req"
  let ?l = "count_access req (put_set l0 ?a (get_set l0 ?a))"
  have l: "llc_ok ?l" "geometry ?l = geometry l0"
    using assms by (simp_all add: count_ok touch_ok count_geometry put_set_get)
  show ?thesis
  proof (cases "check_set_hit ?l (get_set ?l ?a) ?a")
    case (Some k)
    have "geometry (serve_hit req k ?l) = geometry ?l" by (simp add: serve_hit_def Let_def put_set_def geometry_def)
    then show ?thesis using Some serve_hit_ok [OF l(1) Some] l(2) by (auto simp: SimpleO3LLC_send_def Let_def)
  next
    case None
    let ?m = "count_miss req ?l"
    have m: "llc_ok ?m" "geometry ?m = geometry l0" using l by (simp_all add: count_ok count_geometry)
    have same: "get_set ?m = get_set ?l" "check_set_hit ?m = check_set_hit ?l"
      by (auto simp: count_miss_def get_set_def check_set_hit_def get_index_def get_tag_def fun_eq_iff)
    show ?thesis
    proof (cases "check_mshr_hit ?m ?a")
      case (Some k)
      then have "m_mshrs ?m ! k \<in> set (m_mshrs ?m)" by (auto simp: check_mshr_hit_def dest: find_pos_Some)
      from join_mshr_ok [OF m(1) this, of "as_read req" "req_type req = Write"] show ?thesis
        using None Some m(2) by (auto simp: SimpleO3LLC_send_def Let_def)
    next
      case none: None
      have "check_set_hit ?m (get_set ?m (addr (as_read req))) (addr (as_read req)) = None"
        "check_mshr_hit ?m (addr (as_read req)) = None"
        using None none by (simp_all add: same)
      from serve_miss_ok [OF m(1) this, of "req_type req = Write"] show ?thesis
        using None none m(2) by (auto simp: SimpleO3LLC_send_def Let_def)
    qed
  qed
qed

subsection \<open>The requests that wait\<close>

definition requests_ok :: "(request \<Rightarrow> bool) \<Rightarrow> llc \<Rightarrow> bool" where
  "requests_ok P l \<longleftrightarrow> (\<forall>a rs. m_receive_requests l a = Some rs \<longrightarrow> (\<forall>r\<in>set rs. P r))
     \<and> (\<forall>(_, r)\<in>set (m_hit_list l). P r)"

lemma node_update_requests: "node_update f e l = Ok l' \<Longrightarrow> requests_ok P l' = requests_ok P l"
  by (auto simp: node_update_def put_set_def requests_ok_def split: option.splits)

lemma allocate_line_requests:
  "allocate_line l ways a = Some (l', ways') \<Longrightarrow> m_receive_requests l' = m_receive_requests l \<and> m_hit_list l' = m_hit_list l"
  by (auto simp: allocate_line_def evict_line_def Let_def split: if_splits option.splits)

lemma send_requests:
  assumes "SimpleO3LLC_send req l0 = Ok (b, l')" "requests_ok P l0" "P req" "P (as_read req)"
  shows "requests_ok P l'"
proof -
  let ?l = "count_access req (put_set l0 (addr req) (get_set l0 (addr req)))"
  have l: "requests_ok P ?l" using assms(2) by (auto simp: requests_ok_def count_access_def put_set_def)
  show ?thesis
  proof (cases "check_set_hit ?l (get_set ?l (addr req)) (addr req)")
    case (Some k)
    then have "l' = serve_hit req k ?l" using assms(1) by (simp add: SimpleO3LLC_send_def Let_def)
    then show ?thesis using l assms(3) by (auto simp: serve_hit_def Let_def requests_ok_def put_set_def)
  next
    case None
    let ?m = "count_miss req ?l" and ?r = "as_read req"
    have m: "requests_ok P ?m" using l by (auto simp: requests_ok_def count_miss_def)
    show ?thesis
    proof (cases "check_mshr_hit ?m (addr req)")
      case (Some k)
      then have j: "join_mshr ?r (req_type req = Write) (m_mshrs ?m ! k) ?m = Ok l'"
        using assms(1) None by (auto simp: SimpleO3LLC_send_def Let_def result_simps)
      define w where "w = (case m_receive_requests ?m (fst (m_mshrs ?m ! k)) of Some rs \<Rightarrow> rs | None \<Rightarrow> [])"
      have "\<forall>r\<in>set w. P r" using m
        by (cases "m_receive_requests ?m (fst (m_mshrs ?m ! k))") (auto simp: w_def requests_ok_def)
      then have "requests_ok P (?m\<lparr>m_receive_requests := (m_receive_requests ?m)(fst (m_mshrs ?m ! k) \<mapsto> w @ [?r])\<rparr>)"
        using m assms(4) by (simp add: requests_ok_def)
      then show ?thesis using j unfolding join_mshr_def Let_def w_def [symmetric] by (simp add: node_update_requests)
    next
      case none: None
      then have s: "serve_miss ?r (req_type req = Write) ?m = Ok (b, l')"
        using assms(1) None by (simp add: SimpleO3LLC_send_def Let_def)
      show ?thesis
      proof (cases "allocate_line ?m (get_set ?m (addr ?r)) (addr ?r)")
        case None
        then show ?thesis using s m by (auto simp: serve_miss_def Let_def requests_ok_def split: if_splits)
      next
        case (Some q)
        obtain l1 ways where q: "q = (l1, ways)" by (cases q)
        from allocate_line_requests [OF Some [unfolded q]] m
        have "requests_ok P l1" by (simp add: requests_ok_def)
        then show ?thesis using s m Some q assms(4)
          by (auto simp: serve_miss_def Let_def requests_ok_def put_set_def split: if_splits)
      qed
    qed
  qed
qed

lemma receive_requests:
  "SimpleO3LLC_receive req l = Ok l' \<Longrightarrow> requests_ok P l' = requests_ok P l"
  by (auto simp: SimpleO3LLC_receive_def result_simps requests_ok_def dest!: node_update_requests [of _ _ _ _ P]
      split: option.splits)

end
