(* ===== verification/Simple_O3.thy ===== *)
theory Simple_O3
  imports LLC Translation
begin

text \<open>
  The SimpleO3 front end, \<^verbatim>\<open>src/src/frontend/impl/processor/simpleO3/simpleO3.cpp\<close>: its cores share
  one cache, which is in front of the memory system. The translation is a parameter, as is the
  memory system; the callback of every request of a core is \<open>SimpleO3::receive\<close>.
\<close>

subsection \<open>State\<close>

record 't simple_o3 =
  so_clk :: int
  so_clock_ratio :: int
  m_num_cores :: int
  m_cores :: "o3_core list"
  m_llc :: llc
  m_translation :: 't

record o3_config =
  cfg_clock_ratio :: "int option"
  cfg_traces :: "string list option"
  cfg_ipc :: "int option"
  cfg_inst_window_depth :: "int option"
  cfg_llc_latency :: "int option"
  cfg_llc_linesize :: "int option"
  cfg_llc_associativity :: "int option"
  cfg_llc_capacity_per_core :: "string option"
  cfg_llc_num_mshr_per_core :: "int option"
  cfg_num_expected_insts :: "int option"

definition default_val :: "'a \<Rightarrow> 'a option \<Rightarrow> 'a" where
  "default_val d x = (case x of Some v \<Rightarrow> v | None \<Rightarrow> d)"

text \<open>A product of two \<open>int\<close>s that does not fit is undefined.\<close>

definition int_times :: "int \<Rightarrow> int \<Rightarrow> int result" where
  "int_times a b = (if to_signed 32 (a * b) = a * b then Ok (a * b) else Err (Undefined ''signed overflow''))"

fun new_cores :: "(int \<Rightarrow> string \<Rightarrow> o3_core result) \<Rightarrow> int \<Rightarrow> string list \<Rightarrow> o3_core list result" where
  "new_cores new k [] = Ok []"
| "new_cores new k (path # paths) =
     andThen (new k path) (\<lambda>c. andThen (new_cores new (k + 1) paths) (\<lambda>cs. Ok (c # cs)))"

definition SimpleO3_init ::
  "(string \<Rightarrow> string option option) \<Rightarrow> callback \<Rightarrow> (int \<Rightarrow> 't result) \<Rightarrow> o3_config \<Rightarrow> 't simple_o3 result" where
  "SimpleO3_init files cb create_translation cfg =
     (case (cfg_clock_ratio cfg, cfg_traces cfg, cfg_num_expected_insts cfg) of
        (Some ratio, Some traces, Some num_expected) \<Rightarrow>
          (let num_cores = int (length traces); ipc = default_val 4 (cfg_ipc cfg);
               depth = default_val 128 (cfg_inst_window_depth cfg) in
           andThen (parse_capacity_str (default_val ''2MB'' (cfg_llc_capacity_per_core cfg))) (\<lambda>capacity.
           andThen (create_translation num_cores) (\<lambda>t.
           andThen (int_times (to_signed 32 capacity) num_cores) (\<lambda>size.
           andThen (int_times (default_val 16 (cfg_llc_num_mshr_per_core cfg)) num_cores) (\<lambda>mshrs.
           andThen (SimpleO3LLC_new (default_val 47 (cfg_llc_latency cfg)) size
               (default_val 64 (cfg_llc_linesize cfg)) (default_val 8 (cfg_llc_associativity cfg)) mshrs) (\<lambda>l.
           andThen (new_cores (\<lambda>k path. SimpleO3Core_new files cb k ipc depth (to_unsigned 64 num_expected) path) 0 traces) (\<lambda>cs.
             Ok \<lparr>so_clk = 0, so_clock_ratio = ratio, m_num_cores = num_cores, m_cores = cs, m_llc = l,
                 m_translation = t\<rparr>)))))))
      | _ \<Rightarrow> Err (Configuration_error ''Param is required but not given''))"

subsection \<open>Cycles and answers\<close>

text \<open>\<open>receive\<close>: the cache first, then every core that waits for the address of the request.\<close>

definition notify_core :: "request \<Rightarrow> request \<Rightarrow> o3_core list \<Rightarrow> o3_core list result" where
  "notify_core req r cs =
     andThen (vec_at cs (source_id r)) (\<lambda>c.
     andThen (SimpleO3Core_receive (r\<lparr>arrive := arrive req, depart := depart req\<rparr>) c) (\<lambda>c.
       Ok (cs[nat (source_id r) := c])))"

definition SimpleO3_receive :: "request \<Rightarrow> llc \<times> o3_core list \<Rightarrow> (llc \<times> o3_core list) result" where
  "SimpleO3_receive req = (\<lambda>(l, cs).
     andThen (SimpleO3LLC_receive req l) (\<lambda>l.
       let waiting = (case m_receive_requests l (addr req) of Some rs \<Rightarrow> rs | None \<Rightarrow> []) in
       andThen (fold_result (notify_core req) waiting cs) (\<lambda>cs.
         Ok (l\<lparr>m_receive_requests := (m_receive_requests l)(addr req \<mapsto> [])\<rparr>, cs))))"

text \<open>What a core is given as its translation and its cache.\<close>

definition core_translate ::
  "(request \<Rightarrow> 't \<Rightarrow> (bool \<times> request \<times> 't) result) \<Rightarrow> request \<Rightarrow> llc \<times> 't \<Rightarrow> (bool \<times> request \<times> llc \<times> 't) result" where
  "core_translate translate r = (\<lambda>(l, t). andThen (translate r t) (\<lambda>(ok, r, t). Ok (ok, r, l, t)))"

definition core_send :: "request \<Rightarrow> llc \<times> 't \<Rightarrow> (bool \<times> llc \<times> 't) result" where
  "core_send r = (\<lambda>(l, t). andThen (SimpleO3LLC_send r l) (\<lambda>(ok, l). Ok (ok, l, t)))"

fun tick_cores ::
  "(request \<Rightarrow> 't \<Rightarrow> (bool \<times> request \<times> 't) result) \<Rightarrow> o3_core list \<Rightarrow> llc \<times> 't \<Rightarrow> (o3_core list \<times> llc \<times> 't) result" where
  "tick_cores translate [] e = Ok ([], e)"
| "tick_cores translate (c # cs) e =
     andThen (SimpleO3Core_tick (core_translate translate) core_send c e) (\<lambda>(c, e).
     andThen (tick_cores translate cs e) (\<lambda>(cs, e). Ok (c # cs, e)))"

definition SimpleO3_tick ::
  "(request \<Rightarrow> 't \<Rightarrow> (bool \<times> request \<times> 't) result) \<Rightarrow> (request \<Rightarrow> 'm \<Rightarrow> (bool \<times> 'm) result) \<Rightarrow>
   't simple_o3 \<times> 'm \<Rightarrow> ('t simple_o3 \<times> 'm) result" where
  "SimpleO3_tick translate send = (\<lambda>(s, m).
     andThen (SimpleO3LLC_tick send SimpleO3_receive (m_llc s, m_cores s, m)) (\<lambda>(l, cs, m).
     andThen (tick_cores translate cs (l, m_translation s)) (\<lambda>(cs, l, t).
       Ok (s\<lparr>so_clk := so_clk s + 1, m_cores := cs, m_llc := l, m_translation := t\<rparr>, m))))"

definition SimpleO3_is_finished :: "'t simple_o3 \<Rightarrow> bool" where
  "SimpleO3_is_finished s \<longleftrightarrow> (\<forall>c\<in>set (m_cores s). reached_expected_num_insts c)"

definition SimpleO3_get_num_cores :: "'t simple_o3 \<Rightarrow> int" where
  "SimpleO3_get_num_cores s = m_num_cores s"

subsection \<open>Nothing in the front end fails\<close>

lemma core_retire_total: "core_ok n c \<Longrightarrow> \<exists>c'. core_retire c = Ok c' \<and> m_id c' = m_id c"
  using retire_queue [of "m_window c"] by (auto simp: core_ok_def core_retire_def Let_def)

lemma issue_bubbles_total:
  "core_ok n c \<Longrightarrow> \<exists>continues m' c'. issue_bubbles m c = Ok (continues, m', c') \<and> m_id c' = m_id c"
proof (induction m c rule: issue_bubbles.induct)
  case (1 m c)
  show ?case
  proof (cases "0 < m_num_bubbles c \<and> \<not> (m = m_ipc (m_window c) \<or> is_full (m_window c))")
    case False
    then show ?thesis by (subst issue_bubbles.simps) auto
  next
    case True
    with "1.prems" window_insert_queue [of "m_window c" True "-1"] obtain w where
      w: "window_insert True (-1) (m_window c) = Ok w" "window_ok w" "m_load w = m_load (m_window c) + 1"
      by (auto simp: core_ok_def)
    let ?c = "c\<lparr>m_window := w, m_num_bubbles := m_num_bubbles c - 1\<rparr>"
    have "core_ok n ?c" using "1.prems" w True by (auto simp: core_ok_def core_total_def pending_insts_def)
    with "1.IH" True w(1) obtain k m' c' where "issue_bubbles (m + 1) ?c = Ok (k, m', c')" "m_id c' = m_id ?c" by blast
    then show ?thesis using True w(1) by (subst issue_bubbles.simps) simp
  qed
qed

text \<open>The environment of a core answers, and keeps an invariant \<open>I\<close>, when the requests come from the core.\<close>

definition answers ::
  "('e \<Rightarrow> bool) \<Rightarrow> int \<Rightarrow> (request \<Rightarrow> 'e \<Rightarrow> (bool \<times> request \<times> 'e) result) \<Rightarrow> (request \<Rightarrow> 'e \<Rightarrow> (bool \<times> 'e) result) \<Rightarrow> bool" where
  "answers I k translate send \<longleftrightarrow>
     (\<forall>r e. I e \<longrightarrow> (\<exists>b r' e'. translate r e = Ok (b, r', e') \<and> I e' \<and> source_id r' = source_id r))
     \<and> (\<forall>r e. I e \<longrightarrow> source_id r = k \<longrightarrow> (\<exists>b e'. send r e = Ok (b, e') \<and> I e'))"

lemma source_of_core [simp]: "source_id (Request_source a t k cb) = k"
  by (simp add: Request_source_def)

lemma send_load_total:
  assumes "core_ok n c" "answers I (m_id c) translate send" "I e"
  shows "\<exists>k c' e'. send_load translate send m c e = Ok (k, c', e') \<and> I e' \<and> m_id c' = m_id c"
proof (cases "m_load_addr c = -1 \<or> m = m_ipc (m_window c) \<or> is_full (m_window c)")
  case True
  then show ?thesis using assms(3) by (auto simp: send_load_def)
next
  case False
  let ?r = "Request_source (m_load_addr c) (id_of_type Read) (m_id c) (m_callback c)"
  from assms(2,3) obtain b r e1 where t: "translate ?r e = Ok (b, r, e1)" "I e1" "source_id r = source_id ?r"
    unfolding answers_def by blast
  then have "source_id r = m_id c" by simp
  with assms(2) t(2) obtain b2 e2 where s: "send r e1 = Ok (b2, e2)" "I e2" unfolding answers_def by blast
  from window_insert_queue [of "m_window c" False "addr r"] False assms(1)
  obtain w where "window_insert False (addr r) (m_window c) = Ok w" by (auto simp: core_ok_def)
  then show ?thesis using False t(1,2) s by (cases b; cases b2) (simp_all add: send_load_def ex_bool_eq)
qed

lemma send_writeback_total:
  assumes "answers I (m_id c) translate send" "I e"
  shows "\<exists>k e'. send_writeback translate send c e = Ok (k, e') \<and> I e'"
proof (cases "m_writeback_addr c = -1")
  case True
  then show ?thesis using assms(2) by (simp add: send_writeback_def ex_bool_eq)
next
  case False
  let ?r = "Request_source (m_writeback_addr c) (id_of_type Write) (m_id c) (m_callback c)"
  from assms obtain b r e1 where t: "translate ?r e = Ok (b, r, e1)" "I e1" "source_id r = source_id ?r"
    unfolding answers_def by blast
  then have "source_id r = m_id c" by simp
  with assms(1) t(2) obtain b2 e2 where s: "send r e1 = Ok (b2, e2)" "I e2" unfolding answers_def by blast
  show ?thesis using False t(1,2) s by (cases b) (simp_all add: send_writeback_def ex_bool_eq)
qed

lemma fetch_total: "core_ok n c \<Longrightarrow> \<exists>c'. fetch c = Ok c' \<and> m_id c' = m_id c"
  by (auto simp: fetch_def get_next_inst_def vec_at_in core_ok_def)

lemma core_tick_total:
  assumes "core_ok n c" "answers I (m_id c) translate send" "I e" "0 \<le> o3_clk c"
  shows "\<exists>c' e'. SimpleO3Core_tick translate send c e = Ok (c', e') \<and> I e' \<and> m_id c' = m_id c"
proof -
  obtain c1 where r: "core_retire c = Ok c1" "m_id c1 = m_id c" using core_retire_total [OF assms(1)] by blast
  have ok1: "core_ok n c1" using core_retire_spec [OF r(1) assms(1,4)] by blast
  obtain k m c2 where i: "issue_bubbles 0 c1 = Ok (k, m, c2)" "m_id c2 = m_id c1" using issue_bubbles_total [OF ok1] by blast
  note s2 = issue_bubbles_spec [OF i(1) ok1]
  show ?thesis
  proof (cases k)
    case False
    then show ?thesis using assms(3) r i by (simp add: SimpleO3Core_tick_def)
  next
    case True
    from send_load_total [of n c2 I translate send e m] s2 assms(2,3) r(2) i(2) obtain k3 c3 e3 where
      l: "send_load translate send m c2 e = Ok (k3, c3, e3)" "I e3" "m_id c3 = m_id c2" by auto
    note s3 = send_load_spec [OF l(1) conjunct1 [OF s2]]
    show ?thesis
    proof (cases k3)
      case False
      then show ?thesis using True r i l by (simp add: SimpleO3Core_tick_def)
    next
      case k3: True
      from send_writeback_total [of I c3 translate send e3] l(2,3) assms(2) r(2) i(2) obtain k4 e4 where
        w: "send_writeback translate send c3 e3 = Ok (k4, e4)" "I e4" by auto
      obtain c5 where f: "fetch c3 = Ok c5" "m_id c5 = m_id c3" using fetch_total [OF conjunct1 [OF s3]] by blast
      show ?thesis using True k3 r i l w f by (cases k4) (simp_all add: SimpleO3Core_tick_def)
    qed
  qed
qed

lemma core_receive_total: "core_ok n c \<Longrightarrow> \<exists>c'. SimpleO3Core_receive req c = Ok c' \<and> m_id c' = m_id c"
  using set_ready_queue [of "m_window c" "addr req"]
  by (auto simp: core_ok_def SimpleO3Core_receive_def Let_def)

subsection \<open>The invariant of the front end\<close>

definition core_at :: "o3_core \<Rightarrow> nat \<Rightarrow> o3_core \<Rightarrow> bool" where
  "core_at c0 k c \<longleftrightarrow> (\<exists>n\<ge>1. core_ok n c) \<and> m_id c = int k \<and> 0 \<le> o3_clk c
     \<and> m_num_expected_insts c = m_num_expected_insts c0 \<and> o3_insts (o3_trace c) = o3_insts (o3_trace c0)
     \<and> m_depth (m_window c) = m_depth (m_window c0)"

fun cores_from :: "nat \<Rightarrow> o3_core list \<Rightarrow> o3_core list \<Rightarrow> bool" where
  "cores_from k [] [] = True"
| "cores_from k (c0 # cs0) (c # cs) = (core_at c0 k c \<and> cores_from (Suc k) cs0 cs)"
| "cores_from k _ _ = False"

lemma cores_from_nth:
  "cores_from k cs0 cs \<longleftrightarrow> length cs = length cs0 \<and> (\<forall>j<length cs0. core_at (cs0 ! j) (k + j) (cs ! j))"
  by (induction k cs0 cs rule: cores_from.induct) (auto simp: All_less_Suc2)

definition from_core :: "nat \<Rightarrow> request \<Rightarrow> bool" where
  "from_core n r \<longleftrightarrow> 0 \<le> source_id r \<and> source_id r < int n"

definition cache_ok :: "nat \<Rightarrow> llc \<Rightarrow> bool" where
  "cache_ok n l \<longleftrightarrow> llc_ok l \<and> requests_ok (from_core n) l"

lemma core_at_receive:
  assumes "core_at c0 k c"
  shows "\<exists>c'. SimpleO3Core_receive req c = Ok c' \<and> core_at c0 k c'"
proof -
  from assms obtain n where n: "1 \<le> n" "core_ok n c" by (auto simp: core_at_def)
  from core_receive_total [OF n(2), of req] obtain c' where c: "SimpleO3Core_receive req c = Ok c'" "m_id c' = m_id c" by blast
  from core_receive_spec [OF c(1) n(2)] c n assms show ?thesis
    by (auto simp: core_at_def same_core_def same_stats_def)
qed

lemma core_at_tick:
  assumes "core_at c0 k c" "answers I (int k) translate send" "I e"
  shows "\<exists>c' e'. SimpleO3Core_tick translate send c e = Ok (c', e') \<and> core_at c0 k c' \<and> I e'"
proof -
  from assms(1) obtain n where n: "1 \<le> n" "core_ok n c" "0 \<le> o3_clk c" "m_id c = int k" by (auto simp: core_at_def)
  from core_tick_total [of n c I translate send e] n assms(2,3) obtain c' e' where
    t: "SimpleO3Core_tick translate send c e = Ok (c', e')" "I e'" "m_id c' = m_id c" by auto
  from core_tick_spec [OF t(1) n(2,3)] obtain n' where s: "n \<le> n'" "core_ok n' c'" "o3_clk c' = o3_clk c + 1"
    "m_num_expected_insts c' = m_num_expected_insts c" "o3_insts (o3_trace c') = o3_insts (o3_trace c)"
    "m_depth (m_window c') = m_depth (m_window c)" by blast
  have "\<exists>n\<ge>1. core_ok n c'" using s(1,2) n(1) order_trans by blast
  then have "core_at c0 k c'" using s(3-) t(3) assms(1) by (simp add: core_at_def)
  then show ?thesis using t by blast
qed

lemma notify_cores_ok:
  assumes "cores_from 0 cs0 cs" "\<forall>r\<in>set rs. from_core (length cs0) r"
  shows "\<exists>cs'. fold_result (notify_core req) rs cs = Ok cs' \<and> cores_from 0 cs0 cs'"
  using assms
proof (induction rs arbitrary: cs)
  case Nil
  then show ?case by simp
next
  case (Cons r rs)
  let ?k = "nat (source_id r)" and ?r = "r\<lparr>arrive := arrive req, depart := depart req\<rparr>"
  have k: "?k < length cs0" "in_vec cs (source_id r)" "length cs = length cs0"
    using Cons.prems by (auto simp: from_core_def in_vec_def cores_from_nth)
  then have "core_at (cs0 ! ?k) ?k (cs ! ?k)" using Cons.prems(1) by (simp add: cores_from_nth)
  then obtain c where c: "SimpleO3Core_receive ?r (cs ! ?k) = Ok c" "core_at (cs0 ! ?k) ?k c"
    using core_at_receive by blast
  have "cores_from 0 cs0 (cs[?k := c])"
    using Cons.prems(1) c(2) k by (auto simp: cores_from_nth nth_list_update)
  from Cons.IH [OF this] Cons.prems(2) show ?case using c(1) k(2) by (simp add: notify_core_def vec_at_in)
qed

lemma requests_ok_put:
  assumes "requests_ok P l" "\<forall>r\<in>set rs. P r"
  shows "requests_ok P (l\<lparr>m_receive_requests := (m_receive_requests l)(a \<mapsto> rs)\<rparr>)"
  using assms by (auto simp: requests_ok_def)

lemma llc_ok_lists:
  "llc_ok (l\<lparr>m_receive_requests := x\<rparr>) = llc_ok l" "llc_ok (l\<lparr>m_hit_list := h\<rparr>) = llc_ok l"
  "llc_ok (l\<lparr>m_miss_list := y\<rparr>) = llc_ok l" "llc_ok (l\<lparr>llc_clk := z\<rparr>) = llc_ok l"
  by (simp_all add: llc_ok_def llc_shape_def ways_ok_def mshr_points_def cache_set_def get_set_def get_index_def
      get_tag_def line_align_def)

lemma SimpleO3_receive_ok:
  assumes "cache_ok (length cs0) l" "cores_from 0 cs0 cs"
  shows "\<exists>l' cs'. SimpleO3_receive req (l, cs) = Ok (l', cs') \<and> cache_ok (length cs0) l' \<and> cores_from 0 cs0 cs'"
proof -
  from receive_ok [of l req] assms(1) obtain l1 where
    l1: "SimpleO3LLC_receive req l = Ok l1" "llc_ok l1" by (auto simp: cache_ok_def)
  have r1: "requests_ok (from_core (length cs0)) l1"
    using receive_requests [OF l1(1)] assms(1) by (simp add: cache_ok_def)
  define waiting where "waiting = (case m_receive_requests l1 (addr req) of Some rs \<Rightarrow> rs | None \<Rightarrow> [])"
  have "\<forall>r\<in>set waiting. from_core (length cs0) r"
    using r1 by (cases "m_receive_requests l1 (addr req)") (auto simp: waiting_def requests_ok_def)
  from notify_cores_ok [OF assms(2) this, of req] obtain cs' where
    "fold_result (notify_core req) waiting cs = Ok cs'" "cores_from 0 cs0 cs'" by blast
  moreover have "cache_ok (length cs0) (l1\<lparr>m_receive_requests := (m_receive_requests l1)(addr req \<mapsto> [])\<rparr>)"
    using l1(2) requests_ok_put [OF r1, of "[]"] by (simp add: cache_ok_def llc_ok_lists)
  ultimately show ?thesis using l1(1) by (simp add: SimpleO3_receive_def waiting_def [symmetric])
qed

lemma serve_hits_ok:
  assumes "cache_ok (length cs0) l" "cores_from 0 cs0 cs" "\<forall>(_, r)\<in>set (kept @ hits). from_core (length cs0) r"
  shows "\<exists>l' cs'. serve_hits SimpleO3_receive kept hits (l, cs) = Ok (l', cs') \<and> cache_ok (length cs0) l' \<and> cores_from 0 cs0 cs'"
  using assms
proof (induction hits arbitrary: kept l cs)
  case Nil
  then show ?case by (auto simp: cache_ok_def llc_ok_lists requests_ok_def)
next
  case (Cons x hits)
  obtain due req where x: "x = (due, req)" by (cases x)
  show ?case
  proof (cases "due \<le> llc_clk l")
    case False
    then show ?thesis using Cons.IH [OF Cons.prems(1,2), of "kept @ [x]"] Cons.prems(3) x by auto
  next
    case True
    let ?l = "l\<lparr>m_hit_list := kept @ (due, req) # hits, m_receive_requests := (m_receive_requests l)(addr req \<mapsto> [req])\<rparr>"
    have "requests_ok (from_core (length cs0)) (l\<lparr>m_hit_list := kept @ (due, req) # hits\<rparr>)"
      using Cons.prems x by (auto simp: requests_ok_def cache_ok_def)
    from requests_ok_put [OF this, of "[req]" "addr req"] Cons.prems x
    have "cache_ok (length cs0) ?l" by (simp add: cache_ok_def llc_ok_lists)
    from SimpleO3_receive_ok [OF this Cons.prems(2), of req] obtain l1 cs1 where
      "SimpleO3_receive req (?l, cs) = Ok (l1, cs1)" "cache_ok (length cs0) l1" "cores_from 0 cs0 cs1" by blast
    then show ?thesis using Cons.IH [of l1 cs1 kept] Cons.prems(3) True x by simp
  qed
qed

lemma send_misses_total:
  assumes "\<And>r m. \<exists>b m'. send r m = Ok (b, m')"
  shows "\<exists>left m'. send_misses send clk misses m = Ok (left, m')"
proof (induction misses arbitrary: m)
  case Nil
  then show ?case by simp
next
  case (Cons x misses)
  obtain due req where x: "x = (due, req)" by (cases x)
  obtain b m1 where b: "(if due \<le> clk then send req m else Ok (False, m)) = Ok (b, m1)" using assms by (metis (full_types))
  show ?case using Cons.IH [of m1] b unfolding x send_misses.simps b andThen_Ok by auto
qed

lemma tick_cores_ok:
  assumes "cores_from k cs0 cs" "\<And>j. j < k + length cs0 \<Longrightarrow> answers I (int j) (core_translate translate) core_send" "I e"
  shows "\<exists>cs' e'. tick_cores translate cs e = Ok (cs', e') \<and> cores_from k cs0 cs' \<and> I e'"
  using assms
proof (induction k cs0 cs arbitrary: e rule: cores_from.induct)
  case (2 k c0 cs0 c cs)
  from 2(2) have c: "core_at c0 k c" "cores_from (Suc k) cs0 cs" by simp_all
  have "answers I (int k) (core_translate translate) core_send" by (rule 2(3)) simp
  from core_at_tick [OF c(1) this 2(4)] obtain c' e1 where
    t: "SimpleO3Core_tick (core_translate translate) core_send c e = Ok (c', e1)" "core_at c0 k c'" "I e1" by blast
  have "answers I (int j) (core_translate translate) core_send" if "j < Suc k + length cs0" for j
    using 2(3) [of j] that by simp
  from 2(1) [OF c(2) this t(3)] t show ?case by auto
qed simp_all

datatype o3_event = O3_tick | O3_receive request

fun o3_step ::
  "(request \<Rightarrow> 't \<Rightarrow> (bool \<times> request \<times> 't) result) \<Rightarrow> (request \<Rightarrow> 'm \<Rightarrow> (bool \<times> 'm) result) \<Rightarrow>
   o3_event \<Rightarrow> 't simple_o3 \<times> 'm \<Rightarrow> ('t simple_o3 \<times> 'm) result" where
  "o3_step translate send O3_tick (s, m) = SimpleO3_tick translate send (s, m)"
| "o3_step translate send (O3_receive req) (s, m) =
     andThen (SimpleO3_receive req (m_llc s, m_cores s)) (\<lambda>(l, cs). Ok (s\<lparr>m_llc := l, m_cores := cs\<rparr>, m))"

definition front_ok :: "o3_core list \<Rightarrow> 't simple_o3 \<Rightarrow> bool" where
  "front_ok cs0 s \<longleftrightarrow> cache_ok (length cs0) (m_llc s) \<and> cores_from 0 cs0 (m_cores s)"

lemma cache_answers:
  fixes translate :: "request \<Rightarrow> 't \<Rightarrow> (bool \<times> request \<times> 't) result"
  assumes "\<And>r t. \<exists>b r' t'. translate r t = Ok (b, r', t') \<and> source_id r' = source_id r" "k < n"
  shows "answers (\<lambda>(l, t). cache_ok n l) (int k) (core_translate translate) core_send"
  unfolding answers_def
proof (intro conjI allI impI)
  fix r :: request and e :: "llc \<times> 't" assume e: "case e of (l, t) \<Rightarrow> cache_ok n l"
  obtain l t where lt: "e = (l, t)" by (cases e)
  show "\<exists>b r' e'. core_translate translate r e = Ok (b, r', e') \<and> (case e' of (l, t) \<Rightarrow> cache_ok n l)
      \<and> source_id r' = source_id r"
    using assms(1) [of r t] e by (auto simp: core_translate_def lt)
  assume k: "source_id r = int k"
  from send_ok [of l r] e obtain b l' where s: "SimpleO3LLC_send r l = Ok (b, l')" "llc_ok l'"
    by (auto simp: lt cache_ok_def)
  moreover have "requests_ok (from_core n) l'"
    by (rule send_requests [OF s(1)]) (use e k assms(2) in \<open>auto simp: lt cache_ok_def from_core_def\<close>)
  ultimately show "\<exists>b e'. core_send r e = Ok (b, e') \<and> (case e' of (l, t) \<Rightarrow> cache_ok n l)"
    by (auto simp: core_send_def lt cache_ok_def)
qed

lemma o3_step_ok:
  assumes "front_ok cs0 s"
    and "\<And>r t. \<exists>b r' t'. translate r t = Ok (b, r', t') \<and> source_id r' = source_id r"
    and "\<And>r m. \<exists>b m'. send r m = Ok (b, m')"
  shows "\<exists>s' m'. o3_step translate send x (s, m) = Ok (s', m') \<and> front_ok cs0 s'"
proof (cases x)
  case (O3_receive req)
  then show ?thesis using SimpleO3_receive_ok [of cs0 "m_llc s" "m_cores s" req] assms(1) by (auto simp: front_ok_def)
next
  case O3_tick
  let ?l = "m_llc s\<lparr>llc_clk := llc_clk (m_llc s) + 1\<rparr>"
  from send_misses_total [of send, OF assms(3)] obtain left m1 where
    m1: "send_misses send (llc_clk ?l) (m_miss_list ?l) m = Ok (left, m1)" by blast
  have l: "cache_ok (length cs0) (?l\<lparr>m_miss_list := left\<rparr>)"
    using assms(1) by (simp add: front_ok_def cache_ok_def llc_ok_lists requests_ok_def)
  have "\<forall>(_, r)\<in>set ([] @ m_hit_list ?l). from_core (length cs0) r"
    using assms(1) by (simp add: front_ok_def cache_ok_def requests_ok_def)
  from serve_hits_ok [OF l _ this, of "m_cores s"] assms(1) obtain l2 cs2 where
    h: "serve_hits SimpleO3_receive [] (m_hit_list ?l) (?l\<lparr>m_miss_list := left\<rparr>, m_cores s) = Ok (l2, cs2)"
      "cache_ok (length cs0) l2" "cores_from 0 cs0 cs2" by (auto simp: front_ok_def)
  have "answers (\<lambda>(l, t). cache_ok (length cs0) l) (int j) (core_translate translate) core_send"
    if "j < 0 + length cs0" for j
    using cache_answers [of translate j, OF assms(2)] that by simp
  from tick_cores_ok [OF h(3) this, of "(l2, m_translation s)"] h(2) obtain cs3 l3 t3 where
    "tick_cores translate cs2 (l2, m_translation s) = Ok (cs3, l3, t3)" "cores_from 0 cs0 cs3"
    "cache_ok (length cs0) l3" by auto
  then show ?thesis using m1 h(1) O3_tick
    by (simp add: SimpleO3_tick_def SimpleO3LLC_tick_def Let_def front_ok_def)
qed

lemma o3_run_ok:
  assumes "front_ok cs0 s"
    and "\<And>r t. \<exists>b r' t'. translate r t = Ok (b, r', t') \<and> source_id r' = source_id r"
    and "\<And>r m. \<exists>b m'. send r m = Ok (b, m')"
  shows "\<exists>s' m'. fold_result (o3_step translate send) evs (s, m) = Ok (s', m') \<and> front_ok cs0 s'"
  using assms(1)
proof (induction evs arbitrary: s m)
  case Nil
  then show ?case by simp
next
  case (Cons x evs)
  from o3_step_ok [of cs0 s translate send x m, OF Cons.prems assms(2,3)] obtain s1 m1 where
    "o3_step translate send x (s, m) = Ok (s1, m1)" "front_ok cs0 s1" by blast
  with Cons.IH [of s1 m1] show ?case by simp
qed

lemma new_cores_ok:
  assumes "new_cores (\<lambda>k path. SimpleO3Core_new files cb k ipc depth expected path) (int k) paths = Ok cs" "0 < depth"
  shows "cores_from k cs cs \<and> length cs = length paths
    \<and> (\<forall>c\<in>set cs. m_num_expected_insts c = expected \<and> m_depth (m_window c) = depth)"
  using assms(1)
proof (induction paths arbitrary: k cs)
  case Nil
  then show ?case by simp
next
  case (Cons path paths)
  from Cons.prems obtain c cs' where c: "SimpleO3Core_new files cb (int k) ipc depth expected path = Ok c"
    and cs': "new_cores (\<lambda>k path. SimpleO3Core_new files cb k ipc depth expected path) (int (Suc k)) paths = Ok cs'"
    and cs: "cs = c # cs'" by (auto simp: andThen_Ok_iff add.commute)
  have "m_id c = int k"
    using c by (auto simp: SimpleO3Core_new_def fetch_def get_next_inst_def andThen_Ok_iff)
  then have "core_at c k c" using SimpleO3Core_new_ok [OF c assms(2)] by (auto simp: core_at_def)
  then show ?case using Cons.IH [OF cs'] SimpleO3Core_new_ok [OF c assms(2)] cs by simp
qed

lemma SimpleO3LLC_new_empty:
  "SimpleO3LLC_new latency bytes linesize ways mshrs = Ok l \<Longrightarrow>
   m_cache_sets l = Map.empty \<and> m_mshrs l = [] \<and> m_receive_requests l = Map.empty \<and> m_hit_list l = []"
  by (auto simp: SimpleO3LLC_new_def Let_def split: if_splits)

lemma SimpleO3_init_ok:
  assumes "SimpleO3_init files cb create_translation cfg = Ok s" "0 < default_val 128 (cfg_inst_window_depth cfg)"
    and "llc_shape (m_llc s)"
  shows "front_ok (m_cores s) s"
proof -
  from assms(1) obtain paths num_expected where
    "new_cores (\<lambda>k path. SimpleO3Core_new files cb k (default_val 4 (cfg_ipc cfg))
       (default_val 128 (cfg_inst_window_depth cfg)) (to_unsigned 64 num_expected) path) (int 0) paths = Ok (m_cores s)"
    by (auto simp: SimpleO3_init_def Let_def andThen_Ok_iff split: option.splits)
  from new_cores_ok [OF this assms(2)] have "cores_from 0 (m_cores s) (m_cores s)" by blast
  moreover from assms(1) obtain latency bytes linesize ways mshrs where
    l: "SimpleO3LLC_new latency bytes linesize ways mshrs = Ok (m_llc s)"
    by (auto simp: SimpleO3_init_def Let_def andThen_Ok_iff split: option.splits)
  from SimpleO3LLC_new_empty [OF this] have "cache_ok (length (m_cores s)) (m_llc s)"
    using assms(3) by (simp add: cache_ok_def llc_ok_def ways_ok_def cache_set_def requests_ok_def llc_shape_def)
  ultimately show ?thesis by (simp add: front_ok_def)
qed

text \<open>C@simple_o3_never_fails: with a cache whose line size and number of sets are powers of two,
  whatever the traces hold, whatever the memory system and the translation answer, and in whatever
  order cycles and answers come (answers that nobody asked for included), the front end never
  fails: no MSHR dangles, \<open>Failed to allocate\<close> is never thrown, and no index is out of range. At
  every time no two lines of a set have the same tag, exactly the lines in flight have an MSHR,
  and each core accounts for every instruction of the lines it has fetched.\<close>

theorem simple_o3_never_fails:
  assumes "SimpleO3_init files cb create_translation cfg = Ok s"
    and "0 < default_val 128 (cfg_inst_window_depth cfg)" "llc_shape (m_llc s)"
    and "\<And>r t. \<exists>b r' t'. translate r t = Ok (b, r', t') \<and> source_id r' = source_id r"
    and "\<And>r m. \<exists>b m'. send r m = Ok (b, m')"
  shows "\<exists>s' m'. fold_result (o3_step translate send) evs (s, m) = Ok (s', m') \<and> llc_ok (m_llc s')
    \<and> length (m_cores s') = length (m_cores s)
    \<and> (\<forall>i<length (m_cores s). \<exists>n\<ge>1. core_total (m_cores s' ! i) = fetched_insts (o3_insts (o3_trace (m_cores s ! i))) n)"
proof -
  from o3_run_ok [of "m_cores s" s translate send evs m, OF SimpleO3_init_ok [OF assms(1-3)] assms(4,5)]
  obtain s' m' where r: "fold_result (o3_step translate send) evs (s, m) = Ok (s', m')"
    and ok: "front_ok (m_cores s) s'" by blast
  have cs: "length (m_cores s') = length (m_cores s)"
    "core_at (m_cores s ! i) i (m_cores s' ! i)" if "i < length (m_cores s)" for i
    using ok that by (simp_all add: front_ok_def cores_from_nth)
  have "\<exists>n\<ge>1. core_total (m_cores s' ! i) = fetched_insts (o3_insts (o3_trace (m_cores s ! i))) n"
    if "i < length (m_cores s)" for i
    using cs(2) [OF that] by (auto simp: core_at_def core_ok_def)
  moreover have "length (m_cores s') = length (m_cores s)" using ok by (simp add: front_ok_def cores_from_nth)
  moreover have "llc_ok (m_llc s')" using ok by (simp add: front_ok_def cache_ok_def)
  ultimately show ?thesis using r by blast
qed

subsection \<open>Runs\<close>

definition small_o3_config :: o3_config where
  "small_o3_config = \<lparr>cfg_clock_ratio = Some 1, cfg_traces = Some [''a'', ''b''], cfg_ipc = Some 2,
     cfg_inst_window_depth = Some 4, cfg_llc_latency = Some 2, cfg_llc_linesize = Some 64,
     cfg_llc_associativity = Some 1, cfg_llc_capacity_per_core = Some ''1KB'', cfg_llc_num_mshr_per_core = Some 2,
     cfg_num_expected_insts = Some 2\<rparr>"

definition two_traces :: "string \<Rightarrow> string option option" where
  "two_traces path = Some (Some (if path = ''a'' then ''0 0'' else ''2 2048'' @ CHR 0x0A # ''0 0''))"

definition o3_memory :: "request \<Rightarrow> request list \<Rightarrow> (bool \<times> request list) result" where
  "o3_memory r sent = Ok (True, sent @ [r])"

definition o3_run :: "o3_event list \<Rightarrow> (unit simple_o3 \<times> request list) result" where
  "o3_run evs =
     andThen (SimpleO3_init two_traces No_callback (\<lambda>_. Ok ()) small_o3_config) (\<lambda>s.
       fold_result (o3_step NoTranslation_translate o3_memory) evs (s, []))"

text \<open>Evaluation: arguments first, and nothing under a binder.\<close>

lemma andThen_weak_cong: "m = m' \<Longrightarrow> andThen m f = andThen m' f"
  by simp

lemmas eval_cong = andThen_weak_cong option.case_cong_weak let_weak_cong

lemma mark_ready_numeral:
  "mark_ready (numeral n) index a w =
     andThen (vec_at (m_addr_list w) index) (\<lambda>x.
     andThen (if x = a then vec_put (m_ready_list w) index True else Ok (m_ready_list w)) (\<lambda>ready.
       mark_ready (pred_numeral n) (if index + 1 = m_depth w then 0 else index + 1) a (w\<lparr>m_ready_list := ready\<rparr>)))"
  by (simp add: numeral_eq_Suc)

lemma list_update_numeral: "(x # xs)[numeral k := y] = x # xs[pred_numeral k := y]"
  by (simp add: numeral_eq_Suc)

lemmas core_run_defs = SimpleO3Core_tick_def SimpleO3Core_receive_def core_retire_def issue_bubbles.simps send_load_def
  send_writeback_def fetch_def get_next_inst_def window_insert_def vec_checked_def in_vec_def vec_at_def vec_put_def
  retire_def retire_loop.simps set_ready_def is_full_def mark_ready_numeral list_update_numeral

lemmas llc_run_defs = SimpleO3LLC_tick_def SimpleO3LLC_receive_def SimpleO3LLC_send_def count_access_def count_miss_def
  serve_hit_def join_mshr_def serve_miss_def as_read_def line_available_def allocate_line_def new_line_def evict_line_def
  need_eviction_def node_update_def check_mshr_hit_def check_set_hit_def put_set_def get_set_def get_index_def get_tag_def
  line_align_def to_signed_def to_unsigned_def remove_at_def

lemmas front_run_defs = SimpleO3_tick_def SimpleO3_receive_def core_translate_def core_send_def notify_core_def
  NoTranslation_translate_def o3_memory_def Request_addr_def Request_source_def request_default_def type_of_id_def Let_def

definition small_core :: "int \<Rightarrow> Inst list \<Rightarrow> nat \<Rightarrow> int \<Rightarrow> int \<Rightarrow> o3_core" where
  "small_core k insts idx bubbles a =
     \<lparr>m_id = k, o3_trace = \<lparr>o3_insts = insts, o3_trace_idx = idx\<rparr>,
      m_window = \<lparr>m_ipc = 2, m_depth = 4, m_load = 0, m_head_idx = 0, m_tail_idx = 0,
                   m_ready_list = [False, False, False, False], m_addr_list = [-1, -1, -1, -1]\<rparr>,
      m_callback = No_callback, m_num_bubbles = bubbles, m_load_addr = a, m_writeback_addr = -1,
      m_num_expected_insts = 2, m_last_mem_cycle = 0, o3_clk = 0, reached_expected_num_insts = False,
      s_insts_retired = 0, s_cycles_recorded = 0, s_mem_access_cycles = 0\<rparr>"

definition small_o3 :: "unit simple_o3" where
  "small_o3 =
     \<lparr>so_clk = 0, so_clock_ratio = 1, m_num_cores = 2,
      m_cores = [small_core 0 [\<lparr>bubble_count = 0, load_addr = 0, store_addr = -1\<rparr>] 0 0 0,
        small_core 1 [\<lparr>bubble_count = 2, load_addr = 2048, store_addr = -1\<rparr>,
                      \<lparr>bubble_count = 0, load_addr = 0, store_addr = -1\<rparr>] 1 2 2048],
      m_llc = \<lparr>m_cache_sets = Map.empty, m_mshrs = [], m_receive_requests = Map.empty, m_miss_list = [],
        m_hit_list = [], llc_clk = 0, m_latency = 2, m_size_bytes = 2048, m_linesize_bytes = 64, m_associativity = 1,
        m_set_size = 32, m_num_mshrs = 4, m_index_mask = 31, m_index_offset = 6, m_tag_offset = 11,
        s_llc_read_access = 0, s_llc_write_access = 0, s_llc_read_misses = 0, s_llc_write_misses = 0,
        s_llc_eviction = 0, s_llc_mshr_unavailable = 0, next_node = 0\<rparr>,
      m_translation = ()\<rparr>"

lemma small_o3_init: "SimpleO3_init two_traces No_callback (\<lambda>_. Ok ()) small_o3_config = Ok small_o3"
proof -
  have "calc_log2 64 = 6" "calc_log2 32 = 5" by (simp_all add: calc_log2_def calc_log2_loop.simps)
  moreover have "parse_capacity_str ''1KB'' = Ok 1024" by code_simp
  moreover have "SimpleO3Core_new two_traces No_callback 0 2 4 2 ''a'' =
      Ok (small_core 0 [\<lparr>bubble_count = 0, load_addr = 0, store_addr = -1\<rparr>] 0 0 0)" by code_simp
  moreover have "SimpleO3Core_new two_traces No_callback 1 2 4 2 ''b'' =
      Ok (small_core 1 [\<lparr>bubble_count = 2, load_addr = 2048, store_addr = -1\<rparr>,
                      \<lparr>bubble_count = 0, load_addr = 0, store_addr = -1\<rparr>] 1 2 2048)" by code_simp
  ultimately show ?thesis
    by (simp add: SimpleO3_init_def small_o3_config_def default_val_def int_times_def to_signed_def to_unsigned_def
        SimpleO3LLC_new_def small_o3_def)
qed

text \<open>After the fifth event of the run below both cores wait for the line of address 0.\<close>

definition waiting_o3 :: "unit simple_o3" where
  "waiting_o3 =
     \<lparr>so_clk = 3, so_clock_ratio = 1, m_num_cores = 2,
      m_cores =
        [small_core 0 [\<lparr>bubble_count = 0, load_addr = 0, store_addr = -1\<rparr>] 0 0 0
           \<lparr>m_window := \<lparr>m_ipc = 2, m_depth = 4, m_load = 2, m_head_idx = 3, m_tail_idx = 1,
                        m_ready_list = [True, False, False, False], m_addr_list = [0, 0, 0, - 1]\<rparr>,
            o3_clk := 3, s_insts_retired := 1\<rparr>,
         small_core 1 [\<lparr>bubble_count = 2, load_addr = 2048, store_addr = -1\<rparr>,
                       \<lparr>bubble_count = 0, load_addr = 0, store_addr = -1\<rparr>] 1 2 2048
           \<lparr>m_window := \<lparr>m_ipc = 2, m_depth = 4, m_load = 1, m_head_idx = 0, m_tail_idx = 3,
                        m_ready_list = [True, True, True, False], m_addr_list = [- 1, - 1, 2048, 0]\<rparr>,
            o3_clk := 3, reached_expected_num_insts := True, s_insts_retired := 3, s_cycles_recorded := 2\<rparr>],
      m_llc = (m_llc small_o3)\<lparr>
        m_cache_sets := [0 \<mapsto> [\<lparr>line_addr = 0, line_tag = 0, line_dirty = False, line_ready = False, line_node = Suc (Suc (Suc 0))\<rparr>]],
        m_mshrs := [(0, 3)],
        m_receive_requests := [2048 \<mapsto> [], 0 \<mapsto> [Request_source 0 0 0 No_callback, Request_source 0 0 1 No_callback]],
        m_miss_list := [(4, Request_source 2048 0 1 No_callback), (5, Request_source 0 0 0 No_callback)],
        m_hit_list := [(4, Request_source 0 0 0 No_callback)], llc_clk := 3, s_llc_read_access := 5,
        s_llc_read_misses := 4, s_llc_eviction := 2, next_node := 4\<rparr>,
      m_translation = ()\<rparr>"

lemma waiting_o3_reached:
  "fold_result (o3_step NoTranslation_translate o3_memory)
     [O3_tick, O3_receive (Request_addr 0 0), O3_tick, O3_receive (Request_addr 2048 0), O3_tick] (small_o3, []) =
   Ok (waiting_o3, [Request_source 0 0 0 No_callback])"
  by (simp add: small_o3_def small_core_def waiting_o3_def core_run_defs llc_run_defs front_run_defs cong: eval_cong)

definition lost_load :: "o3_event list" where
  "lost_load = [O3_tick, O3_receive (Request_addr 0 0), O3_tick, O3_receive (Request_addr 2048 0), O3_tick, O3_tick,
     O3_tick, O3_receive (Request_addr 0 0)]"

theorem simple_o3_never_fails_witness:
  "\<exists>s' m' n. o3_run lost_load = Ok (s', m') \<and> llc_ok (m_llc s') \<and> 1 \<le> n
     \<and> core_total (m_cores s' ! 0) = fetched_insts [\<lparr>bubble_count = 0, load_addr = 0, store_addr = -1\<rparr>] n"
proof -
  have shape: "llc_shape (m_llc small_o3)" by (auto simp: llc_shape_def small_o3_def intro!: exI [of _ 5])
  have "\<exists>s' m'. fold_result (o3_step NoTranslation_translate o3_memory) lost_load (small_o3, []) = Ok (s', m')
      \<and> llc_ok (m_llc s') \<and> length (m_cores s') = length (m_cores small_o3) \<and> (\<forall>i<length (m_cores small_o3). \<exists>n\<ge>1.
         core_total (m_cores s' ! i) = fetched_insts (o3_insts (o3_trace (m_cores small_o3 ! i))) n)"
    by (rule simple_o3_never_fails [OF small_o3_init _ shape])
      (simp_all add: small_o3_config_def default_val_def NoTranslation_translate_def o3_memory_def ex_bool_eq)
  then obtain s' m' where r: "fold_result (o3_step NoTranslation_translate o3_memory) lost_load (small_o3, []) = Ok (s', m')"
    and ok: "llc_ok (m_llc s')" and all: "\<forall>i<length (m_cores small_o3). \<exists>n\<ge>1.
         core_total (m_cores s' ! i) = fetched_insts (o3_insts (o3_trace (m_cores small_o3 ! i))) n" by blast
  have cores: "0 < length (m_cores small_o3)"
    "o3_insts (o3_trace (m_cores small_o3 ! 0)) = [\<lparr>bubble_count = 0, load_addr = 0, store_addr = -1\<rparr>]"
    by (simp_all add: small_o3_def small_core_def)
  have "o3_run lost_load = Ok (s', m')" using r by (simp add: o3_run_def small_o3_init)
  then show ?thesis using ok all [rule_format, OF cores(1)] unfolding cores(2) by blast
qed

text \<open>A load may wait for ever. Core 0 hits in the line of address 0, which is then evicted and
  asked for again, for both cores; the delayed answer of the hit overwrites the list of those who
  wait for the address and gives back the MSHR, so that the answer of memory finds nobody: core 1
  is left with a load that nothing in the cache will ever complete.\<close>

theorem hit_steals_the_answer:
  "\<exists>s sent. o3_run lost_load = Ok (s, sent) \<and> (False, 0) \<in> set (window_queue (m_window (m_cores s ! 1)))
     \<and> check_mshr_hit (m_llc s) 0 = None \<and> m_receive_requests (m_llc s) 0 = Some []
     \<and> list_all (\<lambda>(_, r). source_id r = 0) (m_hit_list (m_llc s)) \<and> map addr sent = [0, 2048, 0]"
proof -
  have split: "lost_load = [O3_tick, O3_receive (Request_addr 0 0), O3_tick, O3_receive (Request_addr 2048 0), O3_tick] @
      [O3_tick, O3_tick, O3_receive (Request_addr 0 0)]" by (simp add: lost_load_def)
  have "o3_run lost_load = fold_result (o3_step NoTranslation_translate o3_memory)
      [O3_tick, O3_tick, O3_receive (Request_addr 0 0)] (waiting_o3, [Request_source 0 0 0 No_callback])"
    unfolding o3_run_def small_o3_init andThen_Ok split fold_result_append waiting_o3_reached ..
  then show ?thesis
    by (simp add: waiting_o3_def small_o3_def small_core_def core_run_defs llc_run_defs front_run_defs cong: eval_cong)
      (auto simp: window_queue_def slot_def intro!: image_eqI [of _ _ 0])
qed

text \<open>With three cores of the default capacity the number of sets is not a power of two, and two
  lines of memory have the same set and the same tag.\<close>

theorem llc_lines_alias:
  "\<exists>l. SimpleO3LLC_new 47 (3 * 2097152) 64 8 48 = Ok l
     \<and> get_index l 0 = get_index l 262144 \<and> get_tag l 0 = get_tag l 262144 \<and> line_align l 0 \<noteq> line_align l 262144"
proof -
  have "calc_log2 12288 = 13" "calc_log2 64 = 6" by (simp_all add: calc_log2_def calc_log2_loop.simps)
  then show ?thesis
    by (simp add: SimpleO3LLC_new_def to_unsigned_def to_signed_def get_index_def get_tag_def line_align_def)
qed

end
