(* ===== verification/Spec2Isabelle.thy ===== *)
theory Spec2Isabelle
  imports Simulator_Theorems Memory_Traces Generic_Controller RRS Translation Simple_O3
begin

text \<open>
  Header.
\<close>

end
